(* ===== verification/Prelude.thy ===== *)
theory Prelude
  imports Main "HOL-Library.Product_Lexorder" "HOL-Library.List_Lexorder" "HOL-Library.Char_ord"
begin

text \<open>
  Shared vocabulary of the development. A database table is a list of rows in insertion
  order; the operators below are the statements the query layer (internal/store) is made
  of: \<open>update_where\<close> is \<open>UPDATE .. SET .. WHERE\<close>, \<open>delete_where\<close> is \<open>DELETE .. WHERE\<close>,
  \<open>count_where\<close> is \<open>SELECT COUNT(*)\<close> and the rows-affected count of an update, and
  \<open>filter\<close>, \<open>find\<close> and \<open>sort_key\<close> play \<open>SELECT .. WHERE\<close>, \<open>SELECT .. WHERE id = ?\<close> and
  \<open>ORDER BY\<close> (a stable sort: ties keep the table order). Timestamps, durations and
  counters (\<open>int64\<close> in the code, unix nanoseconds) are \<open>int\<close>: no operation of the store
  does arithmetic on them that can leave 64 bits before the year 2262.
\<close>

named_theorems table_simps "laws of the table operators"
named_theorems frame_simps "fields an update function leaves alone"

type_synonym time = int
type_synonym bytes = string

definition update_where :: "('a \<Rightarrow> bool) \<Rightarrow> ('a \<Rightarrow> 'a) \<Rightarrow> 'a list \<Rightarrow> 'a list" where
  "update_where P f xs = map (\<lambda>x. if P x then f x else x) xs"

definition delete_where :: "('a \<Rightarrow> bool) \<Rightarrow> 'a list \<Rightarrow> 'a list" where
  "delete_where P xs = filter (\<lambda>x. \<not> P x) xs"

definition count_where :: "('a \<Rightarrow> bool) \<Rightarrow> 'a list \<Rightarrow> nat" where
  "count_where P xs = length (filter P xs)"

text \<open>Splitting a row list over several multi-row statements of at most \<open>n\<close> rows.\<close>

function chunks :: "nat \<Rightarrow> 'a list \<Rightarrow> 'a list list" where
  "chunks n xs = (if xs = [] then [] else if n = 0 then [xs] else take n xs # chunks n (drop n xs))"
  by pat_completeness auto
termination
  by (relation "measure (\<lambda>(n, xs). length xs)") auto

declare chunks.simps [simp del]

section \<open>Laws of the table operators\<close>

lemma update_where_Nil [simp]: "update_where P f [] = []"
  by (simp add: update_where_def)

lemma update_where_Cons [simp]:
  "update_where P f (x # xs) = (if P x then f x else x) # update_where P f xs"
  by (simp add: update_where_def)

lemma delete_where_Nil [simp]: "delete_where P [] = []"
  by (simp add: delete_where_def)

lemma delete_where_Cons [simp]:
  "delete_where P (x # xs) = (if P x then delete_where P xs else x # delete_where P xs)"
  by (simp add: delete_where_def)

lemma count_where_Nil [simp]: "count_where P [] = 0"
  by (simp add: count_where_def)

lemma count_where_Cons [simp]:
  "count_where P (x # xs) = (if P x then Suc (count_where P xs) else count_where P xs)"
  by (simp add: count_where_def)

lemma count_where_append [simp]: "count_where P (xs @ ys) = count_where P xs + count_where P ys"
  by (simp add: count_where_def)

lemma length_update_where [simp]: "length (update_where P f xs) = length xs"
  by (simp add: update_where_def)

lemma set_update_where: "set (update_where P f xs) = {if P x then f x else x |x. x \<in> set xs}"
  by (auto simp: update_where_def)

lemma set_delete_where [simp]: "set (delete_where P xs) = {x \<in> set xs. \<not> P x}"
  by (auto simp: delete_where_def)

lemma in_update_whereI: "x \<in> set xs \<Longrightarrow> (if P x then f x else x) \<in> set (update_where P f xs)"
  by (auto simp: update_where_def)

lemma in_update_whereE:
  assumes "y \<in> set (update_where P f xs)"
  obtains x where "x \<in> set xs" and "P x" and "y = f x"
    | "y \<in> set xs" and "\<not> P y"
  using assms by (auto simp: update_where_def split: if_splits)

lemma ball_update_where:
  "(\<forall>y \<in> set (update_where P f xs). Q y) \<longleftrightarrow>
     (\<forall>x \<in> set xs. if P x then Q (f x) else Q x)"
  by (auto simp: update_where_def)

lemma map_key_update_where:
  assumes "\<And>x. key (f x) = key x"
  shows "map key (update_where P f xs) = map key xs"
  using assms by (induction xs) auto

lemma image_key_update_where:
  assumes "\<And>x. key (f x) = key x"
  shows "key ` set (update_where P f xs) = key ` set xs"
proof -
  have "set (map key (update_where P f xs)) = set (map key xs)"
    using assms by (simp only: map_key_update_where)
  then show ?thesis by simp
qed

lemma distinct_key_delete_where:
  "distinct (map key xs) \<Longrightarrow> distinct (map key (delete_where P xs))"
  by (simp add: delete_where_def distinct_map_filter)

lemma count_where_filter: "count_where P (filter Q xs) = count_where (\<lambda>x. P x \<and> Q x) xs"
  by (induction xs) auto

lemma count_where_map: "count_where P (map f xs) = count_where (\<lambda>x. P (f x)) xs"
  by (induction xs) auto

lemma count_where_map_filter:
  "count_where P (map f (filter Q xs)) = count_where (\<lambda>x. P (f x) \<and> Q x) xs"
  by (induction xs) auto

lemma count_where_le_length: "count_where P xs \<le> length xs"
  by (simp add: count_where_def)

lemma count_where_mono:
  assumes "\<And>x. x \<in> set xs \<Longrightarrow> P x \<Longrightarrow> Q x"
  shows "count_where P xs \<le> count_where Q xs"
  using assms by (induction xs) (auto simp: le_SucI)

lemma count_where_update_le:
  assumes "\<And>x. x \<in> set xs \<Longrightarrow> P x \<Longrightarrow> Q (f x) \<Longrightarrow> Q x"
  shows "count_where Q (update_where P f xs) \<le> count_where Q xs"
  using assms
proof (induction xs)
  case (Cons x xs)
  then have "count_where Q (update_where P f xs) \<le> count_where Q xs" by simp
  with Cons.prems [of x] show ?case by auto
qed simp

lemma count_where_update_eq:
  assumes "\<And>x. x \<in> set xs \<Longrightarrow> P x \<Longrightarrow> Q (f x) = Q x"
  shows "count_where Q (update_where P f xs) = count_where Q xs"
  using assms by (induction xs) auto

lemma count_where_delete_le: "count_where Q (delete_where P xs) \<le> count_where Q xs"
  by (induction xs) auto

lemma count_where_eq_0: "count_where P xs = 0 \<longleftrightarrow> (\<forall>x \<in> set xs. \<not> P x)"
  by (auto simp: count_where_def filter_empty_conv)

lemma count_where_ex:
  assumes "count_where P xs = 1"
  obtains x where "x \<in> set xs" and "P x"
  using assms by (metis count_where_eq_0 zero_neq_one)

lemma count_where_cong:
  "(\<And>x. x \<in> set xs \<Longrightarrow> P x = Q x) \<Longrightarrow> count_where P xs = count_where Q xs"
  by (induction xs) auto

text \<open>An update by primary key touches at most one row, so a count grows by at most one.\<close>

lemma count_where_key_le_1:
  assumes "distinct (map key xs)"
  shows "count_where (\<lambda>x. key x = k \<and> P x) xs \<le> 1"
  using assms
proof (induction xs)
  case (Cons x xs)
  show ?case
  proof (cases "key x = k")
    case True
    with Cons.prems have "\<forall>y \<in> set xs. key y \<noteq> k"
      by auto (metis imageI)
    then have "count_where (\<lambda>y. key y = k \<and> P y) xs = 0" by (simp add: count_where_eq_0)
    then show ?thesis by simp
  qed (use Cons in auto)
qed simp

lemma count_where_update_key:
  assumes "distinct (map key xs)"
  shows "count_where Q (update_where (\<lambda>x. key x = k \<and> P x) f xs) \<le> Suc (count_where Q xs)"
  using assms
proof (induction xs)
  case (Cons x xs)
  show ?case
  proof (cases "key x = k \<and> P x")
    case True
    with Cons.prems have "\<forall>y \<in> set xs. key y \<noteq> k"
      by auto (metis imageI)
    then have "update_where (\<lambda>y. key y = k \<and> P y) f xs = xs"
      by (simp add: update_where_def map_idI)
    then show ?thesis by auto
  qed (use Cons in auto)
qed simp

lemma update_where_id:
  "(\<And>x. x \<in> set xs \<Longrightarrow> \<not> P x) \<Longrightarrow> update_where P f xs = xs"
  by (simp add: update_where_def map_idI)

lemma count_where_delete_one:
  assumes "distinct (map key xs)" "x \<in> set xs" "key x = k" "Q x"
  shows "Suc (count_where Q (delete_where (\<lambda>y. key y = k) xs)) = count_where Q xs"
  using assms
proof (induction xs)
  case (Cons a xs)
  show ?case
  proof (cases "key a = k")
    case True
    with Cons.prems have "a = x" by (auto simp: image_iff)
    moreover have "delete_where (\<lambda>y. key y = k) xs = xs"
      using True Cons.prems(1) by (auto simp: delete_where_def filter_id_conv) (metis imageI)
    ultimately show ?thesis using True Cons.prems(4) by simp
  qed (use Cons in auto)
qed simp

lemma count_where_update_one:
  assumes "distinct (map key xs)" "x \<in> set xs" "key x = k" "Q x" "\<not> Q (f x)"
  shows "Suc (count_where Q (update_where (\<lambda>y. key y = k) f xs)) = count_where Q xs"
  using assms
proof (induction xs)
  case (Cons a xs)
  show ?case
  proof (cases "key a = k")
    case True
    with Cons.prems have "a = x" by (auto simp: image_iff)
    moreover have "update_where (\<lambda>y. key y = k) f xs = xs"
      using True Cons.prems(1) by (intro update_where_id) (auto, metis imageI)
    ultimately show ?thesis using True Cons.prems(4,5) by simp
  qed (use Cons in auto)
qed simp

lemma find_key_Some:
  assumes "distinct (map key xs)"
  shows "find (\<lambda>x. key x = k) xs = Some x \<longleftrightarrow> x \<in> set xs \<and> key x = k"
  using assms
proof (induction xs)
  case (Cons y xs)
  then show ?case by (cases "key y = k") (auto simp: rev_image_eqI)
qed simp

lemma find_SomeD: "find P xs = Some x \<Longrightarrow> x \<in> set xs \<and> P x"
  by (auto simp: find_Some_iff)

lemma find_None_key: "find (\<lambda>x. key x = k) xs = None \<longleftrightarrow> k \<notin> key ` set xs"
  by (auto simp: find_None_iff)

section \<open>Loops that stop at the first error\<close>

text \<open>A loop whose body returns an error or the next state; it stops at the first error.\<close>

fun foldE :: "('a \<Rightarrow> 's \<Rightarrow> 'e + 's) \<Rightarrow> 'a list \<Rightarrow> 's \<Rightarrow> 'e + 's" where
  "foldE f [] s = Inr s"
| "foldE f (x # xs) s = (case f x s of Inl e \<Rightarrow> Inl e | Inr s' \<Rightarrow> foldE f xs s')"

lemma foldE_invariant:
  assumes "foldE f xs s = Inr s'" and "I s"
    and "\<And>x s s'. x \<in> set xs \<Longrightarrow> I s \<Longrightarrow> f x s = Inr s' \<Longrightarrow> I s'"
  shows "I s'"
  using assms
proof (induction xs arbitrary: s)
  case (Cons x xs)
  from Cons.prems(1) obtain s1 where s1: "f x s = Inr s1" "foldE f xs s1 = Inr s'"
    by (auto split: sum.splits)
  show ?case
  proof (rule Cons.IH [OF s1(2)])
    show "I s1" by (rule Cons.prems(3) [OF _ Cons.prems(2) s1(1)]) simp
    show "I b" if "y \<in> set xs" "I a" "f y a = Inr b" for y a b
      by (rule Cons.prems(3) [OF _ that(2,3)]) (use that(1) in simp)
  qed
qed simp

lemma foldE_append: "foldE f (xs @ ys) s =
    (case foldE f xs s of Inl e \<Rightarrow> Inl e | Inr s' \<Rightarrow> foldE f ys s')"
  by (induction xs arbitrary: s) (auto split: sum.splits)

lemma foldE_concat: "foldE (foldE f) xss s = foldE f (concat xss) s"
  by (induction xss arbitrary: s) (auto simp: foldE_append split: sum.splits)

section \<open>Finding rows by key\<close>

lemma distinct_key_eq:
  assumes "distinct (map key xs)" "x \<in> set xs" "y \<in> set xs" "key x = key y"
  shows "x = y"
  using assms by (auto simp: distinct_map inj_on_def)

section \<open>Chunked statements\<close>

lemma concat_chunks: "concat (chunks n xs) = xs"
proof (induction n xs rule: chunks.induct)
  case (1 n xs)
  show ?case
    using 1 by (cases "xs = []"; cases "n = 0")
      (simp_all add: chunks.simps [of n xs] chunks.simps [of n "[]"] chunks.simps [of 0 xs]
         chunks.simps [of 0 "[]"])
qed

lemma length_chunks:
  assumes "0 < n" and "c \<in> set (chunks n xs)"
  shows "0 < length c \<and> length c \<le> n"
  using assms
proof (induction n xs rule: chunks.induct)
  case (1 n xs)
  show ?case
  proof (cases "xs = []")
    case True
    with 1(3) show ?thesis by (simp add: chunks.simps [of n "[]"])
  next
    case False
    with 1(2,3) have "c = take n xs \<or> c \<in> set (chunks n (drop n xs))"
      by (simp add: chunks.simps [of n xs])
    with 1 False show ?thesis by auto
  qed
qed

section \<open>Numbers as text\<close>

fun decimal :: "nat \<Rightarrow> string" where
  "decimal n = (if n < 10 then [char_of (48 + n)] else decimal (n div 10) @ [char_of (48 + n mod 10)])"

declare decimal.simps [simp del]

end
