(* ===== verification/Schema.thy ===== *)
theory Schema
  imports Prelude
begin

text \<open>
  The data model of internal/store: the rows (rows.go, journal.go), the status values and
  the tables (schema.go), and the statements that several operations share. A record is
  both the Go struct and the table row; \<open>NULL\<close> columns are the struct's zero value
  (\<open>nullableString\<close> and \<open>COALESCE(unique_key, '')\<close> translate between the two), and the
  JSON lists \<open>depends_on\<close> and \<open>labels\<close> are kept decoded (theory Rows has their
  text form). \<open>foreign_keys\<close> is on for every connection, so deleting a run deletes its
  steps, and deleting a step deletes its journal and its extra keys.
\<close>

section \<open>Status values\<close>

datatype status = Queued | Running | Blocked | Suspended | Paused
  | Succeeded | Failed | Cancelled | Interrupted

text \<open>The column text of a status; SQL compares and groups statuses by it.\<close>

fun status_text :: "status \<Rightarrow> string" where
  "status_text Queued = ''QUEUED''"
| "status_text Running = ''RUNNING''"
| "status_text Blocked = ''BLOCKED''"
| "status_text Suspended = ''SUSPENDED''"
| "status_text Paused = ''PAUSED''"
| "status_text Succeeded = ''SUCCEEDED''"
| "status_text Failed = ''FAILED''"
| "status_text Cancelled = ''CANCELLED''"
| "status_text Interrupted = ''INTERRUPTED''"

lemma status_text_inject [simp]: "status_text a = status_text b \<longleftrightarrow> a = b"
  by (cases a; cases b) simp_all

text \<open>Statuses are ordered as their column text, the order a \<open>TEXT\<close> column sorts in.\<close>

instantiation status :: linorder
begin

definition less_eq_status :: "status \<Rightarrow> status \<Rightarrow> bool" where
  "less_eq_status a b \<longleftrightarrow> status_text a \<le> status_text b"

definition less_status :: "status \<Rightarrow> status \<Rightarrow> bool" where
  "less_status a b \<longleftrightarrow> status_text a < status_text b"

instance
  by standard (auto simp: less_eq_status_def less_status_def less_le)

end

fun IsTerminal :: "status \<Rightarrow> bool" where
  "IsTerminal Succeeded = True"
| "IsTerminal Failed = True"
| "IsTerminal Cancelled = True"
| "IsTerminal Interrupted = True"
| "IsTerminal _ = False"

text \<open>The \<open>IN ('QUEUED','RUNNING','BLOCKED','SUSPENDED')\<close> lists of the queries.\<close>

fun unfinished :: "status \<Rightarrow> bool" where
  "unfinished Queued = True"
| "unfinished Running = True"
| "unfinished Blocked = True"
| "unfinished Suspended = True"
| "unfinished _ = False"

lemma unfinished_terminal: "unfinished s \<Longrightarrow> \<not> IsTerminal s"
  by (cases s) simp_all

lemma terminal_cases:
  "IsTerminal s \<longleftrightarrow> s = Succeeded \<or> s = Failed \<or> s = Cancelled \<or> s = Interrupted"
  by (cases s) simp_all

lemma unfinished_cases:
  "unfinished s \<longleftrightarrow> s = Queued \<or> s = Running \<or> s = Blocked \<or> s = Suspended"
  by (cases s) simp_all

datatype kind = KindTask | KindWorkflow

section \<open>Rows\<close>

record run =
  rID :: string
  rWorkflow :: string
  rKind :: kind
  rStatus :: status
  rQueue :: string
  rPriority :: int
  rInput :: bytes
  rOutput :: bytes
  rError :: string
  rAttempts :: int
  rMaxAttempts :: int
  rRunAt :: time
  rCreatedAt :: time
  rStartedAt :: time
  rCompletedAt :: time
  rConcurrencyKey :: string
  rParentID :: string
  rParentStep :: string
  rTraceParent :: string
  rUniqueKey :: string
  rPausedAt :: time
  rDeadLetteredAt :: time
  rSequenceKey :: string
  rSeq :: int
  rEphemeral :: bool
  rGroups :: bytes

record stepKey =
  kName :: string
  kValue :: string
  kLimit :: int

record step =
  sID :: string
  sRunID :: string
  sName :: string
  sTask :: string
  sOrd :: int
  sStatus :: status
  sDependsOn :: "string list"
  sQueue :: string
  sPriority :: int
  sInput :: bytes
  sOutput :: bytes
  sError :: string
  sAttempts :: int
  sMaxAttempts :: int
  sTimeout :: int
  sRunAt :: time
  sCreatedAt :: time
  sStartedAt :: time
  sCompletedAt :: time
  sConcurrencyKey :: string
  sKeyLimit :: int
  sClaimedAt :: time
  sResumeAt :: time
  sWaitKind :: string
  sWaitEvent :: string
  sLabels :: "string list"
  sWorkerID :: string
  sLeaseExpiresAt :: time
  sSequenceKey :: string
  sSeq :: int
  sKeys :: "stepKey list"

text \<open>A row of \<open>step_keys\<close>; \<open>PRIMARY KEY (step_id, name)\<close>.\<close>

record keyRow =
  kStep :: string
  kKey :: stepKey

datatype journalKind = JournalSleep | JournalWait | JournalOnce

record journalEntry =
  jStepID :: string
  jIdx :: int
  jKind :: journalKind
  jKey :: string
  jEvent :: string
  jWakeAt :: time
  jDeadline :: time
  jPayload :: bytes
  jResult :: bytes
  jErr :: string
  jDone :: bool
  jTimedOut :: bool

record cron =
  cName :: string
  cSpec :: string
  cTask :: string
  cInput :: bytes
  cNextAt :: time
  cCreatedAt :: time

record logEntry =
  lRunID :: string
  lStep :: string
  lAt :: time
  lLevel :: string
  lMessage :: string

record eventRow =
  eSeq :: int
  eName :: string
  ePayload :: bytes
  eCreatedAt :: time

record eventSub =
  esEvent :: string
  esTask :: string
  esCreatedAt :: time

section \<open>The database\<close>

text \<open>
  \<open>logs\<close> and \<open>events\<close> have \<open>AUTOINCREMENT\<close> keys: \<open>logSeq\<close> and \<open>eventSeq\<close> are the last
  values handed out, so a deleted row's number is never reused. \<open>counter\<close> is the row
  \<open>'run'\<close> of \<open>counters\<close>.
\<close>

record db =
  runs :: "run list"
  steps :: "step list"
  stepKeys :: "keyRow list"
  journal :: "journalEntry list"
  crons :: "cron list"
  logs :: "(int \<times> logEntry) list"
  logSeq :: int
  events :: "eventRow list"
  eventSeq :: int
  eventSubs :: "eventSub list"
  queuePauses :: "(string \<times> time) list"
  counter :: int

definition emptyDB :: db where
  "emptyDB = \<lparr>runs = [], steps = [], stepKeys = [], journal = [], crons = [], logs = [],
     logSeq = 0, events = [], eventSeq = 0, eventSubs = [], queuePauses = [], counter = 0\<rparr>"

text \<open>
  The errors of the query layer. An operation that returns \<open>Inl\<close> has rolled its
  transaction back: the caller keeps the database it had.
\<close>

datatype err = ErrNotFound | ErrRunRunning | ErrRunTerminal | ErrNotDeadLetter
  | ErrUniqueViolation | ErrDuplicateJob | ErrNonTerminalPurge | ErrStepNotRunning
  | ErrUniqueConstraint | ErrForeignKey | ErrNoRows | ErrArgs | ErrPurgeCutoff

section \<open>Statements shared by the operations\<close>

definition upd_runs :: "(run \<Rightarrow> bool) \<Rightarrow> (run \<Rightarrow> run) \<Rightarrow> db \<Rightarrow> db" where
  "upd_runs P f d = d\<lparr>runs := update_where P f (runs d)\<rparr>"

definition upd_steps :: "(step \<Rightarrow> bool) \<Rightarrow> (step \<Rightarrow> step) \<Rightarrow> db \<Rightarrow> db" where
  "upd_steps P f d = d\<lparr>steps := update_where P f (steps d)\<rparr>"

definition upd_journal :: "(journalEntry \<Rightarrow> bool) \<Rightarrow> (journalEntry \<Rightarrow> journalEntry) \<Rightarrow> db \<Rightarrow> db" where
  "upd_journal P f d = d\<lparr>journal := update_where P f (journal d)\<rparr>"

text \<open>\<open>DELETE FROM steps\<close> cascades to the journal and the extra keys.\<close>

definition del_steps :: "(step \<Rightarrow> bool) \<Rightarrow> db \<Rightarrow> db" where
  "del_steps P d =
     (let gone = map sID (filter P (steps d)) in
      d\<lparr>steps := delete_where P (steps d),
        stepKeys := delete_where (\<lambda>k. kStep k \<in> set gone) (stepKeys d),
        journal := delete_where (\<lambda>j. jStepID j \<in> set gone) (journal d)\<rparr>)"

text \<open>\<open>DELETE FROM runs\<close> cascades to the steps.\<close>

definition del_runs :: "(run \<Rightarrow> bool) \<Rightarrow> db \<Rightarrow> db" where
  "del_runs P d =
     (let gone = map rID (filter P (runs d)) in
      (del_steps (\<lambda>s. sRunID s \<in> set gone) d)\<lparr>runs := delete_where P (runs d)\<rparr>)"

definition del_logs :: "(int \<times> logEntry \<Rightarrow> bool) \<Rightarrow> db \<Rightarrow> db" where
  "del_logs P d = d\<lparr>logs := delete_where P (logs d)\<rparr>"

definition find_run :: "string \<Rightarrow> db \<Rightarrow> run option" where
  "find_run i d = find (\<lambda>r. rID r = i) (runs d)"

definition find_step :: "string \<Rightarrow> db \<Rightarrow> step option" where
  "find_step i d = find (\<lambda>s. sID s = i) (steps d)"

text \<open>\<open>SELECT id FROM steps WHERE run_id=? AND status='RUNNING'\<close>.\<close>

definition runningStepIDs :: "string \<Rightarrow> db \<Rightarrow> string list" where
  "runningStepIDs i d = map sID (filter (\<lambda>s. sRunID s = i \<and> sStatus s = Running) (steps d))"

definition deleteEphemeralRunTx :: "string \<Rightarrow> db \<Rightarrow> db" where
  "deleteEphemeralRunTx i d =
     del_runs (\<lambda>r. rID r = i) (del_steps (\<lambda>s. sRunID s = i) (del_logs (\<lambda>l. lRunID (snd l) = i) d))"

definition nullableString :: "string \<Rightarrow> string option" where
  "nullableString s = (if s = '''' then None else Some s)"

section \<open>Frame facts of the shared statements\<close>

lemma upd_runs_sel [simp]:
  "runs (upd_runs P f d) = update_where P f (runs d)"
  "steps (upd_runs P f d) = steps d"
  "stepKeys (upd_runs P f d) = stepKeys d"
  "journal (upd_runs P f d) = journal d"
  "crons (upd_runs P f d) = crons d"
  "logs (upd_runs P f d) = logs d"
  "logSeq (upd_runs P f d) = logSeq d"
  "events (upd_runs P f d) = events d"
  "eventSeq (upd_runs P f d) = eventSeq d"
  "eventSubs (upd_runs P f d) = eventSubs d"
  "queuePauses (upd_runs P f d) = queuePauses d"
  "counter (upd_runs P f d) = counter d"
  by (simp_all add: upd_runs_def)

lemma upd_steps_sel [simp]:
  "steps (upd_steps P f d) = update_where P f (steps d)"
  "runs (upd_steps P f d) = runs d"
  "stepKeys (upd_steps P f d) = stepKeys d"
  "journal (upd_steps P f d) = journal d"
  "crons (upd_steps P f d) = crons d"
  "logs (upd_steps P f d) = logs d"
  "logSeq (upd_steps P f d) = logSeq d"
  "events (upd_steps P f d) = events d"
  "eventSeq (upd_steps P f d) = eventSeq d"
  "eventSubs (upd_steps P f d) = eventSubs d"
  "queuePauses (upd_steps P f d) = queuePauses d"
  "counter (upd_steps P f d) = counter d"
  by (simp_all add: upd_steps_def)

lemma upd_journal_sel [simp]:
  "journal (upd_journal P f d) = update_where P f (journal d)"
  "runs (upd_journal P f d) = runs d"
  "steps (upd_journal P f d) = steps d"
  "stepKeys (upd_journal P f d) = stepKeys d"
  "events (upd_journal P f d) = events d"
  by (simp_all add: upd_journal_def)

lemma del_logs_sel [simp]:
  "logs (del_logs P d) = delete_where P (logs d)"
  "runs (del_logs P d) = runs d"
  "steps (del_logs P d) = steps d"
  "stepKeys (del_logs P d) = stepKeys d"
  "journal (del_logs P d) = journal d"
  by (simp_all add: del_logs_def)

lemma del_steps_sel [simp]:
  "steps (del_steps P d) = delete_where P (steps d)"
  "runs (del_steps P d) = runs d"
  "stepKeys (del_steps P d) = delete_where (\<lambda>k. kStep k \<in> sID ` {s \<in> set (steps d). P s}) (stepKeys d)"
  "journal (del_steps P d) = delete_where (\<lambda>j. jStepID j \<in> sID ` {s \<in> set (steps d). P s}) (journal d)"
  "logs (del_steps P d) = logs d"
  by (simp_all add: del_steps_def Let_def)

lemma del_runs_sel [simp]:
  "runs (del_runs P d) = delete_where P (runs d)"
  "steps (del_runs P d) = delete_where (\<lambda>s. sRunID s \<in> rID ` {r \<in> set (runs d). P r}) (steps d)"
  "stepKeys (del_runs P d) =
     stepKeys (del_steps (\<lambda>s. sRunID s \<in> rID ` {r \<in> set (runs d). P r}) d)"
  "journal (del_runs P d) =
     journal (del_steps (\<lambda>s. sRunID s \<in> rID ` {r \<in> set (runs d). P r}) d)"
  "logs (del_runs P d) = logs d"
  by (simp_all add: del_runs_def Let_def)

lemma del_events [simp]:
  "events (del_runs P d) = events d" "events (del_steps Q d) = events d" "events (del_logs R d) = events d"
  by (simp_all add: del_runs_def del_steps_def del_logs_def Let_def)

lemma deleteEphemeralRunTx_sel [simp]:
  "runs (deleteEphemeralRunTx i d) = delete_where (\<lambda>r. rID r = i) (runs d)"
  "logs (deleteEphemeralRunTx i d) = delete_where (\<lambda>l. lRunID (snd l) = i) (logs d)"
  by (simp_all add: deleteEphemeralRunTx_def)

lemma steps_deleteEphemeralRunTx:
  "set (steps (deleteEphemeralRunTx i d)) = {s \<in> set (steps d). sRunID s \<noteq> i}"
  by (auto simp: deleteEphemeralRunTx_def)

end
