(* ===== verification/Integrity.thy ===== *)
theory Integrity
  imports Schema
begin

text \<open>
  What the schema and the code keep true of the tables, as named invariants, and the
  lemma for each shared statement that it keeps them. Every operation of the store is a
  composition of these statements, so its preservation proof is an application of these
  lemmas to the fields it writes.
  \<^item> \<open>keys_wf\<close>: primary keys are distinct and foreign keys resolve (schema.go);
  \<^item> \<open>uniq_index\<close>: the unique index on \<open>(workflow, unique_key)\<close>, which ignores \<open>NULL\<close>;
  \<^item> \<open>keys_freed\<close>: a terminal run holds no unique key;
  \<^item> \<open>status_dom\<close>: a step is never \<open>PAUSED\<close>, a run never \<open>BLOCKED\<close> or \<open>SUSPENDED\<close>;
  \<^item> \<open>deps_met\<close>: a step that is claimable, running, suspended or interrupted has all of
    its dependencies \<open>SUCCEEDED\<close>.
\<close>

definition keys_wf :: "db \<Rightarrow> bool" where
  "keys_wf d \<longleftrightarrow>
     distinct (map rID (runs d)) \<and> distinct (map sID (steps d)) \<and>
     (\<forall>s \<in> set (steps d). sRunID s \<in> rID ` set (runs d)) \<and>
     distinct (map (\<lambda>k. (kStep k, kName (kKey k))) (stepKeys d)) \<and>
     (\<forall>k \<in> set (stepKeys d). kStep k \<in> sID ` set (steps d)) \<and>
     distinct (map (\<lambda>j. (jStepID j, jIdx j)) (journal d)) \<and>
     (\<forall>j \<in> set (journal d). jStepID j \<in> sID ` set (steps d))"

definition keyed_runs :: "run list \<Rightarrow> (string \<times> string) list" where
  "keyed_runs rs = map (\<lambda>r. (rWorkflow r, rUniqueKey r)) (filter (\<lambda>r. rUniqueKey r \<noteq> '''') rs)"

definition uniq_index :: "db \<Rightarrow> bool" where
  "uniq_index d \<longleftrightarrow> distinct (keyed_runs (runs d))"

definition keys_freed :: "db \<Rightarrow> bool" where
  "keys_freed d \<longleftrightarrow> (\<forall>r \<in> set (runs d). IsTerminal (rStatus r) \<longrightarrow> rUniqueKey r = '''')"

definition status_dom :: "db \<Rightarrow> bool" where
  "status_dom d \<longleftrightarrow> (\<forall>s \<in> set (steps d). sStatus s \<noteq> Paused) \<and>
     (\<forall>r \<in> set (runs d). rStatus r \<noteq> Blocked \<and> rStatus r \<noteq> Suspended)"

fun needs_deps :: "status \<Rightarrow> bool" where
  "needs_deps Queued = True"
| "needs_deps Running = True"
| "needs_deps Suspended = True"
| "needs_deps Interrupted = True"
| "needs_deps _ = False"

definition dep_ok :: "db \<Rightarrow> step \<Rightarrow> bool" where
  "dep_ok d s \<longleftrightarrow> (\<forall>n \<in> set (sDependsOn s). \<exists>t \<in> set (steps d).
     sRunID t = sRunID s \<and> sName t = n \<and> sStatus t = Succeeded)"

definition deps_met :: "db \<Rightarrow> bool" where
  "deps_met d \<longleftrightarrow> (\<forall>s \<in> set (steps d). needs_deps (sStatus s) \<longrightarrow> dep_ok d s)"

definition integrity :: "db \<Rightarrow> bool" where
  "integrity d \<longleftrightarrow> keys_wf d \<and> uniq_index d \<and> keys_freed d \<and> status_dom d \<and> deps_met d"

lemmas integrity_defs = integrity_def keys_wf_def uniq_index_def keys_freed_def status_dom_def
  deps_met_def

lemma integrity_emptyDB: "integrity emptyDB"
  by (simp add: integrity_defs emptyDB_def keyed_runs_def)

text \<open>The invariants read only the first four tables.\<close>

definition same_core :: "db \<Rightarrow> db \<Rightarrow> bool" where
  "same_core d d' \<longleftrightarrow> runs d' = runs d \<and> steps d' = steps d \<and> stepKeys d' = stepKeys d \<and>
     journal d' = journal d"

lemma integrity_same_core: "same_core d d' \<Longrightarrow> integrity d \<Longrightarrow> integrity d'"
  by (simp add: same_core_def integrity_defs dep_ok_def)

lemma integrityD:
  assumes "integrity d"
  shows "distinct (map rID (runs d))" "distinct (map sID (steps d))"
    "s \<in> set (steps d) \<Longrightarrow> sRunID s \<in> rID ` set (runs d)"
    "distinct (keyed_runs (runs d))"
    "r \<in> set (runs d) \<Longrightarrow> IsTerminal (rStatus r) \<Longrightarrow> rUniqueKey r = ''''"
    "s \<in> set (steps d) \<Longrightarrow> sStatus s \<noteq> Paused"
    "s \<in> set (steps d) \<Longrightarrow> needs_deps (sStatus s) \<Longrightarrow> dep_ok d s"
  using assms by (auto simp: integrity_defs)

section \<open>Updating runs\<close>

definition run_frame :: "(run \<Rightarrow> run) \<Rightarrow> bool" where
  "run_frame f \<longleftrightarrow> (\<forall>r. rID (f r) = rID r \<and> rWorkflow (f r) = rWorkflow r \<and>
     (rUniqueKey (f r) = rUniqueKey r \<or> rUniqueKey (f r) = ''''))"

lemma keyed_runs_simps [simp]:
  "keyed_runs [] = []"
  "keyed_runs (r # rs) =
     (if rUniqueKey r = '''' then keyed_runs rs else (rWorkflow r, rUniqueKey r) # keyed_runs rs)"
  "keyed_runs (rs @ rs') = keyed_runs rs @ keyed_runs rs'"
  by (simp_all add: keyed_runs_def)

lemma keyed_runs_update_subset:
  assumes "run_frame f"
  shows "set (keyed_runs (update_where P f rs)) \<subseteq> set (keyed_runs rs)"
proof (induction rs)
  case (Cons r rs)
  have "rUniqueKey (f r) = rUniqueKey r \<or> rUniqueKey (f r) = ''''"
    and "rWorkflow (f r) = rWorkflow r"
    using assms by (simp_all add: run_frame_def)
  with Cons show ?case by auto
qed simp

lemma distinct_keyed_runs_update:
  assumes "run_frame f" and "distinct (keyed_runs rs)"
  shows "distinct (keyed_runs (update_where P f rs))"
  using assms(2)
proof (induction rs)
  case (Cons r rs)
  from Cons have IH: "distinct (keyed_runs (update_where P f rs))"
    by (auto split: if_splits)
  have "set (keyed_runs (update_where P f rs)) \<subseteq> set (keyed_runs rs)"
    by (rule keyed_runs_update_subset [OF assms(1)])
  moreover have "rUniqueKey (f r) = rUniqueKey r \<or> rUniqueKey (f r) = ''''"
    and "rWorkflow (f r) = rWorkflow r"
    using assms(1) by (simp_all add: run_frame_def)
  ultimately show ?case
    using IH Cons.prems by (auto split: if_splits)
qed simp

lemma integrity_upd_runs:
  assumes "integrity d" and fr: "run_frame f"
    and "\<And>r. r \<in> set (runs d) \<Longrightarrow> P r \<Longrightarrow> IsTerminal (rStatus (f r)) \<Longrightarrow> rUniqueKey (f r) = ''''"
    and "\<And>r. r \<in> set (runs d) \<Longrightarrow> P r \<Longrightarrow> rStatus (f r) \<noteq> Blocked \<and> rStatus (f r) \<noteq> Suspended"
  shows "integrity (upd_runs P f d)"
proof -
  have k: "rID (f r) = rID r" for r using fr by (simp add: run_frame_def)
  have "map rID (update_where P f (runs d)) = map rID (runs d)"
    and "rID ` set (update_where P f (runs d)) = rID ` set (runs d)"
    by (simp_all add: map_key_update_where image_key_update_where k)
  then have "keys_wf (upd_runs P f d)"
    using assms(1) by (simp add: integrity_def keys_wf_def)
  moreover have "uniq_index (upd_runs P f d)"
    using assms(1) fr by (simp add: integrity_def uniq_index_def distinct_keyed_runs_update)
  moreover have "keys_freed (upd_runs P f d)"
    using assms(1,3) by (simp add: integrity_def keys_freed_def ball_update_where)
  moreover have "status_dom (upd_runs P f d)"
    using assms(1,4) by (auto simp: integrity_def status_dom_def ball_update_where)
  moreover have "deps_met (upd_runs P f d)"
    using assms(1) by (simp add: integrity_def deps_met_def dep_ok_def)
  ultimately show ?thesis by (simp add: integrity_def)
qed

section \<open>Updating steps\<close>

definition step_frame :: "(step \<Rightarrow> step) \<Rightarrow> bool" where
  "step_frame f \<longleftrightarrow> (\<forall>s. sID (f s) = sID s \<and> sRunID (f s) = sRunID s \<and> sName (f s) = sName s \<and>
     sDependsOn (f s) = sDependsOn s)"

lemma step_frameD:
  assumes "step_frame f"
  shows "sID (f s) = sID s" "sRunID (f s) = sRunID s" "sName (f s) = sName s"
    "sDependsOn (f s) = sDependsOn s"
  using assms by (simp_all add: step_frame_def)

lemma keys_wf_upd_steps:
  assumes "keys_wf d" and "step_frame f"
  shows "keys_wf (upd_steps P f d)"
proof -
  have k: "sID (f s) = sID s" "sRunID (f s) = sRunID s" for s
    using assms(2) by (simp_all add: step_frame_def)
  have "map sID (update_where P f (steps d)) = map sID (steps d)"
    and "sID ` set (update_where P f (steps d)) = sID ` set (steps d)"
    by (simp_all add: map_key_update_where image_key_update_where k)
  then show ?thesis
    using assms(1) by (simp add: keys_wf_def ball_update_where k)
qed

lemma dep_ok_upd_steps:
  assumes "step_frame f" and "dep_ok d s"
    and "\<And>t. t \<in> set (steps d) \<Longrightarrow> P t \<Longrightarrow> sRunID t = sRunID s \<Longrightarrow> sStatus t = Succeeded \<Longrightarrow>
      sStatus (f t) = Succeeded"
    and "sRunID s' = sRunID s" and "sDependsOn s' = sDependsOn s"
  shows "dep_ok (upd_steps P f d) s'"
  unfolding dep_ok_def
proof
  fix n assume "n \<in> set (sDependsOn s')"
  with assms(2,5) obtain t where t: "t \<in> set (steps d)" "sRunID t = sRunID s" "sName t = n"
    "sStatus t = Succeeded"
    by (auto simp: dep_ok_def)
  let ?t = "if P t then f t else t"
  have "?t \<in> set (steps (upd_steps P f d))"
    using t(1) by (simp add: in_update_whereI)
  moreover have "sRunID ?t = sRunID s' \<and> sName ?t = n \<and> sStatus ?t = Succeeded"
    using t assms(1,3,4) by (simp add: step_frame_def)
  ultimately show "\<exists>t \<in> set (steps (upd_steps P f d)).
      sRunID t = sRunID s' \<and> sName t = n \<and> sStatus t = Succeeded"
    by blast
qed

lemma deps_met_upd_steps:
  assumes "deps_met d" and fr: "step_frame f"
    and keep: "\<And>s. s \<in> set (steps d) \<Longrightarrow> P s \<Longrightarrow> sStatus s = Succeeded \<Longrightarrow> sStatus (f s) = Succeeded"
    and ok: "\<And>s. s \<in> set (steps d) \<Longrightarrow> P s \<Longrightarrow> needs_deps (sStatus (f s)) \<Longrightarrow>
      needs_deps (sStatus s) \<or> dep_ok d s"
  shows "deps_met (upd_steps P f d)"
proof -
  have dk: "dep_ok (upd_steps P f d) s'"
    if "dep_ok d s" "sRunID s' = sRunID s" "sDependsOn s' = sDependsOn s" for s s'
    using that keep by (auto intro: dep_ok_upd_steps [OF fr, of d s])
  show ?thesis
    unfolding deps_met_def upd_steps_sel ball_update_where
  proof
    fix s assume s: "s \<in> set (steps d)"
    have "dep_ok (upd_steps P f d) (f s)" if "P s" "needs_deps (sStatus (f s))"
      using dk [of s "f s"] ok [OF s that] assms(1) s step_frameD [OF fr]
      by (auto simp: deps_met_def)
    moreover have "dep_ok (upd_steps P f d) s" if "needs_deps (sStatus s)"
      using dk [of s s] assms(1) s that by (auto simp: deps_met_def)
    ultimately show "if P s
        then needs_deps (sStatus (f s)) \<longrightarrow> dep_ok (upd_steps P f d) (f s)
        else needs_deps (sStatus s) \<longrightarrow> dep_ok (upd_steps P f d) s"
      by simp
  qed
qed

lemma integrity_upd_steps:
  assumes "integrity d" and "step_frame f"
    and "\<And>s. s \<in> set (steps d) \<Longrightarrow> P s \<Longrightarrow> sStatus (f s) \<noteq> Paused"
    and "\<And>s. s \<in> set (steps d) \<Longrightarrow> P s \<Longrightarrow> sStatus s = Succeeded \<Longrightarrow> sStatus (f s) = Succeeded"
    and "\<And>s. s \<in> set (steps d) \<Longrightarrow> P s \<Longrightarrow> needs_deps (sStatus (f s)) \<Longrightarrow>
      needs_deps (sStatus s) \<or> dep_ok d s"
  shows "integrity (upd_steps P f d)"
proof -
  have "keys_wf (upd_steps P f d)"
    using assms(1,2) by (simp add: integrity_def keys_wf_upd_steps)
  moreover have "status_dom (upd_steps P f d)"
    using assms(1,3) by (auto simp: integrity_def status_dom_def ball_update_where)
  moreover have "deps_met (upd_steps P f d)"
  proof (rule deps_met_upd_steps)
    show "deps_met d" using assms(1) by (simp add: integrity_def)
  qed (use assms in blast)+
  ultimately show ?thesis
    using assms(1) by (simp add: integrity_def uniq_index_def keys_freed_def)
qed

section \<open>Updating the journal\<close>

lemma integrity_upd_journal:
  assumes "integrity d" and "\<And>j. jStepID (f j) = jStepID j \<and> jIdx (f j) = jIdx j"
  shows "integrity (upd_journal P f d)"
proof -
  have "map (\<lambda>j. (jStepID j, jIdx j)) (update_where P f (journal d)) =
      map (\<lambda>j. (jStepID j, jIdx j)) (journal d)"
    using assms(2) by (simp add: map_key_update_where)
  with assms show ?thesis
    by (simp add: integrity_defs dep_ok_def ball_update_where)
qed

section \<open>Deleting\<close>

lemma keyed_runs_delete_subset: "set (keyed_runs (delete_where P rs)) \<subseteq> set (keyed_runs rs)"
  by (induction rs) auto

lemma keyed_runs_delete_distinct:
  "distinct (keyed_runs rs) \<Longrightarrow> distinct (keyed_runs (delete_where P rs))"
  by (induction rs) (use keyed_runs_delete_subset [of P] in \<open>auto split: if_splits\<close>)

lemma keys_wf_del_steps: "keys_wf d \<Longrightarrow> keys_wf (del_steps P d)"
  by (auto simp: keys_wf_def distinct_key_delete_where image_iff) blast+

text \<open>Deleting the steps of whole runs keeps the dependencies of the other runs.\<close>

lemma integrity_del_steps:
  assumes "integrity d" and "\<And>s t. sRunID s = sRunID t \<Longrightarrow> P s = P t"
  shows "integrity (del_steps P d)"
proof -
  have "deps_met (del_steps P d)"
    unfolding deps_met_def dep_ok_def
  proof (intro ballI impI)
    fix s n
    assume s: "s \<in> set (steps (del_steps P d))" "needs_deps (sStatus s)" "n \<in> set (sDependsOn s)"
    with assms(1) obtain t where t: "t \<in> set (steps d)" "sRunID t = sRunID s" "sName t = n"
      "sStatus t = Succeeded"
      by (auto simp: integrity_def deps_met_def dep_ok_def)
    with assms(2) [of t s] s(1) have "t \<in> set (steps (del_steps P d))" by simp
    with t show "\<exists>t \<in> set (steps (del_steps P d)).
        sRunID t = sRunID s \<and> sName t = n \<and> sStatus t = Succeeded"
      by blast
  qed
  moreover have "keys_wf (del_steps P d)"
    using assms(1) by (simp add: integrity_def keys_wf_del_steps)
  ultimately show ?thesis
    using assms(1) by (simp add: integrity_defs)
qed

lemma keys_wf_set_runs:
  assumes "keys_wf e" and "distinct (map rID rs)"
    and "\<And>s. s \<in> set (steps e) \<Longrightarrow> sRunID s \<in> rID ` set rs"
  shows "keys_wf (e\<lparr>runs := rs\<rparr>)"
  using assms by (simp add: keys_wf_def)

lemma integrity_del_runs:
  assumes "integrity d"
  shows "integrity (del_runs P d)"
proof -
  let ?d = "del_steps (\<lambda>s. sRunID s \<in> rID ` {r \<in> set (runs d). P r}) d"
  have i: "integrity ?d"
    using assms by (rule integrity_del_steps) simp
  have eq: "del_runs P d = ?d\<lparr>runs := delete_where P (runs d)\<rparr>"
    by (simp add: del_runs_def Let_def)
  have "keys_wf (?d\<lparr>runs := delete_where P (runs d)\<rparr>)"
  proof (rule keys_wf_set_runs)
    show "keys_wf ?d" using i by (simp add: integrity_def)
    show "distinct (map rID (delete_where P (runs d)))"
      using assms by (simp add: integrityD(1) distinct_key_delete_where)
    show "sRunID s \<in> rID ` set (delete_where P (runs d))" if "s \<in> set (steps ?d)" for s
      using that integrityD(3) [OF assms, of s] by auto
  qed
  then have "keys_wf (del_runs P d)" by (simp only: eq)
  moreover have "deps_met (del_runs P d)"
    using i by (simp add: integrity_def deps_met_def dep_ok_def)
  ultimately show ?thesis
    using i by (simp add: integrity_defs keyed_runs_delete_distinct)
qed

lemma same_core_del_logs: "same_core d (del_logs P d)"
  by (simp add: same_core_def)

lemma integrity_deleteEphemeralRunTx:
  assumes "integrity d"
  shows "integrity (deleteEphemeralRunTx i d)"
proof -
  have "integrity (del_logs (\<lambda>l. lRunID (snd l) = i) d)"
    by (rule integrity_same_core [OF same_core_del_logs assms])
  then have "integrity (del_steps (\<lambda>s. sRunID s = i) (del_logs (\<lambda>l. lRunID (snd l) = i) d))"
    by (rule integrity_del_steps) simp
  then show ?thesis
    unfolding deleteEphemeralRunTx_def by (rule integrity_del_runs)
qed

section \<open>Finding rows\<close>

lemma find_run_Some:
  "integrity d \<Longrightarrow> find_run i d = Some r \<longleftrightarrow> r \<in> set (runs d) \<and> rID r = i"
  by (simp add: find_run_def find_key_Some integrityD(1))

lemma find_step_Some:
  "integrity d \<Longrightarrow> find_step i d = Some s \<longleftrightarrow> s \<in> set (steps d) \<and> sID s = i"
  by (simp add: find_step_def find_key_Some integrityD(2))

lemma set_runningStepIDs:
  "set (runningStepIDs i d) = {sID s |s. s \<in> set (steps d) \<and> sRunID s = i \<and> sStatus s = Running}"
  by (auto simp: runningStepIDs_def)

end
