(* ===== verification/Driver.thy ===== *)
theory Driver
  imports Integrity
begin

text \<open>
  The storage-driver contract (driver/driver.go) and the three drivers of the module
  (internal/store/sqlite.go, postgres/postgres.go, mysql/mysql.go). A driver is a record of
  the dialect-specific predicates; the query layer is parameterised by it. The locale
  \<open>Backend_Contract\<close> states what driver.go promises of the predicates, the query layer's
  lemmas are proved from it, and the interpretation \<open>shipped\<close> discharges it for the SQL text
  each driver ships (correlated subqueries for SQLite and Postgres, derived tables for MySQL).
\<close>

record backend =
  beName :: string
  InsertBatchRows :: nat
  SupportsLeases :: bool
  KeyGate :: "db \<Rightarrow> step \<Rightarrow> bool"
  SequenceGate :: "db \<Rightarrow> step \<Rightarrow> bool"
  KeysGate :: "db \<Rightarrow> step \<Rightarrow> bool"
  LabelGate :: "string list \<Rightarrow> step \<Rightarrow> bool"
  BlockedDependents :: "db \<Rightarrow> string \<Rightarrow> status \<Rightarrow> string \<Rightarrow> step list"

section \<open>The correlated predicates\<close>

definition CorrelatedKeyGate :: "db \<Rightarrow> step \<Rightarrow> bool" where
  "CorrelatedKeyGate d s \<longleftrightarrow>
     sConcurrencyKey s = '''' \<or> sKeyLimit s \<le> 0 \<or>
     int (count_where (\<lambda>r. sConcurrencyKey r = sConcurrencyKey s \<and> sStatus r = Running) (steps d))
       < sKeyLimit s"

definition CorrelatedSequenceGate :: "db \<Rightarrow> step \<Rightarrow> bool" where
  "CorrelatedSequenceGate d s \<longleftrightarrow>
     \<not> list_ex (\<lambda>s2. sSequenceKey s2 = sSequenceKey s \<and> sSequenceKey s2 \<noteq> '''' \<and>
         sSeq s2 < sSeq s \<and> unfinished (sStatus s2)) (steps d)"

definition CorrelatedKeysGate :: "db \<Rightarrow> step \<Rightarrow> bool" where
  "CorrelatedKeysGate d s \<longleftrightarrow>
     \<not> list_ex (\<lambda>k. kStep k = sID s \<and> kLimit (kKey k) > 0 \<and>
         int (count_where (\<lambda>(k2, s2). sID s2 = kStep k2 \<and> kName (kKey k2) = kName (kKey k) \<and>
             kValue (kKey k2) = kValue (kKey k) \<and> sStatus s2 = Running)
           (List.product (stepKeys d) (steps d))) \<ge> kLimit (kKey k)) (stepKeys d)"

section \<open>The derived-table predicates of MySQL\<close>

definition mysqlKeyGate :: "db \<Rightarrow> step \<Rightarrow> bool" where
  "mysqlKeyGate d s \<longleftrightarrow>
     sConcurrencyKey s = '''' \<or> sKeyLimit s \<le> 0 \<or>
     int (count_where (\<lambda>ck. ck = sConcurrencyKey s)
       (map sConcurrencyKey (filter (\<lambda>r. sStatus r = Running) (steps d)))) < sKeyLimit s"

definition mysqlSequenceGate :: "db \<Rightarrow> step \<Rightarrow> bool" where
  "mysqlSequenceGate d s \<longleftrightarrow>
     \<not> list_ex (\<lambda>(sk, sq). sk = sSequenceKey s \<and> sq < sSeq s)
        (map (\<lambda>s2. (sSequenceKey s2, sSeq s2))
          (filter (\<lambda>s2. sSequenceKey s2 \<noteq> '''' \<and> unfinished (sStatus s2)) (steps d)))"

definition mysqlKeysGate :: "db \<Rightarrow> step \<Rightarrow> bool" where
  "mysqlKeysGate d s \<longleftrightarrow>
     \<not> list_ex (\<lambda>k. kStep k = sID s \<and> kLimit (kKey k) > 0 \<and>
         int (count_where (\<lambda>(k2, i). i = kStep k2 \<and> kName (kKey k2) = kName (kKey k) \<and>
             kValue (kKey k2) = kValue (kKey k))
           (List.product (stepKeys d) (map sID (filter (\<lambda>s2. sStatus s2 = Running) (steps d)))))
           \<ge> kLimit (kKey k)) (stepKeys d)"

section \<open>Label routing and blocked dependents\<close>

text \<open>SQLite and Postgres: no required label lies outside the worker's list.\<close>

definition subsetLabelGate :: "string list \<Rightarrow> step \<Rightarrow> bool" where
  "subsetLabelGate worker s \<longleftrightarrow> \<not> list_ex (\<lambda>l. \<not> List.member worker l) (sLabels s)"

text \<open>MySQL: \<open>JSON_CONTAINS(worker, labels)\<close>, every candidate element is in the target array.\<close>

definition jsonContains :: "string list \<Rightarrow> string list \<Rightarrow> bool" where
  "jsonContains target candidate \<longleftrightarrow> list_all (\<lambda>c. List.member target c) candidate"

definition mysqlLabelGate :: "string list \<Rightarrow> step \<Rightarrow> bool" where
  "mysqlLabelGate worker s \<longleftrightarrow> jsonContains worker (sLabels s)"

definition jsonEachDependents :: "db \<Rightarrow> string \<Rightarrow> status \<Rightarrow> string \<Rightarrow> step list" where
  "jsonEachDependents d i st n =
     filter (\<lambda>s. sRunID s = i \<and> sStatus s = st \<and> list_ex (\<lambda>x. x = n) (sDependsOn s)) (steps d)"

definition jsonContainsDependents :: "db \<Rightarrow> string \<Rightarrow> status \<Rightarrow> string \<Rightarrow> step list" where
  "jsonContainsDependents d i st n =
     filter (\<lambda>s. sRunID s = i \<and> sStatus s = st \<and> jsonContains (sDependsOn s) [n]) (steps d)"

section \<open>The drivers\<close>

definition sqliteBackend :: backend where
  "sqliteBackend = \<lparr>beName = ''sqlite'', InsertBatchRows = 25, SupportsLeases = False,
     KeyGate = CorrelatedKeyGate, SequenceGate = CorrelatedSequenceGate,
     KeysGate = CorrelatedKeysGate, LabelGate = subsetLabelGate,
     BlockedDependents = jsonEachDependents\<rparr>"

definition pgBackend :: backend where
  "pgBackend = \<lparr>beName = ''postgres'', InsertBatchRows = 200, SupportsLeases = True,
     KeyGate = CorrelatedKeyGate, SequenceGate = CorrelatedSequenceGate,
     KeysGate = CorrelatedKeysGate, LabelGate = subsetLabelGate,
     BlockedDependents = jsonEachDependents\<rparr>"

definition myBackend :: backend where
  "myBackend = \<lparr>beName = ''mysql'', InsertBatchRows = 200, SupportsLeases = True,
     KeyGate = mysqlKeyGate, SequenceGate = mysqlSequenceGate,
     KeysGate = mysqlKeysGate, LabelGate = mysqlLabelGate,
     BlockedDependents = jsonContainsDependents\<rparr>"

text \<open>The drivers the module registers; a program imports one of them.\<close>

datatype driver = SQLite | Postgres | MySQL

fun backendOf :: "driver \<Rightarrow> backend" where
  "backendOf SQLite = sqliteBackend"
| "backendOf Postgres = pgBackend"
| "backendOf MySQL = myBackend"

lemmas backend_defs = sqliteBackend_def pgBackend_def myBackend_def

definition SupportsExternalTx :: "backend \<Rightarrow> bool" where
  "SupportsExternalTx be \<longleftrightarrow> beName be \<noteq> ''sqlite''"

section \<open>The contract\<close>

text \<open>RUNNING steps holding a concurrency key, and RUNNING uses of a named extra key.\<close>

definition running_key :: "db \<Rightarrow> string \<Rightarrow> nat" where
  "running_key d k = count_where (\<lambda>r. sConcurrencyKey r = k \<and> sStatus r = Running) (steps d)"

definition running_extra :: "db \<Rightarrow> string \<Rightarrow> string \<Rightarrow> nat" where
  "running_extra d n v = count_where (\<lambda>(k2, s2). sID s2 = kStep k2 \<and> kName (kKey k2) = n \<and>
     kValue (kKey k2) = v \<and> sStatus s2 = Running) (List.product (stepKeys d) (steps d))"

locale Backend_Contract =
  fixes be :: backend
  assumes key_gate: "KeyGate be d s \<longleftrightarrow>
      sConcurrencyKey s = '''' \<or> sKeyLimit s \<le> 0 \<or> int (running_key d (sConcurrencyKey s)) < sKeyLimit s"
    and sequence_gate: "SequenceGate be d s \<longleftrightarrow>
      (\<forall>t \<in> set (steps d). sSequenceKey t = sSequenceKey s \<and> sSequenceKey t \<noteq> '''' \<and>
        sSeq t < sSeq s \<longrightarrow> \<not> unfinished (sStatus t))"
    and keys_gate: "KeysGate be d s \<longleftrightarrow>
      (\<forall>k \<in> set (stepKeys d). kStep k = sID s \<and> kLimit (kKey k) > 0 \<longrightarrow>
        int (running_extra d (kName (kKey k)) (kValue (kKey k))) < kLimit (kKey k))"
    and label_gate: "LabelGate be worker s \<longleftrightarrow> set (sLabels s) \<subseteq> set worker"
    and blocked_dependents: "BlockedDependents be d i st n =
      filter (\<lambda>s. sRunID s = i \<and> sStatus s = st \<and> n \<in> set (sDependsOn s)) (steps d)"

lemma count_product_filter:
  "count_where P (List.product ks (map f (filter Q xs))) =
     count_where (\<lambda>(k, x). P (k, f x) \<and> Q x) (List.product ks xs)"
  by (induction ks) (simp_all add: count_where_map count_where_filter)

interpretation shipped: Backend_Contract "backendOf drv" for drv
proof
  fix d s
  show "KeyGate (backendOf drv) d s \<longleftrightarrow>
      sConcurrencyKey s = '''' \<or> sKeyLimit s \<le> 0 \<or> int (running_key d (sConcurrencyKey s)) < sKeyLimit s"
    by (cases drv) (simp_all add: backend_defs CorrelatedKeyGate_def mysqlKeyGate_def
      running_key_def count_where_map_filter)
next
  fix d s
  show "SequenceGate (backendOf drv) d s \<longleftrightarrow>
      (\<forall>t \<in> set (steps d). sSequenceKey t = sSequenceKey s \<and> sSequenceKey t \<noteq> '''' \<and>
        sSeq t < sSeq s \<longrightarrow> \<not> unfinished (sStatus t))"
    by (cases drv) (auto simp: backend_defs CorrelatedSequenceGate_def mysqlSequenceGate_def
      list_ex_iff)
next
  fix d s
  show "KeysGate (backendOf drv) d s \<longleftrightarrow>
      (\<forall>k \<in> set (stepKeys d). kStep k = sID s \<and> kLimit (kKey k) > 0 \<longrightarrow>
        int (running_extra d (kName (kKey k)) (kValue (kKey k))) < kLimit (kKey k))"
    by (cases drv) (auto simp: backend_defs CorrelatedKeysGate_def mysqlKeysGate_def
      running_extra_def count_product_filter list_ex_iff not_le conj_ac)
next
  fix worker s
  show "LabelGate (backendOf drv) worker s \<longleftrightarrow> set (sLabels s) \<subseteq> set worker"
    by (cases drv) (auto simp: backend_defs subsetLabelGate_def mysqlLabelGate_def
      jsonContains_def list_ex_iff list_all_iff)
next
  fix d i st n
  show "BlockedDependents (backendOf drv) d i st n =
      filter (\<lambda>s. sRunID s = i \<and> sStatus s = st \<and> n \<in> set (sDependsOn s)) (steps d)"
    by (cases drv) (auto simp: backend_defs jsonEachDependents_def jsonContainsDependents_def
      jsonContains_def list_ex_iff intro!: filter_cong)
qed

section \<open>Migration lists\<close>

record migration =
  mVersion :: int
  mSQL :: string

datatype migrationErr = NoMigrations | OutOfOrder int int

text \<open>The loop over \<open>i = 1 ..< len(ms)\<close> compares each entry with its predecessor.\<close>

fun ascendingFrom :: "migration \<Rightarrow> migration list \<Rightarrow> migrationErr option" where
  "ascendingFrom p [] = None"
| "ascendingFrom p (m # ms) =
     (if mVersion m \<le> mVersion p then Some (OutOfOrder (mVersion m) (mVersion p))
      else ascendingFrom m ms)"

definition ValidateMigrations :: "migration list \<Rightarrow> migrationErr option" where
  "ValidateMigrations ms = (case ms of [] \<Rightarrow> Some NoMigrations | m # rest \<Rightarrow> ascendingFrom m rest)"

lemma ascendingFrom_None:
  "ascendingFrom p ms = None \<longleftrightarrow> sorted_wrt (<) (mVersion p # map mVersion ms)"
proof (induction ms arbitrary: p)
  case (Cons m ms)
  have "ascendingFrom m ms = None \<longleftrightarrow> sorted_wrt (<) (mVersion m # map mVersion ms)"
    by (rule Cons.IH)
  then show ?case by force
qed simp

lemma ValidateMigrations_None:
  "ValidateMigrations ms = None \<longleftrightarrow> ms \<noteq> [] \<and> sorted_wrt (<) (map mVersion ms)"
  by (cases ms) (simp_all add: ValidateMigrations_def ascendingFrom_None)

end
