(* ===== verification/Claim.thy ===== *)
theory Claim
  imports Driver "HOL-Library.Sublist"
begin

text \<open>
  The scheduler's claim (internal/store/queries.go: ClaimDueMulti, claimQueueTx,
  claimCandidatesSQL, NextDue and the queue pauses). A claim transaction walks the queues in
  order; for each it reads the due candidates in claim order and moves them to RUNNING one
  by one with a guarded update, so that the counting gates see the batch's own earlier
  claims. The driver's predicates come from the \<open>backend\<close> argument.
\<close>

record claim =
  clStep :: step
  clRun :: "run option"
  clResumed :: bool

record queueClaim =
  qcName :: string
  qcLimit :: int
  qcRateLimit :: int
  qcRateWindow :: int

section \<open>Pauses\<close>

definition queuePausedGate :: "db \<Rightarrow> step \<Rightarrow> bool" where
  "queuePausedGate d s \<longleftrightarrow> \<not> list_ex (\<lambda>p. fst p = sQueue s) (queuePauses d)"

definition runNotPausedGate :: "db \<Rightarrow> step \<Rightarrow> bool" where
  "runNotPausedGate d s \<longleftrightarrow> \<not> list_ex (\<lambda>r. rID r = sRunID s \<and> rStatus r = Paused) (runs d)"

text \<open>\<open>UpsertSQL\<close> on the primary key \<open>queue\<close>: a second pause restamps \<open>paused_at\<close>.\<close>

definition PauseQueue :: "string \<Rightarrow> time \<Rightarrow> db \<Rightarrow> db" where
  "PauseQueue name now d =
     (if list_ex (\<lambda>p. fst p = name) (queuePauses d)
      then d\<lparr>queuePauses := update_where (\<lambda>p. fst p = name) (\<lambda>p. (fst p, now)) (queuePauses d)\<rparr>
      else d\<lparr>queuePauses := queuePauses d @ [(name, now)]\<rparr>)"

definition ResumeQueue :: "string \<Rightarrow> db \<Rightarrow> db" where
  "ResumeQueue name d = d\<lparr>queuePauses := delete_where (\<lambda>p. fst p = name) (queuePauses d)\<rparr>"

definition PausedQueues :: "db \<Rightarrow> string list" where
  "PausedQueues d = sort (map fst (queuePauses d))"

section \<open>The next due time\<close>

definition NextDue :: "db \<Rightarrow> time" where
  "NextDue d =
     (let ts = map sRunAt (filter (\<lambda>s. sStatus s = Queued) (steps d)) @
               map sResumeAt (filter (\<lambda>s. sStatus s = Suspended \<and> sResumeAt s > 0) (steps d))
      in case ts of [] \<Rightarrow> 0 | t # ts' \<Rightarrow> fold min ts' t)"

section \<open>Claiming\<close>

definition due :: "time \<Rightarrow> step \<Rightarrow> bool" where
  "due now s \<longleftrightarrow> (sStatus s = Queued \<and> sRunAt s \<le> now) \<or>
     (sStatus s = Suspended \<and> sResumeAt s > 0 \<and> sResumeAt s \<le> now)"

text \<open>The gates repeated in the candidate read and in both update arms.\<close>

definition claimGates :: "backend \<Rightarrow> db \<Rightarrow> step \<Rightarrow> bool" where
  "claimGates be d s \<longleftrightarrow> KeyGate be d s \<and> queuePausedGate d s \<and> runNotPausedGate d s \<and>
     SequenceGate be d s \<and> KeysGate be d s"

definition claimCandidates ::
  "backend \<Rightarrow> db \<Rightarrow> string \<Rightarrow> time \<Rightarrow> string list \<Rightarrow> nat \<Rightarrow> step list" where
  "claimCandidates be d queue now worker limit =
     take limit (sort_key (\<lambda>s. (- sPriority s, sRunAt s, sOrd s))
       (filter (\<lambda>s. sQueue s = queue \<and> due now s \<and> claimGates be d s \<and> LabelGate be worker s)
         (steps d)))"

definition resumeRow :: "time \<Rightarrow> string \<Rightarrow> time \<Rightarrow> step \<Rightarrow> step" where
  "resumeRow now w lease s = s\<lparr>sStatus := Running, sClaimedAt := now, sResumeAt := 0,
     sWaitKind := '''', sWaitEvent := '''', sWorkerID := w, sLeaseExpiresAt := lease\<rparr>"

definition startRow :: "time \<Rightarrow> string \<Rightarrow> time \<Rightarrow> step \<Rightarrow> step" where
  "startRow now w lease s = s\<lparr>sStatus := Running, sAttempts := sAttempts s + 1, sClaimedAt := now,
     sStartedAt := (if sStartedAt s = 0 then now else sStartedAt s),
     sWorkerID := w, sLeaseExpiresAt := lease\<rparr>"

definition startRunRow :: "time \<Rightarrow> run \<Rightarrow> run" where
  "startRunRow now r = r\<lparr>rStatus := Running, rAttempts := rAttempts r + 1,
     rStartedAt := (if rStartedAt r = 0 then now else rStartedAt r)\<rparr>"

definition resumeGuard :: "backend \<Rightarrow> db \<Rightarrow> time \<Rightarrow> step \<Rightarrow> step \<Rightarrow> bool" where
  "resumeGuard be d now st s \<longleftrightarrow> sID s = sID st \<and> (sStatus s = Suspended \<and> sResumeAt s > 0 \<and>
     sResumeAt s \<le> now \<and> claimGates be d s)"

definition startGuard :: "backend \<Rightarrow> db \<Rightarrow> step \<Rightarrow> step \<Rightarrow> bool" where
  "startGuard be d st s \<longleftrightarrow> sID s = sID st \<and> (sStatus s = Queued \<and> claimGates be d s)"

text \<open>One iteration of the claim loop: the guarded update, then the run, then the claim.\<close>

definition claimOne ::
  "backend \<Rightarrow> time \<Rightarrow> string \<Rightarrow> time \<Rightarrow> step \<Rightarrow> db \<times> claim list \<Rightarrow> db \<times> claim list" where
  "claimOne be now w lease st acc =
     (let (d, claims) = acc in
      if sStatus st = Suspended then
        (if count_where (resumeGuard be d now st) (steps d) \<noteq> 1 then (d, claims)
         else (upd_steps (resumeGuard be d now st) (resumeRow now w lease) d,
               claims @ [\<lparr>clStep = st\<lparr>sStatus := Running, sClaimedAt := now, sResumeAt := 0,
                 sWorkerID := w, sLeaseExpiresAt := lease\<rparr>, clRun = None, clResumed = True\<rparr>]))
      else
        (if count_where (startGuard be d st) (steps d) \<noteq> 1 then (d, claims)
         else (upd_runs (\<lambda>r. rID r = sRunID st \<and> rStatus r = Queued) (startRunRow now)
                 (upd_steps (startGuard be d st) (startRow now w lease) d),
               claims @ [\<lparr>clStep = (startRow now w lease st)\<lparr>sResumeAt := 0\<rparr>,
                 clRun = None, clResumed = False\<rparr>])))"

definition rateBudget :: "db \<Rightarrow> queueClaim \<Rightarrow> time \<Rightarrow> int" where
  "rateBudget d q now =
     (let limit = qcLimit q;
          window = (if qcRateWindow q \<le> 0 then 1000000000 else qcRateWindow q);
          started = int (count_where (\<lambda>s. sQueue s = qcName q \<and> sClaimedAt s \<ge> now - window) (steps d));
          remaining = qcRateLimit q - started
      in if qcRateLimit q > 0 \<and> remaining < limit then remaining else limit)"

definition claimQueueTx ::
  "backend \<Rightarrow> queueClaim \<Rightarrow> time \<Rightarrow> string list \<Rightarrow> string \<Rightarrow> time \<Rightarrow> db \<Rightarrow> db \<times> claim list" where
  "claimQueueTx be q now worker w lease d =
     (if qcLimit q \<le> 0 then (d, [])
      else let limit = rateBudget d q now in
        if limit \<le> 0 then (d, [])
        else fold (claimOne be now w lease)
          (claimCandidates be d (qcName q) now worker (nat limit)) (d, []))"

fun claimQueues ::
  "backend \<Rightarrow> queueClaim list \<Rightarrow> time \<Rightarrow> string list \<Rightarrow> string \<Rightarrow> time \<Rightarrow> db \<Rightarrow> db \<times> claim list" where
  "claimQueues be [] now worker w lease d = (d, [])"
| "claimQueues be (q # qs) now worker w lease d =
     (let (d1, cs) = claimQueueTx be q now worker w lease d;
          (d2, cs') = claimQueues be qs now worker w lease d1
      in (d2, cs @ cs'))"

text \<open>The run rows are read after the claims, and shown RUNNING and started.\<close>

definition attachRun :: "db \<Rightarrow> time \<Rightarrow> claim \<Rightarrow> claim" where
  "attachRun d now c =
     c\<lparr>clRun := map_option (\<lambda>r. r\<lparr>rStatus := Running,
        rStartedAt := (if rStartedAt r = 0 then now else rStartedAt r)\<rparr>)
        (find_run (sRunID (clStep c)) d)\<rparr>"

definition ClaimDueMulti ::
  "backend \<Rightarrow> queueClaim list \<Rightarrow> time \<Rightarrow> string list \<Rightarrow> string \<Rightarrow> time \<Rightarrow> db \<Rightarrow> db \<times> claim list" where
  "ClaimDueMulti be queues now worker w lease d =
     (let (d', claims) = claimQueues be queues now worker w lease d
      in (d', map (attachRun d' now) claims))"

definition ClaimDue ::
  "backend \<Rightarrow> string \<Rightarrow> int \<Rightarrow> time \<Rightarrow> int \<Rightarrow> int \<Rightarrow> string list \<Rightarrow> string \<Rightarrow> time \<Rightarrow> db \<Rightarrow> db \<times> claim list" where
  "ClaimDue be queue limit now rateLimit rateWindow worker w lease d =
     ClaimDueMulti be [\<lparr>qcName = queue, qcLimit = limit, qcRateLimit = rateLimit,
       qcRateWindow = rateWindow\<rparr>] now worker w lease d"

section \<open>One claim\<close>

lemma frame_resumeRow [simp]: "step_frame (resumeRow now w lease)"
  and frame_startRow [simp]: "step_frame (startRow now w lease)"
  and frame_startRunRow [simp]: "run_frame (startRunRow now)"
  by (simp_all add: step_frame_def run_frame_def resumeRow_def startRow_def startRunRow_def)

lemma claimRows_sel [simp]:
  "sStatus (resumeRow now w lease s) = Running"
  "sStatus (startRow now w lease s) = Running"
  "sConcurrencyKey (resumeRow now w lease s) = sConcurrencyKey s"
  "sConcurrencyKey (startRow now w lease s) = sConcurrencyKey s"
  "sKeyLimit (resumeRow now w lease s) = sKeyLimit s"
  "sKeyLimit (startRow now w lease s) = sKeyLimit s"
  "sID (resumeRow now w lease s) = sID s"
  "sID (startRow now w lease s) = sID s"
  "sClaimedAt (resumeRow now w lease s) = now"
  "sClaimedAt (startRow now w lease s) = now"
  "sQueue (resumeRow now w lease s) = sQueue s"
  "sQueue (startRow now w lease s) = sQueue s"
  "rStatus (startRunRow now r) = Running"
  by (simp_all add: resumeRow_def startRow_def startRunRow_def)

text \<open>The steps table after one iteration: unchanged, or one guarded row set RUNNING.\<close>

lemma claimOne_steps:
  assumes "claimOne be now w lease st (d, cs) = (d', cs')"
  obtains (skip) "d' = d" "cs' = cs"
  | (claim) G f c where "\<And>s. G s \<Longrightarrow> claimGates be d s \<and> sStatus s \<noteq> Running \<and>
        (sStatus s = Queued \<or> sStatus s = Suspended)"
      "f = resumeRow now w lease \<or> f = startRow now w lease"
      "count_where (\<lambda>s. sID s = sID st \<and> G s) (steps d) = 1"
      "steps d' = update_where (\<lambda>s. sID s = sID st \<and> G s) f (steps d)"
      "cs' = cs @ [c]" "sID (clStep c) = sID st" "sPriority (clStep c) = sPriority st"
      "sRunAt (clStep c) = sRunAt st" "sOrd (clStep c) = sOrd st"
proof (cases "sStatus st = Suspended")
  case True
  let ?G = "\<lambda>s. sStatus s = Suspended \<and> sResumeAt s > 0 \<and> sResumeAt s \<le> now \<and> claimGates be d s"
  have g: "resumeGuard be d now st = (\<lambda>s. sID s = sID st \<and> ?G s)"
    by (rule ext) (simp add: resumeGuard_def)
  show ?thesis
  proof (cases "count_where (resumeGuard be d now st) (steps d) = 1")
    case True
    with assms \<open>sStatus st = Suspended\<close> show ?thesis
      by (intro claim [of ?G "resumeRow now w lease"]) (auto simp: claimOne_def g)
  next
    case False
    with assms \<open>sStatus st = Suspended\<close> show ?thesis by (intro skip) (auto simp: claimOne_def)
  qed
next
  case False
  let ?G = "\<lambda>s. sStatus s = Queued \<and> claimGates be d s"
  have g: "startGuard be d st = (\<lambda>s. sID s = sID st \<and> ?G s)"
    by (rule ext) (simp add: startGuard_def)
  show ?thesis
  proof (cases "count_where (startGuard be d st) (steps d) = 1")
    case True
    with assms False show ?thesis
      by (intro claim [of ?G "startRow now w lease"]) (auto simp: claimOne_def g startRow_def)
  next
    case False
    with assms \<open>sStatus st \<noteq> Suspended\<close> show ?thesis by (intro skip) (auto simp: claimOne_def)
  qed
qed

lemma integrity_claimOne:
  assumes "integrity d"
  shows "integrity (fst (claimOne be now w lease st (d, cs)))"
proof -
  have 1: "integrity (upd_steps (resumeGuard be d now st) (resumeRow now w lease) d)"
    by (rule integrity_upd_steps [OF assms]) (auto simp: resumeGuard_def)
  have 2: "integrity (upd_steps (startGuard be d st) (startRow now w lease) d)"
    by (rule integrity_upd_steps [OF assms]) (auto simp: startGuard_def)
  have "integrity (upd_runs (\<lambda>r. rID r = sRunID st \<and> rStatus r = Queued) (startRunRow now)
      (upd_steps (startGuard be d st) (startRow now w lease) d))"
    by (rule integrity_upd_runs [OF 2]) auto
  with 1 assms show ?thesis by (auto simp: claimOne_def)
qed

lemma fold_claimOne_invariant:
  assumes "I d" and "\<And>st d cs. I d \<Longrightarrow> I (fst (claimOne be now w lease st (d, cs)))"
  shows "I (fst (fold (claimOne be now w lease) cands (d, cs)))"
  using assms(1)
proof (induction cands arbitrary: d cs)
  case (Cons st cands)
  have "I (fst (claimOne be now w lease st (d, cs)))" by (rule assms(2) [OF Cons.prems])
  then show ?case
    using Cons.IH [of "fst (claimOne be now w lease st (d, cs))"
        "snd (claimOne be now w lease st (d, cs))"] by simp
qed simp

lemma claimQueueTx_invariant:
  assumes "I d" and "\<And>st d cs. I d \<Longrightarrow> I (fst (claimOne be now w lease st (d, cs)))"
  shows "I (fst (claimQueueTx be q now worker w lease d))"
  using assms by (auto simp: claimQueueTx_def Let_def intro: fold_claimOne_invariant)

text \<open>An invariant of one claim is an invariant of the whole transaction.\<close>

lemma ClaimDueMulti_invariant:
  assumes "I d" and step: "\<And>st d cs. I d \<Longrightarrow> I (fst (claimOne be now w lease st (d, cs)))"
  shows "I (fst (ClaimDueMulti be queues now worker w lease d))"
proof -
  have "I (fst (claimQueues be queues now worker w lease d))"
    using assms(1)
  proof (induction queues arbitrary: d)
    case (Cons q qs)
    have "I (fst (claimQueueTx be q now worker w lease d))"
      by (rule claimQueueTx_invariant [OF Cons.prems step])
    then show ?case using Cons.IH by (simp add: split_beta Let_def)
  qed simp
  then show ?thesis by (simp add: ClaimDueMulti_def split_beta Let_def)
qed

lemma integrity_ClaimDueMulti:
  "integrity d \<Longrightarrow> integrity (fst (ClaimDueMulti be queues now worker w lease d))"
  by (rule ClaimDueMulti_invariant) (auto intro: integrity_claimOne)

section \<open>The claims a queue produces\<close>

abbreviation claimKey :: "step \<Rightarrow> int \<times> time \<times> int" where
  "claimKey s \<equiv> (- sPriority s, sRunAt s, sOrd s)"

lemma fold_claimOne_subseq:
  assumes "fold (claimOne be now w lease) cands (d, cs) = (d', cs')"
  shows "\<exists>new. cs' = cs @ new \<and>
    subseq (map (\<lambda>c. (sID (clStep c), claimKey (clStep c))) new) (map (\<lambda>s. (sID s, claimKey s)) cands)"
  using assms
proof (induction cands arbitrary: d cs)
  case (Cons st cands)
  obtain d1 cs1 where one: "claimOne be now w lease st (d, cs) = (d1, cs1)" by fastforce
  with Cons.prems have "fold (claimOne be now w lease) cands (d1, cs1) = (d', cs')" by simp
  from Cons.IH [OF this] obtain new where new: "cs' = cs1 @ new"
    "subseq (map (\<lambda>c. (sID (clStep c), claimKey (clStep c))) new) (map (\<lambda>s. (sID s, claimKey s)) cands)"
    by blast
  from one show ?case
  proof (cases rule: claimOne_steps)
    case skip
    with new show ?thesis by auto
  next
    case (claim G f c)
    with new show ?thesis by (intro exI [of _ "c # new"]) auto
  qed
qed simp

lemma subseq_memberD: "subseq xs ys \<Longrightarrow> x \<in> set xs \<Longrightarrow> x \<in> set ys"
  by (drule (1) list_emb_set) auto

lemma sorted_subseq: "subseq xs ys \<Longrightarrow> sorted_wrt P ys \<Longrightarrow> sorted_wrt P xs"
  by (induction rule: list_emb.induct) (auto dest: subseq_memberD)

lemma distinct_subseq: "subseq xs ys \<Longrightarrow> distinct ys \<Longrightarrow> distinct xs"
  by (induction rule: list_emb.induct) (auto dest: subseq_memberD)

lemma claimCandidates_subset:
  "s \<in> set (claimCandidates be d q now worker n) \<Longrightarrow>
    s \<in> set (steps d) \<and> sQueue s = q \<and> due now s \<and> claimGates be d s \<and> LabelGate be worker s"
  by (auto simp: claimCandidates_def dest: in_set_takeD)

lemma claimCandidates_sorted: "sorted (map claimKey (claimCandidates be d q now worker n))"
  by (simp add: claimCandidates_def take_map [symmetric] sorted_wrt_take)

lemma claimCandidates_distinct:
  assumes "distinct (map sID (steps d))"
  shows "distinct (map sID (claimCandidates be d q now worker n))"
proof -
  let ?xs = "filter (\<lambda>s. sQueue s = q \<and> due now s \<and> claimGates be d s \<and> LabelGate be worker s) (steps d)"
  have "distinct (map sID ?xs)" using assms by (rule distinct_map_filter)
  then have "distinct (map sID (sort_key claimKey ?xs))" by (simp add: distinct_map)
  then show ?thesis by (simp add: claimCandidates_def take_map [symmetric])
qed

lemma claimQueueTx_subseq:
  assumes "claimQueueTx be q now worker w lease d = (d', cs)"
  shows "subseq (map (\<lambda>c. (sID (clStep c), claimKey (clStep c))) cs)
    (map (\<lambda>s. (sID s, claimKey s))
      (claimCandidates be d (qcName q) now worker (nat (rateBudget d q now))))"
  using assms fold_claimOne_subseq [where cs = "[]"]
  by (auto simp: claimQueueTx_def Let_def split: if_splits)

lemma length_claimQueueTx:
  assumes "claimQueueTx be q now worker w lease d = (d', cs)" and "cs \<noteq> []"
  shows "int (length cs) \<le> rateBudget d q now"
proof -
  have "length cs \<le> length (claimCandidates be d (qcName q) now worker (nat (rateBudget d q now)))"
    using list_emb_length [OF claimQueueTx_subseq [OF assms(1)]] by simp
  also have "\<dots> \<le> nat (rateBudget d q now)" by (simp add: claimCandidates_def)
  finally show ?thesis using assms(2) by (cases cs) auto
qed

lemma rateBudget_le: "rateBudget d q now \<le> qcLimit q"
  by (simp add: rateBudget_def Let_def)

section \<open>The concurrency cap\<close>

definition limits_within :: "string \<Rightarrow> nat \<Rightarrow> db \<Rightarrow> bool" where
  "limits_within k L d \<longleftrightarrow> (\<forall>s \<in> set (steps d). sConcurrencyKey s = k \<longrightarrow>
     0 < sKeyLimit s \<and> sKeyLimit s \<le> int L)"

definition key_capped :: "string \<Rightarrow> nat \<Rightarrow> db \<Rightarrow> bool" where
  "key_capped k L d \<longleftrightarrow> limits_within k L d \<and> running_key d k \<le> L"

context Backend_Contract begin

lemma claimGates_key:
  assumes "claimGates be d s" and "sConcurrencyKey s \<noteq> ''''" and "0 < sKeyLimit s"
  shows "int (running_key d (sConcurrencyKey s)) < sKeyLimit s"
  using assms by (auto simp: claimGates_def key_gate)

lemma key_capped_claimOne:
  assumes "k \<noteq> ''''" and "distinct (map sID (steps d))" and cap: "key_capped k L d"
  shows "key_capped k L (fst (claimOne be now w lease st (d, cs)))"
proof -
  obtain d' cs' where one: "claimOne be now w lease st (d, cs) = (d', cs')" by fastforce
  then have "key_capped k L d'"
  proof (cases rule: claimOne_steps)
    case skip
    with cap show ?thesis by simp
  next
    case (claim G f c)
    have f: "sStatus (f s) = Running" "sConcurrencyKey (f s) = sConcurrencyKey s"
      "sKeyLimit (f s) = sKeyLimit s" for s
      using claim(2) by auto
    let ?Q = "\<lambda>r. sConcurrencyKey r = k \<and> sStatus r = Running"
    have lim: "limits_within k L d'"
      using cap by (simp add: key_capped_def limits_within_def claim(4) ball_update_where f)
    from count_where_ex [OF claim(3)]
    obtain s where s: "s \<in> set (steps d)" "sID s = sID st" "G s" by blast
    have "running_key d' k \<le> L"
    proof (cases "sConcurrencyKey s = k")
      case True
      then have "0 < sKeyLimit s" "sKeyLimit s \<le> int L"
        using cap s(1) by (auto simp: key_capped_def limits_within_def)
      moreover have "int (running_key d k) < sKeyLimit s"
        using claimGates_key [of d s] claim(1) [OF s(3)] True assms(1) \<open>0 < sKeyLimit s\<close> by simp
      ultimately have "Suc (running_key d k) \<le> L" by linarith
      moreover have "running_key d' k \<le> Suc (running_key d k)"
        unfolding running_key_def claim(4) by (rule count_where_update_key [OF assms(2)])
      ultimately show ?thesis by linarith
    next
      case False
      have "x = s" if "x \<in> set (steps d)" "sID x = sID st" for x
        using that s(1,2) assms(2) by (metis find_key_Some option.inject)
      with False have "running_key d' k \<le> running_key d k"
        unfolding running_key_def claim(4)
        by (intro count_where_update_le) (auto simp: f)
      with cap show ?thesis by (simp add: key_capped_def)
    qed
    with lim show ?thesis by (simp add: key_capped_def)
  qed
  with one show ?thesis by simp
qed

lemma key_capped_ClaimDueMulti:
  assumes "k \<noteq> ''''" and "integrity d" and "key_capped k L d"
  shows "key_capped k L (fst (ClaimDueMulti be queues now worker w lease d))"
proof -
  have "integrity (fst (ClaimDueMulti be queues now worker w lease d)) \<and>
      key_capped k L (fst (ClaimDueMulti be queues now worker w lease d))"
    by (rule ClaimDueMulti_invariant [where I = "\<lambda>d. integrity d \<and> key_capped k L d"])
      (use assms integrity_claimOne key_capped_claimOne integrityD(2) in auto)
  then show ?thesis ..
qed

lemma claim_admitted:
  assumes "claimQueueTx be q now worker w lease d = (d', cs)" and "c \<in> set cs"
  obtains s where "s \<in> set (steps d)" "sID s = sID (clStep c)" "sQueue s = qcName q" "due now s"
    "queuePausedGate d s" "runNotPausedGate d s" "set (sLabels s) \<subseteq> set worker"
    "\<And>t. t \<in> set (steps d) \<Longrightarrow> sSequenceKey t = sSequenceKey s \<Longrightarrow> sSequenceKey s \<noteq> '''' \<Longrightarrow>
       sSeq t < sSeq s \<Longrightarrow> \<not> unfinished (sStatus t)"
proof -
  let ?C = "claimCandidates be d (qcName q) now worker (nat (rateBudget d q now))"
  have "(sID (clStep c), claimKey (clStep c)) \<in> set (map (\<lambda>s. (sID s, claimKey s)) ?C)"
    by (rule subseq_memberD [OF claimQueueTx_subseq [OF assms(1)]]) (use assms(2) in auto)
  then obtain s where s: "s \<in> set ?C" "sID s = sID (clStep c)" by auto
  note c = claimCandidates_subset [OF s(1)]
  show ?thesis
  proof (rule that [of s])
    show "\<not> unfinished (sStatus t)" if "t \<in> set (steps d)" "sSequenceKey t = sSequenceKey s"
      "sSequenceKey s \<noteq> ''''" "sSeq t < sSeq s" for t
      using c that unfolding claimGates_def sequence_gate by metis
  qed (use c s(2) in \<open>simp_all add: claimGates_def label_gate\<close>)
qed

end

end
