(* ===== verification/Complete.thy ===== *)
theory Complete
  imports Claim
begin

text \<open>
  Recording a step's outcome (internal/store/queries.go: CompleteStep, CompleteSteps,
  completeStepTx, unblockReadyTx, RetryStep, ParkStep, FinalFailStep, StepCancelled).
  A success unblocks the dependents whose dependencies have all succeeded and, when no step
  of the run is unfinished, ends the run; a final failure cancels the rest of the run.
\<close>

record completeResult =
  crStepDone :: bool
  crReadySteps :: "string list"
  crCancelledSteps :: "string list"
  crCancelledStepIDs :: "string list"
  crRunTerminal :: bool
  crRunStatus :: "status option"
  crRunError :: string
  crRunOutput :: bytes

definition zeroResult :: completeResult where
  "zeroResult = \<lparr>crStepDone = False, crReadySteps = [], crCancelledSteps = [],
     crCancelledStepIDs = [], crRunTerminal = False, crRunStatus = None, crRunError = '''',
     crRunOutput = []\<rparr>"

record completion =
  coStepID :: string
  coRunID :: string
  coName :: string
  coOutput :: bytes
  coNow :: time

section \<open>Unblocking\<close>

text \<open>
  The status map of the dependency names: filled row by row, so the last row of a name wins;
  a name without a row has the zero status, which is not \<open>SUCCEEDED\<close>.
\<close>

definition depStatus :: "db \<Rightarrow> string \<Rightarrow> string \<Rightarrow> status option" where
  "depStatus d i n =
     fold (\<lambda>s acc. if sRunID s = i \<and> sName s = n then Some (sStatus s) else acc) (steps d) None"

definition depsReady :: "db \<Rightarrow> string \<Rightarrow> string list \<Rightarrow> bool" where
  "depsReady d i deps \<longleftrightarrow> list_all (\<lambda>n. depStatus d i n = Some Succeeded) deps"

definition queueBlocked :: "string \<Rightarrow> time \<Rightarrow> db \<Rightarrow> db" where
  "queueBlocked i now = upd_steps (\<lambda>s. sID s = i \<and> sStatus s = Blocked)
     (\<lambda>s. s\<lparr>sStatus := Queued, sRunAt := now\<rparr>)"

definition unblockReadyTx ::
  "backend \<Rightarrow> string \<Rightarrow> string \<Rightarrow> time \<Rightarrow> completeResult \<Rightarrow> db \<Rightarrow> db \<times> completeResult" where
  "unblockReadyTx be runID completedName now res d =
     (let blocked = BlockedDependents be d runID Blocked completedName;
          ready = filter (\<lambda>b. depsReady d runID (sDependsOn b)) blocked
      in (fold (\<lambda>b. queueBlocked (sID b) now) ready d,
          res\<lparr>crReadySteps := crReadySteps res @ map sName ready\<rparr>))"

section \<open>Completing a step\<close>

definition succeedRow :: "bytes \<Rightarrow> time \<Rightarrow> step \<Rightarrow> step" where
  "succeedRow output now s = s\<lparr>sStatus := Succeeded, sOutput := output, sError := '''',
     sCompletedAt := now\<rparr>"

definition finishRunRow :: "status \<Rightarrow> bytes \<Rightarrow> string \<Rightarrow> time \<Rightarrow> run \<Rightarrow> run" where
  "finishRunRow st output e now r = r\<lparr>rStatus := st, rOutput := output, rError := e,
     rCompletedAt := now, rUniqueKey := ''''\<rparr>"

definition openRun :: "string \<Rightarrow> run \<Rightarrow> bool" where
  "openRun i r \<longleftrightarrow> rID r = i \<and> \<not> IsTerminal (rStatus r)"

definition runActive :: "string \<Rightarrow> db \<Rightarrow> bool" where
  "runActive i d \<longleftrightarrow> list_ex (\<lambda>s. sRunID s = i \<and> unfinished (sStatus s)) (steps d)"

definition failedError :: "string \<Rightarrow> db \<Rightarrow> string option" where
  "failedError i d = map_option sError (find (\<lambda>s. sRunID s = i \<and> sStatus s = Failed) (steps d))"

definition lastOutput :: "string \<Rightarrow> db \<Rightarrow> bytes" where
  "lastOutput i d = (case sort_key (\<lambda>s. - sOrd s) (filter (\<lambda>s. sRunID s = i) (steps d)) of
     [] \<Rightarrow> [] | s # _ \<Rightarrow> sOutput s)"

text \<open>Ending the run, and deleting it when it is ephemeral.\<close>

definition endRun :: "string \<Rightarrow> bool \<Rightarrow> status \<Rightarrow> bytes \<Rightarrow> string \<Rightarrow> time \<Rightarrow> db \<Rightarrow> db" where
  "endRun i ephemeral st output e now d =
     (let d' = upd_runs (openRun i) (finishRunRow st output e now) d
      in if ephemeral then deleteEphemeralRunTx i d' else d')"

definition liveStep :: "string \<Rightarrow> step \<Rightarrow> bool" where
  "liveStep i s \<longleftrightarrow> sID s = i \<and> (sStatus s = Queued \<or> sStatus s = Running)"

definition completeStepTx ::
  "backend \<Rightarrow> string \<Rightarrow> string \<Rightarrow> string \<Rightarrow> nat \<Rightarrow> bytes \<Rightarrow> time \<Rightarrow> db \<Rightarrow> err + db \<times> completeResult" where
  "completeStepTx be stepID runID stepName stepCount output now d =
     (case find_run runID d of
        None \<Rightarrow> Inl ErrNoRows
      | Some r \<Rightarrow>
          if IsTerminal (rStatus r) then
            Inr (upd_steps (liveStep stepID) (\<lambda>s. s\<lparr>sStatus := Cancelled, sCompletedAt := now\<rparr>) d,
                 zeroResult)
          else if count_where (liveStep stepID) (steps d) = 0 then Inr (d, zeroResult)
          else
            let d1 = upd_steps (liveStep stepID) (succeedRow output now) d;
                res = zeroResult\<lparr>crStepDone := True, crRunStatus := Some Running\<rparr> in
            if stepCount = 1 then
              Inr (endRun runID (rEphemeral r) Succeeded output '''' now d1,
                   res\<lparr>crRunTerminal := True, crRunStatus := Some Succeeded, crRunError := '''',
                     crRunOutput := output\<rparr>)
            else
              let (d2, res2) = unblockReadyTx be runID stepName now res d1 in
              if runActive runID d2 then Inr (d2, res2)
              else
                let failed = failedError runID d2;
                    st = (if failed = None then Succeeded else Failed);
                    e = (case failed of None \<Rightarrow> '''' | Some m \<Rightarrow> m);
                    out = lastOutput runID d2
                in Inr (endRun runID (rEphemeral r) st out e now d2,
                        res2\<lparr>crRunTerminal := True, crRunStatus := Some st, crRunError := e,
                          crRunOutput := out\<rparr>))"

definition stepCount :: "string \<Rightarrow> db \<Rightarrow> nat" where
  "stepCount i d = count_where (\<lambda>s. sRunID s = i) (steps d)"

definition CompleteStep ::
  "backend \<Rightarrow> string \<Rightarrow> string \<Rightarrow> string \<Rightarrow> bytes \<Rightarrow> time \<Rightarrow> db \<Rightarrow> err + db \<times> completeResult" where
  "CompleteStep be stepID runID name output now d =
     completeStepTx be stepID runID name (stepCount runID d) output now d"

text \<open>
  A batch: the step counts of all its runs are read once, before the first completion; an
  error of any completion rolls the whole batch back.
\<close>

fun completeAll ::
  "backend \<Rightarrow> (string \<Rightarrow> nat) \<Rightarrow> completion list \<Rightarrow> db \<Rightarrow> err + db \<times> completeResult list" where
  "completeAll be counts [] d = Inr (d, [])"
| "completeAll be counts (c # cs) d =
     (case completeStepTx be (coStepID c) (coRunID c) (coName c) (counts (coRunID c))
             (coOutput c) (coNow c) d of
        Inl e \<Rightarrow> Inl e
      | Inr (d', res) \<Rightarrow>
          (case completeAll be counts cs d' of
             Inl e \<Rightarrow> Inl e
           | Inr (d'', rs) \<Rightarrow> Inr (d'', res # rs)))"

definition CompleteSteps ::
  "backend \<Rightarrow> completion list \<Rightarrow> db \<Rightarrow> err + db \<times> completeResult list" where
  "CompleteSteps be comps d = completeAll be (\<lambda>i. stepCount i d) comps d"

section \<open>The other outcomes of an execution\<close>

definition runningStep :: "string \<Rightarrow> step \<Rightarrow> bool" where
  "runningStep i s \<longleftrightarrow> sID s = i \<and> sStatus s = Running"

definition RetryStep :: "string \<Rightarrow> string \<Rightarrow> time \<Rightarrow> db \<Rightarrow> db" where
  "RetryStep stepID errMsg nextRunAt = upd_steps (runningStep stepID)
     (\<lambda>s. s\<lparr>sStatus := Queued, sError := errMsg, sRunAt := nextRunAt\<rparr>)"

definition refund :: "int \<Rightarrow> int" where
  "refund a = (if a > 0 then a - 1 else a)"

definition ParkStep :: "string \<Rightarrow> string \<Rightarrow> time \<Rightarrow> db \<Rightarrow> db" where
  "ParkStep stepID errMsg nextRunAt = upd_steps (runningStep stepID)
     (\<lambda>s. s\<lparr>sStatus := Queued, sError := errMsg, sRunAt := nextRunAt, sClaimedAt := 0,
        sAttempts := refund (sAttempts s)\<rparr>)"

definition RequeuePausedStep :: "string \<Rightarrow> db \<Rightarrow> db" where
  "RequeuePausedStep stepID = upd_steps (runningStep stepID)
     (\<lambda>s. s\<lparr>sStatus := Queued, sClaimedAt := 0, sWorkerID := '''', sLeaseExpiresAt := 0,
        sAttempts := refund (sAttempts s)\<rparr>)"

definition StepCancelled :: "string \<Rightarrow> time \<Rightarrow> db \<Rightarrow> db" where
  "StepCancelled stepID now = upd_steps
     (\<lambda>s. sID s = stepID \<and> (sStatus s = Queued \<or> sStatus s = Running \<or> sStatus s = Suspended))
     (\<lambda>s. s\<lparr>sStatus := Cancelled, sCompletedAt := now, sResumeAt := 0, sWaitKind := '''',
        sWaitEvent := ''''\<rparr>)"

definition failRow :: "string \<Rightarrow> time \<Rightarrow> step \<Rightarrow> step" where
  "failRow errMsg now s = s\<lparr>sStatus := Failed, sError := errMsg, sCompletedAt := now\<rparr>"

definition cancelRow :: "time \<Rightarrow> step \<Rightarrow> step" where
  "cancelRow now s = s\<lparr>sStatus := Cancelled, sCompletedAt := now\<rparr>"

text \<open>
  The failing step is written without a guard on its status; the unfinished siblings are
  read and cancelled by id. A dead letter is only recorded for a run that is not ephemeral.
\<close>

definition FinalFailStep ::
  "string \<Rightarrow> string \<Rightarrow> string \<Rightarrow> bool \<Rightarrow> time \<Rightarrow> db \<Rightarrow> err + db \<times> completeResult" where
  "FinalFailStep stepID runID errMsg deadLetter now d =
     (case find_run runID d of
        None \<Rightarrow> Inl ErrNoRows
      | Some r \<Rightarrow>
          let d1 = upd_steps (\<lambda>s. sID s = stepID) (failRow errMsg now) d;
              siblings = filter (\<lambda>s. sRunID s = runID \<and> unfinished (sStatus s) \<and> sID s \<noteq> stepID) (steps d1);
              ids = map sID siblings;
              d2 = upd_steps (\<lambda>s. List.member ids (sID s)) (cancelRow now) d1;
              d3 = upd_runs (openRun runID) (\<lambda>r. r\<lparr>rStatus := Failed, rError := errMsg,
                     rCompletedAt := now, rUniqueKey := '''',
                     rDeadLetteredAt := (if deadLetter \<and> \<not> rEphemeral r then now
                       else rDeadLetteredAt r)\<rparr>) d2
          in Inr (if rEphemeral r then deleteEphemeralRunTx runID d3 else d3,
                  zeroResult\<lparr>crStepDone := True, crCancelledSteps := map sName siblings,
                    crCancelledStepIDs := ids, crRunTerminal := True, crRunStatus := Some Failed,
                    crRunError := errMsg\<rparr>))"

section \<open>Frames\<close>

lemma frame_outcomeRows [simp]:
  "step_frame (\<lambda>s. s\<lparr>sStatus := st, sRunAt := t\<rparr>)"
  "step_frame (\<lambda>s. s\<lparr>sStatus := st, sCompletedAt := t\<rparr>)"
  "step_frame (succeedRow output now)"
  "step_frame (failRow e now)"
  "step_frame (cancelRow now)"
  "step_frame (\<lambda>s. s\<lparr>sStatus := st, sError := e, sRunAt := t\<rparr>)"
  "step_frame (\<lambda>s. s\<lparr>sStatus := st, sError := e, sRunAt := t, sClaimedAt := u,
     sAttempts := refund (sAttempts s)\<rparr>)"
  "step_frame (\<lambda>s. s\<lparr>sStatus := st, sClaimedAt := u, sWorkerID := w, sLeaseExpiresAt := l,
     sAttempts := refund (sAttempts s)\<rparr>)"
  "step_frame (\<lambda>s. s\<lparr>sStatus := st, sCompletedAt := t, sResumeAt := u, sWaitKind := k,
     sWaitEvent := e\<rparr>)"
  "run_frame (finishRunRow st output e now)"
  by (simp_all add: step_frame_def run_frame_def succeedRow_def failRow_def cancelRow_def
      finishRunRow_def)

lemma outcomeRows_status [simp]:
  "sStatus (succeedRow output now s) = Succeeded"
  "sStatus (failRow e now s) = Failed"
  "sStatus (cancelRow now s) = Cancelled"
  "rStatus (finishRunRow st output e now r) = st"
  "rUniqueKey (finishRunRow st output e now r) = ''''"
  by (simp_all add: succeedRow_def failRow_def cancelRow_def finishRunRow_def)

lemma not_needs_deps [simp]: "\<not> needs_deps Cancelled" "\<not> needs_deps Succeeded" "\<not> needs_deps Failed"
  by simp_all

section \<open>Unblocking as one update\<close>

lemma depStatus_Some:
  assumes "depStatus d i n = Some st"
  obtains t where "t \<in> set (steps d)" "sRunID t = i" "sName t = n" "sStatus t = st"
proof -
  let ?f = "\<lambda>s acc. if sRunID s = i \<and> sName s = n then Some (sStatus s) else acc"
  have "fold ?f ss acc = Some st \<Longrightarrow> acc = Some st \<or>
      (\<exists>t \<in> set ss. sRunID t = i \<and> sName t = n \<and> sStatus t = st)" for ss acc
  proof (induction ss arbitrary: acc)
    case (Cons s ss)
    then show ?case by (fastforce split: if_splits)
  qed simp
  from this [of "steps d" None] assms that show ?thesis by (auto simp: depStatus_def)
qed

lemma depsReady_dep_ok: "depsReady d (sRunID s) (sDependsOn s) \<Longrightarrow> dep_ok d s"
  by (auto simp: depsReady_def dep_ok_def list_all_iff elim: depStatus_Some)

lemma upd_steps_compose:
  "upd_steps P f (upd_steps Q g d) =
     d\<lparr>steps := map (\<lambda>s. let s' = if Q s then g s else s in if P s' then f s' else s') (steps d)\<rparr>"
  by (simp add: upd_steps_def update_where_def Let_def)

lemma fold_queueBlocked:
  "fold (\<lambda>b. queueBlocked (sID b) now) bs d =
     upd_steps (\<lambda>s. sID s \<in> sID ` set bs \<and> sStatus s = Blocked) (\<lambda>s. s\<lparr>sStatus := Queued, sRunAt := now\<rparr>) d"
proof (induction bs arbitrary: d)
  case Nil
  then show ?case by (simp add: upd_steps_def update_where_id)
next
  case (Cons b bs)
  have "fold (\<lambda>b. queueBlocked (sID b) now) (b # bs) d =
      upd_steps (\<lambda>s. sID s \<in> sID ` set bs \<and> sStatus s = Blocked)
        (\<lambda>s. s\<lparr>sStatus := Queued, sRunAt := now\<rparr>) (queueBlocked (sID b) now d)"
    by (simp add: Cons.IH)
  also have "\<dots> = upd_steps (\<lambda>s. sID s \<in> sID ` set (b # bs) \<and> sStatus s = Blocked)
        (\<lambda>s. s\<lparr>sStatus := Queued, sRunAt := now\<rparr>) d"
    unfolding queueBlocked_def upd_steps_compose by (auto simp: upd_steps_def update_where_def)
  finally show ?case .
qed

lemma unblockReadyTx_steps:
  assumes "unblockReadyTx be runID n now res d = (d', res')"
  shows "d' = upd_steps (\<lambda>s. sID s \<in> sID ` set (filter (\<lambda>b. depsReady d runID (sDependsOn b))
      (BlockedDependents be d runID Blocked n)) \<and> sStatus s = Blocked)
      (\<lambda>s. s\<lparr>sStatus := Queued, sRunAt := now\<rparr>) d"
    and "res' = res\<lparr>crReadySteps := crReadySteps res @ map sName (filter
      (\<lambda>b. depsReady d runID (sDependsOn b)) (BlockedDependents be d runID Blocked n))\<rparr>"
  using assms by (simp_all add: unblockReadyTx_def Let_def fold_queueBlocked)

context Backend_Contract begin

lemma integrity_unblockReadyTx:
  assumes "integrity d" and u: "unblockReadyTx be runID n now res d = (d', res')"
  shows "integrity d'"
  unfolding unblockReadyTx_steps(1) [OF u]
proof (rule integrity_upd_steps [OF assms(1)])
  fix s
  assume s: "s \<in> set (steps d)" and
    P: "sID s \<in> sID ` set (filter (\<lambda>b. depsReady d runID (sDependsOn b))
      (BlockedDependents be d runID Blocked n)) \<and> sStatus s = Blocked"
  then obtain b where b: "b \<in> set (steps d)" "sID b = sID s" "sRunID b = runID"
    "depsReady d runID (sDependsOn b)"
    by (auto simp: blocked_dependents)
  have "b = s" using b(1,2) s integrityD(2) [OF assms(1)] by (metis find_key_Some option.inject)
  with b depsReady_dep_ok [of d s] show "needs_deps (sStatus s) \<or> dep_ok d s" by simp
qed auto

end

section \<open>Preservation of the invariants\<close>

lemma integrity_endRun:
  assumes "integrity d" and "st = Succeeded \<or> st = Failed"
  shows "integrity (endRun i e st output m now d)"
proof -
  have "integrity (upd_runs (openRun i) (finishRunRow st output m now) d)"
    by (rule integrity_upd_runs [OF assms(1)]) (use assms(2) in auto)
  then show ?thesis by (simp add: endRun_def Let_def integrity_deleteEphemeralRunTx)
qed

lemma integrity_cancel_live:
  assumes "integrity d" and "\<And>s. P s \<Longrightarrow> sStatus s \<noteq> Succeeded"
    and "step_frame f" and "\<And>s. sStatus (f s) = Cancelled"
  shows "integrity (upd_steps P f d)"
  by (rule integrity_upd_steps [OF assms(1)]) (use assms in auto)

lemma integrity_requeue:
  assumes "integrity d" and "\<And>s. P s \<Longrightarrow> sStatus s = Running \<or> sStatus s = Queued \<or> sStatus s = Suspended"
    and "step_frame f" and "\<And>s. P s \<Longrightarrow> sStatus (f s) = Queued \<or> sStatus (f s) = sStatus s"
  shows "integrity (upd_steps P f d)"
  by (rule integrity_upd_steps [OF assms(1)]) (use assms(2-4) in fastforce)+

context Backend_Contract begin

lemma integrity_completeStepTx:
  assumes "integrity d" and "completeStepTx be stepID runID n cnt output now d = Inr (d', res)"
  shows "integrity d'"
proof -
  let ?d1 = "upd_steps (liveStep stepID) (succeedRow output now) d"
  have c: "integrity (upd_steps (liveStep stepID) (\<lambda>s. s\<lparr>sStatus := Cancelled, sCompletedAt := now\<rparr>) d)"
    by (rule integrity_cancel_live [OF assms(1)]) (auto simp: liveStep_def)
  have 1: "integrity ?d1"
    by (rule integrity_upd_steps [OF assms(1)]) (auto simp: liveStep_def)
  obtain d2 r2 where u: "unblockReadyTx be runID n now
      (zeroResult\<lparr>crStepDone := True, crRunStatus := Some Running\<rparr>) ?d1 = (d2, r2)" by fastforce
  have 2: "integrity d2" by (rule integrity_unblockReadyTx [OF 1 u])
  show ?thesis
    using assms c 1 2 u
    by (auto simp: completeStepTx_def Let_def integrity_endRun split: option.splits if_splits)
qed

lemma integrity_completeAll:
  "integrity d \<Longrightarrow> completeAll be counts cs d = Inr (d', rs) \<Longrightarrow> integrity d'"
proof (induction cs arbitrary: d rs)
  case (Cons c cs)
  then show ?case
    by (fastforce split: sum.splits dest: integrity_completeStepTx)
qed simp

end

lemma integrity_RetryStep: "integrity d \<Longrightarrow> integrity (RetryStep i e t d)"
  unfolding RetryStep_def by (rule integrity_requeue) (auto simp: runningStep_def)

lemma integrity_ParkStep: "integrity d \<Longrightarrow> integrity (ParkStep i e t d)"
  unfolding ParkStep_def by (rule integrity_requeue) (auto simp: runningStep_def)

lemma integrity_RequeuePausedStep: "integrity d \<Longrightarrow> integrity (RequeuePausedStep i d)"
  unfolding RequeuePausedStep_def by (rule integrity_requeue) (auto simp: runningStep_def)

lemma integrity_StepCancelled: "integrity d \<Longrightarrow> integrity (StepCancelled i t d)"
  unfolding StepCancelled_def by (rule integrity_cancel_live) auto

text \<open>
  The failing step must not have succeeded already: with a single executor per step it is
  the RUNNING step of the caller.
\<close>

lemma integrity_FinalFailStep:
  assumes "integrity d" and "FinalFailStep stepID runID e dl now d = Inr (d', res)"
    and "\<And>s. s \<in> set (steps d) \<Longrightarrow> sID s = stepID \<Longrightarrow> sStatus s \<noteq> Succeeded"
  shows "integrity d'"
proof -
  let ?d1 = "upd_steps (\<lambda>s. sID s = stepID) (failRow e now) d"
  let ?sib = "filter (\<lambda>s. sRunID s = runID \<and> unfinished (sStatus s) \<and> sID s \<noteq> stepID) (steps ?d1)"
  let ?d2 = "upd_steps (\<lambda>s. List.member (map sID ?sib) (sID s)) (cancelRow now) ?d1"
  let ?f = "\<lambda>dead r. r\<lparr>rStatus := Failed, rError := e, rCompletedAt := now, rUniqueKey := '''',
    rDeadLetteredAt := (if dead \<and> \<not> rEphemeral r then now else rDeadLetteredAt r)\<rparr>"
  have 1: "integrity ?d1"
    by (rule integrity_upd_steps [OF assms(1)]) (use assms(3) in auto)
  have 2: "integrity ?d2"
  proof (rule integrity_upd_steps [OF 1])
    fix s assume s: "s \<in> set (steps ?d1)" "List.member (map sID ?sib) (sID s)"
    then obtain t where t: "t \<in> set (steps ?d1)" "sID t = sID s" "unfinished (sStatus t)"
      by auto
    have "t = s" using t(1,2) s(1) integrityD(2) [OF 1] by (metis find_key_Some option.inject)
    with t(3) show "sStatus s = Succeeded \<Longrightarrow> sStatus (cancelRow now s) = Succeeded" by simp
  qed auto
  have 3: "integrity (upd_runs (openRun runID) (?f dl) ?d2)"
    by (rule integrity_upd_runs [OF 2]) (auto simp: run_frame_def)
  with assms(2) show ?thesis
    by (auto simp: FinalFailStep_def Let_def integrity_deleteEphemeralRunTx split: option.splits if_splits)
qed

end
