(* ===== verification/Control.thy ===== *)
theory Control
  imports Complete
begin

text \<open>
  Operator control of single runs (internal/store/queries.go): cancelling, snoozing,
  pausing, resuming, and the dead-letter queue. Each operation takes the run's row lock,
  reads the row, refuses by its status, and otherwise rewrites the run and its steps; the
  result carries the database of the committed transaction, or the error of a rolled-back
  one.
\<close>

section \<open>Cancelling\<close>

definition cancelRunRow :: "time \<Rightarrow> run \<Rightarrow> run" where
  "cancelRunRow now r = r\<lparr>rStatus := Cancelled, rCompletedAt := now, rUniqueKey := ''''\<rparr>"

definition replaceRunTx :: "string \<Rightarrow> time \<Rightarrow> db \<Rightarrow> db \<times> string list" where
  "replaceRunTx runID now d =
     (upd_steps (\<lambda>s. sRunID s = runID \<and> unfinished (sStatus s)) (cancelRow now)
        (upd_runs (\<lambda>r. rID r = runID) (cancelRunRow now) d),
      runningStepIDs runID d)"

definition cancelRunTx :: "string \<Rightarrow> time \<Rightarrow> db \<Rightarrow> db" where
  "cancelRunTx runID now d =
     upd_steps (\<lambda>s. sRunID s = runID \<and>
         (sStatus s = Queued \<or> sStatus s = Blocked \<or> sStatus s = Suspended)) (cancelRow now)
       (upd_runs (\<lambda>r. rID r = runID) (cancelRunRow now) d)"

definition cancelOrDeleteRunTx :: "string \<Rightarrow> time \<Rightarrow> db \<Rightarrow> db \<times> string list" where
  "cancelOrDeleteRunTx runID now d =
     (case find_run runID d of
        None \<Rightarrow> (d, [])
      | Some r \<Rightarrow>
          ((if rEphemeral r then deleteEphemeralRunTx runID d else cancelRunTx runID now d),
           runningStepIDs runID d))"

definition CancelRun :: "string \<Rightarrow> time \<Rightarrow> db \<Rightarrow> err + db \<times> string list \<times> status \<times> bool" where
  "CancelRun runID now d =
     (case find_run runID d of
        None \<Rightarrow> Inl ErrNotFound
      | Some r \<Rightarrow>
          if IsTerminal (rStatus r) then Inr (d, [], rStatus r, False)
          else Inr ((if rEphemeral r then deleteEphemeralRunTx runID d else cancelRunTx runID now d),
                    runningStepIDs runID d, rStatus r, True))"

section \<open>Snoozing, pausing, resuming\<close>

definition Snooze :: "string \<Rightarrow> time \<Rightarrow> db \<Rightarrow> err + db" where
  "Snooze runID until d =
     (case find_run runID d of
        None \<Rightarrow> Inl ErrNotFound
      | Some r \<Rightarrow>
          if IsTerminal (rStatus r) then Inl ErrRunTerminal
          else if count_where (\<lambda>s. sRunID s = runID \<and> sStatus s = Running) (steps d) > 0
            then Inl ErrRunRunning
          else Inr (upd_runs (\<lambda>r. rID r = runID) (\<lambda>r. r\<lparr>rRunAt := until\<rparr>)
                 (upd_steps (\<lambda>s. sRunID s = runID \<and> sStatus s = Queued) (\<lambda>s. s\<lparr>sRunAt := until\<rparr>) d)))"

definition PauseRun :: "string \<Rightarrow> time \<Rightarrow> db \<Rightarrow> err + db \<times> string list \<times> status \<times> bool" where
  "PauseRun runID now d =
     (case find_run runID d of
        None \<Rightarrow> Inl ErrNotFound
      | Some r \<Rightarrow>
          if IsTerminal (rStatus r) then Inl ErrRunTerminal
          else if rStatus r = Paused then Inr (d, [], rStatus r, False)
          else Inr (upd_runs (\<lambda>r. rID r = runID) (\<lambda>r. r\<lparr>rStatus := Paused, rPausedAt := now\<rparr>) d,
                    runningStepIDs runID d, rStatus r, True))"

definition ResumeRun :: "string \<Rightarrow> time \<Rightarrow> db \<Rightarrow> err + db" where
  "ResumeRun runID now d =
     (case find_run runID d of
        None \<Rightarrow> Inl ErrNotFound
      | Some r \<Rightarrow>
          if IsTerminal (rStatus r) then Inl ErrRunTerminal
          else if rStatus r \<noteq> Paused then Inr d
          else Inr (upd_runs (\<lambda>r. rID r = runID)
                      (\<lambda>r. r\<lparr>rStatus := Queued, rRunAt := now, rPausedAt := 0\<rparr>)
                 (upd_steps (\<lambda>s. sRunID s = runID \<and> sStatus s = Queued) (\<lambda>s. s\<lparr>sRunAt := now\<rparr>) d)))"

section \<open>Dead letters\<close>

definition DeadLetters :: "string \<Rightarrow> string \<Rightarrow> int \<Rightarrow> int \<Rightarrow> db \<Rightarrow> run list" where
  "DeadLetters workflow queue limit offset d =
     (let limit = (if limit \<le> 0 then 100 else limit) in
      take (nat limit) (drop (nat offset) (sort_key (\<lambda>r. - rDeadLetteredAt r)
        (filter (\<lambda>r. rDeadLetteredAt r > 0 \<and> (workflow \<noteq> '''' \<longrightarrow> rWorkflow r = workflow) \<and>
            (queue \<noteq> '''' \<longrightarrow> rQueue r = queue)) (runs d)))))"

definition resetStepRow :: "status \<Rightarrow> time \<Rightarrow> step \<Rightarrow> step" where
  "resetStepRow st now s = s\<lparr>sStatus := st, sAttempts := 0, sError := '''', sOutput := [],
     sStartedAt := 0, sCompletedAt := 0, sClaimedAt := 0, sWorkerID := '''',
     sLeaseExpiresAt := 0, sResumeAt := 0, sWaitKind := '''', sWaitEvent := '''', sRunAt := now\<rparr>"

definition resetRunRow :: "time \<Rightarrow> run \<Rightarrow> run" where
  "resetRunRow now r = r\<lparr>rStatus := Queued, rAttempts := 0, rError := '''', rOutput := [],
     rStartedAt := 0, rCompletedAt := 0, rRunAt := now, rDeadLetteredAt := 0\<rparr>"

definition reopenStatus :: "step \<Rightarrow> status" where
  "reopenStatus s = (if length (sDependsOn s) > 0 then Blocked else Queued)"

definition RetryDeadLetter :: "string \<Rightarrow> time \<Rightarrow> db \<Rightarrow> err + db" where
  "RetryDeadLetter runID now d =
     (case find_run runID d of
        None \<Rightarrow> Inl ErrNotFound
      | Some r \<Rightarrow>
          if rStatus r \<noteq> Failed \<or> rDeadLetteredAt r = 0 then Inl ErrNotDeadLetter
          else
            let stepRows = filter (\<lambda>s. sRunID s = runID) (steps d);
                d1 = fold (\<lambda>sr. upd_steps (\<lambda>s. sID s = sID sr) (resetStepRow (reopenStatus sr) now))
                       stepRows d
            in Inr (upd_runs (\<lambda>r. rID r = runID) (resetRunRow now) d1))"

definition DismissDeadLetter :: "string \<Rightarrow> db \<Rightarrow> err + db" where
  "DismissDeadLetter runID d =
     (if count_where (\<lambda>r. rID r = runID \<and> rDeadLetteredAt r > 0) (runs d) = 0
      then Inl ErrNotDeadLetter
      else Inr (upd_runs (\<lambda>r. rID r = runID \<and> rDeadLetteredAt r > 0) (\<lambda>r. r\<lparr>rDeadLetteredAt := 0\<rparr>) d))"

section \<open>Frames\<close>

lemma frame_controlRows [simp]:
  "run_frame (cancelRunRow now)"
  "run_frame (\<lambda>r. r\<lparr>rRunAt := t\<rparr>)"
  "run_frame (\<lambda>r. r\<lparr>rStatus := st, rPausedAt := t\<rparr>)"
  "run_frame (\<lambda>r. r\<lparr>rStatus := st, rRunAt := u, rPausedAt := t\<rparr>)"
  "run_frame (\<lambda>r. r\<lparr>rDeadLetteredAt := t\<rparr>)"
  "run_frame (resetRunRow now)"
  "step_frame (\<lambda>s. s\<lparr>sRunAt := t\<rparr>)"
  "step_frame (resetStepRow st now)"
  by (simp_all add: run_frame_def step_frame_def cancelRunRow_def resetRunRow_def resetStepRow_def)

lemma controlRows_sel [simp]:
  "rStatus (cancelRunRow now r) = Cancelled"
  "rUniqueKey (cancelRunRow now r) = ''''"
  "rStatus (resetRunRow now r) = Queued"
  "sStatus (resetStepRow st now s) = st"
  "sID (resetStepRow st now s) = sID s"
  "sRunID (resetStepRow st now s) = sRunID s"
  "sDependsOn (resetStepRow st now s) = sDependsOn s"
  "sStatus (cancelRow now s) = Cancelled"
  "sRunID (cancelRow now s) = sRunID s"
  "sID (cancelRow now s) = sID s"
  by (simp_all add: cancelRunRow_def resetRunRow_def resetStepRow_def cancelRow_def)

section \<open>Preservation of the invariants\<close>

lemma integrity_cancelRunRow:
  "integrity d \<Longrightarrow> integrity (upd_runs P (cancelRunRow now) d)"
  by (rule integrity_upd_runs) auto

lemma integrity_cancelRunTx: "integrity d \<Longrightarrow> integrity (cancelRunTx i now d)"
  unfolding cancelRunTx_def
  by (rule integrity_cancel_live [OF integrity_cancelRunRow]) auto

lemma integrity_replaceRunTx: "integrity d \<Longrightarrow> integrity (fst (replaceRunTx i now d))"
  unfolding replaceRunTx_def fst_conv
  by (rule integrity_cancel_live [OF integrity_cancelRunRow]) auto

lemma integrity_cancelOrDeleteRunTx: "integrity d \<Longrightarrow> integrity (fst (cancelOrDeleteRunTx i now d))"
  by (simp add: cancelOrDeleteRunTx_def integrity_cancelRunTx integrity_deleteEphemeralRunTx
      split: option.split)

lemma integrity_CancelRun: "integrity d \<Longrightarrow> CancelRun i now d = Inr (d', x) \<Longrightarrow> integrity d'"
  by (auto simp: CancelRun_def integrity_cancelRunTx integrity_deleteEphemeralRunTx
      split: option.splits if_splits)

lemma integrity_reschedule:
  assumes "integrity d" and "run_frame f" and "\<And>r. rStatus (f r) = Queued \<or> rStatus (f r) = rStatus r"
  shows "integrity (upd_runs (\<lambda>r. rID r = i) f
    (upd_steps (\<lambda>s. sRunID s = i \<and> sStatus s = Queued) (\<lambda>s. s\<lparr>sRunAt := t\<rparr>) d))"
proof (rule integrity_upd_runs)
  show 1: "integrity (upd_steps (\<lambda>s. sRunID s = i \<and> sStatus s = Queued) (\<lambda>s. s\<lparr>sRunAt := t\<rparr>) d)"
    by (rule integrity_requeue [OF assms(1)]) auto
  fix r assume r: "r \<in> set (runs (upd_steps (\<lambda>s. sRunID s = i \<and> sStatus s = Queued)
    (\<lambda>s. s\<lparr>sRunAt := t\<rparr>) d))"
  show "rStatus (f r) \<noteq> Blocked \<and> rStatus (f r) \<noteq> Suspended"
    using assms(3) [of r] assms(1) r by (auto simp: integrity_defs)
  show "IsTerminal (rStatus (f r)) \<Longrightarrow> rUniqueKey (f r) = ''''"
    using assms(2,3) assms(1) r unfolding run_frame_def integrity_def keys_freed_def
    by (metis IsTerminal.simps(5) upd_steps_sel(2))
qed (use assms in auto)

lemma integrity_Snooze: "integrity d \<Longrightarrow> Snooze i t d = Inr d' \<Longrightarrow> integrity d'"
  by (auto simp: Snooze_def split: option.splits if_splits intro!: integrity_reschedule)

lemma integrity_ResumeRun: "integrity d \<Longrightarrow> ResumeRun i t d = Inr d' \<Longrightarrow> integrity d'"
  by (auto simp: ResumeRun_def split: option.splits if_splits intro!: integrity_reschedule)

lemma integrity_PauseRun: "integrity d \<Longrightarrow> PauseRun i t d = Inr (d', x) \<Longrightarrow> integrity d'"
  by (auto simp: PauseRun_def split: option.splits if_splits intro!: integrity_upd_runs)

lemma integrity_DismissDeadLetter: "integrity d \<Longrightarrow> DismissDeadLetter i d = Inr d' \<Longrightarrow> integrity d'"
  by (auto simp: DismissDeadLetter_def integrityD(5) split: if_splits intro!: integrity_upd_runs)
    (auto simp: integrity_defs)

section \<open>Reopening a run rewrites all of its steps\<close>

lemma fold_reset_other:
  assumes "k \<notin> sID ` set srs"
  shows "fold (\<lambda>sr. if sID sr = k then g sr else id) srs s = s"
  using assms by (induction srs arbitrary: s) auto

lemma fold_upd_steps:
  "steps (fold (\<lambda>sr. upd_steps (P sr) (f sr)) srs d) =
     map (fold (\<lambda>sr s. if P sr s then f sr s else s) srs) (steps d)"
  by (induction srs arbitrary: d) (simp_all add: upd_steps_def update_where_def)

lemma fold_upd_steps_frame:
  "fold (\<lambda>sr. upd_steps (P sr) (f sr)) srs d =
     d\<lparr>steps := map (fold (\<lambda>sr s. if P sr s then f sr s else s) srs) (steps d)\<rparr>"
  by (induction srs arbitrary: d) (simp_all add: upd_steps_def update_where_def)

lemma fold_reset_point:
  assumes "distinct (map sID srs)" and "\<And>sr s. sID (f sr s) = sID s"
  shows "fold (\<lambda>sr s. if sID s = sID sr then f sr s else s) srs s =
    (case find (\<lambda>sr. sID sr = sID s) srs of None \<Rightarrow> s | Some sr \<Rightarrow> f sr s)"
  using assms(1)
proof (induction srs arbitrary: s)
  case (Cons a srs)
  show ?case
  proof (cases "sID a = sID s")
    case True
    with Cons.prems have "find (\<lambda>sr. sID sr = sID (f a s)) srs = None"
      by (auto simp: find_None_iff assms(2)) (metis image_eqI)
    with Cons.IH [of "f a s"] Cons.prems True show ?thesis by simp
  next
    case False
    with Cons show ?thesis by auto
  qed
qed simp

lemma reset_all:
  assumes "distinct (map sID (steps d))"
  shows "fold (\<lambda>sr. upd_steps (\<lambda>s. sID s = sID sr) (resetStepRow (reopenStatus sr) now))
      (filter (\<lambda>s. sRunID s = i) (steps d)) d =
    upd_steps (\<lambda>s. sRunID s = i) (\<lambda>s. resetStepRow (reopenStatus s) now s) d"
proof -
  let ?F = "filter (\<lambda>s. sRunID s = i) (steps d)"
  have F: "distinct (map sID ?F)" using assms by (rule distinct_map_filter)
  have "fold (\<lambda>sr s. if sID s = sID sr then resetStepRow (reopenStatus sr) now s else s) ?F s =
      (if sRunID s = i then resetStepRow (reopenStatus s) now s else s)" if s: "s \<in> set (steps d)" for s
  proof -
    have "find (\<lambda>sr. sID sr = sID s) ?F = (if sRunID s = i then Some s else None)"
    proof (cases "sRunID s = i")
      case True
      with s show ?thesis by (simp add: find_key_Some [OF F])
    next
      case False
      have "t = s" if "t \<in> set (steps d)" "sID t = sID s" for t
        using that s assms by (metis find_key_Some option.inject)
      with False show ?thesis by (auto simp: find_None_iff)
    qed
    then show ?thesis by (subst fold_reset_point [OF F]) simp_all
  qed
  then show ?thesis
    by (simp add: fold_upd_steps_frame) (simp add: upd_steps_def update_where_def)
qed

lemma integrity_reset_run:
  assumes "integrity d"
  shows "integrity (upd_steps (\<lambda>s. sRunID s = i) (\<lambda>s. resetStepRow (reopenStatus s) now s) d)"
    (is "integrity ?d")
proof -
  have fr: "step_frame (\<lambda>s. resetStepRow (reopenStatus s) now s)"
    by (simp add: step_frame_def resetStepRow_def)
  have "keys_wf ?d"
    using assms fr by (simp add: integrity_def keys_wf_upd_steps)
  moreover have "deps_met ?d"
    unfolding deps_met_def upd_steps_sel ball_update_where
  proof
    fix s assume s: "s \<in> set (steps d)"
    have "dep_ok ?d s" if "needs_deps (sStatus s)" "sRunID s \<noteq> i"
      by (rule dep_ok_upd_steps [OF fr integrityD(7) [OF assms s]]) (use that in auto)
    moreover have "dep_ok ?d (resetStepRow (reopenStatus s) now s)" if "needs_deps (reopenStatus s)"
      using that by (cases "sDependsOn s") (simp_all add: dep_ok_def reopenStatus_def)
    ultimately show "if sRunID s = i
        then needs_deps (sStatus (resetStepRow (reopenStatus s) now s)) \<longrightarrow>
          dep_ok ?d (resetStepRow (reopenStatus s) now s)
        else needs_deps (sStatus s) \<longrightarrow> dep_ok ?d s"
      by simp
  qed
  moreover have "status_dom ?d"
    using assms by (auto simp: integrity_def status_dom_def ball_update_where reopenStatus_def)
  ultimately show ?thesis
    using assms by (simp add: integrity_def uniq_index_def keys_freed_def)
qed

lemma RetryDeadLetter_eq:
  assumes "integrity d" and "RetryDeadLetter i now d = Inr d'"
  shows "d' = upd_runs (\<lambda>r. rID r = i) (resetRunRow now)
    (upd_steps (\<lambda>s. sRunID s = i) (\<lambda>s. resetStepRow (reopenStatus s) now s) d)"
  using assms reset_all [OF integrityD(2) [OF assms(1)], of now i]
  by (auto simp: RetryDeadLetter_def Let_def split: option.splits if_splits)

lemma integrity_RetryDeadLetter:
  assumes "integrity d" and "RetryDeadLetter i now d = Inr d'"
  shows "integrity d'"
  unfolding RetryDeadLetter_eq [OF assms]
  by (rule integrity_upd_runs [OF integrity_reset_run [OF assms(1)]]) auto

end
