(* ===== verification/Enqueue.thy ===== *)
theory Enqueue
  imports Control
begin

text \<open>
  Enqueueing (internal/store/queries.go: CreateRuns, CreateRunsUnique, createRunsUniqueTx,
  allocSeq, liveRunByUnique, applyConcurrencyStrategy, insertRunsTx, insertRunsChunk). A
  batch is resolved run by run against the live runs of the same transaction; plain runs
  are collected and written by multi-row INSERT statements whose number of bound parameters
  is capped. A multi-row INSERT is modelled row by row: a row that violates a constraint
  fails the statement, and with it the transaction.
\<close>

section \<open>INSERT statements\<close>

text \<open>The bound parameters; \<open>AList\<close> is the JSON text of a string list.\<close>

datatype arg = AText string | AInt int | ABytes bytes | ANull | AKind kind | AStatus status
  | AList "string list"

definition boolInt :: "bool \<Rightarrow> int" where
  "boolInt b = (if b then 1 else 0)"

definition nullableArg :: "string \<Rightarrow> arg" where
  "nullableArg s = (case nullableString s of None \<Rightarrow> ANull | Some t \<Rightarrow> AText t)"

definition runInsertArgs :: "run \<Rightarrow> arg list" where
  "runInsertArgs r = [AText (rID r), AText (rWorkflow r), AKind (rKind r), AStatus (rStatus r),
     AText (rQueue r), AInt (rPriority r), ABytes (rInput r), AInt (rMaxAttempts r),
     AInt (rRunAt r), AInt (rCreatedAt r), AText (rConcurrencyKey r), AText (rParentID r),
     AText (rParentStep r), AText (rTraceParent r), nullableArg (rUniqueKey r),
     AText (rSequenceKey r), AInt (rSeq r), AInt (boolInt (rEphemeral r)), AText (rGroups r)]"

definition stepInsertArgs :: "step \<Rightarrow> arg list" where
  "stepInsertArgs s = [AText (sID s), AText (sRunID s), AText (sName s), AText (sTask s),
     AInt (sOrd s), AStatus (sStatus s), AList (sDependsOn s), AText (sQueue s),
     AInt (sPriority s), ABytes (sInput s), AInt (sMaxAttempts s), AInt (sTimeout s),
     AInt (sRunAt s), AInt (sCreatedAt s), AText (sConcurrencyKey s), AInt (sKeyLimit s),
     AList (sLabels s), AText (sSequenceKey s), AInt (sSeq s)]"

definition keyInsertArgs :: "keyRow \<Rightarrow> arg list" where
  "keyInsertArgs k = [AText (kStep k), AText (kName (kKey k)), AText (kValue (kKey k)),
     AInt (kLimit (kKey k))]"

definition insertMaxParams :: nat where "insertMaxParams = 30000"
definition runInsertArgc :: nat where "runInsertArgc = 19"
definition stepInsertArgc :: nat where "stepInsertArgc = 19"
definition keyInsertArgc :: nat where "keyInsertArgc = 4"

text \<open>
  The rows the statements write: \<open>runInsertRow\<close> and \<open>stepInsertRow\<close> fix output, error,
  attempts and the timestamps, the columns they do not name take the schema's defaults, and
  a step's extra keys go to their own table.
\<close>

definition runRow :: "run \<Rightarrow> run" where
  "runRow r = r\<lparr>rOutput := [], rError := '''', rAttempts := 0, rStartedAt := 0,
     rCompletedAt := 0, rPausedAt := 0, rDeadLetteredAt := 0\<rparr>"

definition stepRow :: "step \<Rightarrow> step" where
  "stepRow s = s\<lparr>sOutput := [], sError := '''', sAttempts := 0, sStartedAt := 0,
     sCompletedAt := 0, sClaimedAt := 0, sResumeAt := 0, sWaitKind := '''', sWaitEvent := '''',
     sWorkerID := '''', sLeaseExpiresAt := 0, sKeys := []\<rparr>"

definition stepKeyRows :: "step \<Rightarrow> keyRow list" where
  "stepKeyRows s = map (\<lambda>k. \<lparr>kStep = sID s, kKey = k\<rparr>) (sKeys s)"

definition insertRunRow :: "run \<Rightarrow> db \<Rightarrow> err + db" where
  "insertRunRow r d =
     (if List.member (map rID (runs d)) (rID r) \<or>
         List.member (keyed_runs (runs d)) (rWorkflow r, rUniqueKey r)
      then Inl ErrUniqueConstraint else Inr (d\<lparr>runs := runs d @ [runRow r]\<rparr>))"

definition insertStepRow :: "step \<Rightarrow> db \<Rightarrow> err + db" where
  "insertStepRow s d =
     (if List.member (map sID (steps d)) (sID s) then Inl ErrUniqueConstraint
      else if \<not> List.member (map rID (runs d)) (sRunID s) then Inl ErrForeignKey
      else Inr (d\<lparr>steps := steps d @ [stepRow s]\<rparr>))"

definition insertKeyRow :: "keyRow \<Rightarrow> db \<Rightarrow> err + db" where
  "insertKeyRow k d =
     (if List.member (map (\<lambda>k. (kStep k, kName (kKey k))) (stepKeys d)) (kStep k, kName (kKey k))
      then Inl ErrUniqueConstraint
      else if \<not> List.member (map sID (steps d)) (kStep k) then Inl ErrForeignKey
      else Inr (d\<lparr>stepKeys := stepKeys d @ [k]\<rparr>))"

datatype stmt = InsertRuns "run list" | InsertSteps "step list" | InsertKeys "keyRow list"

fun stmtArgs :: "stmt \<Rightarrow> arg list" where
  "stmtArgs (InsertRuns rs) = concat (map runInsertArgs rs)"
| "stmtArgs (InsertSteps ss) = concat (map stepInsertArgs ss)"
| "stmtArgs (InsertKeys ks) = concat (map keyInsertArgs ks)"

fun execStmt :: "stmt \<Rightarrow> db \<Rightarrow> err + db" where
  "execStmt (InsertRuns rs) d = foldE insertRunRow rs d"
| "execStmt (InsertSteps ss) d = foldE insertStepRow ss d"
| "execStmt (InsertKeys ks) d = foldE insertKeyRow ks d"

text \<open>
  The statement builder's loop: a row that finds the pending statement full first flushes
  it; the last pending rows are written after the loop.
\<close>

fun flushLoop :: "nat \<Rightarrow> 'a list \<Rightarrow> 'a list \<Rightarrow> 'a list list" where
  "flushLoop maxRows pending [] = (if length pending > 0 then [pending] else [])"
| "flushLoop maxRows pending (x # xs) =
     (if length pending = maxRows
      then (if length pending = 0 then [] else [pending]) @ flushLoop maxRows [x] xs
      else flushLoop maxRows (pending @ [x]) xs)"

definition insertRunsChunk :: "(run \<times> step list) list \<Rightarrow> stmt list" where
  "insertRunsChunk rs =
     InsertRuns (map fst rs) #
     map InsertSteps (flushLoop (insertMaxParams div stepInsertArgc) [] (concat (map snd rs))) @
     map InsertKeys (flushLoop (insertMaxParams div keyInsertArgc) []
       (concat (map stepKeyRows (concat (map snd rs)))))"

definition insertBatch :: "backend \<Rightarrow> nat" where
  "insertBatch be =
     (let batch = (if InsertBatchRows be < 1 then 1 else InsertBatchRows be);
          maxRuns = insertMaxParams div runInsertArgc
      in if batch > maxRuns then maxRuns else batch)"

definition insertStmts :: "backend \<Rightarrow> (run \<times> step list) list \<Rightarrow> stmt list" where
  "insertStmts be rs = concat (map insertRunsChunk (chunks (insertBatch be) rs))"

definition insertRunsTx :: "backend \<Rightarrow> (run \<times> step list) list \<Rightarrow> db \<Rightarrow> err + db" where
  "insertRunsTx be rs d = foldE execStmt (insertStmts be rs) d"

definition CreateRuns :: "backend \<Rightarrow> run list \<Rightarrow> step list list \<Rightarrow> db \<Rightarrow> err + db" where
  "CreateRuns be rs stss d =
     (if length rs \<noteq> length stss then Inl ErrArgs else insertRunsTx be (zip rs stss) d)"

definition CreateRun :: "backend \<Rightarrow> run \<Rightarrow> step list \<Rightarrow> db \<Rightarrow> err + db" where
  "CreateRun be r sts d = CreateRuns be [r] [sts] d"

section \<open>Unique keys and concurrency strategies\<close>

datatype UniqueConflict = UniqueReuse | UniqueError | UniqueReplace

datatype ConcurrencyStrategy = ConcurrencyHold | ConcurrencyCancelInProgress
  | ConcurrencyCancelNewest | ConcurrencyCancelQueuedExceptNewest
  | ConcurrencyCancelQueuedExceptOldest

record KeyPolicy =
  kpKey :: string
  kpLimit :: int
  kpStrategy :: ConcurrencyStrategy

definition noPolicy :: KeyPolicy where
  "noPolicy = \<lparr>kpKey = '''', kpLimit = 0, kpStrategy = ConcurrencyHold\<rparr>"

record ReplacedRun =
  rrRunID :: string
  rrRunningSteps :: "string list"

definition allocSeq :: "int \<Rightarrow> db \<Rightarrow> db \<times> int" where
  "allocSeq n d = (d\<lparr>counter := counter d + n\<rparr>, (counter d + n) - n)"

definition liveRunByUnique :: "string \<Rightarrow> string \<Rightarrow> db \<Rightarrow> string" where
  "liveRunByUnique workflow key d =
     (case sort_key rCreatedAt (filter (\<lambda>r. rWorkflow r = workflow \<and> rUniqueKey r = key \<and>
             \<not> IsTerminal (rStatus r)) (runs d)) of
        [] \<Rightarrow> '''' | r # _ \<Rightarrow> rID r)"

definition keyCandidates :: "string \<Rightarrow> db \<Rightarrow> run list" where
  "keyCandidates key d = sort_key (\<lambda>r. (rSeq r, rCreatedAt r))
     (filter (\<lambda>r. rConcurrencyKey r = key \<and> \<not> IsTerminal (rStatus r)) (runs d))"

fun strategyVictims :: "ConcurrencyStrategy \<Rightarrow> int \<Rightarrow> run list \<Rightarrow> string list" where
  "strategyVictims ConcurrencyHold limit cands = []"
| "strategyVictims ConcurrencyCancelNewest limit cands = [rID (last cands)]"
| "strategyVictims ConcurrencyCancelInProgress limit cands =
     (let ordered = filter (\<lambda>c. rStatus c = Running) cands @ filter (\<lambda>c. rStatus c \<noteq> Running) cands
      in map rID (take (length cands - nat limit) ordered))"
| "strategyVictims ConcurrencyCancelQueuedExceptNewest limit cands =
     (let queued = filter (\<lambda>c. rStatus c = Queued) cands in
      if int (length queued) \<le> limit then [] else map rID (take (length queued - nat limit) queued))"
| "strategyVictims ConcurrencyCancelQueuedExceptOldest limit cands =
     (let queued = filter (\<lambda>c. rStatus c = Queued) cands in
      if int (length queued) \<le> limit then [] else map rID (drop (nat limit) queued))"

fun cancelVictims :: "time \<Rightarrow> string list \<Rightarrow> db \<Rightarrow> db \<times> ReplacedRun list" where
  "cancelVictims now [] d = (d, [])"
| "cancelVictims now (i # is) d =
     (let (d1, running) = cancelOrDeleteRunTx i now d;
          (d2, out) = cancelVictims now is d1
      in (d2, \<lparr>rrRunID = i, rrRunningSteps = running\<rparr> # out))"

definition applyConcurrencyStrategy ::
  "run \<Rightarrow> int \<Rightarrow> ConcurrencyStrategy \<Rightarrow> time \<Rightarrow> db \<Rightarrow> db \<times> ReplacedRun list" where
  "applyConcurrencyStrategy r limit strategy now d =
     (let cands = keyCandidates (rConcurrencyKey r) d in
      if int (length cands) \<le> limit then (d, [])
      else cancelVictims now (strategyVictims strategy limit cands) d)"

section \<open>The enqueue loop\<close>

text \<open>
  The state of the loop: the transaction's database, the last sequence value used, the
  pending plain runs, the ids to return and the runs replaced. \<open>now\<close> stands for the
  \<open>nowUnix()\<close> readings of the transaction.
\<close>

record enqueueState =
  esDB :: db
  esSeqNext :: int
  esBatch :: "(run \<times> step list) list"
  esIDs :: "string list"
  esReplaced :: "ReplacedRun list"

record enqueueItem =
  eiRun :: run
  eiSteps :: "step list"
  eiConflict :: UniqueConflict
  eiPolicy :: KeyPolicy

fun insertErr :: "err \<Rightarrow> err" where
  "insertErr ErrUniqueConstraint = ErrUniqueViolation"
| "insertErr e = e"

definition flushBatch :: "backend \<Rightarrow> enqueueState \<Rightarrow> err + enqueueState" where
  "flushBatch be st =
     (if length (esBatch st) = 0 then Inr st
      else (case insertRunsTx be (esBatch st) (esDB st) of
              Inl e \<Rightarrow> Inl (insertErr e)
            | Inr d' \<Rightarrow> Inr (st\<lparr>esDB := d', esBatch := []\<rparr>)))"

definition sequenced :: "enqueueItem \<Rightarrow> bool" where
  "sequenced it \<longleftrightarrow> rSequenceKey (eiRun it) \<noteq> '''' \<or> kpKey (eiPolicy it) \<noteq> ''''"

definition useStrategy :: "enqueueItem \<Rightarrow> bool" where
  "useStrategy it \<longleftrightarrow> kpStrategy (eiPolicy it) \<noteq> ConcurrencyHold \<and> kpKey (eiPolicy it) \<noteq> '''' \<and>
     kpLimit (eiPolicy it) > 0"

definition immediate :: "enqueueItem \<Rightarrow> bool" where
  "immediate it \<longleftrightarrow> rUniqueKey (eiRun it) \<noteq> '''' \<or> useStrategy it"

definition stampSeq :: "int \<Rightarrow> enqueueItem \<Rightarrow> run \<times> step list" where
  "stampSeq seq it =
     (if sequenced it
      then ((eiRun it)\<lparr>rSeq := seq\<rparr>,
            map (\<lambda>s. s\<lparr>sSequenceKey := rSequenceKey (eiRun it), sSeq := seq\<rparr>) (eiSteps it))
      else (eiRun it, eiSteps it))"

definition insertOrBatch ::
  "backend \<Rightarrow> bool \<Rightarrow> run \<times> step list \<Rightarrow> enqueueState \<Rightarrow> err + enqueueState" where
  "insertOrBatch be imm rs st =
     (if imm then
        (case insertRunsTx be [rs] (esDB st) of
           Inl e \<Rightarrow> Inl (insertErr e)
         | Inr d' \<Rightarrow> Inr (st\<lparr>esDB := d'\<rparr>))
      else Inr (st\<lparr>esBatch := esBatch st @ [rs]\<rparr>))"

definition replaceHolder :: "string \<Rightarrow> time \<Rightarrow> enqueueState \<Rightarrow> enqueueState" where
  "replaceHolder existing now st =
     (let (d', running) = replaceRunTx existing now (esDB st)
      in st\<lparr>esDB := d',
            esReplaced := esReplaced st @ [\<lparr>rrRunID = existing, rrRunningSteps = running\<rparr>]\<rparr>)"

definition strategyStage :: "enqueueItem \<Rightarrow> run \<Rightarrow> time \<Rightarrow> enqueueState \<Rightarrow> enqueueState" where
  "strategyStage it r now st =
     (if useStrategy it then
        (let (d', victims) = applyConcurrencyStrategy r (kpLimit (eiPolicy it))
               (kpStrategy (eiPolicy it)) now (esDB st)
         in st\<lparr>esDB := d', esReplaced := esReplaced st @ victims\<rparr>)
      else st)"

definition createOne ::
  "backend \<Rightarrow> time \<Rightarrow> enqueueItem \<Rightarrow> enqueueState \<Rightarrow> err + enqueueState" where
  "createOne be now it st0 =
     (let seqNext = (if sequenced it then esSeqNext st0 + 1 else esSeqNext st0);
          rs = stampSeq seqNext it;
          st = st0\<lparr>esSeqNext := seqNext\<rparr> in
      case (if immediate it then flushBatch be st else Inr st) of
        Inl e \<Rightarrow> Inl e
      | Inr st1 \<Rightarrow>
          let existing = (if rUniqueKey (fst rs) \<noteq> ''''
                then liveRunByUnique (rWorkflow (fst rs)) (rUniqueKey (fst rs)) (esDB st1) else '''') in
          if existing \<noteq> '''' \<and> eiConflict it = UniqueReuse then
            Inr (st1\<lparr>esIDs := esIDs st1 @ [existing]\<rparr>)
          else if existing \<noteq> '''' \<and> eiConflict it = UniqueError then Inl ErrDuplicateJob
          else
            let st2 = (if existing \<noteq> '''' then replaceHolder existing now st1 else st1) in
            (case insertOrBatch be (immediate it) rs st2 of
               Inl e \<Rightarrow> Inl e
             | Inr st3 \<Rightarrow> Inr ((strategyStage it (fst rs) now st3)\<lparr>esIDs := esIDs st3 @ [rID (fst rs)]\<rparr>)))"

text \<open>The inputs of the loop's iterations; no policies means the zero policy for every run.\<close>

definition mkItems ::
  "run list \<Rightarrow> step list list \<Rightarrow> UniqueConflict list \<Rightarrow> KeyPolicy list \<Rightarrow> enqueueItem list" where
  "mkItems rs stss conflicts policies =
     (let policy = (if length policies = 0 then replicate (length rs) noPolicy else policies)
      in map (\<lambda>(r, sts, c, p). \<lparr>eiRun = r, eiSteps = sts, eiConflict = c, eiPolicy = p\<rparr>)
           (zip rs (zip stss (zip conflicts policy))))"

definition createRunsUniqueTx ::
  "backend \<Rightarrow> time \<Rightarrow> run list \<Rightarrow> step list list \<Rightarrow> UniqueConflict list \<Rightarrow> KeyPolicy list \<Rightarrow> db \<Rightarrow>
     err + db \<times> string list \<times> ReplacedRun list" where
  "createRunsUniqueTx be now rs stss conflicts policies d =
     (if length rs \<noteq> length stss \<or> length rs \<noteq> length conflicts then Inl ErrArgs
      else if length policies > 0 \<and> length policies \<noteq> length rs then Inl ErrArgs
      else
        let items = mkItems rs stss conflicts policies;
            nSeq = count_where sequenced items;
            (d1, seqNext) = (if nSeq > 0 then allocSeq (int nSeq) d else (d, 0)) in
        (case foldE (createOne be now) items
            \<lparr>esDB = d1, esSeqNext = seqNext, esBatch = [], esIDs = [], esReplaced = []\<rparr> of
           Inl e \<Rightarrow> Inl e
         | Inr st \<Rightarrow> (case flushBatch be st of
             Inl e \<Rightarrow> Inl e
           | Inr st' \<Rightarrow> Inr (esDB st', esIDs st', esReplaced st'))))"

definition CreateRunsUnique ::
  "backend \<Rightarrow> time \<Rightarrow> run list \<Rightarrow> step list list \<Rightarrow> UniqueConflict list \<Rightarrow> KeyPolicy list \<Rightarrow> db \<Rightarrow>
     err + db \<times> string list \<times> ReplacedRun list" where
  "CreateRunsUnique be now rs stss conflicts policies d =
     createRunsUniqueTx be now rs stss conflicts policies d"

text \<open>The caller owns the transaction and sees only the ids.\<close>

definition CreateRunsTx ::
  "backend \<Rightarrow> time \<Rightarrow> run list \<Rightarrow> step list list \<Rightarrow> UniqueConflict list \<Rightarrow> KeyPolicy list \<Rightarrow> db \<Rightarrow>
     err + db \<times> string list" where
  "CreateRunsTx be now rs stss conflicts policies d =
     map_sum id (\<lambda>(d', ids, replaced). (d', ids))
       (createRunsUniqueTx be now rs stss conflicts policies d)"

section \<open>The parameter budget\<close>

lemma length_insertArgs [simp]:
  "length (runInsertArgs r) = runInsertArgc"
  "length (stepInsertArgs s) = stepInsertArgc"
  "length (keyInsertArgs k) = keyInsertArgc"
  by (simp_all add: runInsertArgs_def stepInsertArgs_def keyInsertArgs_def runInsertArgc_def
      stepInsertArgc_def keyInsertArgc_def)

lemma length_concat_const:
  "(\<And>x. length (f x) = n) \<Longrightarrow> length (concat (map f xs)) = n * length xs"
  by (induction xs) simp_all

lemma concat_flushLoop: "concat (flushLoop n pending xs) = pending @ xs"
  by (induction n pending xs rule: flushLoop.induct) auto

lemma length_flushLoop:
  assumes "c \<in> set (flushLoop n pending xs)" and "length pending \<le> n" and "0 < n"
  shows "0 < length c \<and> length c \<le> n"
  using assms by (induction n pending xs rule: flushLoop.induct) (auto split: if_splits)

lemma flushLoop_args:
  assumes "l \<in> set (flushLoop (insertMaxParams div c) [] xs)" and "0 < insertMaxParams div c"
  shows "c * length l \<le> insertMaxParams"
proof -
  have "length l \<le> insertMaxParams div c" using length_flushLoop [OF assms(1)] assms(2) by simp
  then have "c * length l \<le> c * (insertMaxParams div c)" by simp
  also have "\<dots> \<le> insertMaxParams" by simp
  finally show ?thesis .
qed

lemma insertBatch_bounds: "0 < insertBatch be" "insertBatch be * runInsertArgc \<le> insertMaxParams"
  by (simp_all add: insertBatch_def Let_def insertMaxParams_def runInsertArgc_def)

lemma insertRunsChunk_args:
  assumes "length rs \<le> insertBatch be" and "st \<in> set (insertRunsChunk rs)"
  shows "length (stmtArgs st) \<le> insertMaxParams"
proof -
  have arg: "length (stmtArgs (InsertRuns rs')) = runInsertArgc * length rs'"
    "length (stmtArgs (InsertSteps ss)) = stepInsertArgc * length ss"
    "length (stmtArgs (InsertKeys ks)) = keyInsertArgc * length ks" for rs' ss ks
    by (simp_all only: stmtArgs.simps length_concat_const length_insertArgs)
  have pos: "0 < insertMaxParams div stepInsertArgc" "0 < insertMaxParams div keyInsertArgc"
    by (simp_all add: insertMaxParams_def stepInsertArgc_def keyInsertArgc_def)
  have "runInsertArgc * length rs \<le> insertMaxParams"
    using assms(1) insertBatch_bounds(2) [of be]
    by (metis le_trans mult.commute mult_le_mono1)
  with assms(2) pos show ?thesis
    unfolding insertRunsChunk_def
    by (auto simp: arg simp del: stmtArgs.simps intro: flushLoop_args)
qed

lemma insertStmts_args:
  assumes "st \<in> set (insertStmts be rs)"
  shows "length (stmtArgs st) \<le> insertMaxParams"
proof -
  obtain c where c: "c \<in> set (chunks (insertBatch be) rs)" "st \<in> set (insertRunsChunk c)"
    using assms by (auto simp: insertStmts_def)
  have "length c \<le> insertBatch be" using length_chunks [OF insertBatch_bounds(1) c(1)] by simp
  then show ?thesis using c(2) by (rule insertRunsChunk_args)
qed

section \<open>What an insert writes\<close>

fun stmtRuns :: "stmt \<Rightarrow> run list" where
  "stmtRuns (InsertRuns rs) = rs" | "stmtRuns _ = []"

fun stmtSteps :: "stmt \<Rightarrow> step list" where
  "stmtSteps (InsertSteps ss) = ss" | "stmtSteps _ = []"

fun stmtKeys :: "stmt \<Rightarrow> keyRow list" where
  "stmtKeys (InsertKeys ks) = ks" | "stmtKeys _ = []"

definition written :: "run list \<Rightarrow> step list \<Rightarrow> keyRow list \<Rightarrow> db \<Rightarrow> db" where
  "written rs ss ks d = d\<lparr>runs := runs d @ map runRow rs, steps := steps d @ map stepRow ss,
     stepKeys := stepKeys d @ ks\<rparr>"

lemma written_written:
  "written rs' ss' ks' (written rs ss ks d) = written (rs @ rs') (ss @ ss') (ks @ ks') d"
  by (simp add: written_def)

lemma written_Nil [simp]: "written [] [] [] d = d"
  by (simp add: written_def)

lemma foldE_written:
  assumes "\<And>x d d'. f x d = Inr d' \<Longrightarrow> d' = written (a x) (b x) (c x) d"
  shows "foldE f xs d = Inr d' \<Longrightarrow>
    d' = written (concat (map a xs)) (concat (map b xs)) (concat (map c xs)) d"
proof (induction xs arbitrary: d)
  case (Cons x xs)
  then obtain d1 where "f x d = Inr d1" "foldE f xs d1 = Inr d'"
    by (auto split: sum.splits)
  with Cons.IH [of d1] assms [of x d d1] show ?case by (simp add: written_written)
qed simp

lemma concat_map_Nil: "concat (map (\<lambda>x. []) xs) = []"
  by (induction xs) simp_all

lemma concat_map_single: "concat (map (\<lambda>x. [x]) xs) = xs"
  by (induction xs) simp_all

lemma insert_row:
  "insertRunRow r d = Inr d' \<Longrightarrow> d' = written [r] [] [] d"
  "insertStepRow s d = Inr d' \<Longrightarrow> d' = written [] [s] [] d"
  "insertKeyRow k d = Inr d' \<Longrightarrow> d' = written [] [] [k] d"
  by (auto simp: written_def insertRunRow_def insertStepRow_def insertKeyRow_def split: if_splits)

lemma insert_rows:
  "foldE insertRunRow rs d = Inr d' \<Longrightarrow> d' = written rs [] [] d"
  "foldE insertStepRow ss d = Inr d' \<Longrightarrow> d' = written [] ss [] d"
  "foldE insertKeyRow ks d = Inr d' \<Longrightarrow> d' = written [] [] ks d"
  using foldE_written [of insertRunRow "\<lambda>r. [r]" "\<lambda>r. []" "\<lambda>r. []", OF insert_row(1)]
    foldE_written [of insertStepRow "\<lambda>r. []" "\<lambda>s. [s]" "\<lambda>r. []", OF insert_row(2)]
    foldE_written [of insertKeyRow "\<lambda>r. []" "\<lambda>r. []" "\<lambda>k. [k]", OF insert_row(3)]
  by (simp_all add: concat_map_Nil concat_map_single)

lemma execStmt_written:
  "execStmt st d = Inr d' \<Longrightarrow> d' = written (stmtRuns st) (stmtSteps st) (stmtKeys st) d"
  by (cases st) (simp_all add: insert_rows)

lemma foldE_execStmt_written:
  "foldE execStmt sts d = Inr d' \<Longrightarrow>
    d' = written (concat (map stmtRuns sts)) (concat (map stmtSteps sts)) (concat (map stmtKeys sts)) d"
  by (rule foldE_written) (rule execStmt_written)

lemma chunk_parts:
  "concat (map stmtRuns (insertRunsChunk rs)) = map fst rs"
  "concat (map stmtSteps (insertRunsChunk rs)) = concat (map snd rs)"
  "concat (map stmtKeys (insertRunsChunk rs)) = concat (map stepKeyRows (concat (map snd rs)))"
  by (simp_all add: insertRunsChunk_def comp_def concat_map_Nil concat_flushLoop)

lemma insertStmts_parts:
  "concat (map stmtRuns (insertStmts be rs)) = map fst rs"
  "concat (map stmtSteps (insertStmts be rs)) = concat (map snd rs)"
  "concat (map stmtKeys (insertStmts be rs)) = concat (map stepKeyRows (concat (map snd rs)))"
proof -
  have g: "concat (map f (concat (map insertRunsChunk cs))) =
      concat (map (\<lambda>c. concat (map f (insertRunsChunk c))) cs)" for f :: "stmt \<Rightarrow> 'a list" and cs
    by (induction cs) simp_all
  have a: "concat (map (\<lambda>c. map fst c) cs) = map fst (concat cs)"
    "concat (map (\<lambda>c. concat (map snd c)) cs) = concat (map snd (concat cs))"
    "concat (map (\<lambda>c. concat (map stepKeyRows (concat (map snd c)))) cs) =
      concat (map stepKeyRows (concat (map snd (concat cs))))" for cs :: "(run \<times> step list) list list"
    by (induction cs) simp_all
  show "concat (map stmtRuns (insertStmts be rs)) = map fst rs"
    "concat (map stmtSteps (insertStmts be rs)) = concat (map snd rs)"
    "concat (map stmtKeys (insertStmts be rs)) = concat (map stepKeyRows (concat (map snd rs)))"
    unfolding insertStmts_def g chunk_parts a concat_chunks by (rule refl)+
qed

text \<open>However the rows are split over statements, a successful insert writes exactly them.\<close>

lemma insertRunsTx_written:
  assumes "insertRunsTx be rs d = Inr d'"
  shows "d' = written (map fst rs) (concat (map snd rs))
    (concat (map stepKeyRows (concat (map snd rs)))) d"
  using foldE_execStmt_written [OF assms [unfolded insertRunsTx_def]]
  by (simp only: insertStmts_parts)

text \<open>The statements of a chunk are its rows table by table: the flushes do not show.\<close>

definition execRows :: "(run \<times> step list) list \<Rightarrow> db \<Rightarrow> err + db" where
  "execRows rs d =
     (case foldE insertRunRow (map fst rs) d of Inl e \<Rightarrow> Inl e | Inr d1 \<Rightarrow>
      (case foldE insertStepRow (concat (map snd rs)) d1 of Inl e \<Rightarrow> Inl e | Inr d2 \<Rightarrow>
       foldE insertKeyRow (concat (map stepKeyRows (concat (map snd rs)))) d2))"

lemma foldE_map: "foldE f (map g xs) s = foldE (\<lambda>x. f (g x)) xs s"
  by (induction xs arbitrary: s) (simp_all split: sum.split)

lemma foldE_eta: "(\<And>x s. f x s = g x s) \<Longrightarrow> foldE f xs s = foldE g xs s"
  by (induction xs arbitrary: s) (simp_all split: sum.split)

lemma execRows_chunk: "foldE execStmt (insertRunsChunk rs) d = execRows rs d"
proof -
  have 1: "foldE execStmt (map InsertSteps sss) e = foldE insertStepRow (concat sss) e" for sss e
    unfolding foldE_map foldE_concat [symmetric] by (rule foldE_eta) simp
  have 2: "foldE execStmt (map InsertKeys kss) e = foldE insertKeyRow (concat kss) e" for kss e
    unfolding foldE_map foldE_concat [symmetric] by (rule foldE_eta) simp
  show ?thesis
    unfolding insertRunsChunk_def foldE.simps foldE_append 1 2 concat_flushLoop append_Nil
    by (simp add: execRows_def split: sum.split)
qed

lemma insertRunsTx_single: "insertRunsTx be [(r, ss)] d = execRows [(r, ss)] d"
proof -
  have "chunks (insertBatch be) [(r, ss)] = [[(r, ss)]]"
    using insertBatch_bounds(1) [of be] by (simp add: chunks.simps)
  then have "insertStmts be [(r, ss)] = insertRunsChunk [(r, ss)]" by (simp add: insertStmts_def)
  then show ?thesis by (simp only: insertRunsTx_def execRows_chunk)
qed

section \<open>Inserts keep the invariants\<close>

definition newRun :: "run \<Rightarrow> bool" where
  "newRun r \<longleftrightarrow> \<not> IsTerminal (rStatus r) \<and> rStatus r \<noteq> Blocked \<and> rStatus r \<noteq> Suspended"

definition newStep :: "step \<Rightarrow> bool" where
  "newStep s \<longleftrightarrow> sStatus s = Blocked \<or> sStatus s = Queued \<and> sDependsOn s = []"

lemma runRow_sel [simp]:
  "rID (runRow r) = rID r" "rWorkflow (runRow r) = rWorkflow r" "rStatus (runRow r) = rStatus r"
  "rUniqueKey (runRow r) = rUniqueKey r" "rSeq (runRow r) = rSeq r"
  "rConcurrencyKey (runRow r) = rConcurrencyKey r" "rEphemeral (runRow r) = rEphemeral r"
  "sID (stepRow s) = sID s" "sRunID (stepRow s) = sRunID s" "sStatus (stepRow s) = sStatus s"
  "sDependsOn (stepRow s) = sDependsOn s" "sName (stepRow s) = sName s"
  by (simp_all add: runRow_def stepRow_def)

lemma dep_ok_more_steps: "dep_ok d s \<Longrightarrow> dep_ok (d\<lparr>steps := steps d @ ss\<rparr>) s"
  unfolding dep_ok_def by fastforce

lemma integrity_insertRunRow:
  assumes "integrity d" and "insertRunRow r d = Inr d'" and "newRun r"
  shows "integrity d'"
  using assms
  by (auto simp: integrity_defs insertRunRow_def newRun_def dep_ok_def split: if_splits)

lemma integrity_insertStepRow:
  assumes "integrity d" and "insertStepRow s d = Inr d'" and "newStep s"
  shows "integrity d'"
proof -
  from assms(2) have d': "d' = d\<lparr>steps := steps d @ [stepRow s]\<rparr>"
    and new: "sID s \<notin> sID ` set (steps d)" "sRunID s \<in> rID ` set (runs d)"
    by (auto simp: insertStepRow_def split: if_splits)
  have "deps_met d'"
    unfolding deps_met_def
  proof (intro ballI impI)
    fix t assume t: "t \<in> set (steps d')" "needs_deps (sStatus t)"
    show "dep_ok d' t"
    proof (cases "t \<in> set (steps d)")
      case True
      with t(2) integrityD(7) [OF assms(1)] show ?thesis by (simp add: d' dep_ok_more_steps)
    next
      case False
      with t assms(3) show ?thesis by (auto simp: d' newStep_def dep_ok_def)
    qed
  qed
  moreover have "keys_wf d'" using assms(1) new by (auto simp: d' integrity_def keys_wf_def)
  moreover have "status_dom d'" using assms(1,3) by (auto simp: d' integrity_def status_dom_def newStep_def)
  ultimately show ?thesis using assms(1) by (simp add: d' integrity_def uniq_index_def keys_freed_def)
qed

lemma integrity_insertKeyRow:
  "integrity d \<Longrightarrow> insertKeyRow k d = Inr d' \<Longrightarrow> integrity d'"
  by (auto simp: integrity_defs insertKeyRow_def dep_ok_def split: if_splits)

lemma integrity_execStmt:
  assumes "integrity d" and "execStmt st d = Inr d'"
    and "\<forall>r \<in> set (stmtRuns st). newRun r" and "\<forall>s \<in> set (stmtSteps st). newStep s"
  shows "integrity d'"
proof (cases st)
  case (InsertRuns rs)
  show ?thesis
    by (rule foldE_invariant [of insertRunRow rs d d' integrity])
      (use assms InsertRuns in \<open>auto intro: integrity_insertRunRow\<close>)
next
  case (InsertSteps ss)
  show ?thesis
    by (rule foldE_invariant [of insertStepRow ss d d' integrity])
      (use assms InsertSteps in \<open>auto intro: integrity_insertStepRow\<close>)
next
  case (InsertKeys ks)
  show ?thesis
    by (rule foldE_invariant [of insertKeyRow ks d d' integrity])
      (use assms InsertKeys in \<open>auto intro: integrity_insertKeyRow\<close>)
qed

lemma integrity_insertRunsTx:
  assumes "integrity d" and "insertRunsTx be rs d = Inr d'"
    and "\<forall>r \<in> set (map fst rs). newRun r" and "\<forall>s \<in> set (concat (map snd rs)). newStep s"
  shows "integrity d'"
proof (rule foldE_invariant [of execStmt "insertStmts be rs" d d' integrity])
  show "foldE execStmt (insertStmts be rs) d = Inr d'" using assms(2) by (simp add: insertRunsTx_def)
  fix st e e'
  assume st: "st \<in> set (insertStmts be rs)" "integrity e" "execStmt st e = Inr e'"
  have "set (stmtRuns st) \<subseteq> set (map fst rs)" "set (stmtSteps st) \<subseteq> set (concat (map snd rs))"
    unfolding insertStmts_parts(1,2) [of be rs, symmetric] using st(1) by auto
  with assms(3,4) integrity_execStmt [OF st(2,3)] show "integrity e'" by blast
qed (fact assms(1))

end
