(* ===== verification/Enqueue_Laws.thy ===== *)
theory Enqueue_Laws
  imports Enqueue
begin

text \<open>
  Laws of the enqueue loop of theory Enqueue: the invariants survive a batch, the
  concurrency strategies bring a key back to its limit, unique keys resolve to the one live
  holder, and a batch of plain runs is a single insert of its rows with consecutive
  sequence values.
\<close>

section \<open>Invariants of the loop\<close>

text \<open>
  The locale \<open>Enqueue_Invariant\<close> is the contract between the enqueue loop and an invariant
  \<open>I\<close> of the database: if \<open>I\<close> survives an insert of fresh rows whose steps satisfy \<open>V\<close>, the
  two ways of cancelling a run and a change of the counter, it survives a whole batch.
\<close>

definition newItems :: "(run \<Rightarrow> step \<Rightarrow> bool) \<Rightarrow> (run \<times> step list) list \<Rightarrow> bool" where
  "newItems V rs \<longleftrightarrow> (\<forall>(r, ss) \<in> set rs. newRun r \<and> (\<forall>s \<in> set ss. newStep s \<and> V r s))"

locale Enqueue_Invariant =
  fixes be :: backend and I :: "db \<Rightarrow> bool" and V :: "run \<Rightarrow> step \<Rightarrow> bool"
  assumes insert_ok: "I d \<Longrightarrow> newItems V rs \<Longrightarrow> insertRunsTx be rs d = Inr d' \<Longrightarrow> I d'"
    and replace_ok: "I d \<Longrightarrow> I (fst (replaceRunTx i now d))"
    and cancel_ok: "I d \<Longrightarrow> I (fst (cancelOrDeleteRunTx i now d))"
    and counter_ok: "I d \<Longrightarrow> I (d\<lparr>counter := n\<rparr>)"
    and stamp_ok: "V r s \<Longrightarrow> V (r\<lparr>rSeq := n\<rparr>) (s\<lparr>sSequenceKey := x, sSeq := n\<rparr>)"
begin

lemma cancelVictims_ok: "I d \<Longrightarrow> I (fst (cancelVictims now is d))"
proof (induction "is" arbitrary: d)
  case (Cons i "is")
  then show ?case using cancel_ok [OF Cons.prems, of i now] by (simp add: split_beta Let_def)
qed simp

lemma applyConcurrencyStrategy_ok: "I d \<Longrightarrow> I (fst (applyConcurrencyStrategy r limit st now d))"
  by (simp add: applyConcurrencyStrategy_def Let_def cancelVictims_ok)

definition newItem :: "enqueueItem \<Rightarrow> bool" where
  "newItem it \<longleftrightarrow> newRun (eiRun it) \<and> (\<forall>s \<in> set (eiSteps it). newStep s \<and> V (eiRun it) s)"

definition state_ok :: "enqueueState \<Rightarrow> bool" where
  "state_ok st \<longleftrightarrow> I (esDB st) \<and> newItems V (esBatch st)"

lemma stampSeq_new: "newItem it \<Longrightarrow> newItems V [stampSeq n it]"
  by (auto simp: newItem_def newItems_def stampSeq_def newRun_def newStep_def stamp_ok)

lemma flushBatch_ok: "state_ok st \<Longrightarrow> flushBatch be st = Inr st' \<Longrightarrow> state_ok st'"
  by (auto simp: state_ok_def flushBatch_def newItems_def [of _ "[]"] intro: insert_ok
      split: if_splits sum.splits)

lemma insertOrBatch_ok:
  assumes "state_ok st" and "newItems V [rs]" and "insertOrBatch be imm rs st = Inr st'"
  shows "state_ok st'"
proof (cases imm)
  case True
  with assms(3) obtain d' where "insertRunsTx be [rs] (esDB st) = Inr d'" "st' = st\<lparr>esDB := d'\<rparr>"
    by (auto simp: insertOrBatch_def split: sum.splits)
  with assms(1,2) insert_ok show ?thesis by (auto simp: state_ok_def)
next
  case False
  with assms(3) have "st' = st\<lparr>esBatch := esBatch st @ [rs]\<rparr>" by (simp add: insertOrBatch_def)
  with assms(1,2) show ?thesis by (simp add: state_ok_def newItems_def ball_Un)
qed

lemma replaceHolder_ok: "state_ok st \<Longrightarrow> state_ok (replaceHolder i now st)"
  using replace_ok [of "esDB st" i now]
  by (simp add: state_ok_def replaceHolder_def split_beta Let_def)

lemma strategyStage_ok: "state_ok st \<Longrightarrow> state_ok (strategyStage it r now st)"
  by (simp add: state_ok_def strategyStage_def split_beta Let_def applyConcurrencyStrategy_ok)

lemma state_ok_fields [simp]:
  "state_ok (st\<lparr>esSeqNext := n\<rparr>) = state_ok st" "state_ok (st\<lparr>esIDs := ids\<rparr>) = state_ok st"
  by (simp_all add: state_ok_def)

lemma createOne_ok:
  assumes "state_ok st0" and "newItem it" and "createOne be now it st0 = Inr st'"
  shows "state_ok st'"
proof -
  let ?n = "if sequenced it then esSeqNext st0 + 1 else esSeqNext st0"
  have rs: "newItems V [stampSeq ?n it]" using assms(2) by (rule stampSeq_new)
  have st: "state_ok (st0\<lparr>esSeqNext := ?n\<rparr>)" using assms(1) by simp
  obtain st1 where st1: "(if immediate it then flushBatch be (st0\<lparr>esSeqNext := ?n\<rparr>)
      else Inr (st0\<lparr>esSeqNext := ?n\<rparr>)) = Inr st1"
    using assms(3) unfolding createOne_def Let_def by (auto split: sum.splits)
  then have ok1: "state_ok st1"
    using st flushBatch_ok [OF st] by (cases "immediate it") simp_all
  from assms(3) consider (reuse) ids where "st' = st1\<lparr>esIDs := ids\<rparr>"
    | (insert) e st2 st3 r ids where "st2 = st1 \<or> st2 = replaceHolder e now st1"
      "insertOrBatch be (immediate it) (stampSeq ?n it) st2 = Inr st3"
      "st' = (strategyStage it r now st3)\<lparr>esIDs := ids\<rparr>"
    unfolding createOne_def Let_def st1 by (fastforce split: if_splits sum.splits)
  then show ?thesis
  proof cases
    case reuse
    with ok1 show ?thesis by simp
  next
    case insert
    from insert(1) ok1 have "state_ok st2" by (auto intro: replaceHolder_ok)
    then have "state_ok st3" using rs insert(2) by (rule insertOrBatch_ok)
    with insert(3) show ?thesis by (simp add: strategyStage_ok)
  qed
qed

lemma newItem_mkItems:
  assumes "it \<in> set (mkItems rs stss cs ps)" and "\<forall>r \<in> set rs. newRun r"
    and "\<forall>(r, ss) \<in> set (zip rs stss). \<forall>s \<in> set ss. newStep s \<and> V r s"
  shows "newItem it"
proof -
  from assms(1) obtain r ss c p policy where "(r, ss, c, p) \<in> set (zip rs (zip stss (zip cs policy)))"
    "it = \<lparr>eiRun = r, eiSteps = ss, eiConflict = c, eiPolicy = p\<rparr>"
    unfolding mkItems_def Let_def by auto
  then have "r \<in> set rs" "(r, ss) \<in> set (zip rs stss)"
    "it = \<lparr>eiRun = r, eiSteps = ss, eiConflict = c, eiPolicy = p\<rparr>"
    by (auto simp: set_zip)
  with assms(2,3) show ?thesis by (fastforce simp: newItem_def)
qed

lemma createRunsUniqueTx_ok:
  assumes "I d" and "createRunsUniqueTx be now rs stss cs ps d = Inr (d', ids, reps)"
    and "\<forall>r \<in> set rs. newRun r" and "\<forall>(r, ss) \<in> set (zip rs stss). \<forall>s \<in> set ss. newStep s \<and> V r s"
  shows "I d'"
proof -
  define items where "items = mkItems rs stss cs ps"
  obtain d1 n where dn: "(if count_where sequenced items > 0
      then allocSeq (int (count_where sequenced items)) d else (d, 0)) = (d1, n)" by fastforce
  have d1: "I d1"
    using dn assms(1) counter_ok by (auto simp: allocSeq_def split: if_splits)
  obtain st st' where st: "foldE (createOne be now) items
      \<lparr>esDB = d1, esSeqNext = n, esBatch = [], esIDs = [], esReplaced = []\<rparr> = Inr st"
    "flushBatch be st = Inr st'" "esDB st' = d'"
    using assms(2) dn unfolding createRunsUniqueTx_def items_def [symmetric] Let_def
    by (auto split: if_splits sum.splits)
  have "state_ok st"
  proof (rule foldE_invariant [OF st(1)])
    show "state_ok \<lparr>esDB = d1, esSeqNext = n, esBatch = [], esIDs = [], esReplaced = []\<rparr>"
      using d1 by (simp add: state_ok_def newItems_def)
    fix it a b assume it: "it \<in> set items" "state_ok a" "createOne be now it a = Inr b"
    have "newItem it" by (rule newItem_mkItems [OF it(1) [unfolded items_def] assms(3,4)])
    then show "state_ok b" using createOne_ok it(2,3) by blast
  qed
  then have "state_ok st'" using st(2) by (rule flushBatch_ok)
  with st(3) show ?thesis by (simp add: state_ok_def)
qed

end

interpretation sound: Enqueue_Invariant be integrity "\<lambda>_ _. True" for be
proof
  show "integrity d'" if "integrity d" "newItems (\<lambda>_ _. True) rs" "insertRunsTx be rs d = Inr d'" for d rs d'
    by (rule integrity_insertRunsTx [OF that(1,3)]) (use that(2) in \<open>auto simp: newItems_def\<close>)
  show "integrity (d\<lparr>counter := n\<rparr>)" if "integrity d" for d n
    by (rule integrity_same_core [OF _ that]) (simp add: same_core_def)
qed (simp_all add: integrity_replaceRunTx integrity_cancelOrDeleteRunTx)

section \<open>Cancelling victims\<close>

definition keyed :: "string \<Rightarrow> (status \<Rightarrow> bool) \<Rightarrow> run \<Rightarrow> bool" where
  "keyed k P r \<longleftrightarrow> rConcurrencyKey r = k \<and> P (rStatus r) \<and> \<not> IsTerminal (rStatus r)"

definition keyed_count :: "string \<Rightarrow> (status \<Rightarrow> bool) \<Rightarrow> db \<Rightarrow> nat" where
  "keyed_count k P d = count_where (keyed k P) (runs d)"

lemma runs_cancelOrDeleteRunTx:
  assumes "integrity d" and "r \<in> set (runs d)" and "rID r = i"
  shows "runs (fst (cancelOrDeleteRunTx i now d)) =
    (if rEphemeral r then delete_where (\<lambda>r. rID r = i) (runs d)
     else update_where (\<lambda>r. rID r = i) (cancelRunRow now) (runs d))"
proof -
  have "find_run i d = Some r" using find_run_Some [OF assms(1)] assms(2,3) by simp
  then show ?thesis by (simp add: cancelOrDeleteRunTx_def cancelRunTx_def)
qed

lemma cancelOrDelete_other:
  assumes "integrity d" and "r \<in> set (runs d)" and "rID r = i" and "x \<in> set (runs d)" and "rID x \<noteq> i"
  shows "x \<in> set (runs (fst (cancelOrDeleteRunTx i now d)))"
  using assms(4,5) in_update_whereI [of x "runs d" "\<lambda>r. rID r = i" "cancelRunRow now"]
  by (simp add: runs_cancelOrDeleteRunTx [OF assms(1-3)])

lemma keyed_count_cancel:
  assumes "integrity d" and "r \<in> set (runs d)" and "rID r = i" and "keyed k P r"
  shows "Suc (keyed_count k P (fst (cancelOrDeleteRunTx i now d))) = keyed_count k P d"
proof -
  have "distinct (map rID (runs d))" by (rule integrityD(1) [OF assms(1)])
  moreover have "\<not> keyed k P (cancelRunRow now r)" by (simp add: keyed_def)
  ultimately show ?thesis
    using assms(2-4) count_where_delete_one [of rID "runs d" r i "keyed k P"]
      count_where_update_one [of rID "runs d" r i "keyed k P" "cancelRunRow now"]
    by (simp add: keyed_count_def runs_cancelOrDeleteRunTx [OF assms(1-3)])
qed

lemma keyed_count_victims:
  assumes "integrity d" and "distinct is" and "\<forall>i \<in> set is. \<exists>r \<in> set (runs d). rID r = i \<and> keyed k P r"
  shows "keyed_count k P (fst (cancelVictims now is d)) + length is = keyed_count k P d"
  using assms
proof (induction "is" arbitrary: d)
  case (Cons i "is")
  from Cons.prems(3) obtain r where r: "r \<in> set (runs d)" "rID r = i" "keyed k P r" by auto
  let ?d = "fst (cancelOrDeleteRunTx i now d)"
  have "\<exists>x \<in> set (runs ?d). rID x = j \<and> keyed k P x" if "j \<in> set is" for j
  proof -
    from Cons.prems(3) that obtain x where x: "x \<in> set (runs d)" "rID x = j" "keyed k P x"
      by (meson list.set_intros(2))
    moreover have "j \<noteq> i" using Cons.prems(2) that by auto
    moreover note x
    ultimately have "x \<in> set (runs d)" "rID x = j" "keyed k P x" "j \<noteq> i" by simp_all
    with cancelOrDelete_other [OF Cons.prems(1) r(1,2), of x now] show ?thesis by auto
  qed
  then have "keyed_count k P (fst (cancelVictims now is ?d)) + length is = keyed_count k P ?d"
    using Cons.IH [of ?d] integrity_cancelOrDeleteRunTx [OF Cons.prems(1), of i now] Cons.prems(2)
    by simp
  with keyed_count_cancel [OF Cons.prems(1) r, of now] show ?case by (simp add: split_beta Let_def)
qed simp

section \<open>The strategies\<close>

lemma set_keyCandidates:
  "set (keyCandidates k d) = {r \<in> set (runs d). rConcurrencyKey r = k \<and> \<not> IsTerminal (rStatus r)}"
  by (auto simp: keyCandidates_def)

lemma length_keyCandidates: "length (keyCandidates k d) = keyed_count k (\<lambda>_. True) d"
  by (simp add: keyCandidates_def keyed_count_def count_where_def keyed_def [abs_def])

lemma length_queued_candidates:
  "length (filter (\<lambda>c. rStatus c = Queued) (keyCandidates k d)) = keyed_count k (\<lambda>s. s = Queued) d"
proof -
  have "length (filter Q (sort_key f xs)) = length (filter Q xs)" for Q and f :: "run \<Rightarrow> int \<times> int" and xs
    by (simp add: filter_sort)
  then show ?thesis
    by (simp add: keyCandidates_def keyed_count_def count_where_def keyed_def [abs_def] conj_ac)
qed

lemma distinct_keyCandidates:
  "integrity d \<Longrightarrow> distinct (map rID (keyCandidates k d))"
  using integrityD(1) [of d] by (simp add: keyCandidates_def distinct_map inj_on_def)

lemma victims_keyed:
  assumes "integrity d" and "set vs \<subseteq> set (keyCandidates k d)" and "distinct vs"
    and "\<forall>r \<in> set vs. P (rStatus r)"
  shows "keyed_count k P (fst (cancelVictims now (map rID vs) d)) + length vs = keyed_count k P d"
proof -
  have "distinct (map rID vs)"
    using distinct_keyCandidates [OF assms(1), of k] assms(2,3)
    by (auto simp: distinct_map inj_on_def)
  then have "keyed_count k P (fst (cancelVictims now (map rID vs) d)) + length (map rID vs) =
      keyed_count k P d"
    by (rule keyed_count_victims [OF assms(1)])
      (use assms(2,4) in \<open>auto simp: keyed_def set_keyCandidates subset_iff\<close>)
  then show ?thesis by simp
qed

lemma distinct_candidates: "integrity d \<Longrightarrow> distinct (keyCandidates k d)"
  using distinct_keyCandidates by (auto simp: distinct_map)

lemma cancelInProgress_count:
  assumes "integrity d" and "0 \<le> limit"
  shows "keyed_count (rConcurrencyKey r) (\<lambda>_. True)
      (fst (applyConcurrencyStrategy r limit ConcurrencyCancelInProgress now d)) =
    min (nat limit) (keyed_count (rConcurrencyKey r) (\<lambda>_. True) d)"
proof -
  let ?k = "rConcurrencyKey r"
  let ?c = "keyCandidates ?k d"
  let ?o = "filter (\<lambda>c. rStatus c = Running) ?c @ filter (\<lambda>c. rStatus c \<noteq> Running) ?c"
  let ?v = "take (length ?c - nat limit) ?o"
  have len: "length ?o = length ?c" using sum_length_filter_compl [of "\<lambda>c. rStatus c = Running" ?c] by simp
  have "set ?v \<subseteq> set ?c" using set_take_subset [of _ ?o] by fastforce
  moreover have "distinct ?v"
    using distinct_candidates [OF assms(1), of ?k] by (intro distinct_take) auto
  ultimately have "keyed_count ?k (\<lambda>_. True) (fst (cancelVictims now (map rID ?v) d)) + length ?v =
      keyed_count ?k (\<lambda>_. True) d"
    by (rule victims_keyed [OF assms(1)]) simp
  moreover have "length ?v = length ?c - nat limit" by (simp only: length_take len)
  ultimately have cut: "keyed_count ?k (\<lambda>_. True) (fst (cancelVictims now (map rID ?v) d)) +
      (length ?c - nat limit) = length ?c"
    by (simp only: length_keyCandidates)
  show ?thesis
  proof (cases "int (length ?c) \<le> limit")
    case True
    then show ?thesis by (simp add: applyConcurrencyStrategy_def Let_def flip: length_keyCandidates)
  next
    case False
    have "strategyVictims ConcurrencyCancelInProgress limit ?c = map rID ?v"
      by (simp only: strategyVictims.simps Let_def)
    with False have "applyConcurrencyStrategy r limit ConcurrencyCancelInProgress now d =
        cancelVictims now (map rID ?v) d"
      by (simp only: applyConcurrencyStrategy_def Let_def if_False)
    with cut False assms(2) show ?thesis by (simp only: flip: length_keyCandidates)
  qed
qed

lemma cancelNewest_count:
  assumes "integrity d" and "0 \<le> limit"
  shows "keyed_count (rConcurrencyKey r) (\<lambda>_. True)
      (fst (applyConcurrencyStrategy r limit ConcurrencyCancelNewest now d)) =
    (if int (keyed_count (rConcurrencyKey r) (\<lambda>_. True) d) \<le> limit
     then keyed_count (rConcurrencyKey r) (\<lambda>_. True) d
     else keyed_count (rConcurrencyKey r) (\<lambda>_. True) d - 1)"
proof (cases "int (keyed_count (rConcurrencyKey r) (\<lambda>_. True) d) \<le> limit")
  case True
  then show ?thesis by (simp add: applyConcurrencyStrategy_def Let_def length_keyCandidates)
next
  case False
  let ?c = "keyCandidates (rConcurrencyKey r) d"
  have "?c \<noteq> []" using False assms(2) length_keyCandidates [of "rConcurrencyKey r" d] by auto
  then have "keyed_count (rConcurrencyKey r) (\<lambda>_. True)
      (fst (cancelVictims now (map rID [last ?c]) d)) + length [last ?c] =
    keyed_count (rConcurrencyKey r) (\<lambda>_. True) d"
    by (intro victims_keyed [OF assms(1)]) simp_all
  with False show ?thesis
    by (simp add: applyConcurrencyStrategy_def Let_def length_keyCandidates)
qed

lemma cancelQueued_count:
  assumes "integrity d" and "0 \<le> limit"
    and "st = ConcurrencyCancelQueuedExceptNewest \<or> st = ConcurrencyCancelQueuedExceptOldest"
    and "limit < int (keyed_count (rConcurrencyKey r) (\<lambda>_. True) d)"
  shows "keyed_count (rConcurrencyKey r) (\<lambda>s. s = Queued)
      (fst (applyConcurrencyStrategy r limit st now d)) =
    min (nat limit) (keyed_count (rConcurrencyKey r) (\<lambda>s. s = Queued) d)"
proof -
  let ?k = "rConcurrencyKey r"
  let ?q = "filter (\<lambda>c. rStatus c = Queued) (keyCandidates ?k d)"
  have q: "length ?q = keyed_count ?k (\<lambda>s. s = Queued) d" by (rule length_queued_candidates)
  have dist: "distinct ?q" using distinct_candidates [OF assms(1)] by simp
  have cut: "keyed_count ?k (\<lambda>s. s = Queued) (fst (cancelVictims now (map rID vs) d)) + length vs =
      keyed_count ?k (\<lambda>s. s = Queued) d" if "vs = take n ?q \<or> vs = drop n ?q" for vs n
    by (rule victims_keyed [OF assms(1)])
      (use that dist set_take_subset [of n ?q] set_drop_subset [of n ?q] in auto)
  show ?thesis
  proof (cases "int (length ?q) \<le> limit")
    case True
    then have "strategyVictims st limit (keyCandidates ?k d) = []" using assms(3) by auto
    with True q assms(4) show ?thesis
      by (simp add: applyConcurrencyStrategy_def Let_def length_keyCandidates)
  next
    case False
    then obtain vs where vs: "strategyVictims st limit (keyCandidates ?k d) = map rID vs"
      "vs = take (length ?q - nat limit) ?q \<or> vs = drop (nat limit) ?q"
      using assms(3) by (auto simp: Let_def)
    then have len: "length vs = length ?q - nat limit" by auto
    have "keyed_count ?k (\<lambda>s. s = Queued) (fst (cancelVictims now (map rID vs) d)) + length vs =
        keyed_count ?k (\<lambda>s. s = Queued) d"
      using vs(2) cut by blast
    moreover have "applyConcurrencyStrategy r limit st now d = cancelVictims now (map rID vs) d"
      using assms(4) vs(1) by (simp add: applyConcurrencyStrategy_def Let_def length_keyCandidates)
    moreover have "nat limit \<le> length ?q" using False by simp
    ultimately show ?thesis using len q by simp
  qed
qed

section \<open>The incoming run survives a cancel-in-progress\<close>

lemma last_sort_key:
  assumes "r \<in> set xs" and "\<forall>x \<in> set xs. x \<noteq> r \<longrightarrow> f x < f r"
  shows "last (sort_key f xs) = r"
proof -
  let ?ys = "sort_key f xs"
  have ne: "?ys \<noteq> []" using assms(1) by (metis empty_iff set_empty set_sort)
  have "sorted (map f (butlast ?ys @ [last ?ys]))" using ne by simp
  then have le: "\<forall>x \<in> set (butlast ?ys). f x \<le> f (last ?ys)"
    by (simp only: map_append sorted_append) auto
  have set: "set xs = insert (last ?ys) (set (butlast ?ys))"
    using append_butlast_last_id [OF ne] by (metis list.simps(15) rotate1.simps(2) set_rotate1 set_sort)
  show ?thesis
  proof (rule ccontr)
    assume "last ?ys \<noteq> r"
    with set assms(1) le have "f r \<le> f (last ?ys)" by auto
    moreover have "f (last ?ys) < f r" using assms(2) set \<open>last ?ys \<noteq> r\<close> by blast
    ultimately show False by simp
  qed
qed

lemma incoming_survives:
  assumes "integrity d" and "r \<in> set (runs d)" and "rStatus r = Queued" and "0 < limit"
    and "\<forall>x \<in> set (keyCandidates (rConcurrencyKey r) d). x \<noteq> r \<longrightarrow>
      (rSeq x, rCreatedAt x) < (rSeq r, rCreatedAt r)"
  shows "rID r \<notin> set (strategyVictims ConcurrencyCancelInProgress limit
    (keyCandidates (rConcurrencyKey r) d))"
proof -
  let ?c = "keyCandidates (rConcurrencyKey r) d"
  let ?run = "filter (\<lambda>c. rStatus c = Running) ?c" and ?oth = "filter (\<lambda>c. rStatus c \<noteq> Running) ?c"
  have rc: "r \<in> set ?c" using assms(2,3) by (simp add: set_keyCandidates)
  have "last ?c = r" unfolding keyCandidates_def
    by (rule last_sort_key) (use assms(5) rc in \<open>simp_all add: keyCandidates_def\<close>)
  then have c: "?c = butlast ?c @ [r]" using rc append_butlast_last_id [of ?c]
    by (metis empty_iff list.set(1))
  have oth: "?oth = filter (\<lambda>c. rStatus c \<noteq> Running) (butlast ?c) @ [r]"
    using arg_cong [OF c, of "filter (\<lambda>c. rStatus c \<noteq> Running)"]
    by (rule trans) (simp add: assms(3))
  define pre where "pre = ?run @ filter (\<lambda>c. rStatus c \<noteq> Running) (butlast ?c)"
  have ord: "?run @ ?oth = pre @ [r]" unfolding pre_def using oth by simp
  have len: "length ?c = Suc (length pre)"
    using sum_length_filter_compl [of "\<lambda>c. rStatus c = Running" ?c] arg_cong [OF ord, of length] by simp
  have "distinct (map rID (?run @ ?oth))"
    using distinct_keyCandidates [OF assms(1), of "rConcurrencyKey r"]
    by (auto simp: distinct_map inj_on_def)
  then have "rID r \<notin> rID ` set pre" unfolding ord by simp
  moreover have "take (length ?c - nat limit) (pre @ [r]) = take (length ?c - nat limit) pre"
    using len assms(4) by simp
  ultimately show ?thesis
    by (simp add: Let_def ord) (meson image_mono in_mono set_take_subset)
qed

lemma insertRunsTx_Nil [simp]: "insertRunsTx be [] d = Inr d"
  by (simp add: insertRunsTx_def insertStmts_def chunks.simps)

lemma flushBatch_eq:
  "flushBatch be st = map_sum insertErr (\<lambda>d'. st\<lparr>esDB := d', esBatch := []\<rparr>)
     (insertRunsTx be (esBatch st) (esDB st))"
  by (cases "esBatch st") (auto simp: flushBatch_def split: sum.splits)

section \<open>Unique keys\<close>

lemma live_holder:
  assumes "integrity d" and "key \<noteq> ''''" and "r \<in> set (runs d)" and "rWorkflow r = w" and "rUniqueKey r = key"
  shows "filter (\<lambda>x. rWorkflow x = w \<and> rUniqueKey x = key \<and> \<not> IsTerminal (rStatus x)) (runs d) = [r]"
proof -
  have live: "\<not> IsTerminal (rStatus r)" using integrityD(5) [OF assms(1,3)] assms(2,5) by auto
  have eq: "filter (\<lambda>x. rWorkflow x = w \<and> rUniqueKey x = key \<and> \<not> IsTerminal (rStatus x)) rs = [r]"
    if "distinct (keyed_runs rs)" "r \<in> set rs" for rs
    using that
  proof (induction rs)
    case (Cons a rs)
    have none: "filter (\<lambda>x. rWorkflow x = w \<and> rUniqueKey x = key \<and> \<not> IsTerminal (rStatus x)) rs = []"
      if "rWorkflow a = w" "rUniqueKey a = key"
      using Cons.prems(1) that assms(2)
      by (auto simp: filter_empty_conv keyed_runs_def) (metis (mono_tags, lifting) image_eqI mem_Collect_eq)
    show ?case
    proof (cases "rWorkflow a = w \<and> rUniqueKey a = key")
      case True
      then have "r \<notin> set rs" using none live assms(4,5) by (auto simp: filter_empty_conv)
      with Cons.prems(2) have "a = r" by simp
      with True none live show ?thesis by simp
    next
      case False
      then have "a \<noteq> r" using assms(4,5) by auto
      with Cons False show ?thesis by (auto split: if_splits)
    qed
  qed simp
  show ?thesis by (rule eq [OF integrityD(4) [OF assms(1)] assms(3)])
qed

lemma liveRunByUnique_holder:
  assumes "integrity d" and "key \<noteq> ''''" and "r \<in> set (runs d)" and "rWorkflow r = w" and "rUniqueKey r = key"
  shows "liveRunByUnique w key d = rID r"
  by (simp add: liveRunByUnique_def live_holder [OF assms])

lemma liveRunByUnique_none:
  assumes "\<forall>r \<in> set (runs d). \<not> (rWorkflow r = w \<and> rUniqueKey r = key)"
  shows "liveRunByUnique w key d = ''''"
proof -
  have "filter (\<lambda>r. rWorkflow r = w \<and> rUniqueKey r = key \<and> \<not> IsTerminal (rStatus r)) (runs d) = []"
    using assms by (auto simp: filter_empty_conv)
  then show ?thesis unfolding liveRunByUnique_def by simp
qed

text \<open>Enqueueing one run whose unique key is held.\<close>

lemma mkItems_one: "mkItems [r] [sts] [c] [] =
    [\<lparr>eiRun = r, eiSteps = sts, eiConflict = c, eiPolicy = noPolicy\<rparr>]"
  by (simp add: mkItems_def)

definition reserveSeq :: "run \<Rightarrow> db \<Rightarrow> db" where
  "reserveSeq r d = d\<lparr>counter := counter d + (if rSequenceKey r = '''' then 0 else 1)\<rparr>"

lemma fst_stampSeq: "rWorkflow (fst (stampSeq n it)) = rWorkflow (eiRun it)"
  "rUniqueKey (fst (stampSeq n it)) = rUniqueKey (eiRun it)" "rID (fst (stampSeq n it)) = rID (eiRun it)"
  by (simp_all add: stampSeq_def)

lemma liveRun_reserveSeq: "liveRunByUnique w k (reserveSeq r d) = liveRunByUnique w k d"
  by (simp add: liveRunByUnique_def reserveSeq_def)

lemma createOne_unique:
  assumes "rUniqueKey (eiRun it) \<noteq> ''''" and "\<not> useStrategy it" and "esBatch st = []"
  defines "n \<equiv> (if sequenced it then esSeqNext st + 1 else esSeqNext st)"
    and "holder \<equiv> liveRunByUnique (rWorkflow (eiRun it)) (rUniqueKey (eiRun it)) (esDB st)"
  shows "createOne be now it st =
    (if holder \<noteq> '''' \<and> eiConflict it = UniqueReuse
     then Inr (st\<lparr>esSeqNext := n, esIDs := esIDs st @ [holder]\<rparr>)
     else if holder \<noteq> '''' \<and> eiConflict it = UniqueError then Inl ErrDuplicateJob
     else (let st2 = (if holder \<noteq> '''' then replaceHolder holder now (st\<lparr>esSeqNext := n\<rparr>)
                      else st\<lparr>esSeqNext := n\<rparr>)
       in map_sum insertErr (\<lambda>d'. st2\<lparr>esDB := d', esIDs := esIDs st2 @ [rID (eiRun it)]\<rparr>)
            (insertRunsTx be [stampSeq n it] (esDB st2))))"
proof -
  have imm: "immediate it" using assms(1) by (simp add: immediate_def)
  have fl: "flushBatch be (st\<lparr>esSeqNext := n\<rparr>) = Inr (st\<lparr>esSeqNext := n\<rparr>)"
    using assms(3) by (simp add: flushBatch_def)
  have ins: "(case insertOrBatch be True rs st2 of Inl e \<Rightarrow> Inl e
      | Inr st3 \<Rightarrow> Inr ((strategyStage it r now st3)\<lparr>esIDs := esIDs st3 @ [i]\<rparr>)) =
      map_sum insertErr (\<lambda>d'. st2\<lparr>esDB := d', esIDs := esIDs st2 @ [i]\<rparr>) (insertRunsTx be [rs] (esDB st2))"
    for rs st2 r i
    using assms(2) by (cases "insertRunsTx be [rs] (esDB st2)")
      (simp_all add: insertOrBatch_def strategyStage_def)
  show ?thesis
    unfolding createOne_def n_def [symmetric] Let_def
    using assms(1) by (simp add: imm fl ins fst_stampSeq holder_def)
qed

lemma createRunsUniqueTx_one:
  fixes r :: run and sts :: "step list" and c :: UniqueConflict and d :: db
  assumes "rUniqueKey r \<noteq> ''''"
  defines "it \<equiv> \<lparr>eiRun = r, eiSteps = sts, eiConflict = c, eiPolicy = noPolicy\<rparr>"
    and "holder \<equiv> liveRunByUnique (rWorkflow r) (rUniqueKey r) d"
    and "d1 \<equiv> reserveSeq r d"
  shows "createRunsUniqueTx be now [r] [sts] [c] [] d =
    (if holder \<noteq> '''' \<and> c = UniqueReuse then Inr (d1, [holder], [])
     else if holder \<noteq> '''' \<and> c = UniqueError then Inl ErrDuplicateJob
     else map_sum insertErr (\<lambda>d'. (d', [rID r],
         if holder \<noteq> '''' then [\<lparr>rrRunID = holder, rrRunningSteps = runningStepIDs holder d\<rparr>] else []))
       (insertRunsTx be [stampSeq (counter d + 1) it]
         (if holder \<noteq> '''' then fst (replaceRunTx holder now d1) else d1)))"
proof -
  have seq: "sequenced it \<longleftrightarrow> rSequenceKey r \<noteq> ''''" by (simp add: sequenced_def noPolicy_def it_def)
  let ?n = "if rSequenceKey r = '''' then 0 else counter d"
  let ?st = "\<lparr>esDB = d1, esSeqNext = ?n, esBatch = [], esIDs = [], esReplaced = []\<rparr>"
  have al: "(if 0 < count_where sequenced [it] then allocSeq (int (count_where sequenced [it])) d else (d, 0)) =
      (d1, ?n)"
    by (simp add: allocSeq_def reserveSeq_def seq d1_def)
  have run: "runningStepIDs h d1 = runningStepIDs h d" for h
    by (simp add: runningStepIDs_def reserveSeq_def d1_def)
  have st: "stampSeq (if sequenced it then ?n + 1 else ?n) it = stampSeq (counter d + 1) it"
    by (simp add: stampSeq_def seq)
  have one: "createOne be now it ?st =
      (if holder \<noteq> '''' \<and> c = UniqueReuse
       then Inr (?st\<lparr>esSeqNext := (if sequenced it then ?n + 1 else ?n), esIDs := [holder]\<rparr>)
       else if holder \<noteq> '''' \<and> c = UniqueError then Inl ErrDuplicateJob
       else (let st2 = (if holder \<noteq> ''''
           then replaceHolder holder now (?st\<lparr>esSeqNext := (if sequenced it then ?n + 1 else ?n)\<rparr>)
           else ?st\<lparr>esSeqNext := (if sequenced it then ?n + 1 else ?n)\<rparr>)
         in map_sum insertErr (\<lambda>d'. st2\<lparr>esDB := d', esIDs := esIDs st2 @ [rID r]\<rparr>)
              (insertRunsTx be [stampSeq (counter d + 1) it] (esDB st2))))"
    using createOne_unique [of it ?st be now] assms(1)
    unfolding st [symmetric]
    by (simp add: it_def useStrategy_def noPolicy_def holder_def d1_def liveRun_reserveSeq)
  have items: "mkItems [r] [sts] [c] [] = [it]" by (simp add: mkItems_one it_def)
  show ?thesis
    unfolding createRunsUniqueTx_def items Let_def al prod.case foldE.simps one
    by (cases "insertRunsTx be [stampSeq (counter d + 1) it]
        (if holder \<noteq> '''' then fst (replaceRunTx holder now d1) else d1)")
      (auto simp: Let_def replaceHolder_def replaceRunTx_def run flushBatch_def)
qed

section \<open>A batch of plain runs\<close>

fun stampAll :: "int \<Rightarrow> enqueueItem list \<Rightarrow> (run \<times> step list) list" where
  "stampAll n [] = []"
| "stampAll n (it # its) =
     (let n' = (if sequenced it then n + 1 else n) in stampSeq n' it # stampAll n' its)"

lemma createOne_plain:
  assumes "\<not> immediate it"
  shows "createOne be now it st = (let n = (if sequenced it then esSeqNext st + 1 else esSeqNext st) in
    Inr (st\<lparr>esSeqNext := n, esBatch := esBatch st @ [stampSeq n it], esIDs := esIDs st @ [rID (eiRun it)]\<rparr>))"
  using assms
  by (simp add: createOne_def immediate_def insertOrBatch_def strategyStage_def Let_def fst_stampSeq)

lemma foldE_createOne_plain:
  assumes "\<forall>it \<in> set its. \<not> immediate it"
  shows "\<exists>n'. foldE (createOne be now) its st = Inr (st\<lparr>esSeqNext := n',
    esBatch := esBatch st @ stampAll (esSeqNext st) its, esIDs := esIDs st @ map (rID \<circ> eiRun) its\<rparr>)"
  using assms
proof (induction its arbitrary: st)
  case Nil
  show ?case by (intro exI [of _ "esSeqNext st"]) simp
next
  case (Cons it its)
  let ?n = "if sequenced it then esSeqNext st + 1 else esSeqNext st"
  let ?st = "st\<lparr>esSeqNext := ?n, esBatch := esBatch st @ [stampSeq ?n it],
    esIDs := esIDs st @ [rID (eiRun it)]\<rparr>"
  from Cons.prems have "foldE (createOne be now) (it # its) st = foldE (createOne be now) its ?st"
    by (simp add: createOne_plain Let_def)
  with Cons.IH [of ?st] Cons.prems show ?case by (simp add: Let_def)
qed

definition plainItems :: "run list \<Rightarrow> step list list \<Rightarrow> enqueueItem list" where
  "plainItems rs stss = map (\<lambda>(r, sts). \<lparr>eiRun = r, eiSteps = sts, eiConflict = UniqueReuse,
     eiPolicy = noPolicy\<rparr>) (zip rs stss)"

lemma CreateRunsUnique_plain:
  assumes "length rs = length stss" and "\<forall>r \<in> set rs. rUniqueKey r = ''''"
  shows "CreateRunsUnique be now rs stss (replicate (length rs) UniqueReuse) [] d =
    (let items = plainItems rs stss; n = int (count_where sequenced items) in
     map_sum insertErr (\<lambda>d'. (d', map rID rs, []))
       (insertRunsTx be (stampAll (if n = 0 then 0 else counter d) items) (d\<lparr>counter := counter d + n\<rparr>)))"
proof -
  let ?I = "plainItems rs stss"
  have items: "mkItems rs stss (replicate (length stss) UniqueReuse) [] = ?I"
    using assms(1) by (intro nth_equalityI) (simp_all add: plainItems_def mkItems_def)
  have plain: "\<forall>it \<in> set ?I. \<not> immediate it"
    using assms(2) by (auto simp: plainItems_def immediate_def useStrategy_def noPolicy_def
      dest: set_zip_leftD)
  have ids: "map (rID \<circ> eiRun) ?I = map rID rs"
    using assms(1) by (intro nth_equalityI) (simp_all add: plainItems_def)
  let ?n = "count_where sequenced ?I"
  let ?st = "\<lparr>esDB = d\<lparr>counter := counter d + int ?n\<rparr>, esSeqNext = (if ?n = 0 then 0 else counter d),
    esBatch = [], esIDs = [], esReplaced = []\<rparr>"
  from foldE_createOne_plain [OF plain, of be now ?st] obtain n' where
    f: "foldE (createOne be now) ?I ?st = Inr (?st\<lparr>esSeqNext := n',
      esBatch := stampAll (esSeqNext ?st) ?I, esIDs := map rID rs\<rparr>)"
    by (auto simp: ids)
  have al: "(if 0 < ?n then allocSeq (int ?n) d else (d, 0)) =
      (d\<lparr>counter := counter d + int ?n\<rparr>, if ?n = 0 then 0 else counter d)"
    by (simp add: allocSeq_def)
  have "createRunsUniqueTx be now rs stss (replicate (length rs) UniqueReuse) [] d =
      (case foldE (createOne be now) ?I ?st of
         Inl e \<Rightarrow> Inl e
       | Inr st \<Rightarrow> (case flushBatch be st of
           Inl e \<Rightarrow> Inl e
         | Inr st' \<Rightarrow> Inr (esDB st', esIDs st', esReplaced st')))"
    unfolding createRunsUniqueTx_def Let_def using assms(1) by (simp only: items al prod.case) simp
  also have "\<dots> = map_sum insertErr (\<lambda>d'. (d', map rID rs, []))
      (insertRunsTx be (stampAll (if ?n = 0 then 0 else counter d) ?I) (d\<lparr>counter := counter d + int ?n\<rparr>))"
    by (subst f, cases "insertRunsTx be (stampAll (if ?n = 0 then 0 else counter d) ?I)
          (d\<lparr>counter := counter d + int ?n\<rparr>)")
      (simp_all add: flushBatch_eq split del: if_split)
  finally show ?thesis by (simp add: CreateRunsUnique_def Let_def)
qed

end
