(* ===== verification/Journal.thy ===== *)
theory Journal
  imports Complete
begin

text \<open>
  The durable-await journal of a step (internal/store/journal.go) and event delivery. A
  durable wait is one transaction: the journal entry and the SUSPENDED status appear
  together; an event or a timeout consumes an undone wait entry, whichever comes first.
\<close>

section \<open>Reading and writing entries\<close>

definition LoadJournal :: "string \<Rightarrow> db \<Rightarrow> journalEntry list" where
  "LoadJournal stepID d = sort_key jIdx (filter (\<lambda>j. jStepID j = stepID) (journal d))"

definition insertJournal :: "journalEntry \<Rightarrow> db \<Rightarrow> err + db" where
  "insertJournal e d =
     (if List.member (map (\<lambda>j. (jStepID j, jIdx j)) (journal d)) (jStepID e, jIdx e)
      then Inl ErrUniqueConstraint
      else if \<not> List.member (map sID (steps d)) (jStepID e) then Inl ErrForeignKey
      else Inr (d\<lparr>journal := journal d @ [e]\<rparr>))"

definition AppendJournal :: "journalEntry \<Rightarrow> db \<Rightarrow> err + db" where
  "AppendJournal e d = insertJournal e d"

definition CompleteJournalOnce :: "string \<Rightarrow> int \<Rightarrow> bytes \<Rightarrow> string \<Rightarrow> db \<Rightarrow> db" where
  "CompleteJournalOnce stepID idx res errMsg = upd_journal
     (\<lambda>j. jStepID j = stepID \<and> jIdx j = idx) (\<lambda>j. j\<lparr>jDone := True, jResult := res, jErr := errMsg\<rparr>)"

definition suspendRow :: "string \<Rightarrow> string \<Rightarrow> time \<Rightarrow> step \<Rightarrow> step" where
  "suspendRow waitKind waitEvent resumeAt s = s\<lparr>sStatus := Suspended, sResumeAt := resumeAt,
     sWaitKind := waitKind, sWaitEvent := waitEvent\<rparr>"

definition SuspendStep :: "string \<Rightarrow> string \<Rightarrow> string \<Rightarrow> time \<Rightarrow> db \<Rightarrow> err + db" where
  "SuspendStep stepID waitKind waitEvent resumeAt d =
     (if count_where (runningStep stepID) (steps d) \<noteq> 1 then Inl ErrStepNotRunning
      else Inr (upd_steps (runningStep stepID) (suspendRow waitKind waitEvent resumeAt) d))"

definition SuspendWithJournal :: "journalEntry \<Rightarrow> string \<Rightarrow> string \<Rightarrow> time \<Rightarrow> db \<Rightarrow> err + db" where
  "SuspendWithJournal e waitKind waitEvent resumeAt d =
     (if count_where (runningStep (jStepID e)) (steps d) \<noteq> 1 then Inl ErrStepNotRunning
      else insertJournal e
        (upd_steps (runningStep (jStepID e)) (suspendRow waitKind waitEvent resumeAt) d))"

definition GetJournalEntry :: "string \<Rightarrow> int \<Rightarrow> db \<Rightarrow> journalEntry option" where
  "GetJournalEntry stepID idx d = find (\<lambda>j. jStepID j = stepID \<and> jIdx j = idx) (journal d)"

definition undoneEntry :: "string \<Rightarrow> int \<Rightarrow> journalEntry \<Rightarrow> bool" where
  "undoneEntry stepID idx j \<longleftrightarrow> jStepID j = stepID \<and> jIdx j = idx \<and> \<not> jDone j"

definition TimeoutWait :: "string \<Rightarrow> int \<Rightarrow> db \<Rightarrow> db \<times> bool" where
  "TimeoutWait stepID idx d =
     (upd_journal (undoneEntry stepID idx) (\<lambda>j. j\<lparr>jTimedOut := True, jDone := True\<rparr>) d,
      count_where (undoneEntry stepID idx) (journal d) = 1)"

section \<open>Delivering an event\<close>

text \<open>An undone wait on the event whose step belongs to a live run.\<close>

definition waitsFor :: "string \<Rightarrow> db \<Rightarrow> journalEntry \<Rightarrow> bool" where
  "waitsFor name d j \<longleftrightarrow> jKind j = JournalWait \<and> \<not> jDone j \<and> jEvent j = name \<and>
     list_ex (\<lambda>st. sID st = jStepID j \<and>
       list_ex (\<lambda>r. rID r = sRunID st \<and> \<not> IsTerminal (rStatus r)) (runs d)) (steps d)"

definition insertEvent :: "string \<Rightarrow> bytes \<Rightarrow> time \<Rightarrow> db \<Rightarrow> db" where
  "insertEvent name payload now d =
     d\<lparr>eventSeq := eventSeq d + 1,
       events := events d @ [\<lparr>eSeq = eventSeq d + 1, eName = name, ePayload = payload, eCreatedAt = now\<rparr>]\<rparr>"

fun deliverEntries :: "bytes \<Rightarrow> (string \<times> int) list \<Rightarrow> db \<Rightarrow> db \<times> string list" where
  "deliverEntries payload [] d = (d, [])"
| "deliverEntries payload ((i, idx) # ws) d =
     (let n = count_where (undoneEntry i idx) (journal d);
          d1 = upd_journal (undoneEntry i idx) (\<lambda>j. j\<lparr>jPayload := payload, jDone := True\<rparr>) d;
          (d2, ids) = deliverEntries payload ws d1
      in (d2, if n \<noteq> 1 then ids else i # ids))"

definition wakeStep :: "string \<Rightarrow> db \<Rightarrow> db" where
  "wakeStep i = upd_steps (\<lambda>s. sID s = i \<and> sStatus s = Suspended)
     (\<lambda>s. s\<lparr>sStatus := Queued, sResumeAt := 0, sWaitKind := '''', sWaitEvent := ''''\<rparr>)"

definition DeliverEvent :: "string \<Rightarrow> bytes \<Rightarrow> time \<Rightarrow> db \<Rightarrow> db \<times> nat" where
  "DeliverEvent name payload now d =
     (let d0 = insertEvent name payload now d;
          candidates = map (\<lambda>j. (jStepID j, jIdx j)) (filter (waitsFor name d0) (journal d0));
          (d1, ids) = deliverEntries payload candidates d0
      in (fold wakeStep ids d1, length ids))"

section \<open>Preservation of the invariants\<close>

lemma frame_suspendRow [simp]: "step_frame (suspendRow k e t)"
  and frame_wakeRow [simp]: "step_frame (\<lambda>s. s\<lparr>sStatus := st, sResumeAt := t, sWaitKind := k, sWaitEvent := e\<rparr>)"
  and suspendRow_status [simp]: "sStatus (suspendRow k e t s) = Suspended"
  by (simp_all add: step_frame_def suspendRow_def)

lemma integrity_insertJournal:
  "integrity d \<Longrightarrow> insertJournal e d = Inr d' \<Longrightarrow> integrity d'"
  by (auto simp: integrity_defs insertJournal_def dep_ok_def split: if_splits)

lemma integrity_suspendRow:
  "integrity d \<Longrightarrow> integrity (upd_steps (runningStep i) (suspendRow k e t) d)"
  by (rule integrity_upd_steps) (auto simp: runningStep_def)

lemma integrity_SuspendStep: "integrity d \<Longrightarrow> SuspendStep i k e t d = Inr d' \<Longrightarrow> integrity d'"
  by (auto simp: SuspendStep_def integrity_suspendRow split: if_splits)

lemma integrity_SuspendWithJournal:
  "integrity d \<Longrightarrow> SuspendWithJournal j k e t d = Inr d' \<Longrightarrow> integrity d'"
  by (auto simp: SuspendWithJournal_def split: if_splits
      intro: integrity_insertJournal [OF integrity_suspendRow])

lemma integrity_CompleteJournalOnce: "integrity d \<Longrightarrow> integrity (CompleteJournalOnce i n r e d)"
  unfolding CompleteJournalOnce_def by (rule integrity_upd_journal) simp_all

lemma integrity_TimeoutWait: "integrity d \<Longrightarrow> integrity (fst (TimeoutWait i n d))"
  unfolding TimeoutWait_def fst_conv by (rule integrity_upd_journal) simp_all

lemma integrity_deliverEntries:
  "integrity d \<Longrightarrow> integrity (fst (deliverEntries payload ws d))"
proof (induction payload ws d rule: deliverEntries.induct)
  case (2 payload i idx ws d)
  have "integrity (upd_journal (undoneEntry i idx) (\<lambda>j. j\<lparr>jPayload := payload, jDone := True\<rparr>) d)"
    using 2(2) by (rule integrity_upd_journal) simp_all
  then show ?case using 2(1) by (simp add: split_beta Let_def)
qed simp

lemma integrity_fold_wakeStep: "integrity d \<Longrightarrow> integrity (fold wakeStep ids d)"
proof (induction ids arbitrary: d)
  case (Cons i ids)
  have "integrity (wakeStep i d)"
    unfolding wakeStep_def by (rule integrity_upd_steps [OF Cons.prems]) auto
  then show ?case using Cons.IH by simp
qed simp

lemma integrity_DeliverEvent: "integrity d \<Longrightarrow> integrity (fst (DeliverEvent name payload now d))"
proof -
  assume "integrity d"
  then have "integrity (insertEvent name payload now d)"
    by (rule integrity_same_core [rotated]) (simp add: same_core_def insertEvent_def)
  then show ?thesis
    by (simp add: DeliverEvent_def Let_def split_beta integrity_fold_wakeStep integrity_deliverEntries)
qed

section \<open>What a delivery does\<close>

lemma upd_journal_once:
  assumes "\<And>j. jDone (f j)" and "\<And>j. Q j \<longleftrightarrow> undoneEntry i idx j \<or> P j \<and> \<not> jDone j"
    and "\<And>j. Q j \<Longrightarrow> \<not> jDone j"
  shows "upd_journal (\<lambda>j. P j \<and> \<not> jDone j) f (upd_journal (undoneEntry i idx) f d) = upd_journal Q f d"
proof -
  have "(let j' = if undoneEntry i idx j then f j else j in if P j' \<and> \<not> jDone j' then f j' else j') =
      (if Q j then f j else j)" for j
    using assms(1) [of j] assms(2) [of j] by (simp add: Let_def)
  then show ?thesis by (simp add: upd_journal_def update_where_def Let_def)
qed

lemma deliverEntries_eq:
  assumes "distinct ws" and "distinct (map (\<lambda>j. (jStepID j, jIdx j)) (journal d))"
    and "\<forall>w \<in> set ws. \<exists>j \<in> set (journal d). (jStepID j, jIdx j) = w \<and> \<not> jDone j"
  shows "deliverEntries payload ws d =
    (upd_journal (\<lambda>j. (jStepID j, jIdx j) \<in> set ws \<and> \<not> jDone j)
       (\<lambda>j. j\<lparr>jPayload := payload, jDone := True\<rparr>) d, map fst ws)"
  using assms
proof (induction payload ws d rule: deliverEntries.induct)
  case (1 payload d)
  then show ?case by (simp add: upd_journal_def update_where_id)
next
  case (2 payload i idx ws d)
  let ?key = "\<lambda>j. (jStepID j, jIdx j)"
  let ?f = "\<lambda>j. j\<lparr>jPayload := payload, jDone := True\<rparr>"
  let ?d1 = "upd_journal (undoneEntry i idx) ?f d"
  from 2(4) obtain j where j: "j \<in> set (journal d)" "?key j = (i, idx)" "\<not> jDone j" by auto
  have "count_where (undoneEntry i idx) (journal d) = 1"
  proof -
    have "count_where (\<lambda>j. ?key j = (i, idx) \<and> \<not> jDone j) (journal d) \<le> 1"
      by (rule count_where_key_le_1 [OF 2(3)])
    moreover have "count_where (\<lambda>j. ?key j = (i, idx) \<and> \<not> jDone j) (journal d) \<noteq> 0"
      using j by (auto simp: count_where_eq_0)
    ultimately show ?thesis by (simp add: undoneEntry_def [abs_def])
  qed
  moreover have "deliverEntries payload ws ?d1 =
      (upd_journal (\<lambda>j. ?key j \<in> set ws \<and> \<not> jDone j) ?f ?d1, map fst ws)"
  proof (rule 2(1))
    show "distinct ws" using 2(2) by simp
    show "distinct (map ?key (journal ?d1))"
      using 2(3) by (simp add: map_key_update_where)
    show "\<forall>w \<in> set ws. \<exists>j \<in> set (journal ?d1). ?key j = w \<and> \<not> jDone j"
    proof
      fix w assume w: "w \<in> set ws"
      then have "\<exists>j \<in> set (journal d). ?key j = w \<and> \<not> jDone j"
        by (rule bspec [OF 2(4), OF list.set_intros(2)])
      then obtain k where k: "k \<in> set (journal d)" "?key k = w" "\<not> jDone k" by (elim bexE conjE)
      have "\<not> undoneEntry i idx k" using k(2) w 2(2) by (auto simp: undoneEntry_def)
      with in_update_whereI [OF k(1), of "undoneEntry i idx" ?f]
      have "k \<in> set (journal ?d1)" by simp
      moreover have "?key k = w \<and> \<not> jDone k" using k(2,3) by (rule conjI)
      ultimately show "\<exists>j \<in> set (journal ?d1). ?key j = w \<and> \<not> jDone j" by (rule bexI [rotated])
    qed
  qed (rule refl)+
  moreover have "upd_journal (\<lambda>j. ?key j \<in> set ws \<and> \<not> jDone j) ?f ?d1 =
      upd_journal (\<lambda>j. ?key j \<in> set ((i, idx) # ws) \<and> \<not> jDone j) ?f d"
    by (rule upd_journal_once) (auto simp: undoneEntry_def)
  ultimately show ?case by (simp add: Let_def)
qed

lemma fold_wakeStep:
  "fold wakeStep ids d = upd_steps (\<lambda>s. sID s \<in> set ids \<and> sStatus s = Suspended)
     (\<lambda>s. s\<lparr>sStatus := Queued, sResumeAt := 0, sWaitKind := '''', sWaitEvent := ''''\<rparr>) d"
proof (induction ids arbitrary: d)
  case Nil
  then show ?case by (simp add: upd_steps_def update_where_id)
next
  case (Cons i ids)
  have "fold wakeStep (i # ids) d = fold wakeStep ids (wakeStep i d)" by simp
  also have "\<dots> = upd_steps (\<lambda>s. sID s \<in> set ids \<and> sStatus s = Suspended)
     (\<lambda>s. s\<lparr>sStatus := Queued, sResumeAt := 0, sWaitKind := '''', sWaitEvent := ''''\<rparr>) (wakeStep i d)"
    by (rule Cons.IH)
  also have "\<dots> = upd_steps (\<lambda>s. sID s \<in> set (i # ids) \<and> sStatus s = Suspended)
     (\<lambda>s. s\<lparr>sStatus := Queued, sResumeAt := 0, sWaitKind := '''', sWaitEvent := ''''\<rparr>) d"
    unfolding wakeStep_def upd_steps_compose by (auto simp: upd_steps_def update_where_def)
  finally show ?case .
qed

lemma DeliverEvent_eq:
  assumes "integrity d"
  shows "fst (DeliverEvent name payload now d) =
      upd_steps (\<lambda>s. (\<exists>j \<in> set (journal d). waitsFor name d j \<and> jStepID j = sID s) \<and> sStatus s = Suspended)
        (\<lambda>s. s\<lparr>sStatus := Queued, sResumeAt := 0, sWaitKind := '''', sWaitEvent := ''''\<rparr>)
        (upd_journal (waitsFor name d) (\<lambda>j. j\<lparr>jPayload := payload, jDone := True\<rparr>)
          (insertEvent name payload now d))"
    and "snd (DeliverEvent name payload now d) = count_where (waitsFor name d) (journal d)"
proof -
  let ?d0 = "insertEvent name payload now d"
  let ?key = "\<lambda>j. (jStepID j, jIdx j)"
  have w: "waitsFor name ?d0 = waitsFor name d"
    by (rule ext) (simp add: waitsFor_def insertEvent_def)
  have j0: "journal ?d0 = journal d" by (simp add: insertEvent_def)
  let ?ws = "map ?key (filter (waitsFor name d) (journal d))"
  have dist: "distinct (map ?key (journal d))" using assms by (simp add: integrity_defs)
  have e: "deliverEntries payload ?ws ?d0 =
      (upd_journal (\<lambda>j. ?key j \<in> set ?ws \<and> \<not> jDone j) (\<lambda>j. j\<lparr>jPayload := payload, jDone := True\<rparr>) ?d0,
       map fst ?ws)"
  proof (rule deliverEntries_eq)
    show "distinct ?ws" using dist by (rule distinct_map_filter)
    show "distinct (map ?key (journal ?d0))" using dist j0 by simp
    show "\<forall>w \<in> set ?ws. \<exists>j \<in> set (journal ?d0). ?key j = w \<and> \<not> jDone j"
      by (auto simp: j0 waitsFor_def)
  qed
  have "?key j \<in> set ?ws \<and> \<not> jDone j \<longleftrightarrow> waitsFor name d j" if "j \<in> set (journal d)" for j
  proof
    assume "?key j \<in> set ?ws \<and> \<not> jDone j"
    then obtain k where k: "k \<in> set (journal d)" "waitsFor name d k" "?key k = ?key j" by auto
    have "k = j" by (rule distinct_key_eq [OF dist k(1) that k(3)])
    with k(2) show "waitsFor name d j" by simp
  qed (use that in \<open>auto simp: waitsFor_def\<close>)
  then have u: "upd_journal (\<lambda>j. ?key j \<in> set ?ws \<and> \<not> jDone j) f ?d0 =
      upd_journal (waitsFor name d) f ?d0" for f
    by (auto simp: upd_journal_def update_where_def j0 cong: map_cong)
  have ids: "x \<in> set (map fst ?ws) \<longleftrightarrow> (\<exists>j \<in> set (journal d). waitsFor name d j \<and> jStepID j = x)" for x
    by auto
  show "fst (DeliverEvent name payload now d) =
      upd_steps (\<lambda>s. (\<exists>j \<in> set (journal d). waitsFor name d j \<and> jStepID j = sID s) \<and> sStatus s = Suspended)
        (\<lambda>s. s\<lparr>sStatus := Queued, sResumeAt := 0, sWaitKind := '''', sWaitEvent := ''''\<rparr>)
        (upd_journal (waitsFor name d) (\<lambda>j. j\<lparr>jPayload := payload, jDone := True\<rparr>) ?d0)"
    by (simp only: DeliverEvent_def Let_def w j0 e prod.case fold_wakeStep ids u fst_conv)
  show "snd (DeliverEvent name payload now d) = count_where (waitsFor name d) (journal d)"
    by (simp only: DeliverEvent_def Let_def w j0 e prod.case snd_conv length_map count_where_def)
qed

end
