(* ===== verification/Recovery.thy ===== *)
theory Recovery
  imports Journal
begin

text \<open>
  Crash and shutdown handling (internal/store/store.go: InterruptAll, HeartbeatWorker,
  ReapExpired; internal/store/schema.go: recoverInterrupted).
\<close>

definition interruptRunRow :: "time \<Rightarrow> run \<Rightarrow> run" where
  "interruptRunRow now r = r\<lparr>rStatus := Interrupted, rCompletedAt := now, rUniqueKey := ''''\<rparr>"

definition deleteEphemeralRuns :: "string list \<Rightarrow> db \<Rightarrow> db" where
  "deleteEphemeralRuns ids d = fold deleteEphemeralRunTx ids d"

definition InterruptAllRunning :: "time \<Rightarrow> db \<Rightarrow> db" where
  "InterruptAllRunning now d =
     (let ids = map rID (filter (\<lambda>r. rStatus r = Running \<and> rEphemeral r) (runs d)) in
      upd_runs (\<lambda>r. rStatus r = Running) (interruptRunRow now)
        (upd_steps (\<lambda>s. sStatus s = Running) (\<lambda>s. s\<lparr>sStatus := Interrupted, sCompletedAt := now\<rparr>)
          (deleteEphemeralRuns ids d)))"

text \<open>The runs of the worker's RUNNING steps, in table order, without repetitions.\<close>

definition workerRuns :: "string \<Rightarrow> db \<Rightarrow> string list" where
  "workerRuns workerID d =
     remdups (map sRunID (filter (\<lambda>s. sStatus s = Running \<and> sWorkerID s = workerID) (steps d)))"

definition isEphemeralRun :: "db \<Rightarrow> string \<Rightarrow> bool" where
  "isEphemeralRun d i \<longleftrightarrow> (case find_run i d of None \<Rightarrow> False | Some r \<Rightarrow> rEphemeral r)"

definition InterruptAllWorker :: "string \<Rightarrow> time \<Rightarrow> db \<Rightarrow> db" where
  "InterruptAllWorker workerID now d =
     (let ids = workerRuns workerID d;
          runIDs = filter (\<lambda>i. \<not> isEphemeralRun d i) ids;
          d1 = deleteEphemeralRuns (filter (isEphemeralRun d) ids) d;
          d2 = upd_steps (\<lambda>s. sStatus s = Running \<and> sWorkerID s = workerID)
                 (\<lambda>s. s\<lparr>sStatus := Interrupted, sCompletedAt := now, sWorkerID := '''',
                    sLeaseExpiresAt := 0\<rparr>) d1
      in if length runIDs > 0
         then upd_runs (\<lambda>r. rStatus r = Running \<and> List.member runIDs (rID r) \<and>
                \<not> list_ex (\<lambda>s. sRunID s = rID r \<and> unfinished (sStatus s)) (steps d2))
                (interruptRunRow now) d2
         else d2)"

definition InterruptAll :: "string \<Rightarrow> time \<Rightarrow> db \<Rightarrow> db" where
  "InterruptAll workerID now d =
     (if workerID = '''' then InterruptAllRunning now d else InterruptAllWorker workerID now d)"

definition HeartbeatWorker :: "string \<Rightarrow> time \<Rightarrow> db \<Rightarrow> db" where
  "HeartbeatWorker workerID leaseUntil =
     upd_steps (\<lambda>s. sWorkerID s = workerID \<and> sStatus s = Running) (\<lambda>s. s\<lparr>sLeaseExpiresAt := leaseUntil\<rparr>)"

definition expired :: "db \<Rightarrow> time \<Rightarrow> step \<Rightarrow> bool" where
  "expired d now s \<longleftrightarrow> sStatus s = Running \<and> sLeaseExpiresAt s > 0 \<and> sLeaseExpiresAt s < now \<and>
     list_ex (\<lambda>r. rID r = sRunID s \<and> \<not> IsTerminal (rStatus r)) (runs d)"

definition ReapExpired :: "time \<Rightarrow> int \<Rightarrow> db \<Rightarrow> db \<times> nat" where
  "ReapExpired now limit d =
     (let limit = (if limit \<le> 0 then 100 else limit);
          ids = map sID (take (nat limit) (filter (expired d now) (steps d)))
      in (upd_steps (\<lambda>s. List.member ids (sID s))
            (\<lambda>s. s\<lparr>sStatus := Queued, sRunAt := now, sWorkerID := '''', sLeaseExpiresAt := 0\<rparr>) d,
          count_where (\<lambda>s. List.member ids (sID s)) (steps d)))"

section \<open>Boot recovery\<close>

definition orphaned :: "bool \<Rightarrow> step \<Rightarrow> bool" where
  "orphaned keep s \<longleftrightarrow> sStatus s = Running \<or> sStatus s = Interrupted \<or> (\<not> keep \<and> sStatus s = Suspended)"

definition recoverStepRow :: "bool \<Rightarrow> time \<Rightarrow> step \<Rightarrow> step" where
  "recoverStepRow keep now s =
     (if keep then s\<lparr>sStatus := Queued, sRunAt := now, sResumeAt := 0, sWaitKind := '''', sWaitEvent := ''''\<rparr>
      else s\<lparr>sStatus := Failed, sRunAt := now, sError := ''interrupted by restart'',
        sCompletedAt := now, sResumeAt := 0, sWaitKind := '''', sWaitEvent := ''''\<rparr>)"

definition recoverRunRow :: "bool \<Rightarrow> time \<Rightarrow> run \<Rightarrow> run" where
  "recoverRunRow keep now r =
     (if keep then r\<lparr>rStatus := Queued, rRunAt := now\<rparr>
      else r\<lparr>rStatus := Failed, rRunAt := now, rError := ''interrupted by restart'',
        rCompletedAt := now, rUniqueKey := ''''\<rparr>)"

definition recoverInterrupted :: "bool \<Rightarrow> time \<Rightarrow> db \<Rightarrow> db" where
  "recoverInterrupted keep now d =
     (let ids = map rID (filter rEphemeral (runs d)) in
      upd_runs (\<lambda>r. rStatus r = Running \<or> rStatus r = Interrupted) (recoverRunRow keep now)
        (upd_steps (orphaned keep) (recoverStepRow keep now) (deleteEphemeralRuns ids d)))"

section \<open>Frames and invariants\<close>

lemma frame_recoveryRows [simp]:
  "run_frame (interruptRunRow now)"
  "run_frame (recoverRunRow keep now)"
  "step_frame (recoverStepRow keep now)"
  "step_frame (\<lambda>s. s\<lparr>sStatus := st, sCompletedAt := t, sWorkerID := w, sLeaseExpiresAt := l\<rparr>)"
  "step_frame (\<lambda>s. s\<lparr>sStatus := st, sRunAt := t, sWorkerID := w, sLeaseExpiresAt := l\<rparr>)"
  "step_frame (\<lambda>s. s\<lparr>sLeaseExpiresAt := l\<rparr>)"
  by (simp_all add: run_frame_def step_frame_def interruptRunRow_def recoverRunRow_def recoverStepRow_def)

lemma recoveryRows_sel [simp]:
  "rStatus (interruptRunRow now r) = Interrupted"
  "rUniqueKey (interruptRunRow now r) = ''''"
  "rStatus (recoverRunRow keep now r) = (if keep then Queued else Failed)"
  "rUniqueKey (recoverRunRow keep now r) = (if keep then rUniqueKey r else '''')"
  "sStatus (recoverStepRow keep now s) = (if keep then Queued else Failed)"
  by (simp_all add: interruptRunRow_def recoverRunRow_def recoverStepRow_def)

lemma integrity_deleteEphemeralRuns: "integrity d \<Longrightarrow> integrity (deleteEphemeralRuns ids d)"
  unfolding deleteEphemeralRuns_def
  by (induction ids arbitrary: d) (simp_all add: integrity_deleteEphemeralRunTx)

lemma integrity_InterruptAllRunning: "integrity d \<Longrightarrow> integrity (InterruptAllRunning now d)"
  unfolding InterruptAllRunning_def Let_def
  by (rule integrity_upd_runs, rule integrity_upd_steps, rule integrity_deleteEphemeralRuns) auto

lemma integrity_InterruptAllWorker:
  assumes "integrity d"
  shows "integrity (InterruptAllWorker w now d)"
proof -
  let ?d1 = "deleteEphemeralRuns (filter (isEphemeralRun d) (workerRuns w d)) d"
  let ?d2 = "upd_steps (\<lambda>s. sStatus s = Running \<and> sWorkerID s = w)
    (\<lambda>s. s\<lparr>sStatus := Interrupted, sCompletedAt := now, sWorkerID := '''', sLeaseExpiresAt := 0\<rparr>) ?d1"
  have 2: "integrity ?d2"
    by (rule integrity_upd_steps, rule integrity_deleteEphemeralRuns [OF assms]) auto
  have "integrity (upd_runs P (interruptRunRow now) ?d2)" for P
    by (rule integrity_upd_runs [OF 2]) auto
  with 2 show ?thesis by (simp add: InterruptAllWorker_def Let_def)
qed

lemma integrity_InterruptAll: "integrity d \<Longrightarrow> integrity (InterruptAll w now d)"
  by (simp add: InterruptAll_def integrity_InterruptAllRunning integrity_InterruptAllWorker)

lemma integrity_HeartbeatWorker: "integrity d \<Longrightarrow> integrity (HeartbeatWorker w t d)"
  unfolding HeartbeatWorker_def by (rule integrity_upd_steps) (auto simp: integrityD(6))

lemma reaped_expired:
  assumes "integrity d" and "s \<in> set (steps d)"
    and "List.member (map sID (take n (filter (expired d now) (steps d)))) (sID s)"
  shows "expired d now s"
proof -
  from assms(3) obtain t where t: "t \<in> set (steps d)" "expired d now t" "sID t = sID s"
    by (auto dest!: in_set_takeD)
  have "t = s" by (rule distinct_key_eq [OF integrityD(2) [OF assms(1)] t(1) assms(2) t(3)])
  with t(2) show ?thesis by simp
qed

lemma integrity_ReapExpired: "integrity d \<Longrightarrow> integrity (fst (ReapExpired now limit d))"
  unfolding ReapExpired_def Let_def fst_conv
  by (rule integrity_upd_steps) (auto simp: expired_def dest!: reaped_expired)

lemma integrity_recoverInterrupted: "integrity d \<Longrightarrow> integrity (recoverInterrupted keep now d)"
  unfolding recoverInterrupted_def Let_def
  by (rule integrity_upd_runs, rule integrity_upd_steps, rule integrity_deleteEphemeralRuns)
    (auto simp: orphaned_def integrityD(5))

section \<open>What recovery leaves\<close>

lemma set_deleteEphemeralRuns:
  "set (runs (deleteEphemeralRuns ids d)) = {r \<in> set (runs d). rID r \<notin> set ids}"
  "set (steps (deleteEphemeralRuns ids d)) = {s \<in> set (steps d). sRunID s \<notin> set ids}"
  unfolding deleteEphemeralRuns_def
  by (induction ids arbitrary: d) (auto simp: steps_deleteEphemeralRunTx)

lemma recoverRows_frame [simp]:
  "rEphemeral (recoverRunRow keep now r) = rEphemeral r"
  "sRunID (recoverStepRow keep now s) = sRunID s"
  by (simp_all add: recoverRunRow_def recoverStepRow_def)

lemma recover_runs:
  assumes "integrity d" and "r \<in> set (runs (recoverInterrupted keep now d))"
  shows "rStatus r \<noteq> Running \<and> rStatus r \<noteq> Interrupted \<and> \<not> rEphemeral r"
proof -
  let ?d = "deleteEphemeralRuns (map rID (filter rEphemeral (runs d))) d"
  have e: "\<not> rEphemeral x" if "x \<in> set (runs ?d)" for x
    using that by (auto simp: set_deleteEphemeralRuns)
  from assms(2) have "r \<in> set (update_where (\<lambda>r. rStatus r = Running \<or> rStatus r = Interrupted)
      (recoverRunRow keep now) (runs ?d))"
    by (simp add: recoverInterrupted_def Let_def)
  then show ?thesis
  proof (cases rule: in_update_whereE)
    case (1 x)
    with e [OF 1(1)] show ?thesis by simp
  next
    case 2
    with e [OF 2(1)] show ?thesis by simp
  qed
qed

lemma recover_steps:
  assumes "s \<in> set (steps (recoverInterrupted keep now d))"
  shows "sStatus s \<noteq> Running \<and> sStatus s \<noteq> Interrupted \<and> (keep \<or> sStatus s \<noteq> Suspended)"
proof -
  let ?d = "deleteEphemeralRuns (map rID (filter rEphemeral (runs d))) d"
  from assms have "s \<in> set (update_where (orphaned keep) (recoverStepRow keep now) (steps ?d))"
    by (simp add: recoverInterrupted_def Let_def)
  then show ?thesis
  proof (cases rule: in_update_whereE)
    case (1 x)
    then show ?thesis by simp
  next
    case 2
    then show ?thesis by (simp add: orphaned_def)
  qed
qed

lemma recover_keeps_finished:
  assumes "integrity d" and "s \<in> set (steps d)" and "\<not> orphaned keep s"
    and "\<forall>r \<in> set (runs d). rID r = sRunID s \<longrightarrow> \<not> rEphemeral r"
  shows "s \<in> set (steps (recoverInterrupted keep now d))"
proof -
  let ?d = "deleteEphemeralRuns (map rID (filter rEphemeral (runs d))) d"
  have "s \<in> set (steps ?d)" using assms(2,4) by (auto simp: set_deleteEphemeralRuns)
  from in_update_whereI [OF this, of "orphaned keep" "recoverStepRow keep now"] assms(3)
  show ?thesis by (simp add: recoverInterrupted_def Let_def)
qed

lemma heartbeat_protects:
  assumes "integrity d" and "s \<in> set (steps (HeartbeatWorker w lease d))"
    and "sWorkerID s = w" and "sStatus s = Running" and "now \<le> lease"
  shows "s \<in> set (steps (fst (ReapExpired now limit (HeartbeatWorker w lease d))))"
proof -
  let ?d = "HeartbeatWorker w lease d"
  have i: "integrity ?d" by (rule integrity_HeartbeatWorker [OF assms(1)])
  from assms(2) have "s \<in> set (update_where (\<lambda>s. sWorkerID s = w \<and> sStatus s = Running)
      (\<lambda>s. s\<lparr>sLeaseExpiresAt := lease\<rparr>) (steps d))"
    by (simp add: HeartbeatWorker_def)
  then have "sLeaseExpiresAt s = lease"
  proof (cases rule: in_update_whereE)
    case (1 x)
    then show ?thesis by simp
  next
    case 2
    with assms(3,4) show ?thesis by simp
  qed
  then have ne: "\<not> expired ?d now s" using assms(5) by (simp add: expired_def)
  let ?n = "nat (if limit \<le> 0 then 100 else limit)"
  have "\<not> List.member (map sID (take ?n (filter (expired ?d now) (steps ?d)))) (sID s)"
    using reaped_expired [OF i assms(2)] ne by blast
  with in_update_whereI [OF assms(2),
      of "\<lambda>s. List.member (map sID (take ?n (filter (expired ?d now) (steps ?d)))) (sID s)"]
  show ?thesis unfolding ReapExpired_def Let_def fst_conv upd_steps_sel by (simp only: if_False)
qed

end
