(* ===== verification/Purge.thy ===== *)
theory Purge
  imports Integrity
begin

text \<open>
  Retention (internal/store/queries.go: PurgeRuns, purgeRunBatch, purgeOrphanLogs,
  purgeEvents). Rows are deleted in batches, one transaction each, until a batch comes back
  short; the theory shows that the batching has no effect on what is deleted and that the
  loops end.
\<close>

record PurgeOptions =
  poBefore :: time
  poStatuses :: "status list"
  poQueue :: string
  poExcludeDeadLettered :: bool
  poKeepLogs :: bool
  poBatchSize :: int

record PurgeResult =
  prRuns :: nat
  prSteps :: nat
  prLogs :: nat
  prEvents :: nat

definition zeroPurge :: PurgeResult where
  "zeroPurge = \<lparr>prRuns = 0, prSteps = 0, prLogs = 0, prEvents = 0\<rparr>"

definition terminalStatuses :: "status list" where
  "terminalStatuses = [Succeeded, Failed, Cancelled, Interrupted]"

section \<open>One batch\<close>

definition eligible :: "PurgeOptions \<Rightarrow> db \<Rightarrow> run \<Rightarrow> bool" where
  "eligible po d r \<longleftrightarrow> List.member (poStatuses po) (rStatus r) \<and>
     rCompletedAt r > 0 \<and> rCompletedAt r < poBefore po \<and>
     (poQueue po = '''' \<or> rQueue r = poQueue po) \<and>
     (poExcludeDeadLettered po \<longrightarrow> rDeadLetteredAt r = 0) \<and>
     \<not> list_ex (\<lambda>s. sRunID s = rID r \<and> sStatus s = Running) (steps d)"

definition purgeIDs :: "PurgeOptions \<Rightarrow> nat \<Rightarrow> db \<Rightarrow> string list" where
  "purgeIDs po batch d = map rID (take batch (sort_key rCompletedAt (filter (eligible po d) (runs d))))"

definition purgeRunBatch :: "PurgeOptions \<Rightarrow> nat \<Rightarrow> db \<Rightarrow> db \<times> nat \<times> PurgeResult" where
  "purgeRunBatch po batch d =
     (let ids = purgeIDs po batch d in
      if length ids = 0 then (d, 0, zeroPurge)
      else
        let inIDs = List.member ids;
            nLogs = (if poKeepLogs po then 0 else count_where (\<lambda>l. inIDs (lRunID (snd l))) (logs d));
            d1 = (if poKeepLogs po then d else del_logs (\<lambda>l. inIDs (lRunID (snd l))) d);
            nSteps = count_where (\<lambda>s. inIDs (sRunID s)) (steps d1);
            d2 = del_steps (\<lambda>s. inIDs (sRunID s)) d1;
            nRuns = count_where (\<lambda>r. inIDs (rID r)) (runs d2);
            d3 = del_runs (\<lambda>r. inIDs (rID r)) d2
        in (d3, length ids, \<lparr>prRuns = nRuns, prSteps = nSteps, prLogs = nLogs, prEvents = 0\<rparr>))"

definition addPurge :: "PurgeResult \<Rightarrow> PurgeResult \<Rightarrow> PurgeResult" where
  "addPurge a b = \<lparr>prRuns = prRuns a + prRuns b, prSteps = prSteps a + prSteps b,
     prLogs = prLogs a + prLogs b, prEvents = prEvents a + prEvents b\<rparr>"

lemma runs_purgeRunBatch:
  "runs (fst (purgeRunBatch po batch d)) = delete_where (\<lambda>r. rID r \<in> set (purgeIDs po batch d)) (runs d)"
  by (auto simp: purgeRunBatch_def Let_def delete_where_def)

lemma snd_purgeRunBatch: "fst (snd (purgeRunBatch po batch d)) = length (purgeIDs po batch d)"
  by (simp add: purgeRunBatch_def Let_def)

lemma purgeIDs_subset: "i \<in> set (purgeIDs po batch d) \<Longrightarrow> \<exists>r \<in> set (runs d). rID r = i \<and> eligible po d r"
  by (auto simp: purgeIDs_def dest!: in_set_takeD)

lemma purgeRunBatch_less:
  assumes "purgeIDs po batch d \<noteq> []"
  shows "length (runs (fst (purgeRunBatch po batch d))) < length (runs d)"
proof -
  obtain i where "i \<in> set (purgeIDs po batch d)" using assms by (cases "purgeIDs po batch d") auto
  with purgeIDs_subset obtain r where "r \<in> set (runs d)" "rID r \<in> set (purgeIDs po batch d)" by blast
  then show ?thesis by (auto simp: runs_purgeRunBatch delete_where_def intro!: length_filter_less)
qed

section \<open>The loops\<close>

text \<open>The batch size is positive: \<open>PurgeRuns\<close> replaces any other value by 500.\<close>

function purgeRunLoop :: "PurgeOptions \<Rightarrow> nat \<Rightarrow> db \<Rightarrow> db \<times> PurgeResult" where
  "purgeRunLoop po batch d =
     (let (d', n, r) = purgeRunBatch po batch d in
      if n < batch \<or> batch = 0 then (d', r)
      else let (d'', r') = purgeRunLoop po batch d' in (d'', addPurge r r'))"
  by pat_completeness auto
termination
proof (relation "measure (\<lambda>(po, batch, d). length (runs d))")
  fix po batch d x y d' n r
  assume *: "x = purgeRunBatch po batch d" "(d', y) = x" "(n, r) = y" "\<not> (n < batch \<or> batch = 0)"
  have "n = length (purgeIDs po batch d)" using * snd_purgeRunBatch [of po batch d] by (metis fst_conv snd_conv)
  with * have "purgeIDs po batch d \<noteq> []" by auto
  moreover have "d' = fst (purgeRunBatch po batch d)" using * by (metis fst_conv)
  ultimately show "((po, batch, d'), po, batch, d) \<in> measure (\<lambda>(po, batch, d). length (runs d))"
    by (simp add: purgeRunBatch_less)
qed simp

declare purgeRunLoop.simps [simp del]

definition orphan :: "db \<Rightarrow> int \<times> logEntry \<Rightarrow> bool" where
  "orphan d l \<longleftrightarrow> \<not> List.member (map rID (runs d)) (lRunID (snd l))"

definition purgeOrphanLogs :: "nat \<Rightarrow> db \<Rightarrow> db \<times> nat" where
  "purgeOrphanLogs batch d =
     (let seqs = map fst (take batch (filter (orphan d) (logs d)))
      in (del_logs (\<lambda>l. List.member seqs (fst l)) d, count_where (\<lambda>l. List.member seqs (fst l)) (logs d)))"

definition oldEvent :: "time \<Rightarrow> eventRow \<Rightarrow> bool" where
  "oldEvent before e \<longleftrightarrow> eCreatedAt e > 0 \<and> eCreatedAt e < before"

definition purgeEvents :: "time \<Rightarrow> nat \<Rightarrow> db \<Rightarrow> db \<times> nat" where
  "purgeEvents before batch d =
     (let seqs = map eSeq (take batch (filter (oldEvent before) (events d)))
      in (d\<lparr>events := delete_where (\<lambda>e. List.member seqs (eSeq e)) (events d)\<rparr>,
          count_where (\<lambda>e. List.member seqs (eSeq e)) (events d)))"

lemma length_delete_where: "length (delete_where P xs) + count_where P xs = length xs"
  by (induction xs) auto

function purgeOrphanLoop :: "nat \<Rightarrow> db \<Rightarrow> db \<times> nat" where
  "purgeOrphanLoop batch d =
     (let (d', n) = purgeOrphanLogs batch d in
      if n < batch \<or> batch = 0 then (d', n)
      else let (d'', n') = purgeOrphanLoop batch d' in (d'', n + n'))"
  by pat_completeness auto
termination
proof (relation "measure (\<lambda>(batch, d). length (logs d))")
  fix batch d x d' n
  assume *: "x = purgeOrphanLogs batch d" "(d', n) = x" "\<not> (n < batch \<or> batch = 0)"
  let ?s = "map fst (take batch (filter (orphan d) (logs d)))"
  have "logs d' = delete_where (\<lambda>l. List.member ?s (fst l)) (logs d)"
    "n = count_where (\<lambda>l. List.member ?s (fst l)) (logs d)"
    using * by (auto simp: purgeOrphanLogs_def Let_def)
  with length_delete_where [of "\<lambda>l. List.member ?s (fst l)" "logs d"] *(3)
  show "((batch, d'), batch, d) \<in> measure (\<lambda>(batch, d). length (logs d))" by simp
qed simp

declare purgeOrphanLoop.simps [simp del]

function purgeEventLoop :: "time \<Rightarrow> nat \<Rightarrow> db \<Rightarrow> db \<times> nat" where
  "purgeEventLoop before batch d =
     (let (d', n) = purgeEvents before batch d in
      if n < batch \<or> batch = 0 then (d', n)
      else let (d'', n') = purgeEventLoop before batch d' in (d'', n + n'))"
  by pat_completeness auto
termination
proof (relation "measure (\<lambda>(before, batch, d). length (events d))")
  fix before batch d x d' n
  assume *: "x = purgeEvents before batch d" "(d', n) = x" "\<not> (n < batch \<or> batch = 0)"
  let ?s = "map eSeq (take batch (filter (oldEvent before) (events d)))"
  have "events d' = delete_where (\<lambda>e. List.member ?s (eSeq e)) (events d)"
    "n = count_where (\<lambda>e. List.member ?s (eSeq e)) (events d)"
    using * by (auto simp: purgeEvents_def Let_def)
  with length_delete_where [of "\<lambda>e. List.member ?s (eSeq e)" "events d"] *(3)
  show "((before, batch, d'), before, batch, d) \<in> measure (\<lambda>(before, batch, d). length (events d))"
    by simp
qed simp

declare purgeEventLoop.simps [simp del]

definition PurgeRuns :: "PurgeOptions \<Rightarrow> db \<Rightarrow> err + db \<times> PurgeResult" where
  "PurgeRuns opts d =
     (if poBefore opts \<le> 0 then Inl ErrPurgeCutoff
      else
        let statuses = (if length (poStatuses opts) = 0 then terminalStatuses else poStatuses opts) in
        if \<not> list_all IsTerminal statuses then Inl ErrNonTerminalPurge
        else
          let batch = nat (if poBatchSize opts \<le> 0 then 500 else poBatchSize opts);
              (d1, res) = purgeRunLoop (opts\<lparr>poStatuses := statuses\<rparr>) batch d;
              (d2, nLogs) = (if poKeepLogs opts then (d1, 0) else purgeOrphanLoop batch d1);
              (d3, nEvents) = purgeEventLoop (poBefore opts) batch d2
          in Inr (d3, res\<lparr>prLogs := prLogs res + nLogs, prEvents := prEvents res + nEvents\<rparr>))"

section \<open>Batching has no effect\<close>

lemma steps_purgeRunBatch:
  "steps (fst (purgeRunBatch po batch d)) =
     delete_where (\<lambda>s. sRunID s \<in> set (purgeIDs po batch d) ) (steps d)"
proof -
  have *: "delete_where Q (delete_where P xs) = delete_where P xs"
    if "\<And>x. Q x \<Longrightarrow> P x" for P Q :: "step \<Rightarrow> bool" and xs
    using that by (induction xs) auto
  show ?thesis
    by (auto simp: purgeRunBatch_def Let_def delete_where_def [of _ "steps d"] intro!: *)
      (auto simp: delete_where_def image_iff intro!: filter_cong)
qed

lemma logs_purgeRunBatch:
  "logs (fst (purgeRunBatch po batch d)) = (if poKeepLogs po then logs d
     else delete_where (\<lambda>l. lRunID (snd l) \<in> set (purgeIDs po batch d)) (logs d))"
  "events (fst (purgeRunBatch po batch d)) = events d"
  by (auto simp: purgeRunBatch_def Let_def delete_where_def)

lemma integrity_purgeRunBatch:
  assumes "integrity d"
  shows "integrity (fst (purgeRunBatch po batch d))"
proof -
  have 1: "integrity (if poKeepLogs po then d else del_logs P d)" for P
    using assms integrity_same_core [OF same_core_del_logs] by simp
  have "integrity (del_steps (\<lambda>s. List.member ids (sRunID s)) e)" if "integrity e" for ids e
    using that by (rule integrity_del_steps) simp
  with 1 assms show ?thesis
    by (auto simp: purgeRunBatch_def Let_def intro!: integrity_del_runs)
qed

definition purged :: "PurgeOptions \<Rightarrow> db \<Rightarrow> string \<Rightarrow> bool" where
  "purged po d i \<longleftrightarrow> (\<exists>r \<in> set (runs d). rID r = i \<and> eligible po d r)"

lemma eligible_batch:
  assumes "rID r \<notin> set (purgeIDs po batch d)"
  shows "eligible po (fst (purgeRunBatch po batch d)) r = eligible po d r"
  using assms by (auto simp: eligible_def steps_purgeRunBatch list_ex_iff)

lemma short_batch_all:
  assumes "length (purgeIDs po batch d) < batch" and "r \<in> set (runs d)" and "eligible po d r"
  shows "rID r \<in> set (purgeIDs po batch d)"
proof -
  let ?e = "filter (eligible po d) (runs d)"
  have "length ?e < batch" using assms(1) by (simp add: purgeIDs_def)
  then have "take batch (sort_key rCompletedAt ?e) = sort_key rCompletedAt ?e" by simp
  with assms(2,3) show ?thesis by (simp add: purgeIDs_def)
qed

lemma delete_where_delete: "delete_where P (delete_where Q xs) = delete_where (\<lambda>x. P x \<or> Q x) xs"
  by (induction xs) auto

lemma delete_where_cong:
  "(\<And>x. x \<in> set xs \<Longrightarrow> P x = Q x) \<Longrightarrow> delete_where P xs = delete_where Q xs"
  by (induction xs) auto

text \<open>A batch removes some purged runs and leaves the set of the others as it was.\<close>

lemma purged_batch:
  assumes "integrity d"
  shows "purged po d i \<longleftrightarrow>
    i \<in> set (purgeIDs po batch d) \<or> purged po (fst (purgeRunBatch po batch d)) i"
  using purgeIDs_subset [of i po batch d] eligible_batch [of _ po batch d]
  by (auto simp: purged_def runs_purgeRunBatch)

lemma purgeRunLoop_eq:
  assumes "integrity d" and "0 < batch"
  shows "integrity (fst (purgeRunLoop po batch d)) \<and>
    runs (fst (purgeRunLoop po batch d)) = delete_where (\<lambda>r. purged po d (rID r)) (runs d) \<and>
    steps (fst (purgeRunLoop po batch d)) = delete_where (\<lambda>s. purged po d (sRunID s)) (steps d) \<and>
    logs (fst (purgeRunLoop po batch d)) = (if poKeepLogs po then logs d
      else delete_where (\<lambda>l. purged po d (lRunID (snd l))) (logs d)) \<and>
    events (fst (purgeRunLoop po batch d)) = events d"
  using assms
proof (induction po batch d rule: purgeRunLoop.induct)
  case (1 po batch d)
  let ?ids = "set (purgeIDs po batch d)"
  obtain d' n r where b: "purgeRunBatch po batch d = (d', n, r)" by (cases "purgeRunBatch po batch d")
  have n: "n = length (purgeIDs po batch d)"
    and i: "integrity d'"
    and rows: "runs d' = delete_where (\<lambda>r. rID r \<in> ?ids) (runs d)"
      "steps d' = delete_where (\<lambda>s. sRunID s \<in> ?ids) (steps d)"
      "logs d' = (if poKeepLogs po then logs d else delete_where (\<lambda>l. lRunID (snd l) \<in> ?ids) (logs d))"
      "events d' = events d"
    and p: "purged po d x \<longleftrightarrow> x \<in> ?ids \<or> purged po d' x" for x
    using snd_purgeRunBatch [of po batch d] integrity_purgeRunBatch [OF 1(2), of po batch]
      runs_purgeRunBatch [of po batch d] steps_purgeRunBatch [of po batch d]
      logs_purgeRunBatch [of po batch d]
      purged_batch [OF 1(2), of po x batch]
    by (simp_all add: b)
  show ?case
  proof (cases "n < batch")
    case True
    have "\<not> purged po d' x" for x
      using short_batch_all [of po batch d] eligible_batch [of _ po batch d] True n
      by (auto simp: purged_def rows b)
    with p have p': "purged po d x \<longleftrightarrow> x \<in> ?ids" for x by blast
    have "fst (purgeRunLoop po batch d) = d'"
      using True by (subst purgeRunLoop.simps) (simp add: b)
    with i show ?thesis by (simp add: p' rows)
  next
    case False
    from 1(1) [OF b [symmetric] refl refl _ i 1(3)] False 1(3)
    have IH: "integrity (fst (purgeRunLoop po batch d')) \<and>
      runs (fst (purgeRunLoop po batch d')) = delete_where (\<lambda>r. purged po d' (rID r)) (runs d') \<and>
      steps (fst (purgeRunLoop po batch d')) = delete_where (\<lambda>s. purged po d' (sRunID s)) (steps d') \<and>
      logs (fst (purgeRunLoop po batch d')) = (if poKeepLogs po then logs d'
        else delete_where (\<lambda>l. purged po d' (lRunID (snd l))) (logs d')) \<and>
      events (fst (purgeRunLoop po batch d')) = events d'"
      by simp
    have "fst (purgeRunLoop po batch d) = fst (purgeRunLoop po batch d')"
      using False 1(3) by (subst purgeRunLoop.simps) (simp add: b split_beta Let_def)
    with IH p show ?thesis by (simp add: rows delete_where_delete disj_commute)
  qed
qed

section \<open>Deleting by key in batches\<close>

text \<open>The first \<open>n\<close> rows satisfying \<open>P\<close>, selected by their keys.\<close>

definition inBatch :: "('a \<Rightarrow> 'k) \<Rightarrow> nat \<Rightarrow> ('a \<Rightarrow> bool) \<Rightarrow> 'a list \<Rightarrow> 'a \<Rightarrow> bool" where
  "inBatch key n P xs x \<longleftrightarrow> key x \<in> key ` set (take n (filter P xs))"

lemma inBatch_P:
  assumes "distinct (map key xs)" "x \<in> set xs" "inBatch key n P xs x"
  shows "P x"
proof -
  from assms(3) obtain y where y: "y \<in> set xs" "P y" "key y = key x"
    by (auto simp: inBatch_def dest!: in_set_takeD)
  have "y = x" by (rule distinct_key_eq [OF assms(1) y(1) assms(2) y(3)])
  with y(2) show ?thesis by simp
qed

lemma delete_batch:
  assumes "distinct (map key xs)"
  shows "delete_where P (delete_where (inBatch key n P xs) xs) = delete_where P xs"
  using inBatch_P [OF assms] by (auto simp: delete_where_delete intro!: delete_where_cong)

lemma short_batch:
  assumes "distinct (map key xs)" and "count_where (inBatch key n P xs) xs < n"
  shows "delete_where (inBatch key n P xs) xs = delete_where P xs"
proof -
  let ?t = "take n (filter P xs)"
  have "distinct xs" using assms(1) by (simp add: distinct_map)
  then have "length ?t = card (set ?t)" by (simp add: distinct_card)
  also have "\<dots> \<le> card (set (filter (inBatch key n P xs) xs))"
    by (rule card_mono) (auto simp: inBatch_def dest: in_set_takeD)
  also have "\<dots> = count_where (inBatch key n P xs) xs"
    using \<open>distinct xs\<close> by (simp only: count_where_def distinct_card distinct_filter)
  finally have "take n (filter P xs) = filter P xs" using assms(2) by simp
  then have "inBatch key n P xs x" if "x \<in> set xs" "P x" for x
    using that by (simp add: inBatch_def)
  with inBatch_P [OF assms(1)] show ?thesis by (intro delete_where_cong) blast
qed

lemma purgeOrphanLogs_eq:
  "purgeOrphanLogs batch d = (del_logs (inBatch fst batch (orphan d) (logs d)) d,
     count_where (inBatch fst batch (orphan d) (logs d)) (logs d))"
  by (simp add: purgeOrphanLogs_def Let_def inBatch_def [abs_def])

lemma purgeEvents_eq:
  "purgeEvents before batch d =
     (d\<lparr>events := delete_where (inBatch eSeq batch (oldEvent before) (events d)) (events d)\<rparr>,
      count_where (inBatch eSeq batch (oldEvent before) (events d)) (events d))"
  by (simp add: purgeEvents_def Let_def inBatch_def [abs_def])

lemma purgeOrphanLoop_eq:
  assumes "distinct (map fst (logs d))" and "0 < batch"
  shows "fst (purgeOrphanLoop batch d) = del_logs (orphan d) d"
  using assms
proof (induction batch d rule: purgeOrphanLoop.induct)
  case (1 batch d)
  let ?B = "inBatch fst batch (orphan d) (logs d)"
  let ?d = "del_logs ?B d"
  have o: "orphan ?d = orphan d" by (rule ext) (simp add: orphan_def)
  show ?case
  proof (cases "count_where ?B (logs d) < batch")
    case True
    with short_batch [OF 1(2) True] show ?thesis
      by (subst purgeOrphanLoop.simps) (simp add: purgeOrphanLogs_eq del_logs_def)
  next
    case False
    have "fst (purgeOrphanLoop batch ?d) = del_logs (orphan ?d) ?d"
      by (rule 1(1) [OF purgeOrphanLogs_eq [symmetric] refl])
        (use False 1(2,3) in \<open>simp_all add: distinct_key_delete_where\<close>)
    moreover have "del_logs (orphan ?d) ?d = del_logs (orphan d) d"
      unfolding o using delete_batch [OF 1(2), of "orphan d" batch] by (simp add: del_logs_def)
    ultimately show ?thesis
      using False 1(3) by (subst purgeOrphanLoop.simps) (simp add: purgeOrphanLogs_eq split_beta Let_def)
  qed
qed

lemma purgeEventLoop_eq:
  assumes "distinct (map eSeq (events d))" and "0 < batch"
  shows "fst (purgeEventLoop before batch d) = d\<lparr>events := delete_where (oldEvent before) (events d)\<rparr>"
  using assms
proof (induction before batch d rule: purgeEventLoop.induct)
  case (1 before batch d)
  let ?B = "inBatch eSeq batch (oldEvent before) (events d)"
  let ?d = "d\<lparr>events := delete_where ?B (events d)\<rparr>"
  show ?case
  proof (cases "count_where ?B (events d) < batch")
    case True
    with short_batch [OF 1(2) True] show ?thesis
      by (subst purgeEventLoop.simps) (simp add: purgeEvents_eq)
  next
    case False
    have "fst (purgeEventLoop before batch ?d) = ?d\<lparr>events := delete_where (oldEvent before) (events ?d)\<rparr>"
      by (rule 1(1) [OF purgeEvents_eq [symmetric] refl])
        (use False 1(2,3) in \<open>simp_all add: distinct_key_delete_where\<close>)
    then show ?thesis
      using False 1(3) delete_batch [OF 1(2), of "oldEvent before" batch]
      by (subst purgeEventLoop.simps) (simp add: purgeEvents_eq split_beta Let_def)
  qed
qed

section \<open>A whole purge\<close>

text \<open>
  The result of a purge: the eligible runs and their steps are gone and nothing else; unless
  logs are kept, exactly the logs of the remaining runs are left; the old events are gone.
\<close>

definition purgeStatuses :: "PurgeOptions \<Rightarrow> PurgeOptions" where
  "purgeStatuses opts = opts\<lparr>poStatuses := (if length (poStatuses opts) = 0 then terminalStatuses
     else poStatuses opts)\<rparr>"

lemma PurgeRuns_loops:
  assumes "PurgeRuns opts d = Inr (d', res)"
  defines "batch \<equiv> nat (if poBatchSize opts \<le> 0 then 500 else poBatchSize opts)"
    and "d1 \<equiv> fst (purgeRunLoop (purgeStatuses opts)
      (nat (if poBatchSize opts \<le> 0 then 500 else poBatchSize opts)) d)"
  shows "0 < batch" "0 < poBefore opts" "\<forall>st \<in> set (poStatuses (purgeStatuses opts)). IsTerminal st"
    "d' = fst (purgeEventLoop (poBefore opts) batch
      (if poKeepLogs opts then d1 else fst (purgeOrphanLoop batch d1)))"
  using assms(1) unfolding PurgeRuns_def Let_def batch_def [symmetric] d1_def
  by (auto simp: purgeStatuses_def list_all_iff split_beta batch_def split: if_splits)

lemma PurgeRuns_eq:
  assumes "PurgeRuns opts d = Inr (d', res)" and "integrity d"
    and "distinct (map fst (logs d))" and "distinct (map eSeq (events d))"
  defines "gone \<equiv> purged (purgeStatuses opts) d"
  shows "0 < poBefore opts" "\<forall>st \<in> set (poStatuses (purgeStatuses opts)). IsTerminal st" "integrity d'"
    "runs d' = delete_where (\<lambda>r. gone (rID r)) (runs d)"
    "steps d' = delete_where (\<lambda>s. gone (sRunID s)) (steps d)"
    "events d' = delete_where (oldEvent (poBefore opts)) (events d)"
    "logs d' = (if poKeepLogs opts then logs d else delete_where (orphan d') (logs d))"
proof -
  let ?po = "purgeStatuses opts"
  define batch where "batch = nat (if poBatchSize opts \<le> 0 then 500 else poBatchSize opts)"
  define d1 where "d1 = fst (purgeRunLoop ?po batch d)"
  define d2 where "d2 = (if poKeepLogs opts then d1 else fst (purgeOrphanLoop batch d1))"
  note loops = PurgeRuns_loops [OF assms(1), folded batch_def, folded d1_def, folded d2_def]
  note b = loops(1)
  have k: "poKeepLogs ?po = poKeepLogs opts" by (simp add: purgeStatuses_def)
  have loop: "integrity d1" "runs d1 = delete_where (\<lambda>r. gone (rID r)) (runs d)"
    "steps d1 = delete_where (\<lambda>s. gone (sRunID s)) (steps d)" "events d1 = events d"
    "logs d1 = (if poKeepLogs opts then logs d else delete_where (\<lambda>l. gone (lRunID (snd l))) (logs d))"
    using purgeRunLoop_eq [OF assms(2) b, of ?po] by (simp_all add: d1_def gone_def k)
  have dist: "distinct (map fst (logs d1))"
    using assms(3) by (simp add: loop(5) distinct_key_delete_where)
  have d2: "d2 = (if poKeepLogs opts then d1 else del_logs (orphan d1) d1)"
    using purgeOrphanLoop_eq [OF dist b] by (simp add: d2_def)
  have "events d2 = events d" by (simp add: d2 loop(4))
  with assms(4) have "fst (purgeEventLoop (poBefore opts) batch d2) =
      d2\<lparr>events := delete_where (oldEvent (poBefore opts)) (events d)\<rparr>"
    using purgeEventLoop_eq [OF _ b, of d2] by simp
  with loops(4) have d': "d' = d2\<lparr>events := delete_where (oldEvent (poBefore opts)) (events d)\<rparr>" by simp
  show "0 < poBefore opts" "\<forall>st \<in> set (poStatuses ?po). IsTerminal st" by (rule loops)+
  have "integrity d2" using loop(1) integrity_same_core [OF same_core_del_logs] by (simp add: d2)
  then show "integrity d'" by (rule integrity_same_core [rotated]) (simp add: d' same_core_def)
  show r: "runs d' = delete_where (\<lambda>r. gone (rID r)) (runs d)"
    and "steps d' = delete_where (\<lambda>s. gone (sRunID s)) (steps d)"
    by (simp_all add: d' d2 loop)
  show "events d' = delete_where (oldEvent (poBefore opts)) (events d)" by (simp add: d')
  have "gone i \<Longrightarrow> i \<notin> rID ` set (runs d')" for i by (auto simp: r)
  moreover have "orphan d1 = orphan d'" by (rule ext) (simp add: orphan_def d' d2)
  ultimately show "logs d' = (if poKeepLogs opts then logs d else delete_where (orphan d') (logs d))"
    by (auto simp: d' d2 loop(5) delete_where_delete orphan_def intro!: delete_where_cong)
qed

end
