(* ===== verification/Query.thy ===== *)
theory Query
  imports Enqueue
begin

text \<open>
  The read side of the store and its small tables (internal/store/queries.go): runs and
  their steps, listings with pagination, metrics, logs, crons with their compare-and-set
  fire, events and event subscriptions.
\<close>

definition maxIntrospectionRows :: nat where "maxIntrospectionRows = 10000"

section \<open>Runs and steps\<close>

definition GetRun :: "string \<Rightarrow> db \<Rightarrow> err + run" where
  "GetRun i d = (case find_run i d of None \<Rightarrow> Inl ErrNotFound | Some r \<Rightarrow> Inr r)"

definition GetSteps :: "string \<Rightarrow> db \<Rightarrow> step list" where
  "GetSteps i d = take maxIntrospectionRows (sort_key sOrd (filter (\<lambda>s. sRunID s = i) (steps d)))"

text \<open>The run is read first, the steps second: two snapshots \<open>d\<close> and \<open>d2\<close>.\<close>

definition GetRunWithSteps :: "string \<Rightarrow> db \<Rightarrow> db \<Rightarrow> err + run \<times> step list" where
  "GetRunWithSteps i d d2 = (case GetRun i d of Inl e \<Rightarrow> Inl e | Inr r \<Rightarrow> Inr (r, GetSteps i d2))"

record Filter =
  fStatus :: "status option"
  fQueue :: string
  fWorkflow :: string
  fParentID :: string
  fLimit :: int
  fOffset :: int

definition matches :: "Filter \<Rightarrow> run \<Rightarrow> bool" where
  "matches f r \<longleftrightarrow> (case fStatus f of None \<Rightarrow> True | Some st \<Rightarrow> rStatus r = st) \<and>
     (fQueue f = '''' \<or> rQueue r = fQueue f) \<and> (fWorkflow f = '''' \<or> rWorkflow r = fWorkflow f) \<and>
     (fParentID f = '''' \<or> rParentID r = fParentID f)"

definition listLimit :: "Filter \<Rightarrow> nat" where
  "listLimit f = (let limit = (if fLimit f \<le> 0 then 100 else fLimit f)
     in nat (if limit > 1000 then 1000 else limit))"

text \<open>\<open>ORDER BY created_at DESC, id DESC\<close>; the pair is a key, so there are no ties.\<close>

definition newestFirst :: "run list \<Rightarrow> run list" where
  "newestFirst rs = rev (sort_key (\<lambda>r. (rCreatedAt r, rID r)) rs)"

definition ListRuns :: "Filter \<Rightarrow> db \<Rightarrow> run list" where
  "ListRuns f d = take (listLimit f) (drop (nat (fOffset f)) (newestFirst (filter (matches f) (runs d))))"

definition ListChildren :: "string \<Rightarrow> db \<Rightarrow> run list" where
  "ListChildren parentID d = take maxIntrospectionRows
     (sort_key (\<lambda>r. (rCreatedAt r, rID r)) (filter (\<lambda>r. rParentID r = parentID) (runs d)))"

definition GetStepOutputs :: "string \<Rightarrow> string list \<Rightarrow> db \<Rightarrow> string \<Rightarrow> bytes option" where
  "GetStepOutputs i names d = fold (\<lambda>s m. m(sName s \<mapsto> sOutput s))
     (filter (\<lambda>s. sRunID s = i \<and> sStatus s = Succeeded \<and> List.member names (sName s)) (steps d)) Map.empty"

definition KnownQueues :: "db \<Rightarrow> string list" where
  "KnownQueues d = remdups (map sQueue (steps d))"

section \<open>Metrics\<close>

record QueueStats =
  qsQueued :: nat
  qsRunning :: nat
  qsBlocked :: nat
  qsSuspended :: nat

definition zeroStats :: QueueStats where
  "zeroStats = \<lparr>qsQueued = 0, qsRunning = 0, qsBlocked = 0, qsSuspended = 0\<rparr>"

text \<open>\<open>SELECT key, COUNT(*) .. GROUP BY key\<close>.\<close>

definition groupCount :: "('a \<Rightarrow> 'k) \<Rightarrow> 'a list \<Rightarrow> ('k \<times> nat) list" where
  "groupCount key xs = map (\<lambda>k. (k, count_where (\<lambda>x. key x = k) xs)) (remdups (map key xs))"

fun addStats :: "status \<Rightarrow> nat \<Rightarrow> QueueStats \<Rightarrow> QueueStats" where
  "addStats Queued n q = q\<lparr>qsQueued := qsQueued q + n\<rparr>"
| "addStats Running n q = q\<lparr>qsRunning := qsRunning q + n\<rparr>"
| "addStats Blocked n q = q\<lparr>qsBlocked := qsBlocked q + n\<rparr>"
| "addStats Suspended n q = q\<lparr>qsSuspended := qsSuspended q + n\<rparr>"
| "addStats _ n q = q"

definition addGroup :: "(string \<times> status) \<times> nat \<Rightarrow> (string \<Rightarrow> QueueStats option) \<Rightarrow> string \<Rightarrow> QueueStats option" where
  "addGroup g m =
     (let ((q, st), n) = g;
          qs = (case m q of None \<Rightarrow> zeroStats | Some s \<Rightarrow> s)
      in m(q \<mapsto> addStats st n qs))"

definition queueStatsOf :: "db \<Rightarrow> string \<Rightarrow> QueueStats option" where
  "queueStatsOf d = fold addGroup
     (groupCount (\<lambda>s. (sQueue s, sStatus s)) (filter (\<lambda>s. unfinished (sStatus s)) (steps d))) Map.empty"

definition Metrics :: "db \<Rightarrow> (status \<Rightarrow> nat option) \<times> (string \<Rightarrow> QueueStats option)" where
  "Metrics d = (map_of (groupCount rStatus (runs d)), queueStatsOf d)"

section \<open>Logs\<close>

definition appendLog :: "logEntry \<Rightarrow> db \<Rightarrow> db" where
  "appendLog e d = d\<lparr>logSeq := logSeq d + 1, logs := logs d @ [(logSeq d + 1, e)]\<rparr>"

definition AppendLogs :: "logEntry list \<Rightarrow> db \<Rightarrow> db" where
  "AppendLogs entries d = (if length entries = 0 then d else fold appendLog entries d)"

definition GetLogs :: "string \<Rightarrow> int \<Rightarrow> db \<Rightarrow> logEntry list" where
  "GetLogs i limit d =
     (let limit = (if limit \<le> 0 then 500 else limit);
          out = take (nat limit) (sort_key (\<lambda>l. - fst l) (filter (\<lambda>l. lRunID (snd l) = i) (logs d)))
      in map snd (rev out))"

section \<open>Crons\<close>

definition UpsertCron :: "cron \<Rightarrow> db \<Rightarrow> db" where
  "UpsertCron c d =
     (if list_ex (\<lambda>x. cName x = cName c) (crons d)
      then d\<lparr>crons := update_where (\<lambda>x. cName x = cName c)
             (\<lambda>x. x\<lparr>cSpec := cSpec c, cTask := cTask c, cInput := cInput c, cNextAt := cNextAt c\<rparr>) (crons d)\<rparr>
      else d\<lparr>crons := crons d @ [c]\<rparr>)"

definition DeleteCron :: "string \<Rightarrow> db \<Rightarrow> db" where
  "DeleteCron name d = d\<lparr>crons := delete_where (\<lambda>c. cName c = name) (crons d)\<rparr>"

definition ListCrons :: "db \<Rightarrow> cron list" where
  "ListCrons d = sort_key cName (crons d)"

definition dueCron :: "string \<Rightarrow> time \<Rightarrow> cron \<Rightarrow> bool" where
  "dueCron name expectNext c \<longleftrightarrow> cName c = name \<and> cNextAt c = expectNext"

definition FireCron ::
  "backend \<Rightarrow> string \<Rightarrow> time \<Rightarrow> time \<Rightarrow> run \<Rightarrow> step list \<Rightarrow> db \<Rightarrow> err + db \<times> bool" where
  "FireCron be name expectNext newNext r sts d =
     (let n = count_where (dueCron name expectNext) (crons d);
          d1 = d\<lparr>crons := update_where (dueCron name expectNext) (\<lambda>c. c\<lparr>cNextAt := newNext\<rparr>) (crons d)\<rparr>
      in if n \<noteq> 1 then Inr (d1, False)
         else (case insertRunsTx be [(r, sts)] d1 of
                 Inl e \<Rightarrow> Inl e
               | Inr d2 \<Rightarrow> Inr (d2, True)))"

section \<open>Events\<close>

definition ListEvents :: "int \<Rightarrow> db \<Rightarrow> eventRow list" where
  "ListEvents limit d = take (nat (if limit \<le> 0 then 100 else limit)) (sort_key (\<lambda>e. - eSeq e) (events d))"

definition UpsertEventSub :: "eventSub \<Rightarrow> db \<Rightarrow> db" where
  "UpsertEventSub sub d =
     (let same = (\<lambda>x. esEvent x = esEvent sub \<and> esTask x = esTask sub) in
      if list_ex same (eventSubs d)
      then d\<lparr>eventSubs := update_where same (\<lambda>x. x\<lparr>esCreatedAt := esCreatedAt sub\<rparr>) (eventSubs d)\<rparr>
      else d\<lparr>eventSubs := eventSubs d @ [sub]\<rparr>)"

definition DeleteEventSub :: "string \<Rightarrow> string \<Rightarrow> db \<Rightarrow> db" where
  "DeleteEventSub event task d =
     d\<lparr>eventSubs := delete_where (\<lambda>x. esEvent x = event \<and> esTask x = task) (eventSubs d)\<rparr>"

definition ListEventSubs :: "db \<Rightarrow> eventSub list" where
  "ListEventSubs d = sort_key (\<lambda>x. (esEvent x, esTask x)) (eventSubs d)"

section \<open>Preservation of the invariants\<close>

lemma same_core_small:
  "same_core d (AppendLogs es d)" "same_core d (UpsertCron c d)" "same_core d (DeleteCron n d)"
  "same_core d (UpsertEventSub sub d)" "same_core d (DeleteEventSub ev t d)"
  "same_core d (PauseQueue q now d)" "same_core d (ResumeQueue q d)"
proof -
  have "same_core d (fold appendLog es d)"
  proof (induction es arbitrary: d)
    case (Cons e es)
    show ?case using Cons.IH [of "appendLog e d"] by (simp add: same_core_def appendLog_def)
  qed (simp add: same_core_def)
  then show "same_core d (AppendLogs es d)" by (simp add: AppendLogs_def same_core_def)
qed (simp_all add: same_core_def UpsertCron_def DeleteCron_def UpsertEventSub_def DeleteEventSub_def
    PauseQueue_def ResumeQueue_def Let_def)

lemma integrity_FireCron:
  assumes "integrity d" and "FireCron be name t u r sts d = Inr (d', fired)"
    and "newRun r" and "\<forall>s \<in> set sts. newStep s"
  shows "integrity d'"
proof -
  let ?d1 = "d\<lparr>crons := update_where (dueCron name t) (\<lambda>c. c\<lparr>cNextAt := u\<rparr>) (crons d)\<rparr>"
  have "integrity ?d1"
    by (rule integrity_same_core [OF _ assms(1)]) (simp add: same_core_def)
  with assms(2-4) show ?thesis
    by (auto simp: FireCron_def Let_def split: if_splits sum.splits
        dest: integrity_insertRunsTx [where rs = "[(r, sts)]"])
qed

section \<open>Pagination\<close>

lemma pages_concat:
  assumes "0 < n"
  shows "concat (map (\<lambda>k. take n (drop (k * n) xs)) [0..<m]) = take (m * n) xs"
proof (induction m)
  case (Suc m)
  have "take (Suc m * n) xs = take (m * n) xs @ take n (drop (m * n) xs)"
    by (metis add.commute mult_Suc take_add)
  with Suc.IH show ?case by simp
qed simp

section \<open>Counts\<close>

lemma map_of_tagged: "map_of (map (\<lambda>k. (k, f k)) ks) k = (if k \<in> set ks then Some (f k) else None)"
  by (induction ks) auto

lemma map_of_groupCount:
  "map_of (groupCount key xs) k = (if k \<in> key ` set xs then Some (count_where (\<lambda>x. key x = k) xs) else None)"
  by (simp add: groupCount_def map_of_tagged)

definition total :: "'k \<Rightarrow> ('k \<times> nat) list \<Rightarrow> nat" where
  "total k gs = sum_list (map snd (filter (\<lambda>g. fst g = k) gs))"

lemma total_Cons: "total k (g # gs) = (if fst g = k then snd g + total k gs else total k gs)"
  by (simp add: total_def)

lemma total_tagged: "distinct ks \<Longrightarrow> total k (map (\<lambda>k. (k, f k)) ks) = (if k \<in> set ks then f k else 0)"
  by (induction ks) (auto simp: total_Cons, simp_all add: total_def)

lemma total_groupCount: "total k (groupCount key xs) = count_where (\<lambda>x. key x = k) xs"
proof -
  have "k \<notin> key ` set xs \<Longrightarrow> count_where (\<lambda>x. key x = k) xs = 0"
    by (auto simp: count_where_eq_0)
  then show ?thesis by (auto simp: groupCount_def total_tagged)
qed

definition statsAt :: "(string \<Rightarrow> QueueStats option) \<Rightarrow> string \<Rightarrow> QueueStats" where
  "statsAt m q = (case m q of None \<Rightarrow> zeroStats | Some s \<Rightarrow> s)"

lemma statsAt_addGroup:
  "statsAt (addGroup ((q', st), n) m) q = (if q = q' then addStats st n (statsAt m q) else statsAt m q)"
  by (simp add: statsAt_def addGroup_def split: option.split)

lemma statsAt_fold:
  "qsQueued (statsAt (fold addGroup gs m) q) = qsQueued (statsAt m q) + total (q, Queued) gs"
  "qsRunning (statsAt (fold addGroup gs m) q) = qsRunning (statsAt m q) + total (q, Running) gs"
  "qsBlocked (statsAt (fold addGroup gs m) q) = qsBlocked (statsAt m q) + total (q, Blocked) gs"
  "qsSuspended (statsAt (fold addGroup gs m) q) = qsSuspended (statsAt m q) + total (q, Suspended) gs"
proof -
  have "qsQueued (statsAt (fold addGroup gs m) q) = qsQueued (statsAt m q) + total (q, Queued) gs \<and>
    qsRunning (statsAt (fold addGroup gs m) q) = qsRunning (statsAt m q) + total (q, Running) gs \<and>
    qsBlocked (statsAt (fold addGroup gs m) q) = qsBlocked (statsAt m q) + total (q, Blocked) gs \<and>
    qsSuspended (statsAt (fold addGroup gs m) q) = qsSuspended (statsAt m q) + total (q, Suspended) gs"
  proof (induction gs arbitrary: m)
    case Nil
    show ?case by (simp add: total_def)
  next
    case (Cons g gs)
    obtain q' st n where g: "g = ((q', st), n)" by (metis surj_pair)
    show ?case
      unfolding g fold_simps using Cons.IH [of "addGroup ((q', st), n) m"]
      by (cases st) (simp_all add: statsAt_addGroup total_Cons)
  qed
  then show "qsQueued (statsAt (fold addGroup gs m) q) = qsQueued (statsAt m q) + total (q, Queued) gs"
    "qsRunning (statsAt (fold addGroup gs m) q) = qsRunning (statsAt m q) + total (q, Running) gs"
    "qsBlocked (statsAt (fold addGroup gs m) q) = qsBlocked (statsAt m q) + total (q, Blocked) gs"
    "qsSuspended (statsAt (fold addGroup gs m) q) = qsSuspended (statsAt m q) + total (q, Suspended) gs"
    by blast+
qed

end
