(* ===== verification/Store_Machine.thy ===== *)
theory Store_Machine
  imports Enqueue_Laws Recovery Purge Query
begin

text \<open>
  The store as a state machine: one step of \<open>store_step drv W\<close> is one committed operation of
  internal/store on the driver \<open>drv\<close>, and the databases a program can reach are those
  reachable from the empty one. \<open>W\<close> is what the program promises: a predicate on the runs it
  enqueues with their steps, and one on the completions it records. Two rules carry what the engine guarantees of its calls: enqueued
  rows are fresh (\<open>newRun\<close>, \<open>newStep\<close>: the statuses \<open>buildRun\<close> gives them), and a step is
  failed for good only by its executor, so it has not succeeded.
\<close>

record promise =
  pmStep :: "run \<Rightarrow> step \<Rightarrow> bool"
  pmDone :: "completion \<Rightarrow> bool"

text \<open>A program that promises nothing beyond the rules themselves.\<close>

definition no_promise :: promise where
  "no_promise = \<lparr>pmStep = \<lambda>_ _. True, pmDone = \<lambda>_. True\<rparr>"

definition submitted :: "promise \<Rightarrow> run list \<Rightarrow> step list list \<Rightarrow> bool" where
  "submitted W rs stss \<longleftrightarrow> (\<forall>r \<in> set rs. newRun r) \<and>
     (\<forall>(r, ss) \<in> set (zip rs stss). \<forall>s \<in> set ss. newStep s \<and> pmStep W r s)"

inductive store_step :: "driver \<Rightarrow> promise \<Rightarrow> db \<Rightarrow> db \<Rightarrow> bool" for drv W where
  enqueue: "submitted W rs stss \<Longrightarrow>
    CreateRunsUnique (backendOf drv) now rs stss cs ps d = Inr (d', ids, reps) \<Longrightarrow> store_step drv W d d'"
| create: "submitted W rs stss \<Longrightarrow> CreateRuns (backendOf drv) rs stss d = Inr d' \<Longrightarrow> store_step drv W d d'"
| fire: "submitted W [r] [sts] \<Longrightarrow>
    FireCron (backendOf drv) name t u r sts d = Inr (d', fired) \<Longrightarrow> store_step drv W d d'"
| claim: "ClaimDueMulti (backendOf drv) qs now ws w lease d = (d', cs) \<Longrightarrow> store_step drv W d d'"
| complete: "(\<And>c. c \<in> set comps \<Longrightarrow> pmDone W c) \<Longrightarrow>
    CompleteSteps (backendOf drv) comps d = Inr (d', rs) \<Longrightarrow> store_step drv W d d'"
| retry: "store_step drv W d (RetryStep i e t d)"
| park: "store_step drv W d (ParkStep i e t d)"
| requeue: "store_step drv W d (RequeuePausedStep i d)"
| stepCancelled: "store_step drv W d (StepCancelled i now d)"
| finalFail: "(\<And>s. s \<in> set (steps d) \<Longrightarrow> sID s = i \<Longrightarrow> sStatus s \<noteq> Succeeded) \<Longrightarrow>
    FinalFailStep i ri e dl now d = Inr (d', res) \<Longrightarrow> store_step drv W d d'"
| cancel: "CancelRun i now d = Inr (d', x) \<Longrightarrow> store_step drv W d d'"
| snooze: "Snooze i t d = Inr d' \<Longrightarrow> store_step drv W d d'"
| pause: "PauseRun i now d = Inr (d', x) \<Longrightarrow> store_step drv W d d'"
| resume: "ResumeRun i now d = Inr d' \<Longrightarrow> store_step drv W d d'"
| retryDead: "RetryDeadLetter i now d = Inr d' \<Longrightarrow> store_step drv W d d'"
| dismissDead: "DismissDeadLetter i d = Inr d' \<Longrightarrow> store_step drv W d d'"
| suspend: "SuspendStep i k e t d = Inr d' \<Longrightarrow> store_step drv W d d'"
| suspendJournal: "SuspendWithJournal j k e t d = Inr d' \<Longrightarrow> store_step drv W d d'"
| append: "AppendJournal j d = Inr d' \<Longrightarrow> store_step drv W d d'"
| once: "store_step drv W d (CompleteJournalOnce i n r e d)"
| timeout: "store_step drv W d (fst (TimeoutWait i n d))"
| deliver: "store_step drv W d (fst (DeliverEvent name payload now d))"
| interrupt: "store_step drv W d (InterruptAll w now d)"
| heartbeat: "store_step drv W d (HeartbeatWorker w t d)"
| reap: "store_step drv W d (fst (ReapExpired now limit d))"
| recover: "store_step drv W d (recoverInterrupted keep now d)"
| purge: "PurgeRuns opts d = Inr (d', res) \<Longrightarrow> store_step drv W d d'"
| small: "d' \<in> {AppendLogs es d, UpsertCron c d, DeleteCron n d, UpsertEventSub sub d,
    DeleteEventSub ev tk d, PauseQueue q now d, ResumeQueue q d} \<Longrightarrow> store_step drv W d d'"

inductive reachable :: "driver \<Rightarrow> promise \<Rightarrow> db \<Rightarrow> bool" for drv W where
  reach_init: "reachable drv W emptyDB"
| reach_step: "reachable drv W d \<Longrightarrow> store_step drv W d d' \<Longrightarrow> reachable drv W d'"

inductive_cases store_stepE: "store_step drv W d d'"

section \<open>The invariants hold in every reachable database\<close>

lemma core_purgeOrphanLoop: "same_core d (fst (purgeOrphanLoop batch d))"
proof (induction batch d rule: purgeOrphanLoop.induct)
  case (1 batch d)
  then show ?case
    by (subst purgeOrphanLoop.simps) (auto simp: purgeOrphanLogs_eq split_beta Let_def same_core_def)
qed

lemma core_purgeEventLoop: "same_core d (fst (purgeEventLoop before batch d))"
proof (induction before batch d rule: purgeEventLoop.induct)
  case (1 before batch d)
  then show ?case
    by (subst purgeEventLoop.simps) (auto simp: purgeEvents_eq split_beta Let_def same_core_def)
qed

lemma integrity_PurgeRuns:
  assumes "integrity d" and "PurgeRuns opts d = Inr (d', res)"
  shows "integrity d'"
proof -
  let ?n = "nat (if poBatchSize opts \<le> 0 then 500 else poBatchSize opts)"
  let ?d1 = "fst (purgeRunLoop (purgeStatuses opts) ?n d)"
  note loops = PurgeRuns_loops [OF assms(2)]
  have "integrity ?d1" using purgeRunLoop_eq [OF assms(1) loops(1)] by blast
  then have "integrity (if poKeepLogs opts then ?d1 else fst (purgeOrphanLoop ?n ?d1))"
    by (simp add: integrity_same_core [OF core_purgeOrphanLoop])
  then show ?thesis unfolding loops(4) by (rule integrity_same_core [OF core_purgeEventLoop])
qed

lemma integrity_store_step:
  assumes "store_step drv W d d'" and "integrity d"
  shows "integrity d'"
  using assms
proof (cases rule: store_step.cases)
  case (enqueue rs stss now cs ps ids reps)
  show ?thesis
    by (rule sound.createRunsUniqueTx_ok [OF assms(2)])
      (use enqueue in \<open>auto simp: CreateRunsUnique_def submitted_def\<close>)
next
  case (create rs stss)
  then have "insertRunsTx (backendOf drv) (zip rs stss) d = Inr d'"
    by (simp add: CreateRuns_def split: if_splits)
  then show ?thesis
    by (rule integrity_insertRunsTx [OF assms(2)])
      (use create(1) in \<open>auto simp: submitted_def dest: set_zip_leftD set_zip_rightD\<close>)
next
  case (fire r sts name t u fired)
  then show ?thesis
    using integrity_FireCron [OF assms(2)] by (auto simp: submitted_def)
next
  case (claim qs now ws w lease cs)
  then show ?thesis using integrity_ClaimDueMulti [OF assms(2)] by (metis fst_conv)
next
  case (complete comps rs)
  then show ?thesis
    using shipped.integrity_completeAll [OF assms(2)] by (auto simp: CompleteSteps_def)
next
  case (small es c n sub ev tk q now)
  then show ?thesis using assms(2) same_core_small integrity_same_core by blast
qed (use assms(2) in \<open>auto simp: AppendJournal_def intro: integrity_RetryStep integrity_ParkStep
  integrity_RequeuePausedStep integrity_StepCancelled integrity_FinalFailStep integrity_CancelRun
  integrity_Snooze integrity_PauseRun integrity_ResumeRun integrity_RetryDeadLetter
  integrity_DismissDeadLetter integrity_SuspendStep integrity_SuspendWithJournal
  integrity_insertJournal integrity_CompleteJournalOnce integrity_TimeoutWait
  integrity_DeliverEvent integrity_InterruptAll integrity_HeartbeatWorker
  integrity_ReapExpired integrity_recoverInterrupted integrity_PurgeRuns\<close>)

lemma integrity_reachable: "reachable drv W d \<Longrightarrow> integrity d"
  by (induction rule: reachable.induct) (simp_all add: integrity_emptyDB integrity_store_step)

end
