(* ===== verification/Quiet.thy ===== *)
theory Quiet
  imports Store_Machine
begin

text \<open>
  Operations that decide nothing. All but a few operations of the store only delete rows and
  move rows along: no row becomes RUNNING, SUCCEEDED or BLOCKED, and the fields an enqueue wrote
  for good stay. \<open>moves R\<close> says that the rows after an operation are related by \<open>R\<close> to some of the
  rows before it, in order; an operation is \<open>quiet\<close> when it moves rows by \<open>keeps\<close>. The claims
  (RUNNING), the completions (SUCCEEDED) and the dead-letter retry (BLOCKED) are the exceptions,
  which the theories that need them treat with a weaker relation.
\<close>

section \<open>Moving rows\<close>

definition moves :: "(step \<Rightarrow> step \<Rightarrow> bool) \<Rightarrow> db \<Rightarrow> db \<Rightarrow> bool" where
  "moves R d d' \<longleftrightarrow> (\<exists>xs. subseq xs (steps d) \<and> list_all2 R xs (steps d'))"

definition same_rows :: "step \<Rightarrow> step \<Rightarrow> bool" where
  "same_rows s s' \<longleftrightarrow> sID s' = sID s \<and> sRunID s' = sRunID s \<and> sName s' = sName s \<and>
     sDependsOn s' = sDependsOn s \<and> sConcurrencyKey s' = sConcurrencyKey s \<and> sKeyLimit s' = sKeyLimit s"

definition keeps :: "step \<Rightarrow> step \<Rightarrow> bool" where
  "keeps s s' \<longleftrightarrow> same_rows s s' \<and> (\<forall>st \<in> {Running, Succeeded, Blocked}. sStatus s' = st \<longrightarrow> sStatus s = st)"

lemma keeps_refl [simp]: "keeps s s"
  by (simp add: keeps_def same_rows_def)

lemma keeps_trans: "keeps s t \<Longrightarrow> keeps t u \<Longrightarrow> keeps s u"
  by (simp add: keeps_def same_rows_def)

lemma moves_mono: "moves R d d' \<Longrightarrow> (\<And>s s'. R s s' \<Longrightarrow> Q s s') \<Longrightarrow> moves Q d d'"
  unfolding moves_def by (meson list_all2_mono)

lemma moves_eq: "(\<And>s. R s s) \<Longrightarrow> steps d' = steps d \<Longrightarrow> moves R d d'"
  unfolding moves_def by (intro exI [of _ "steps d"]) (simp add: list_all2_refl)

lemma list_all2_subseq:
  "subseq zs ys \<Longrightarrow> list_all2 R xs ys \<Longrightarrow> \<exists>xs'. subseq xs' xs \<and> list_all2 R xs' zs"
proof (induction zs ys arbitrary: xs rule: list_emb.induct)
  case (list_emb_Cons zs ys y)
  then obtain x xs0 where "xs = x # xs0" "list_all2 R xs0 ys" by (auto simp: list_all2_Cons2)
  with list_emb_Cons.IH [of xs0] obtain xs' where "subseq xs' xs0" "list_all2 R xs' zs" by blast
  with \<open>xs = x # xs0\<close> show ?case by (intro exI [of _ xs']) (simp add: list_emb.list_emb_Cons)
next
  case (list_emb_Cons2 z y zs ys)
  then obtain x xs0 where x: "xs = x # xs0" "R x y" "list_all2 R xs0 ys" by (auto simp: list_all2_Cons2)
  with list_emb_Cons2.IH [of xs0] obtain xs' where "subseq xs' xs0" "list_all2 R xs' zs" by blast
  with x list_emb_Cons2.hyps show ?case by (intro exI [of _ "x # xs'"]) simp
qed auto

lemma moves_trans:
  assumes "moves R d d'" and "moves R d' d''" and trans: "\<And>s t u. R s t \<Longrightarrow> R t u \<Longrightarrow> R s u"
  shows "moves R d d''"
proof -
  obtain xs where xs: "subseq xs (steps d)" "list_all2 R xs (steps d')" using assms(1) by (auto simp: moves_def)
  obtain ys where ys: "subseq ys (steps d')" "list_all2 R ys (steps d'')" using assms(2) by (auto simp: moves_def)
  obtain xs' where xs': "subseq xs' xs" "list_all2 R xs' ys" using list_all2_subseq [OF ys(1) xs(2)] by blast
  have "list_all2 R xs' (steps d'')" by (rule list_all2_trans [OF trans xs'(2) ys(2)])
  moreover have "subseq xs' (steps d)" using xs'(1) xs(1) by (rule subseq_order.trans)
  ultimately show ?thesis by (auto simp: moves_def)
qed

lemma moves_upd_steps:
  assumes "\<And>s. R s s" and "\<And>s. s \<in> set (steps d) \<Longrightarrow> P s \<Longrightarrow> R s (f s)"
  shows "moves R d (upd_steps P f d)"
proof -
  have "list_all2 R xs (update_where P f xs)" if "\<And>s. s \<in> set xs \<Longrightarrow> P s \<Longrightarrow> R s (f s)" for xs
    using that by (induction xs) (auto simp: assms(1))
  from this [of "steps d"] assms(2) show ?thesis
    unfolding moves_def by (intro exI [of _ "steps d"]) simp
qed

lemma moves_less:
  assumes "\<And>s. R s s" and "steps d' = delete_where P (steps d)"
  shows "moves R d d'"
  unfolding moves_def assms(2) delete_where_def
  by (intro exI [of _ "filter (\<lambda>x. \<not> P x) (steps d)"]) (simp add: assms(1) list_all2_refl)

lemma moves_row:
  assumes "moves R d d'" and "s' \<in> set (steps d')"
  obtains s where "s \<in> set (steps d)" "R s s'"
proof -
  obtain xs where xs: "subseq xs (steps d)" "list_all2 R xs (steps d')" using assms(1) by (auto simp: moves_def)
  from assms(2) obtain n where "n < length (steps d')" "s' = steps d' ! n" by (auto simp: in_set_conv_nth)
  with xs(2) have "xs ! n \<in> set xs" "R (xs ! n) s'" by (auto simp: list_all2_conv_all_nth)
  then obtain s where "s \<in> set xs" "R s s'" by blast
  moreover have "s \<in> set (steps d)" using subseq_memberD [OF xs(1)] \<open>s \<in> set xs\<close> by blast
  ultimately show thesis using that by blast
qed

section \<open>Quiet operations\<close>

abbreviation quiet :: "db \<Rightarrow> db \<Rightarrow> bool" where
  "quiet \<equiv> moves keeps"

named_theorems quiet_intros "operations that are quiet"

lemma quiet_eq [quiet_intros]: "steps d' = steps d \<Longrightarrow> quiet d d'"
  by (rule moves_eq) simp_all

lemma quiet_trans: "quiet d d' \<Longrightarrow> quiet d' d'' \<Longrightarrow> quiet d d''"
  by (rule moves_trans) (auto intro: keeps_trans)

lemma quiet_upd_steps:
  assumes "\<And>s. P s \<Longrightarrow> keeps s (f s)"
  shows "quiet d (upd_steps P f d)"
  using assms by (intro moves_upd_steps) simp_all

lemma quiet_less: "steps d' = delete_where P (steps d) \<Longrightarrow> quiet d d'"
  by (rule moves_less) simp_all

lemma quiet_deletes [quiet_intros]:
  "quiet d (del_steps P d)" "quiet d (del_runs Q d)" "quiet d (deleteEphemeralRunTx i d)"
proof -
  show "quiet d (del_steps P d)" for d and P :: "step \<Rightarrow> bool" by (rule quiet_less) simp
  moreover show "quiet d (del_runs Q d)" for d and Q :: "run \<Rightarrow> bool" by (rule quiet_less) simp
  ultimately show "quiet d (deleteEphemeralRunTx i d)"
    unfolding deleteEphemeralRunTx_def
    by (blast intro: quiet_trans quiet_eq [of "del_logs _ _"] del_logs_sel)
qed

lemma quiet_upd_runs: "quiet d e \<Longrightarrow> quiet d (upd_runs P f e)"
  by (rule quiet_trans [OF _ quiet_eq]) simp_all

lemma quiet_deleteEphemeralRuns: "quiet d (deleteEphemeralRuns ids d)"
  unfolding deleteEphemeralRuns_def
proof (induction ids arbitrary: d)
  case (Cons i ids)
  show ?case using quiet_trans [OF quiet_deletes(3) Cons.IH] by simp
qed (simp add: quiet_eq)

lemma keeps_rows [simp]:
  "keeps s (failRow e now s)" "keeps s (cancelRow now s)" "keeps s (suspendRow kd e t s)"
  "keeps s (recoverStepRow keep now s)" "keeps s (s\<lparr>sRunAt := t\<rparr>)"
  "keeps s (s\<lparr>sStatus := Queued, sRunAt := t\<rparr>)" "keeps s (s\<lparr>sStatus := Cancelled, sCompletedAt := t\<rparr>)"
  "keeps s (s\<lparr>sStatus := Interrupted, sCompletedAt := t\<rparr>)"
  by (simp_all add: keeps_def same_rows_def failRow_def cancelRow_def suspendRow_def recoverStepRow_def)

section \<open>Outcomes of executions\<close>

lemma quiet_unblockReadyTx:
  assumes "unblockReadyTx be i n now res d = (d', res')"
  shows "quiet d d'"
  unfolding unblockReadyTx_steps(1) [OF assms] by (rule quiet_upd_steps) auto

lemma quiet_endRun: "quiet d (endRun i e st out m now d)"
  using quiet_trans [OF quiet_upd_runs [OF quiet_eq [OF refl]] quiet_deletes(3)]
    quiet_upd_runs [OF quiet_eq [OF refl]]
  by (auto simp: endRun_def Let_def)

lemma quiet_outcomes [quiet_intros]:
  "quiet d (RetryStep i e t d)" "quiet d (ParkStep i e t d)" "quiet d (RequeuePausedStep i d)"
  "quiet d (StepCancelled i t d)" "quiet d (HeartbeatWorker w t d)"
  unfolding RetryStep_def ParkStep_def RequeuePausedStep_def StepCancelled_def HeartbeatWorker_def
  by (rule quiet_upd_steps; simp add: keeps_def same_rows_def)+

lemma quiet_FinalFailStep:
  assumes "FinalFailStep stepID runID e dl now d = Inr (d', res)"
  shows "quiet d d'"
proof -
  let ?d1 = "upd_steps (\<lambda>s. sID s = stepID) (failRow e now) d"
  have 2: "quiet d (upd_steps P (cancelRow now) ?d1)" for P
    by (rule quiet_trans; rule quiet_upd_steps; simp)
  have 3: "quiet d (upd_runs Q g (upd_steps P (cancelRow now) ?d1))" for P Q g
    by (rule quiet_upd_runs [OF 2])
  have "quiet d (deleteEphemeralRunTx runID (upd_runs Q g (upd_steps P (cancelRow now) ?d1)))" for P Q g
    by (rule quiet_trans [OF 3 quiet_deletes(3)])
  with assms 3 show ?thesis
    by (auto simp: FinalFailStep_def Let_def split: option.splits if_splits)
qed

section \<open>Control\<close>

lemma quiet_cancelRunTx: "quiet d (cancelRunTx i now d)"
  unfolding cancelRunTx_def
  by (rule quiet_trans [OF quiet_upd_runs [OF quiet_eq [OF refl]]], rule quiet_upd_steps) simp_all

lemma quiet_replaceRunTx: "quiet d (fst (replaceRunTx i now d))"
  unfolding replaceRunTx_def fst_conv
  by (rule quiet_trans [OF quiet_upd_runs [OF quiet_eq [OF refl]]], rule quiet_upd_steps) simp_all

lemma quiet_cancelOrDeleteRunTx: "quiet d (fst (cancelOrDeleteRunTx i now d))"
  by (simp add: cancelOrDeleteRunTx_def quiet_cancelRunTx quiet_deletes quiet_eq split: option.split)

lemma quiet_reschedule:
  "quiet d (upd_runs Q g (upd_steps (\<lambda>s. sRunID s = i \<and> sStatus s = Queued) (\<lambda>s. s\<lparr>sRunAt := t\<rparr>) d))"
  by (rule quiet_upd_runs, rule quiet_upd_steps) simp_all

lemma quiet_control:
  "CancelRun i now d = Inr (d', x) \<Longrightarrow> quiet d d'"
  "Snooze i t d = Inr e \<Longrightarrow> quiet d e"
  "PauseRun i now d = Inr (d', y) \<Longrightarrow> quiet d d'"
  "ResumeRun i now d = Inr e \<Longrightarrow> quiet d e"
  "DismissDeadLetter i d = Inr e \<Longrightarrow> quiet d e"
  by (auto simp: CancelRun_def Snooze_def PauseRun_def ResumeRun_def DismissDeadLetter_def
      quiet_cancelRunTx quiet_deletes quiet_eq quiet_reschedule intro: quiet_upd_runs
      split: option.splits if_splits)

section \<open>Journal and recovery\<close>

lemma quiet_insertJournal: "insertJournal j d = Inr d' \<Longrightarrow> quiet d d'"
  by (auto simp: insertJournal_def quiet_eq split: if_splits)

lemma quiet_suspend:
  "SuspendStep i k e t d = Inr d' \<Longrightarrow> quiet d d'"
  "SuspendWithJournal j k e t d = Inr d' \<Longrightarrow> quiet d d'"
proof -
  have u: "quiet d (upd_steps (runningStep x) (suspendRow k e t) d)" for x
    by (rule quiet_upd_steps) simp_all
  then show "SuspendStep i k e t d = Inr d' \<Longrightarrow> quiet d d'"
    by (auto simp: SuspendStep_def split: if_splits)
  show "SuspendWithJournal j k e t d = Inr d' \<Longrightarrow> quiet d d'"
    using quiet_trans [OF u quiet_insertJournal] by (auto simp: SuspendWithJournal_def split: if_splits)
qed

lemma quiet_DeliverEvent:
  assumes "integrity d"
  shows "quiet d (fst (DeliverEvent name payload now d))"
  unfolding DeliverEvent_eq(1) [OF assms]
  by (rule quiet_trans [OF quiet_eq quiet_upd_steps]) (simp_all add: insertEvent_def keeps_def same_rows_def)

lemma quiet_InterruptAll: "quiet d (InterruptAll w now d)"
proof -
  have 2: "quiet d (upd_steps (\<lambda>s. sStatus s = Running) (\<lambda>s. s\<lparr>sStatus := Interrupted, sCompletedAt := now\<rparr>)
      (deleteEphemeralRuns ids d))" for ids
    by (rule quiet_trans [OF quiet_deleteEphemeralRuns quiet_upd_steps]) simp_all
  have 3: "quiet d (upd_steps (\<lambda>s. sStatus s = Running \<and> sWorkerID s = w)
      (\<lambda>s. s\<lparr>sStatus := Interrupted, sCompletedAt := now, sWorkerID := '''', sLeaseExpiresAt := 0\<rparr>)
      (deleteEphemeralRuns ids d))" for ids
    by (rule quiet_trans [OF quiet_deleteEphemeralRuns quiet_upd_steps]) (simp_all add: keeps_def same_rows_def)
  show ?thesis
    by (simp add: InterruptAll_def InterruptAllRunning_def InterruptAllWorker_def Let_def
        quiet_upd_runs [OF 2] quiet_upd_runs [OF 3] 3)
qed

lemma quiet_ReapExpired: "quiet d (fst (ReapExpired now limit d))"
  unfolding ReapExpired_def Let_def fst_conv by (rule quiet_upd_steps) (simp_all add: keeps_def same_rows_def)

lemma quiet_recoverInterrupted: "quiet d (recoverInterrupted keep now d)"
  unfolding recoverInterrupted_def Let_def
  by (rule quiet_upd_runs, rule quiet_trans [OF quiet_deleteEphemeralRuns], rule quiet_upd_steps)
    (simp_all split: if_splits)

lemma quiet_PurgeRuns:
  assumes "integrity d" and "PurgeRuns opts d = Inr (d', res)"
  shows "quiet d d'"
proof -
  let ?n = "nat (if poBatchSize opts \<le> 0 then 500 else poBatchSize opts)"
  let ?d1 = "fst (purgeRunLoop (purgeStatuses opts) ?n d)"
  note loops = PurgeRuns_loops [OF assms(2)]
  have "steps d' = steps ?d1"
    unfolding loops(4) using core_purgeEventLoop core_purgeOrphanLoop by (simp add: same_core_def)
  with purgeRunLoop_eq [OF assms(1) loops(1), of "purgeStatuses opts"] show ?thesis
    by (intro quiet_less) auto
qed

end
