(* ===== verification/Capacity.thy ===== *)
theory Capacity
  imports Quiet
begin

text \<open>
  Concurrency keys over whole executions. Only a claim makes a step RUNNING; every other
  operation is \<open>calm\<close>: it adds no RUNNING step to any key and changes no key or limit. With
  the claim's own bound (theory Claim) this caps each key in every reachable database, on
  every driver.
\<close>

section \<open>Calm operations\<close>

definition same_keys :: "step \<Rightarrow> step \<Rightarrow> bool" where
  "same_keys s s' \<longleftrightarrow> sConcurrencyKey s' = sConcurrencyKey s \<and> sKeyLimit s' = sKeyLimit s \<and>
     (sStatus s' = Running \<longrightarrow> sStatus s = Running)"

abbreviation calm :: "db \<Rightarrow> db \<Rightarrow> bool" where
  "calm \<equiv> moves same_keys"

lemma same_keys_refl [simp]: "same_keys s s"
  by (simp add: same_keys_def)

lemma calm_quiet: "quiet d d' \<Longrightarrow> calm d d'"
  by (erule moves_mono) (simp add: keeps_def same_rows_def same_keys_def)

lemma calm_eq: "steps d' = steps d \<Longrightarrow> calm d d'"
  by (rule moves_eq) simp_all

lemma calm_trans: "calm d d' \<Longrightarrow> calm d' d'' \<Longrightarrow> calm d d''"
  by (rule moves_trans) (auto simp: same_keys_def)

lemma count_list_all2:
  "list_all2 R xs ys \<Longrightarrow> (\<And>x y. R x y \<Longrightarrow> P y \<Longrightarrow> P x) \<Longrightarrow> count_where P ys \<le> count_where P xs"
  by (induction rule: list_all2_induct) auto

lemma count_subseq: "subseq xs ys \<Longrightarrow> count_where P xs \<le> count_where P ys"
  by (induction rule: list_emb.induct) auto

lemma running_key_calm:
  assumes "calm d d'"
  shows "running_key d' k \<le> running_key d k"
proof -
  let ?P = "\<lambda>s. sConcurrencyKey s = k \<and> sStatus s = Running"
  obtain xs where xs: "subseq xs (steps d)" "list_all2 same_keys xs (steps d')" using assms by (auto simp: moves_def)
  have "count_where ?P (steps d') \<le> count_where ?P xs" by (rule count_list_all2 [OF xs(2)]) (auto simp: same_keys_def)
  also have "\<dots> \<le> count_where ?P (steps d)" by (rule count_subseq [OF xs(1)])
  finally show ?thesis by (simp add: running_key_def)
qed

lemma key_capped_calm:
  assumes "calm d d'" and "key_capped k L d"
  shows "key_capped k L d'"
proof -
  have "limits_within k L d'"
    unfolding limits_within_def
  proof (intro ballI impI)
    fix s' assume s': "s' \<in> set (steps d')" "sConcurrencyKey s' = k"
    obtain s where "s \<in> set (steps d)" "same_keys s s'" by (rule moves_row [OF assms(1) s'(1)])
    with s'(2) assms(2) show "0 < sKeyLimit s' \<and> sKeyLimit s' \<le> int L"
      by (auto simp: same_keys_def key_capped_def limits_within_def)
  qed
  moreover have "running_key d' k \<le> running_key d k" using assms(1) by (rule running_key_calm)
  ultimately show ?thesis using assms(2) by (simp add: key_capped_def)
qed

lemma calm_upd_steps:
  assumes "\<And>s. P s \<Longrightarrow> same_keys s (f s)"
  shows "calm d (upd_steps P f d)"
  using assms by (intro moves_upd_steps) simp_all

lemma same_keys_rows [simp]:
  "same_keys s (succeedRow out now s)" "st \<noteq> Running \<Longrightarrow> same_keys s (resetStepRow st now s)"
  by (simp_all add: same_keys_def succeedRow_def resetStepRow_def)

lemma calm_completeStepTx:
  assumes "completeStepTx be stepID runID n cnt output now d = Inr (d', res)"
  shows "calm d d'"
proof -
  let ?d1 = "upd_steps (liveStep stepID) (succeedRow output now) d"
  have 0: "calm d (upd_steps (liveStep stepID) (\<lambda>s. s\<lparr>sStatus := Cancelled, sCompletedAt := now\<rparr>) d)"
    and 1: "calm d ?d1"
    by (rule calm_upd_steps; simp add: same_keys_def succeedRow_def)+
  obtain d2 r2 where u: "unblockReadyTx be runID n now
      (zeroResult\<lparr>crStepDone := True, crRunStatus := Some Running\<rparr>) ?d1 = (d2, r2)" by fastforce
  have 2: "calm d d2" by (rule calm_trans [OF 1 calm_quiet [OF quiet_unblockReadyTx [OF u]]])
  have "calm d (endRun i e st out m now ?d1)" "calm d (endRun i e st out m now d2)" for i e st out m
    using calm_trans [OF 1 calm_quiet [OF quiet_endRun]] calm_trans [OF 2 calm_quiet [OF quiet_endRun]] by blast+
  with assms 0 2 u show ?thesis
    by (auto simp: completeStepTx_def Let_def calm_eq split: option.splits if_splits)
qed

lemma calm_completeAll: "completeAll be counts cs d = Inr (d', rs) \<Longrightarrow> calm d d'"
proof (induction cs arbitrary: d rs)
  case (Cons c cs)
  then obtain d1 r1 rs1 where
    1: "completeStepTx be (coStepID c) (coRunID c) (coName c) (counts (coRunID c)) (coOutput c) (coNow c) d
      = Inr (d1, r1)" and 2: "completeAll be counts cs d1 = Inr (d', rs1)"
    by (auto split: sum.splits)
  show ?case by (rule calm_trans [OF calm_completeStepTx [OF 1] Cons.IH [OF 2]])
qed (simp add: calm_eq)

lemma calm_RetryDeadLetter:
  assumes "integrity d" and "RetryDeadLetter i now d = Inr d'"
  shows "calm d d'"
  unfolding RetryDeadLetter_eq [OF assms]
  by (rule calm_trans [OF calm_upd_steps calm_eq]) (simp_all add: reopenStatus_def split: if_splits)

section \<open>The cap in every reachable database\<close>

definition limit_ok :: "string \<Rightarrow> nat \<Rightarrow> step \<Rightarrow> bool" where
  "limit_ok k L s \<longleftrightarrow> (sConcurrencyKey s = k \<longrightarrow> 0 < sKeyLimit s \<and> sKeyLimit s \<le> int L)"

definition key_limit :: "string \<Rightarrow> nat \<Rightarrow> promise" where
  "key_limit k L = \<lparr>pmStep = \<lambda>_. limit_ok k L, pmDone = \<lambda>_. True\<rparr>"

lemma key_limit_sel [simp]: "pmStep (key_limit k L) r s \<longleftrightarrow> limit_ok k L s" "pmDone (key_limit k L) c"
  by (simp_all add: key_limit_def)

lemma key_capped_insertRunsTx:
  assumes "key_capped k L d" and "newItems (\<lambda>_. limit_ok k L) rs" and "insertRunsTx be rs d = Inr d'"
  shows "key_capped k L d'"
proof -
  have st: "steps d' = steps d @ map stepRow (concat (map snd rs))"
    using insertRunsTx_written [OF assms(3)] by (simp add: written_def)
  have new: "newStep s \<and> limit_ok k L s" if "s \<in> set (concat (map snd rs))" for s
    using that assms(2) by (auto simp: newItems_def)
  have row: "sConcurrencyKey (stepRow s) = sConcurrencyKey s" "sKeyLimit (stepRow s) = sKeyLimit s" for s
    by (simp_all add: stepRow_def)
  have "count_where (\<lambda>r. sConcurrencyKey r = k \<and> sStatus r = Running) (map stepRow (concat (map snd rs))) = 0"
  proof -
    have "sStatus s \<noteq> Running" if "s \<in> set (concat (map snd rs))" for s
      using new [OF that] by (auto simp: newStep_def)
    then show ?thesis unfolding count_where_eq_0 by simp
  qed
  then have "running_key d' k = running_key d k" by (simp add: running_key_def st)
  moreover have "limits_within k L d'"
    unfolding limits_within_def st
  proof (intro ballI impI)
    fix s assume s: "s \<in> set (steps d @ map stepRow (concat (map snd rs)))" "sConcurrencyKey s = k"
    then consider "s \<in> set (steps d)" | t where "t \<in> set (concat (map snd rs))" "s = stepRow t" by auto
    then show "0 < sKeyLimit s \<and> sKeyLimit s \<le> int L"
      using s(2) assms(1) new by cases (auto simp: key_capped_def limits_within_def limit_ok_def row)
  qed
  ultimately show ?thesis using assms(1) by (simp add: key_capped_def)
qed

interpretation capped: Enqueue_Invariant be "key_capped k L" "\<lambda>_. limit_ok k L" for be k L
proof
  show "key_capped k L d'" if "key_capped k L d" "newItems (\<lambda>_. limit_ok k L) rs" "insertRunsTx be rs d = Inr d'" for d rs d'
    using that by (rule key_capped_insertRunsTx)
  show "key_capped k L (d\<lparr>counter := n\<rparr>)" if "key_capped k L d" for d n
    by (rule key_capped_calm [OF calm_eq that]) simp
qed (auto intro: key_capped_calm calm_quiet quiet_replaceRunTx quiet_cancelOrDeleteRunTx calm_eq simp: limit_ok_def)

lemma key_capped_store_step:
  assumes "store_step drv (key_limit k L) d d'" and "integrity d" and "k \<noteq> ''''" and "key_capped k L d"
  shows "key_capped k L d'"
  using assms(1)
proof (cases rule: store_step.cases)
  case (enqueue rs stss now cs ps ids reps)
  show ?thesis
    by (rule capped.createRunsUniqueTx_ok [OF assms(4)])
      (use enqueue in \<open>auto simp: CreateRunsUnique_def submitted_def\<close>)
next
  case (create rs stss)
  then have "insertRunsTx (backendOf drv) (zip rs stss) d = Inr d'"
    by (simp add: CreateRuns_def split: if_splits)
  then show ?thesis
    by (intro key_capped_insertRunsTx [OF assms(4)])
      (use create(1) in \<open>auto simp: submitted_def newItems_def dest: set_zip_leftD set_zip_rightD\<close>)
next
  case (fire r sts name t u fired)
  let ?d1 = "d\<lparr>crons := update_where (dueCron name t) (\<lambda>c. c\<lparr>cNextAt := u\<rparr>) (crons d)\<rparr>"
  have "key_capped k L ?d1" by (rule key_capped_calm [OF calm_eq assms(4)]) simp
  moreover have "newItems (\<lambda>_. limit_ok k L) [(r, sts)]"
    using fire(1) by (simp add: submitted_def newItems_def)
  ultimately show ?thesis
    using fire(2) key_capped_insertRunsTx
    by (fastforce simp: FireCron_def Let_def split: if_splits sum.splits)
next
  case (claim qs now ws w lease cs)
  then show ?thesis
    using shipped.key_capped_ClaimDueMulti [OF assms(3,2,4)] by (metis fst_conv)
next
  case (complete comps rs)
  then show ?thesis
    by (auto simp: CompleteSteps_def intro: key_capped_calm [OF calm_completeAll assms(4)])
next
  case (small es c n sub ev tk q now)
  then have "same_core d d'" using same_core_small by blast
  then show ?thesis by (intro key_capped_calm [OF calm_eq assms(4)]) (simp add: same_core_def)
next
  case (retryDead i now)
  then show ?thesis by (intro key_capped_calm [OF calm_RetryDeadLetter [OF assms(2)] assms(4)])
next
  case (finalFail i ri e dl now res)
  then show ?thesis by (intro key_capped_calm [OF calm_quiet [OF quiet_FinalFailStep] assms(4)])
qed (auto intro!: key_capped_calm [OF calm_quiet assms(4)] intro: quiet_intros quiet_control quiet_suspend
  quiet_InterruptAll quiet_ReapExpired quiet_recoverInterrupted
  quiet_DeliverEvent [OF assms(2)] quiet_PurgeRuns [OF assms(2)] quiet_insertJournal
  simp: AppendJournal_def CompleteJournalOnce_def TimeoutWait_def)

lemma key_capped_reachable:
  assumes "reachable drv (key_limit k L) d" and "k \<noteq> ''''"
  shows "key_capped k L d"
  using assms(1)
proof (induction rule: reachable.induct)
  case reach_init
  then show ?case by (simp add: key_capped_def limits_within_def running_key_def emptyDB_def)
next
  case (reach_step d d')
  then show ?case using key_capped_store_step [OF _ integrity_reachable assms(2)] by blast
qed

end
