(* ===== verification/Claim_Laws.thy ===== *)
theory Claim_Laws
  imports Complete
begin

text \<open>
  Laws of a claim transaction: a queue with due candidates makes progress, a queue's
  sliding-window rate holds after every claim, and the three drivers claim and complete
  identically although MySQL's SQL is a different text.
\<close>

section \<open>Progress\<close>

lemma claimOne_head:
  assumes "integrity d" and "st \<in> set (steps d)" and "due now st" and "claimGates be d st"
  obtains d' c where "claimOne be now w lease st (d, cs) = (d', cs @ [c])" "sID (clStep c) = sID st"
proof (cases "sStatus st = Suspended")
  case True
  have "count_where (resumeGuard be d now st) (steps d) = 1"
  proof (rule antisym)
    show "count_where (resumeGuard be d now st) (steps d) \<le> 1"
      unfolding resumeGuard_def by (rule count_where_key_le_1 [OF integrityD(2) [OF assms(1)]])
    have "resumeGuard be d now st st" using True assms(3,4) by (simp add: resumeGuard_def due_def)
    then have "count_where (resumeGuard be d now st) (steps d) \<noteq> 0"
      using assms(2) by (auto simp: count_where_eq_0)
    then show "1 \<le> count_where (resumeGuard be d now st) (steps d)" by simp
  qed
  with True show thesis
    by (intro that [of "upd_steps (resumeGuard be d now st) (resumeRow now w lease) d"
        "\<lparr>clStep = st\<lparr>sStatus := Running, sClaimedAt := now, sResumeAt := 0, sWorkerID := w,
          sLeaseExpiresAt := lease\<rparr>, clRun = None, clResumed = True\<rparr>"]) (simp_all add: claimOne_def)
next
  case False
  have "count_where (startGuard be d st) (steps d) = 1"
  proof (rule antisym)
    show "count_where (startGuard be d st) (steps d) \<le> 1"
      unfolding startGuard_def by (rule count_where_key_le_1 [OF integrityD(2) [OF assms(1)]])
    have "startGuard be d st st" using False assms(3,4) by (auto simp: startGuard_def due_def)
    then have "count_where (startGuard be d st) (steps d) \<noteq> 0"
      using assms(2) by (auto simp: count_where_eq_0)
    then show "1 \<le> count_where (startGuard be d st) (steps d)" by simp
  qed
  with False show thesis
    by (intro that [of "upd_runs (\<lambda>r. rID r = sRunID st \<and> rStatus r = Queued) (startRunRow now)
          (upd_steps (startGuard be d st) (startRow now w lease) d)"
        "\<lparr>clStep = (startRow now w lease st)\<lparr>sResumeAt := 0\<rparr>, clRun = None, clResumed = False\<rparr>"])
      (simp_all add: claimOne_def startRow_def)
qed

lemma fold_claimOne_extends:
  "\<exists>new. snd (fold (claimOne be now w lease) cands (d, cs)) = cs @ new"
  using fold_claimOne_subseq [of be now w lease cands d cs]
  by (metis prod.collapse)

lemma claimQueueTx_progress:
  assumes "integrity d" and "0 < qcLimit q" and "0 < rateBudget d q now"
    and "claimCandidates be d (qcName q) now worker (nat (rateBudget d q now)) = st # rest"
  obtains c cs where "snd (claimQueueTx be q now worker w lease d) = c # cs" "sID (clStep c) = sID st"
proof -
  note st = claimCandidates_subset [of st be d "qcName q" now worker "nat (rateBudget d q now)"]
  obtain d' c where c: "claimOne be now w lease st (d, []) = (d', [] @ [c])" "sID (clStep c) = sID st"
    using claimOne_head [OF assms(1), of st now be w lease "[]"] st assms(4) by auto
  then have "snd (claimQueueTx be q now worker w lease d) =
      snd (fold (claimOne be now w lease) rest (d', [c]))"
    using assms(2-4) by (simp add: claimQueueTx_def Let_def)
  with fold_claimOne_extends [of be now w lease rest d' "[c]"] c(2) that show thesis by auto
qed

section \<open>The sliding-window rate\<close>

definition rateWindow :: "queueClaim \<Rightarrow> time" where
  "rateWindow q = (if qcRateWindow q \<le> 0 then 1000000000 else qcRateWindow q)"

definition startedIn :: "queueClaim \<Rightarrow> time \<Rightarrow> db \<Rightarrow> nat" where
  "startedIn q now d = count_where (\<lambda>s. sQueue s = qcName q \<and> sClaimedAt s \<ge> now - rateWindow q) (steps d)"

lemma rateBudget_startedIn:
  "0 < qcRateLimit q \<Longrightarrow> rateBudget d q now \<le> qcRateLimit q - int (startedIn q now d)"
  by (simp add: rateBudget_def startedIn_def rateWindow_def Let_def)

lemma fold_claimOne_started:
  assumes "integrity d" and "fold (claimOne be now w lease) cands (d, cs) = (d', cs')"
  shows "startedIn q t d' + length cs \<le> startedIn q t d + length cs'"
  using assms
proof (induction cands arbitrary: d cs)
  case (Cons st cands)
  obtain d1 cs1 where one: "claimOne be now w lease st (d, cs) = (d1, cs1)" by fastforce
  have "integrity d1" using integrity_claimOne [OF Cons.prems(1), of be now w lease st cs] one by simp
  with Cons.IH [of d1 cs1] Cons.prems(2) one
  have IH: "startedIn q t d' + length cs1 \<le> startedIn q t d1 + length cs'" by simp
  from one show ?case
  proof (cases rule: claimOne_steps)
    case skip
    with IH show ?thesis by simp
  next
    case (claim G f c)
    have "startedIn q t d1 \<le> Suc (startedIn q t d)"
      unfolding startedIn_def claim(4)
      by (rule count_where_update_key [OF integrityD(2) [OF Cons.prems(1)]])
    with IH claim(5) show ?thesis by simp
  qed
qed simp

lemma claimQueueTx_rate:
  assumes "integrity d" and "0 < qcRateLimit q"
    and "claimQueueTx be q now worker w lease d = (d', cs)"
  shows "int (startedIn q now d') \<le> max (int (startedIn q now d)) (qcRateLimit q)"
proof -
  have le: "startedIn q now d' \<le> startedIn q now d + length cs"
    using assms(3) fold_claimOne_started [OF assms(1), of be now w lease _ "[]" d' cs q now]
    by (auto simp: claimQueueTx_def Let_def split: if_splits)
  show ?thesis
  proof (cases "cs = []")
    case True
    with le show ?thesis by simp
  next
    case False
    have "int (length cs) \<le> rateBudget d q now" by (rule length_claimQueueTx [OF assms(3) False])
    with le rateBudget_startedIn [OF assms(2), of d now] show ?thesis by linarith
  qed
qed

section \<open>The drivers agree\<close>

lemma gates_agree:
  "KeyGate (backendOf drv) = CorrelatedKeyGate"
  "SequenceGate (backendOf drv) = CorrelatedSequenceGate"
  "KeysGate (backendOf drv) = CorrelatedKeysGate"
  "LabelGate (backendOf drv) = subsetLabelGate"
  "BlockedDependents (backendOf drv) = jsonEachDependents"
proof -
  have *: "sqliteBackend = backendOf SQLite" by simp
  have "KeyGate (backendOf drv) = KeyGate (backendOf SQLite)"
    "SequenceGate (backendOf drv) = SequenceGate (backendOf SQLite)"
    "KeysGate (backendOf drv) = KeysGate (backendOf SQLite)"
    "LabelGate (backendOf drv) = LabelGate (backendOf SQLite)"
    "BlockedDependents (backendOf drv) = BlockedDependents (backendOf SQLite)"
    by (intro ext; simp only: shipped.key_gate shipped.sequence_gate shipped.keys_gate
        shipped.label_gate shipped.blocked_dependents)+
  then show "KeyGate (backendOf drv) = CorrelatedKeyGate"
    "SequenceGate (backendOf drv) = CorrelatedSequenceGate"
    "KeysGate (backendOf drv) = CorrelatedKeysGate"
    "LabelGate (backendOf drv) = subsetLabelGate"
    "BlockedDependents (backendOf drv) = jsonEachDependents"
    by (simp_all add: sqliteBackend_def)
qed

definition same_predicates :: "backend \<Rightarrow> backend \<Rightarrow> bool" where
  "same_predicates a b \<longleftrightarrow> KeyGate a = KeyGate b \<and> SequenceGate a = SequenceGate b \<and>
     KeysGate a = KeysGate b \<and> LabelGate a = LabelGate b \<and> BlockedDependents a = BlockedDependents b"

lemma claims_agree:
  assumes "same_predicates a b"
  shows "ClaimDueMulti a queues now worker w lease d = ClaimDueMulti b queues now worker w lease d"
proof -
  have g: "claimGates a = claimGates b"
    using assms by (intro ext) (simp add: claimGates_def same_predicates_def)
  have gs: "resumeGuard a = resumeGuard b" "startGuard a = startGuard b"
    by (intro ext; simp add: resumeGuard_def startGuard_def g)+
  have c: "claimOne a = claimOne b"
    by (intro ext) (simp add: claimOne_def gs split_beta)
  have t: "claimQueueTx a q now worker w lease e = claimQueueTx b q now worker w lease e" for q e
    using assms by (simp add: claimQueueTx_def claimCandidates_def g c same_predicates_def Let_def)
  have "claimQueues a queues now worker w lease e = claimQueues b queues now worker w lease e" for e
    by (induction queues arbitrary: e) (simp_all add: t)
  then show ?thesis by (simp add: ClaimDueMulti_def)
qed

lemma completions_agree:
  assumes "same_predicates a b"
  shows "CompleteSteps a comps d = CompleteSteps b comps d"
proof -
  have u: "unblockReadyTx a = unblockReadyTx b"
    using assms by (intro ext) (simp add: unblockReadyTx_def same_predicates_def)
  have c: "completeStepTx a = completeStepTx b"
    by (intro ext) (simp add: completeStepTx_def u Let_def split: option.split)
  have "completeAll a counts comps e = completeAll b counts comps e" for counts e
  proof (induction comps arbitrary: e)
    case (Cons x xs)
    then show ?case by (simp add: c split: sum.split)
  qed simp
  then show ?thesis by (simp add: CompleteSteps_def)
qed

end
