(* ===== verification/Complete_Laws.thy ===== *)
theory Complete_Laws
  imports Complete
begin

text \<open>
  What a completion does: the run of the completed step ends exactly when no step of it is
  unfinished, the dependents that become claimable are exactly those whose dependencies have
  all succeeded, the one-step fast path computes what the general path would, and a batch
  equals its completions one at a time.
\<close>

section \<open>Dependencies decided exactly\<close>

definition names_unique :: "db \<Rightarrow> string \<Rightarrow> bool" where
  "names_unique d i \<longleftrightarrow> distinct (map sName (filter (\<lambda>s. sRunID s = i) (steps d)))"

lemma depStatus_unique:
  assumes "names_unique d i" and "t \<in> set (steps d)" and "sRunID t = i"
  shows "depStatus d i (sName t) = Some (sStatus t)"
proof -
  let ?f = "\<lambda>s acc. if sRunID s = i \<and> sName s = sName t then Some (sStatus s) else acc"
  have miss: "fold ?f ss acc = acc" if "\<forall>s \<in> set ss. \<not> (sRunID s = i \<and> sName s = sName t)" for ss acc
    using that by (induction ss arbitrary: acc) auto
  have "fold ?f ss acc = Some (sStatus t)"
    if "distinct (map sName (filter (\<lambda>s. sRunID s = i) ss))" "t \<in> set ss" for ss acc
    using that
  proof (induction ss arbitrary: acc)
    case (Cons s ss)
    show ?case
    proof (cases "t \<in> set ss")
      case True
      with Cons show ?thesis by (simp split: if_splits)
    next
      case False
      with Cons.prems(2) have "s = t" by simp
      have "\<not> (sRunID x = i \<and> sName x = sName t)" if "x \<in> set ss" for x
        using Cons.prems(1) that \<open>s = t\<close> assms(3) by (auto simp: rev_image_eqI)
      then have "fold ?f ss (Some (sStatus t)) = Some (sStatus t)" by (intro miss) blast
      with \<open>s = t\<close> assms(3) show ?thesis by simp
    qed
  qed simp
  with assms(1,2) show ?thesis by (simp add: depStatus_def names_unique_def)
qed

lemma depsReady_iff:
  assumes "names_unique d (sRunID s)"
  shows "depsReady d (sRunID s) (sDependsOn s) \<longleftrightarrow> dep_ok d s"
proof
  assume ok: "dep_ok d s"
  show "depsReady d (sRunID s) (sDependsOn s)"
    unfolding depsReady_def list_all_iff
  proof
    fix n assume "n \<in> set (sDependsOn s)"
    with ok obtain t where "t \<in> set (steps d)" "sRunID t = sRunID s" "sName t = n" "sStatus t = Succeeded"
      by (auto simp: dep_ok_def)
    with depStatus_unique [OF assms, of t] show "depStatus d (sRunID s) n = Some Succeeded" by simp
  qed
qed (rule depsReady_dep_ok)

section \<open>One step's completion\<close>

lemma runActive_iff: "runActive i d \<longleftrightarrow> (\<exists>s \<in> set (steps d). sRunID s = i \<and> unfinished (sStatus s))"
  by (auto simp: runActive_def list_ex_iff)

text \<open>The database after the completion's step updates, before the run is ended.\<close>

definition stepOutcome :: "backend \<Rightarrow> string \<Rightarrow> string \<Rightarrow> string \<Rightarrow> bytes \<Rightarrow> time \<Rightarrow> db \<Rightarrow> db" where
  "stepOutcome be stepID runID name output now d =
     fst (unblockReadyTx be runID name now zeroResult (upd_steps (liveStep stepID) (succeedRow output now) d))"

lemma unblock_fst: "fst (unblockReadyTx be i n now res d) = fst (unblockReadyTx be i n now res' d)"
  by (simp add: unblockReadyTx_def Let_def)

lemma completeStepTx_general:
  assumes "find_run runID d = Some r" and "\<not> IsTerminal (rStatus r)"
    and "count_where (liveStep stepID) (steps d) \<noteq> 0" and "cnt \<noteq> 1"
    and "completeStepTx be stepID runID name cnt output now d = Inr (d', res)"
  shows "runActive runID (stepOutcome be stepID runID name output now d) \<Longrightarrow>
      d' = stepOutcome be stepID runID name output now d \<and> \<not> crRunTerminal res \<and> crRunStatus res = Some Running"
    and "\<not> runActive runID (stepOutcome be stepID runID name output now d) \<Longrightarrow>
      d' = endRun runID (rEphemeral r)
        (if failedError runID (stepOutcome be stepID runID name output now d) = None then Succeeded else Failed)
        (lastOutput runID (stepOutcome be stepID runID name output now d))
        (case failedError runID (stepOutcome be stepID runID name output now d) of None \<Rightarrow> '''' | Some m \<Rightarrow> m)
        now (stepOutcome be stepID runID name output now d) \<and> crRunTerminal res"
proof -
  let ?d1 = "upd_steps (liveStep stepID) (succeedRow output now) d"
  obtain d2 r2 where u: "unblockReadyTx be runID name now
      (zeroResult\<lparr>crStepDone := True, crRunStatus := Some Running\<rparr>) ?d1 = (d2, r2)" by fastforce
  have d2: "stepOutcome be stepID runID name output now d = d2"
    unfolding stepOutcome_def using u unblock_fst by (metis fst_conv)
  have r2: "\<not> crRunTerminal r2" "crRunStatus r2 = Some Running"
    using unblockReadyTx_steps(2) [OF u] by (simp_all add: zeroResult_def)
  note run = assms(5) [unfolded completeStepTx_def assms(1) option.case Let_def u prod.case]
  show "runActive runID (stepOutcome be stepID runID name output now d) \<Longrightarrow>
      d' = stepOutcome be stepID runID name output now d \<and> \<not> crRunTerminal res \<and> crRunStatus res = Some Running"
    using run assms(2-4) r2 unfolding d2 by simp
  show "\<not> runActive runID (stepOutcome be stepID runID name output now d) \<Longrightarrow>
      d' = endRun runID (rEphemeral r)
        (if failedError runID (stepOutcome be stepID runID name output now d) = None then Succeeded else Failed)
        (lastOutput runID (stepOutcome be stepID runID name output now d))
        (case failedError runID (stepOutcome be stepID runID name output now d) of None \<Rightarrow> '''' | Some m \<Rightarrow> m)
        now (stepOutcome be stepID runID name output now d) \<and> crRunTerminal res"
    using run assms(2-4) unfolding d2 by auto
qed

section \<open>The fast path\<close>

lemma single_step:
  assumes "stepCount i d = 1" and "s \<in> set (steps d)" and "sRunID s = i"
  shows "filter (\<lambda>t. sRunID t = i) (steps d) = [s]"
proof -
  have "length (filter (\<lambda>t. sRunID t = i) (steps d)) = 1"
    using assms(1) by (simp add: stepCount_def count_where_def)
  then obtain x where x: "filter (\<lambda>t. sRunID t = i) (steps d) = [x]" by (auto simp: length_Suc_conv)
  then have "s \<in> set [x]" using assms(2,3) by (metis (mono_tags, lifting) filter_set mem_Collect_eq set_filter)
  with x show ?thesis by simp
qed

lemma fast_path:
  assumes "s \<in> set (steps d)" and "sRunID s = i" and "sID s = j" and "distinct (map sID (steps d))"
    and "stepCount i d = 1" and "sStatus s = Queued \<or> sStatus s = Running"
    and "\<And>d i st n. BlockedDependents be d i st n =
      filter (\<lambda>s. sRunID s = i \<and> sStatus s = st \<and> n \<in> set (sDependsOn s)) (steps d)"
  shows "completeStepTx be j i n 1 output now d = completeStepTx be j i n cnt output now d"
proof -
  let ?d1 = "upd_steps (liveStep j) (succeedRow output now) d"
  let ?s = "succeedRow output now s"
  have key: "sRunID (succeedRow output now t) = sRunID t" "sID (succeedRow output now t) = sID t" for t
    by (simp_all add: succeedRow_def)
  have "filter (\<lambda>t. sRunID t = i) (steps ?d1) =
      update_where (liveStep j) (succeedRow output now) (filter (\<lambda>t. sRunID t = i) (steps d))"
    unfolding upd_steps_sel by (induction "steps d" rule: rev_induct) (auto simp: update_where_def key filter_map comp_def)
  then have only: "filter (\<lambda>t. sRunID t = i) (steps ?d1) = [?s]"
    using single_step [OF assms(5,1,2)] assms(3,6) by (simp add: liveStep_def)
  have sub: "filter (\<lambda>t. sRunID t = i \<and> Q t) (steps ?d1) = filter Q [?s]" for Q
    using arg_cong [OF only, of "filter Q"] by (simp add: conj_commute)
  have "BlockedDependents be ?d1 i Blocked n = []"
    using sub [of "\<lambda>t. sStatus t = Blocked \<and> n \<in> set (sDependsOn t)"] by (simp add: assms(7))
  then have u: "unblockReadyTx be i n now res ?d1 = (?d1, res)" for res
    by (simp add: unblockReadyTx_def)
  have "\<not> runActive i ?d1"
    using sub [of "\<lambda>t. unfinished (sStatus t)"] unfolding runActive_iff by (auto simp: filter_empty_conv)
  moreover have "failedError i ?d1 = None"
    using sub [of "\<lambda>t. sStatus t = Failed"]
    by (auto simp: failedError_def find_None_iff filter_empty_conv)
  moreover have "lastOutput i ?d1 = output"
    unfolding lastOutput_def only by (simp add: succeedRow_def)
  ultimately show ?thesis
    by (simp add: completeStepTx_def Let_def u split: option.split)
qed

section \<open>A batch is its completions in order\<close>

fun completeSeq :: "backend \<Rightarrow> completion list \<Rightarrow> db \<Rightarrow> err + db \<times> completeResult list" where
  "completeSeq be [] d = Inr (d, [])"
| "completeSeq be (c # cs) d =
     (case CompleteStep be (coStepID c) (coRunID c) (coName c) (coOutput c) (coNow c) d of
        Inl e \<Rightarrow> Inl e
      | Inr (d', res) \<Rightarrow>
          (case completeSeq be cs d' of Inl e \<Rightarrow> Inl e | Inr (d'', rs) \<Rightarrow> Inr (d'', res # rs)))"

lemma stepCount_upd_steps:
  assumes "\<And>s. sRunID (f s) = sRunID s"
  shows "stepCount i (upd_steps P f d) = stepCount i d"
  unfolding stepCount_def upd_steps_sel by (rule count_where_update_eq) (simp add: assms)

lemma stepCount_endRun:
  assumes "find_run i (endRun j e st out m now d) \<noteq> None"
  shows "stepCount i (endRun j e st out m now d) = stepCount i d"
proof -
  have "i \<noteq> j" if e
    using assms that by (auto simp: endRun_def find_run_def find_None_iff Let_def)
  then show ?thesis
    by (auto simp: endRun_def Let_def stepCount_def deleteEphemeralRunTx_def count_where_def
        delete_where_def intro!: arg_cong [where f = length] filter_cong)
qed

definition counts_right :: "(string \<Rightarrow> nat) \<Rightarrow> db \<Rightarrow> bool" where
  "counts_right counts d \<longleftrightarrow> (\<forall>i. find_run i d \<noteq> None \<longrightarrow> counts i = stepCount i d)"

lemma find_run_endRun:
  "find_run i (endRun j e st out m now d) \<noteq> None \<Longrightarrow> find_run i d \<noteq> None"
  by (auto simp: endRun_def Let_def find_run_def find_None_iff update_where_def finishRunRow_def
      split: if_splits)

lemma counts_right_completeStepTx:
  assumes "counts_right counts d" and "completeStepTx be j i n cnt output now d = Inr (d', res)"
  shows "counts_right counts d'"
proof -
  let ?d1 = "upd_steps (liveStep j) (succeedRow output now) d"
  have 0: "counts_right counts (upd_steps (liveStep j) (\<lambda>s. s\<lparr>sStatus := Cancelled, sCompletedAt := now\<rparr>) d)"
    and 1: "counts_right counts ?d1"
    using assms(1) by (simp_all add: counts_right_def find_run_def stepCount_upd_steps succeedRow_def)
  obtain d2 r2 where u: "unblockReadyTx be i n now
      (zeroResult\<lparr>crStepDone := True, crRunStatus := Some Running\<rparr>) ?d1 = (d2, r2)" by fastforce
  have 2: "counts_right counts d2"
    using 1 unfolding unblockReadyTx_steps(1) [OF u]
    by (simp add: counts_right_def find_run_def stepCount_upd_steps)
  have e: "counts_right counts (endRun x e st out m now b)" if "counts_right counts b" for x e st out m b
    using that find_run_endRun stepCount_endRun unfolding counts_right_def by metis
  from assms(2) assms(1) 0 e [OF 1] e [OF 2] 2 u show ?thesis
    by (auto simp: completeStepTx_def Let_def split: option.splits if_splits)
qed

lemma completeAll_seq:
  "counts_right counts d \<Longrightarrow> completeAll be counts cs d = completeSeq be cs d"
proof (induction cs arbitrary: d)
  case (Cons c cs)
  have one: "completeStepTx be (coStepID c) (coRunID c) (coName c) (counts (coRunID c)) (coOutput c) (coNow c) d =
      CompleteStep be (coStepID c) (coRunID c) (coName c) (coOutput c) (coNow c) d"
    using Cons.prems by (simp add: CompleteStep_def counts_right_def completeStepTx_def split: option.split)
  show ?case
  proof (cases "CompleteStep be (coStepID c) (coRunID c) (coName c) (coOutput c) (coNow c) d")
    case (Inr p)
    obtain d1 r1 where p: "p = (d1, r1)" by fastforce
    have "counts_right counts d1"
      by (rule counts_right_completeStepTx [OF Cons.prems]) (use one Inr p in simp)
    with Cons.IH one Inr p show ?thesis by simp
  qed (simp add: one)
qed simp

lemma CompleteSteps_seq: "CompleteSteps be cs d = completeSeq be cs d"
  unfolding CompleteSteps_def by (rule completeAll_seq) (simp add: counts_right_def)

section \<open>Exactly the ready dependents\<close>

lemma unblock_rows:
  assumes "distinct (map sID (steps d))" and "names_unique d i"
    and "\<And>st. BlockedDependents be d i st n =
      filter (\<lambda>s. sRunID s = i \<and> sStatus s = st \<and> n \<in> set (sDependsOn s)) (steps d)"
  shows "steps (fst (unblockReadyTx be i n now res d)) =
    update_where (\<lambda>s. sRunID s = i \<and> sStatus s = Blocked \<and> n \<in> set (sDependsOn s) \<and> dep_ok d s)
      (\<lambda>s. s\<lparr>sStatus := Queued, sRunAt := now\<rparr>) (steps d)"
    and "crReadySteps (snd (unblockReadyTx be i n now res d)) = crReadySteps res @
      map sName (filter (\<lambda>s. sRunID s = i \<and> sStatus s = Blocked \<and> n \<in> set (sDependsOn s) \<and> dep_ok d s) (steps d))"
proof -
  let ?ready = "filter (\<lambda>b. depsReady d i (sDependsOn b)) (BlockedDependents be d i Blocked n)"
  obtain d' res' where u: "unblockReadyTx be i n now res d = (d', res')" by fastforce
  have ready: "?ready = filter (\<lambda>s. sRunID s = i \<and> sStatus s = Blocked \<and> n \<in> set (sDependsOn s) \<and> dep_ok d s)
      (steps d)"
    using depsReady_iff [of d] assms(2) by (auto simp: assms(3) intro!: filter_cong)
  have mem: "sID s \<in> sID ` set ?ready \<and> sStatus s = Blocked \<longleftrightarrow>
      sRunID s = i \<and> sStatus s = Blocked \<and> n \<in> set (sDependsOn s) \<and> dep_ok d s"
    if s: "s \<in> set (steps d)" for s
  proof
    assume a: "sID s \<in> sID ` set ?ready \<and> sStatus s = Blocked"
    then obtain t where t: "t \<in> set ?ready" "sID t = sID s" by force
    then have "t \<in> set (steps d)" unfolding ready by simp
    with s t(2) have "t = s" using distinct_key_eq [OF assms(1)] by blast
    with t(1) show "sRunID s = i \<and> sStatus s = Blocked \<and> n \<in> set (sDependsOn s) \<and> dep_ok d s"
      unfolding ready by simp
  next
    assume "sRunID s = i \<and> sStatus s = Blocked \<and> n \<in> set (sDependsOn s) \<and> dep_ok d s"
    with s show "sID s \<in> sID ` set ?ready \<and> sStatus s = Blocked" unfolding ready by simp
  qed
  show "steps (fst (unblockReadyTx be i n now res d)) =
    update_where (\<lambda>s. sRunID s = i \<and> sStatus s = Blocked \<and> n \<in> set (sDependsOn s) \<and> dep_ok d s)
      (\<lambda>s. s\<lparr>sStatus := Queued, sRunAt := now\<rparr>) (steps d)"
    unfolding u fst_conv unblockReadyTx_steps(1) [OF u] upd_steps_sel update_where_def
    by (rule map_cong [OF refl]) (simp only: mem)
  show "crReadySteps (snd (unblockReadyTx be i n now res d)) = crReadySteps res @
      map sName (filter (\<lambda>s. sRunID s = i \<and> sStatus s = Blocked \<and> n \<in> set (sDependsOn s) \<and> dep_ok d s) (steps d))"
    unfolding u snd_conv unblockReadyTx_steps(2) [OF u] ready by simp
qed

end
