(* ===== verification/Control_Laws.thy ===== *)
theory Control_Laws
  imports Complete_Laws Recovery Query
begin

text \<open>
  What the control operations leave behind: a failed or cancelled run has no claimable step,
  an ephemeral run leaves no row, pausing shuts the claim gate and resuming opens it, and a
  cron occurrence fires once.
\<close>

section \<open>Ended runs\<close>

definition no_trace :: "string \<Rightarrow> db \<Rightarrow> bool" where
  "no_trace i d \<longleftrightarrow> (\<forall>r \<in> set (runs d). rID r \<noteq> i) \<and> (\<forall>s \<in> set (steps d). sRunID s \<noteq> i) \<and>
     (\<forall>l \<in> set (logs d). lRunID (snd l) \<noteq> i)"

lemma no_trace_deleteEphemeralRunTx: "no_trace i (deleteEphemeralRunTx i d)"
  by (auto simp: no_trace_def deleteEphemeralRunTx_def)

lemma endRun_ephemeral: "no_trace i (endRun i True st out m now d)"
  by (simp add: endRun_def Let_def no_trace_deleteEphemeralRunTx)

definition run_closed :: "string \<Rightarrow> db \<Rightarrow> bool" where
  "run_closed i d \<longleftrightarrow> (\<forall>s \<in> set (steps d). sRunID s = i \<longrightarrow> \<not> unfinished (sStatus s))"

lemma failed_siblings:
  assumes "integrity d1" and "d2 = upd_steps (\<lambda>s. List.member (map sID (filter (\<lambda>s. sRunID s = i \<and>
      unfinished (sStatus s) \<and> sID s \<noteq> j) (steps d1))) (sID s)) (cancelRow now) d1"
    and "\<forall>s \<in> set (steps d1). sID s = j \<longrightarrow> \<not> unfinished (sStatus s)"
  shows "run_closed i d2"
proof -
  let ?sib = "filter (\<lambda>s. sRunID s = i \<and> unfinished (sStatus s) \<and> sID s \<noteq> j) (steps d1)"
  have "\<not> unfinished (sStatus s')" if s': "s' \<in> set (steps d2)" "sRunID s' = i" for s'
  proof -
    from s'(1) obtain s where s: "s \<in> set (steps d1)"
      "s' = (if List.member (map sID ?sib) (sID s) then cancelRow now s else s)"
      unfolding assms(2) by (auto simp: update_where_def)
    show ?thesis
    proof (cases "List.member (map sID ?sib) (sID s)")
      case True
      with s(2) show ?thesis by simp
    next
      case False
      then have eq: "s' = s" using s(2) by (simp only: if_False)
      show ?thesis
      proof
        assume u: "unfinished (sStatus s')"
        then have "sID s \<noteq> j" using assms(3) s(1) eq by blast
        then have "s \<in> set ?sib" using u s'(2) s(1) eq by simp
        then have "List.member (map sID ?sib) (sID s)" by (auto simp del: set_filter)
        with False show False ..
      qed
    qed
  qed
  then show ?thesis by (simp add: run_closed_def)
qed

lemma FinalFailStep_closed:
  assumes "integrity d" and "find_run i d = Some r" and "\<not> rEphemeral r"
    and "FinalFailStep j i e dl now d = Inr (d', res)"
    and "\<And>s. s \<in> set (steps d) \<Longrightarrow> sID s = j \<Longrightarrow> sStatus s \<noteq> Succeeded"
  shows "run_closed i d'"
    and "\<not> IsTerminal (rStatus r) \<Longrightarrow> \<exists>r' \<in> set (runs d'). rID r' = i \<and> rStatus r' = Failed \<and>
      rError r' = e \<and> rCompletedAt r' = now \<and> rUniqueKey r' = '''' \<and>
      rDeadLetteredAt r' = (if dl then now else rDeadLetteredAt r)"
    and "\<And>s. s \<in> set (steps d) \<Longrightarrow> sRunID s \<noteq> i \<Longrightarrow> sID s \<noteq> j \<Longrightarrow> s \<in> set (steps d')"
proof -
  let ?d1 = "upd_steps (\<lambda>s. sID s = j) (failRow e now) d"
  let ?sib = "filter (\<lambda>s. sRunID s = i \<and> unfinished (sStatus s) \<and> sID s \<noteq> j) (steps ?d1)"
  let ?d2 = "upd_steps (\<lambda>s. List.member (map sID ?sib) (sID s)) (cancelRow now) ?d1"
  let ?f = "\<lambda>r. r\<lparr>rStatus := Failed, rError := e, rCompletedAt := now, rUniqueKey := '''',
    rDeadLetteredAt := (if dl \<and> \<not> rEphemeral r then now else rDeadLetteredAt r)\<rparr>"
  have 1: "integrity ?d1"
    by (rule integrity_upd_steps [OF assms(1)]) (use assms(5) in auto)
  have d': "d' = upd_runs (openRun i) ?f ?d2"
    using assms(2-4) by (simp add: FinalFailStep_def Let_def)
  have "run_closed i ?d2"
  proof (rule failed_siblings [OF 1 refl])
    show "\<forall>s \<in> set (steps ?d1). sID s = j \<longrightarrow> \<not> unfinished (sStatus s)"
      unfolding upd_steps_sel ball_update_where by simp
  qed
  then show "run_closed i d'" by (simp only: d' run_closed_def upd_runs_sel)
  have r: "r \<in> set (runs d)" "rID r = i" using assms(1,2) by (simp_all add: find_run_Some)
  show "\<exists>r' \<in> set (runs d'). rID r' = i \<and> rStatus r' = Failed \<and>
      rError r' = e \<and> rCompletedAt r' = now \<and> rUniqueKey r' = '''' \<and>
      rDeadLetteredAt r' = (if dl then now else rDeadLetteredAt r)" if "\<not> IsTerminal (rStatus r)"
  proof (intro bexI)
    show "?f r \<in> set (runs d')"
    proof -
      have "openRun i r" using that r(2) by (simp add: openRun_def)
      with in_update_whereI [OF r(1), of "openRun i" ?f] show ?thesis
        by (simp only: d' upd_runs_sel upd_steps_sel if_True)
    qed
  qed (use r(2) assms(3) in simp)
  show "s \<in> set (steps d')" if s: "s \<in> set (steps d)" "sRunID s \<noteq> i" "sID s \<noteq> j" for s
  proof -
    have 2: "s \<in> set (steps ?d1)" using in_update_whereI [OF s(1), of "\<lambda>s. sID s = j"] s(3) by simp
    have "\<not> List.member (map sID ?sib) (sID s)"
    proof
      assume "List.member (map sID ?sib) (sID s)"
      then obtain t where t: "t \<in> set (steps ?d1)" "sRunID t = i" "sID t = sID s" by auto
      have "t = s" by (rule distinct_key_eq [OF integrityD(2) [OF 1] t(1) 2 t(3)])
      with t(2) s(2) show False by simp
    qed
    with in_update_whereI [OF 2, of "\<lambda>s. List.member (map sID ?sib) (sID s)" "cancelRow now"]
    show ?thesis by (simp only: d' upd_runs_sel upd_steps_sel if_False)
  qed
qed

lemma CancelRun_effect:
  assumes "integrity d" and "find_run i d = Some r" and "\<not> IsTerminal (rStatus r)"
    and "CancelRun i now d = Inr (d', ids, st, ok)"
  shows "ok" "st = rStatus r" "set ids = {sID s |s. s \<in> set (steps d) \<and> sRunID s = i \<and> sStatus s = Running}"
    and "rEphemeral r \<Longrightarrow> no_trace i d'"
    and "\<not> rEphemeral r \<Longrightarrow> cancelRunRow now r \<in> set (runs d')"
    and "\<not> rEphemeral r \<Longrightarrow> s \<in> set (steps d') \<Longrightarrow> sRunID s = i \<Longrightarrow>
      IsTerminal (sStatus s) \<or> sStatus s = Running"
proof -
  have r: "r \<in> set (runs d)" "rID r = i" using assms(1,2) by (simp_all add: find_run_Some)
  have eq: "d' = (if rEphemeral r then deleteEphemeralRunTx i d else cancelRunTx i now d)"
    "ids = runningStepIDs i d" "st = rStatus r" ok
    using assms(2-4) by (auto simp: CancelRun_def)
  show ok "st = rStatus r" by (rule eq)+
  show "set ids = {sID s |s. s \<in> set (steps d) \<and> sRunID s = i \<and> sStatus s = Running}"
    by (simp add: eq(2) set_runningStepIDs)
  show "no_trace i d'" if "rEphemeral r" using that by (simp add: eq(1) no_trace_deleteEphemeralRunTx)
  show "cancelRunRow now r \<in> set (runs d')" if "\<not> rEphemeral r"
    using that in_update_whereI [OF r(1), of "\<lambda>r. rID r = i" "cancelRunRow now"] r(2)
    by (simp add: eq(1) cancelRunTx_def)
  show "IsTerminal (sStatus s) \<or> sStatus s = Running"
    if "\<not> rEphemeral r" "s \<in> set (steps d')" "sRunID s = i"
  proof -
    have "s \<in> set (update_where (\<lambda>s. sRunID s = i \<and>
        (sStatus s = Queued \<or> sStatus s = Blocked \<or> sStatus s = Suspended)) (cancelRow now) (steps d))"
      using that(1,2) by (simp add: eq(1) cancelRunTx_def)
    then show ?thesis
    proof (cases rule: in_update_whereE)
      case (1 x)
      then show ?thesis by simp
    next
      case 2
      with that(3) integrityD(6) [OF assms(1)] show ?thesis by (cases "sStatus s") auto
    qed
  qed
qed

section \<open>Pausing\<close>

lemma paused_run_gate:
  assumes "r \<in> set (runs d)" and "rID r = sRunID s" and "rStatus r = Paused"
  shows "\<not> claimGates be d s"
  using assms by (auto simp: claimGates_def runNotPausedGate_def list_ex_iff)

lemma PauseRun_row:
  assumes "integrity d" and "PauseRun i now d = Inr (d', ids, st, changed)"
  shows "\<exists>r \<in> set (runs d'). rID r = i \<and> rStatus r = Paused"
proof -
  obtain r where f: "find_run i d = Some r"
    using assms(2) by (auto simp: PauseRun_def split: option.splits)
  then have r: "r \<in> set (runs d)" "rID r = i" using assms(1) by (simp_all add: find_run_Some)
  show ?thesis
  proof (cases "rStatus r = Paused")
    case True
    with assms(2) f r show ?thesis by (auto simp: PauseRun_def)
  next
    case False
    let ?g = "\<lambda>r. r\<lparr>rStatus := Paused, rPausedAt := now\<rparr>"
    have "?g r \<in> set (update_where (\<lambda>r. rID r = i) ?g (runs d))"
      using in_update_whereI [OF r(1), of "\<lambda>r. rID r = i" ?g] r(2) by simp
    moreover have "runs d' = update_where (\<lambda>r. rID r = i) ?g (runs d)"
      using assms(2) f False by (auto simp: PauseRun_def split: if_splits)
    ultimately show ?thesis using r(2) by (intro bexI [of _ "?g r"]) simp_all
  qed
qed

section \<open>Cron occurrences\<close>

lemma crons_insertRunsTx: "insertRunsTx be rs d = Inr d' \<Longrightarrow> crons d' = crons d"
  by (drule insertRunsTx_written) (simp add: written_def)

lemma FireCron_once:
  assumes "FireCron be name t u r sts d = Inr (d', True)" and "t \<noteq> u"
    and "distinct (map cName (crons d))"
  shows "FireCron be name t u2 r2 sts2 d' = Inr (d', False)"
proof -
  have "crons d' = update_where (dueCron name t) (\<lambda>c. c\<lparr>cNextAt := u\<rparr>) (crons d)"
    using assms(1) by (auto simp: FireCron_def Let_def split: if_splits sum.splits dest!: crons_insertRunsTx)
  then have none: "\<not> dueCron name t c" if "c \<in> set (crons d')" for c
    using that assms(2) by (auto simp: dueCron_def elim!: in_update_whereE)
  then have "count_where (dueCron name t) (crons d') = 0" by (simp add: count_where_eq_0)
  with none show ?thesis by (simp add: FireCron_def Let_def update_where_id)
qed

section \<open>Attempts\<close>

lemma park_refunds:
  assumes "0 \<le> sAttempts s"
  shows "refund (sAttempts (startRow now w lease s)) = sAttempts s"
  using assms by (simp add: refund_def startRow_def)

end
