(* ===== verification/Sample.thy ===== *)
theory Sample
  imports Control_Laws
begin

text \<open>
  Concrete rows and databases at which the properties of theory Spec2Isabelle are
  instantiated: a two-step run in flight, a scheduled step, a keyed run.
\<close>

definition sampleRun :: "string \<Rightarrow> status \<Rightarrow> run" where
  "sampleRun i st = \<lparr>rID = i, rWorkflow = ''wf'', rKind = KindWorkflow, rStatus = st,
     rQueue = ''q'', rPriority = 0, rInput = [], rOutput = [], rError = '''', rAttempts = 0,
     rMaxAttempts = 3, rRunAt = 0, rCreatedAt = 1, rStartedAt = 0, rCompletedAt = 0,
     rConcurrencyKey = '''', rParentID = '''', rParentStep = '''', rTraceParent = '''',
     rUniqueKey = '''', rPausedAt = 0, rDeadLetteredAt = 0, rSequenceKey = '''', rSeq = 0,
     rEphemeral = False, rGroups = []\<rparr>"

definition sampleStep :: "string \<Rightarrow> string \<Rightarrow> status \<Rightarrow> string list \<Rightarrow> step" where
  "sampleStep i n st deps = \<lparr>sID = i, sRunID = ''r'', sName = n, sTask = n, sOrd = 0,
     sStatus = st, sDependsOn = deps, sQueue = ''q'', sPriority = 0, sInput = [], sOutput = [],
     sError = '''', sAttempts = 0, sMaxAttempts = 3, sTimeout = 0, sRunAt = 5, sCreatedAt = 1,
     sStartedAt = 0, sCompletedAt = 0, sConcurrencyKey = ''k'', sKeyLimit = 1, sClaimedAt = 0,
     sResumeAt = 0, sWaitKind = '''', sWaitEvent = '''', sLabels = [], sWorkerID = '''',
     sLeaseExpiresAt = 0, sSequenceKey = '''', sSeq = 0, sKeys = []\<rparr>"

definition sampleDB :: "run \<Rightarrow> step list \<Rightarrow> db" where
  "sampleDB r ss = emptyDB\<lparr>runs := [r], steps := ss\<rparr>"

lemmas sample_defs = sampleDB_def sampleRun_def sampleStep_def emptyDB_def

text \<open>Step a runs, step b waits for it.\<close>

definition inFlight :: db where
  "inFlight = sampleDB (sampleRun ''r'' Running)
     [sampleStep ''1'' ''a'' Running [], sampleStep ''2'' ''b'' Blocked [''a'']]"

lemma integrity_inFlight: "integrity inFlight"
  by (simp add: inFlight_def sample_defs integrity_defs dep_ok_def keyed_runs_def)

text \<open>Step a is due.\<close>

definition scheduled :: db where
  "scheduled = sampleDB (sampleRun ''r'' Queued) [sampleStep ''1'' ''a'' Queued []]"

lemma integrity_scheduled: "integrity scheduled"
  by (simp add: scheduled_def sample_defs integrity_defs dep_ok_def keyed_runs_def)

definition sampleQueue :: queueClaim where
  "sampleQueue = \<lparr>qcName = ''q'', qcLimit = 4, qcRateLimit = 2, qcRateWindow = 10\<rparr>"

end
