(* ===== verification/Dag.thy ===== *)
theory Dag
  imports Enqueue "HOL-Library.AList"
begin

text \<open>
  Task definitions and enqueue requests (internal/engine/engine.go), and the validation of a
  request's dependency graph (internal/engine/dag.go, Kahn's algorithm). The \<open>indeg\<close> map of
  the code is an association list, in which a missing key reads as 0 as in Go.

  \<open>tdDelay\<close> is the wait before a retry by attempt number, the task's \<open>Backoff.Delay\<close> (floating
  point arithmetic with random jitter, retry.go).

  The type variable \<open>'c\<close> is the engine's codec, which the key functions of a task receive, and
  \<open>'h\<close> the type of task handlers.
\<close>

section \<open>Tasks and requests\<close>

record 'c keyDef =
  kdName :: string
  kdFn :: "'c \<Rightarrow> bytes \<Rightarrow> string"
  kdLimit :: int

record ('c, 'h) taskDef =
  tdName :: string
  tdQueue :: string
  tdMaxAttempts :: int
  tdTimeout :: time
  tdDelay :: "int \<Rightarrow> time"
  tdFn :: 'h
  tdWrappers :: "('h \<Rightarrow> 'h) list"
  tdLabels :: "string list"
  tdKeyFn :: "('c \<Rightarrow> bytes \<Rightarrow> string) option"
  tdKeyLimit :: int
  tdKeyStrategy :: ConcurrencyStrategy
  tdExtraKeys :: "'c keyDef list"
  tdDeadLetter :: bool
  tdSequenceFn :: "('c \<Rightarrow> bytes \<Rightarrow> string) option"
  tdEphemeral :: bool

record ('c, 'h) stepReq =
  srName :: string
  srDeps :: "string list"
  srDef :: "('c, 'h) taskDef option"

record ('c, 'h) enqueueRequest =
  erWorkflow :: string
  erKind :: kind
  erInput :: bytes
  erQueue :: string
  erPriority :: int
  erRunAt :: "time option"
  erParentID :: string
  erParentStep :: string
  erUniqueKey :: string
  erConflict :: UniqueConflict
  erEphemeral :: bool
  erGroups :: bytes
  erSteps :: "('c, 'h) stepReq list"

section \<open>Validating a dependency graph\<close>

datatype dagErr = StepsRequireNames | DuplicateStep string | UnknownDep string string | DependencyCycle

fun checkNames :: "('c, 'h) stepReq list \<Rightarrow> string list \<Rightarrow> dagErr option" where
  "checkNames [] names = None"
| "checkNames (s # ss) names =
     (if srName s = '''' then Some StepsRequireNames
      else if List.member names (srName s) then Some (DuplicateStep (srName s))
      else checkNames ss (names @ [srName s]))"

definition indegOf :: "(string \<times> int) list \<Rightarrow> string \<Rightarrow> int" where
  "indegOf indeg m = (case map_of indeg m of None \<Rightarrow> 0 | Some k \<Rightarrow> k)"

fun addDeps :: "string list \<Rightarrow> string \<Rightarrow> string list \<Rightarrow> (string \<Rightarrow> string list) \<Rightarrow>
    dagErr + (string \<Rightarrow> string list)" where
  "addDeps names n [] adj = Inr adj"
| "addDeps names n (dep # deps) adj =
     (if \<not> List.member names dep then Inl (UnknownDep n dep)
      else addDeps names n deps (adj(dep := adj dep @ [n])))"

text \<open>The loop that fills \<open>indeg\<close> and \<open>adj\<close>.\<close>

fun buildGraph :: "string list \<Rightarrow> ('c, 'h) stepReq list \<Rightarrow> (string \<times> int) list \<times> (string \<Rightarrow> string list) \<Rightarrow>
    dagErr + (string \<times> int) list \<times> (string \<Rightarrow> string list)" where
  "buildGraph names [] g = Inr g"
| "buildGraph names (s # ss) (indeg, adj) =
     (case addDeps names (srName s) (srDeps s) adj of
        Inl e \<Rightarrow> Inl e
      | Inr adj' \<Rightarrow> buildGraph names ss (AList.update (srName s) (int (length (srDeps s))) indeg, adj'))"

text \<open>The inner loop: the dependents of the step just visited.\<close>

fun relax :: "string list \<Rightarrow> (string \<times> int) list \<Rightarrow> string list \<Rightarrow> (string \<times> int) list \<times> string list" where
  "relax [] indeg queue = (indeg, queue)"
| "relax (m # ms) indeg queue =
     (let indeg' = AList.update m (indegOf indeg m - 1) indeg
      in relax ms indeg' (if indegOf indeg' m = 0 then queue @ [m] else queue))"

definition positives :: "(string \<times> int) list \<Rightarrow> nat" where
  "positives indeg = count_where (\<lambda>p. 0 < snd p) indeg"

lemma positives_update:
  "positives (AList.update m (indegOf indeg m - 1) indeg) +
     (if indegOf (AList.update m (indegOf indeg m - 1) indeg) m = 0 then 1 else 0) \<le> positives indeg"
  by (induction indeg) (auto simp: positives_def indegOf_def count_where_def split: if_splits option.splits)

lemma positives_relax:
  "relax ms indeg queue = (indeg', queue') \<Longrightarrow>
     positives indeg' + length queue' \<le> positives indeg + length queue"
proof (induction ms arbitrary: indeg queue)
  case (Cons m ms)
  let ?i = "AList.update m (indegOf indeg m - 1) indeg"
  have "positives indeg' + length queue' \<le>
      positives ?i + length (if indegOf ?i m = 0 then queue @ [m] else queue)"
    using Cons.prems by (intro Cons.IH) (simp add: Let_def)
  with positives_update [of m indeg] show ?case by (simp split: if_splits)
qed simp

text \<open>
  The outer loop. It ends: every visit takes one step off the queue, and a step is queued only
  when its positive in-degree drops to zero.
\<close>

function kahn :: "(string \<Rightarrow> string list) \<Rightarrow> (string \<times> int) list \<Rightarrow> string list \<Rightarrow> nat \<Rightarrow> nat" where
  "kahn adj indeg [] visited = visited"
| "kahn adj indeg (n # queue) visited =
     (let (indeg', queue') = relax (adj n) indeg queue in kahn adj indeg' queue' (visited + 1))"
  by pat_completeness auto
termination
proof (relation "measure (\<lambda>(adj, indeg, queue, visited). positives indeg + length queue)")
  show "wf (measure (\<lambda>(adj :: string \<Rightarrow> string list, indeg, queue :: string list, visited :: nat). positives indeg + length queue))"
    by simp
next
  fix adj :: "string \<Rightarrow> string list" and indeg indeg' :: "(string \<times> int) list" and n queue queue' x
    and visited :: nat
  assume "x = relax (adj n) indeg queue" "(indeg', queue') = x"
  then have "relax (adj n) indeg queue = (indeg', queue')" by simp
  from positives_relax [OF this]
  show "((adj, indeg', queue', visited + 1), adj, indeg, n # queue, visited) \<in>
      measure (\<lambda>(adj, indeg, queue, visited). positives indeg + length queue)" by simp
qed

definition validateDAG :: "('c, 'h) stepReq list \<Rightarrow> dagErr option" where
  "validateDAG ss =
     (case checkNames ss [] of
        Some e \<Rightarrow> Some e
      | None \<Rightarrow>
          (case buildGraph (map srName ss) ss ([], \<lambda>_. []) of
             Inl e \<Rightarrow> Some e
           | Inr (indeg, adj) \<Rightarrow>
               let queue = filter (\<lambda>n. indegOf indeg n = 0) (map srName ss)
               in if kahn adj indeg queue 0 \<noteq> length ss then Some DependencyCycle else None))"

end
