(* ===== verification/Engine.thy ===== *)
theory Engine
  imports Dag Query Complete Recovery
begin

text \<open>
  The in-memory state of an engine (internal/engine/engine.go): its queues, registered tasks,
  triggers, waiters and the marks by which goroutines hand each other decisions. Operations are
  functions of the engine and the database it works on. The code guards these fields with one
  mutex; every function here is one such critical section, or the sequence of them that a call
  performs.

  A \<open>Waiter\<close> is shared between the map of the engine and the callers that hold it, so waiters
  live in a heap (\<open>enHandles\<close>), each with the id of its run, and are named by their position in it. Go maps that the code
  iterates over are lists, whose order stands for the unspecified iteration order. Published
  transitions accumulate in \<open>enEvents\<close>; tracing, logging and the observe-only \<open>After\<close> hooks have
  no effect on the state and are left out.
\<close>

section \<open>The state of an engine\<close>

record queueState =
  qConcurrency :: int
  qInFlight :: int
  qRateLimit :: int
  qRateWindow :: int

text \<open>The schedule of a cron is third-party: the function \<open>ceSched\<close> from now to the next fire time.
  \<open>ceNext\<close> is \<open>None\<close> for Go's zero time.\<close>

record cronEntry =
  ceName :: string
  ceSpec :: string
  ceTask :: string
  ceSched :: "time \<Rightarrow> time"
  ceInput :: bytes
  ceNext :: "time option"

record armedSub =
  asEvent :: string
  asTask :: string

datatype waitErr = WErrRun string string | WErrCancelled | WErrInterrupted | WErrGone

datatype waiter = Waiting | Released "status option" bytes "waitErr option"

record busEvent =
  beRun :: string
  beStep :: string
  beFrom :: status
  beTo :: status
  beAt :: time
  beError :: string

record enqueueInfo =
  infoWorkflow :: string
  infoKind :: kind
  infoQueue :: string
  infoPriority :: int

record completionReq =
  cqComp :: completion
  cqName :: string

record ('c, 'h) engine =
  enQueues :: "(string \<times> queueState) list"
  enTasks :: "string \<rightharpoonup> ('c, 'h) taskDef"
  enCrons :: "(string \<times> cronEntry) list"
  enPendingCrons :: "(string \<times> cronEntry) list"
  enEventSubs :: "string \<Rightarrow> armedSub list"
  enPendingSubs :: "string \<Rightarrow> armedSub list"
  enMiddleware :: "('h \<Rightarrow> 'h) list"
  enBeforeEnqueue :: "(enqueueInfo \<Rightarrow> string option) list"
  enWaiters :: "(string \<times> nat) list"
  enHandles :: "(string \<times> waiter) list"
  enCancels :: "string set"
  enInterrupted :: "string set"
  enHaltSteps :: "string set"
  enPaused :: "string set"
  enPauseSteps :: "string set"
  enPending :: "completionReq list"
  enStopped :: bool
  enWake :: bool
  enUrgent :: bool
  enClosing :: bool
  enEvents :: "busEvent list"
  enPoll :: time
  enWorkerLabels :: "string list"
  enWorkerID :: string
  enLeaseMode :: bool
  enLeaseTTL :: time
  enCodec :: 'c

definition DefaultQueueConcurrency :: int where "DefaultQueueConcurrency = 10"

definition newQueueState :: "int \<Rightarrow> queueState" where
  "newQueueState c = \<lparr>qConcurrency = c, qInFlight = 0, qRateLimit = 0, qRateWindow = 0\<rparr>"

definition normQueue :: "string \<Rightarrow> string" where
  "normQueue q = (if q = '''' then ''default'' else q)"

definition ensureQueue :: "string \<Rightarrow> ('c, 'h) engine \<Rightarrow> ('c, 'h) engine" where
  "ensureQueue name e =
     (if map_of (enQueues e) name \<noteq> None then e
      else e\<lparr>enQueues := enQueues e @ [(name, newQueueState DefaultQueueConcurrency)]\<rparr>)"

definition updQueue :: "string \<Rightarrow> (queueState \<Rightarrow> queueState) \<Rightarrow> ('c, 'h) engine \<Rightarrow> ('c, 'h) engine" where
  "updQueue name f e = e\<lparr>enQueues := update_where (\<lambda>p. fst p = name) (\<lambda>p. (fst p, f (snd p))) (enQueues e)\<rparr>"

definition SetQueue :: "string \<Rightarrow> int \<Rightarrow> ('c, 'h) engine \<Rightarrow> ('c, 'h) engine" where
  "SetQueue name concurrency e =
     (let c = (if concurrency \<le> 0 then DefaultQueueConcurrency else concurrency) in
      if map_of (enQueues e) name \<noteq> None then updQueue name (\<lambda>q. q\<lparr>qConcurrency := c\<rparr>) e
      else e\<lparr>enQueues := enQueues e @ [(name, newQueueState c)]\<rparr>)"

definition SetRateLimit :: "string \<Rightarrow> int \<Rightarrow> int \<Rightarrow> ('c, 'h) engine \<Rightarrow> ('c, 'h) engine" where
  "SetRateLimit name n window e =
     updQueue name (\<lambda>q. q\<lparr>qRateLimit := n, qRateWindow := (if window \<le> 0 then 1000000000 else window)\<rparr>)
       (ensureQueue name e)"

text \<open>A wake always leaves a signal pending; \<open>urgent\<close> makes a busy scheduler honor it.\<close>

definition wakeScheduler :: "('c, 'h) engine \<Rightarrow> ('c, 'h) engine" where
  "wakeScheduler e = e\<lparr>enUrgent := True, enWake := True\<rparr>"

definition wakeSlot :: "('c, 'h) engine \<Rightarrow> ('c, 'h) engine" where
  "wakeSlot e = e\<lparr>enWake := True\<rparr>"

definition publish ::
  "string \<Rightarrow> string \<Rightarrow> status \<Rightarrow> status \<Rightarrow> string \<Rightarrow> time \<Rightarrow> ('c, 'h) engine \<Rightarrow> ('c, 'h) engine" where
  "publish runID stepName src dst errMsg at e =
     e\<lparr>enEvents := enEvents e @ [\<lparr>beRun = runID, beStep = stepName, beFrom = src, beTo = dst,
       beAt = at, beError = errMsg\<rparr>]\<rparr>"

section \<open>Waiters\<close>

definition newWaiter :: "string \<Rightarrow> ('c, 'h) engine \<Rightarrow> ('c, 'h) engine \<times> nat" where
  "newWaiter runID e = (e\<lparr>enHandles := enHandles e @ [(runID, Waiting)]\<rparr>, length (enHandles e))"

text \<open>The first outcome wins.\<close>

definition finishWaiter :: "nat \<Rightarrow> status option \<Rightarrow> bytes \<Rightarrow> waitErr option \<Rightarrow> ('c, 'h) engine \<Rightarrow> ('c, 'h) engine" where
  "finishWaiter h st out err e =
     (if h < length (enHandles e) \<and> snd (enHandles e ! h) = Waiting
      then e\<lparr>enHandles := (enHandles e)[h := (fst (enHandles e ! h), Released st out err)]\<rparr> else e)"

text \<open>Take the waiter of a run out of the map and release it.\<close>

definition releaseWaiter :: "string \<Rightarrow> status option \<Rightarrow> bytes \<Rightarrow> waitErr option \<Rightarrow> ('c, 'h) engine \<Rightarrow> ('c, 'h) engine" where
  "releaseWaiter runID st out err e =
     (case map_of (enWaiters e) runID of
        None \<Rightarrow> e
      | Some h \<Rightarrow> finishWaiter h st out err (e\<lparr>enWaiters := AList.delete runID (enWaiters e)\<rparr>))"

fun runErr :: "string \<Rightarrow> status \<Rightarrow> string \<Rightarrow> waitErr option" where
  "runErr runID Failed errMsg = Some (WErrRun runID errMsg)"
| "runErr runID Cancelled errMsg = Some WErrCancelled"
| "runErr runID Interrupted errMsg = Some WErrInterrupted"
| "runErr runID _ errMsg = None"

definition finishRun :: "string \<Rightarrow> status \<Rightarrow> bytes \<Rightarrow> string \<Rightarrow> time \<Rightarrow> ('c, 'h) engine \<Rightarrow> ('c, 'h) engine" where
  "finishRun runID st out errMsg now e =
     publish runID '''' Running st errMsg now (releaseWaiter runID (Some st) out (runErr runID st errMsg) e)"

text \<open>One poll of the goroutine behind a waiter of a run that another engine may execute.\<close>

definition pollWaiter :: "string \<Rightarrow> nat \<Rightarrow> db \<Rightarrow> ('c, 'h) engine \<Rightarrow> ('c, 'h) engine" where
  "pollWaiter runID h d e =
     (case GetRun runID d of
        Inl x \<Rightarrow> finishWaiter h None [] (Some WErrGone) e
      | Inr r \<Rightarrow>
          if IsTerminal (rStatus r)
          then finishWaiter h (Some (rStatus r)) (rOutput r) (runErr runID (rStatus r) (rError r)) e
          else e)"

section \<open>Interrupting running steps\<close>

text \<open>A step with a registered cancel function has its context cancelled; for one that is
  claimed but not registered yet a tombstone is left.\<close>

definition cancelStepContexts :: "string list \<Rightarrow> ('c, 'h) engine \<Rightarrow> ('c, 'h) engine" where
  "cancelStepContexts ids e =
     e\<lparr>enInterrupted := enInterrupted e \<union> (set ids \<inter> enCancels e),
       enHaltSteps := enHaltSteps e \<union> (set ids - enCancels e)\<rparr>"

definition interruptLocal :: "string \<Rightarrow> status \<Rightarrow> string list \<Rightarrow> time \<Rightarrow> ('c, 'h) engine \<Rightarrow> ('c, 'h) engine" where
  "interruptLocal runID prev running now e =
     publish runID '''' prev Cancelled '''' now
       (releaseWaiter runID (Some Cancelled) [] (Some WErrCancelled) (cancelStepContexts running e))"

definition consumePause :: "string \<Rightarrow> ('c, 'h) engine \<Rightarrow> ('c, 'h) engine \<times> bool" where
  "consumePause stepID e = (e\<lparr>enPauseSteps := enPauseSteps e - {stepID}\<rparr>, stepID \<in> enPauseSteps e)"

end
