(* ===== verification/Build.thy ===== *)
theory Build
  imports Engine
begin

text \<open>
  Registering tasks, turning an enqueue request into rows, and the enqueue calls
  (internal/engine/engine.go, \<open>RegisterTask\<close> to \<open>buildRun\<close>, with the triggers that
  registration arms from cron.go and events.go).
\<close>

section \<open>Registering a task\<close>

text \<open>A pending cron whose task registers is armed; a missed fire time is recomputed from now.\<close>

definition armCron :: "time \<Rightarrow> cronEntry \<Rightarrow> cronEntry" where
  "armCron now c =
     (case ceNext c of
        Some t \<Rightarrow> if t > now then c else c\<lparr>ceNext := Some (ceSched c now)\<rparr>
      | None \<Rightarrow> c\<lparr>ceNext := Some (ceSched c now)\<rparr>)"

definition takePendingCrons :: "string \<Rightarrow> time \<Rightarrow> ('c, 'h) engine \<Rightarrow> ('c, 'h) engine \<times> cronEntry list" where
  "takePendingCrons task now e =
     (let armed = map (\<lambda>p. (fst p, armCron now (snd p))) (filter (\<lambda>p. ceTask (snd p) = task) (enPendingCrons e))
      in (e\<lparr>enCrons := fold (\<lambda>p. AList.update (fst p) (snd p)) armed (enCrons e),
            enPendingCrons := delete_where (\<lambda>p. ceTask (snd p) = task) (enPendingCrons e)\<rparr>,
          map snd armed))"

definition cronRow :: "cronEntry \<Rightarrow> time \<Rightarrow> cron" where
  "cronRow c createdAt = \<lparr>cName = ceName c, cSpec = ceSpec c, cTask = ceTask c, cInput = ceInput c,
     cNextAt = (case ceNext c of None \<Rightarrow> 0 | Some t \<Rightarrow> t), cCreatedAt = createdAt\<rparr>"

definition persistArmedCrons :: "cronEntry list \<Rightarrow> db \<Rightarrow> db" where
  "persistArmedCrons cs = fold (\<lambda>c. UpsertCron (cronRow c 0)) cs"

definition takePendingSubs :: "string \<Rightarrow> ('c, 'h) engine \<Rightarrow> ('c, 'h) engine" where
  "takePendingSubs task e =
     fold (\<lambda>s e. e\<lparr>enEventSubs := (enEventSubs e)(asEvent s := enEventSubs e (asEvent s) @ [s])\<rparr>)
       (enPendingSubs e task) (e\<lparr>enPendingSubs := (enPendingSubs e)(task := [])\<rparr>)"

definition RegisterTask ::
  "('c, 'h) taskDef \<Rightarrow> time \<Rightarrow> ('c, 'h) engine \<times> db \<Rightarrow> ('c, 'h) engine \<times> db" where
  "RegisterTask def now ed =
     (let (e, d) = ed;
          e1 = e\<lparr>enTasks := (enTasks e)(tdName def := Some def)\<rparr>;
          (e2, armed) = takePendingCrons (tdName def) now e1
      in (takePendingSubs (tdName def) e2, persistArmedCrons armed d))"

section \<open>Identifiers\<close>

text \<open>\<open>strconv.FormatInt(n, 36)\<close> on a non-negative number, and eight random hex digits.\<close>

definition digit36 :: "nat \<Rightarrow> char" where
  "digit36 k = ''0123456789abcdefghijklmnopqrstuvwxyz'' ! k"

fun formatBase36 :: "nat \<Rightarrow> string" where
  "formatBase36 n = (if n < 36 then [digit36 n] else formatBase36 (n div 36) @ [digit36 (n mod 36)])"

definition newID :: "time \<Rightarrow> string \<Rightarrow> string" where
  "newID now rnd = (if now < 0 then ''-'' @ formatBase36 (nat (- now)) else formatBase36 (nat now)) @ ''-'' @ rnd"

section \<open>Building a run\<close>

datatype engineErr = ErrNoSteps | ErrDag dagErr | ErrNoDefinition string | ErrNilRequest | ErrClosed
  | ErrVeto string | ErrOfStore err | ErrExternalTxUnsupported | ErrUnknownTask | ErrNameRequired
  | ErrCronSpec

definition stepKey_of :: "('c, 'h) taskDef \<Rightarrow> 'c \<Rightarrow> bytes \<Rightarrow> string" where
  "stepKey_of def codec input = (case tdKeyFn def of None \<Rightarrow> '''' | Some f \<Rightarrow> f codec input)"

definition extraKeys :: "('c, 'h) taskDef \<Rightarrow> 'c \<Rightarrow> bytes \<Rightarrow> stepKey list" where
  "extraKeys def codec input = concat (map (\<lambda>kd.
     let v = kdFn kd codec input in
     if v = '''' then []
     else [\<lparr>kName = (if kdName kd = '''' then tdName def else kdName kd), kValue = v,
            kLimit = max 1 (kdLimit kd)\<rparr>]) (tdExtraKeys def))"

definition buildStep ::
  "('c, 'h) enqueueRequest \<Rightarrow> string \<Rightarrow> time \<Rightarrow> time \<Rightarrow> 'c \<Rightarrow> nat \<Rightarrow> ('c, 'h) stepReq \<Rightarrow> ('c, 'h) taskDef \<Rightarrow> step" where
  "buildStep req runID runAt now codec i sr def =
     (let key = stepKey_of def codec (erInput req) in
      \<lparr>sID = runID @ ''/'' @ srName sr, sRunID = runID, sName = srName sr, sTask = tdName def,
       sOrd = int i, sStatus = (if length (srDeps sr) > 0 then Blocked else Queued),
       sDependsOn = srDeps sr, sQueue = normQueue (tdQueue def), sPriority = erPriority req,
       sInput = erInput req, sOutput = [], sError = '''', sAttempts = 0,
       sMaxAttempts = max 1 (tdMaxAttempts def), sTimeout = tdTimeout def, sRunAt = runAt,
       sCreatedAt = now, sStartedAt = 0, sCompletedAt = 0, sConcurrencyKey = key,
       sKeyLimit = (if key = '''' then 0 else max 1 (tdKeyLimit def)), sClaimedAt = 0,
       sResumeAt = 0, sWaitKind = '''', sWaitEvent = '''', sLabels = tdLabels def, sWorkerID = '''',
       sLeaseExpiresAt = 0,
       sSequenceKey = (case tdSequenceFn def of None \<Rightarrow> '''' | Some f \<Rightarrow> f codec (erInput req)),
       sSeq = 0, sKeys = extraKeys def codec (erInput req)\<rparr>)"

text \<open>The loop over the steps: each registers its task and its queue before the next is looked at.\<close>

fun buildSteps ::
  "('c, 'h) enqueueRequest \<Rightarrow> string \<Rightarrow> time \<Rightarrow> time \<Rightarrow> nat \<Rightarrow> ('c, 'h) stepReq list \<Rightarrow> ('c, 'h) engine \<times> db \<Rightarrow>
     (engineErr + step list) \<times> ('c, 'h) engine \<times> db" where
  "buildSteps req runID runAt now i [] ed = (Inr [], ed)"
| "buildSteps req runID runAt now i (sr # srs) ed =
     (case srDef sr of
        None \<Rightarrow> (Inl (ErrNoDefinition (srName sr)), ed)
      | Some def \<Rightarrow>
          let (e1, d1) = RegisterTask def now ed;
              e2 = ensureQueue (normQueue (tdQueue def)) e1;
              (rest, ed3) = buildSteps req runID runAt now (i + 1) srs (e2, d1)
          in (map_sum id (\<lambda>ss. buildStep req runID runAt now (enCodec (fst ed)) i sr def # ss) rest, ed3))"

definition runQueue :: "('c, 'h) enqueueRequest \<Rightarrow> string" where
  "runQueue req =
     (let queue = normQueue (erQueue req) in
      if queue = ''default'' then
        (case erSteps req of
           sr # srs \<Rightarrow> (case srDef sr of Some def \<Rightarrow> normQueue (tdQueue def) | None \<Rightarrow> queue)
         | [] \<Rightarrow> queue)
      else queue)"

definition runOf :: "('c, 'h) enqueueRequest \<Rightarrow> string \<Rightarrow> time \<Rightarrow> time \<Rightarrow> step \<Rightarrow> run" where
  "runOf req runID runAt now first =
     \<lparr>rID = runID, rWorkflow = erWorkflow req, rKind = erKind req, rStatus = Queued,
      rQueue = runQueue req, rPriority = erPriority req, rInput = erInput req, rOutput = [],
      rError = '''', rAttempts = 0, rMaxAttempts = sMaxAttempts first, rRunAt = runAt,
      rCreatedAt = now, rStartedAt = 0, rCompletedAt = 0, rConcurrencyKey = sConcurrencyKey first,
      rParentID = erParentID req, rParentStep = erParentStep req, rTraceParent = '''',
      rUniqueKey = erUniqueKey req, rPausedAt = 0, rDeadLetteredAt = 0,
      rSequenceKey = sSequenceKey first, rSeq = 0, rEphemeral = erEphemeral req, rGroups = erGroups req\<rparr>"

definition buildRun ::
  "('c, 'h) enqueueRequest \<Rightarrow> time \<Rightarrow> string \<Rightarrow> ('c, 'h) engine \<times> db \<Rightarrow>
     (engineErr + run \<times> step list) \<times> ('c, 'h) engine \<times> db" where
  "buildRun req now rnd ed =
     (if erSteps req = [] then (Inl ErrNoSteps, ed)
      else
        let (e, d) = ed; e1 = ensureQueue (runQueue req) e in
        (case validateDAG (erSteps req) of
           Some x \<Rightarrow> (Inl (ErrDag x), (e1, d))
         | None \<Rightarrow>
             let runAt = (case erRunAt req of None \<Rightarrow> now | Some t \<Rightarrow> t);
                 runID = newID now rnd;
                 (res, ed2) = buildSteps req runID runAt now 0 (erSteps req) (e1, d)
             in (map_sum id (\<lambda>sts. (runOf req runID runAt now (hd sts), sts)) res, ed2)))"

end
