(* ===== verification/Engine_Enqueue.thy ===== *)
theory Engine_Enqueue
  imports Build
begin

text \<open>
  The enqueue calls of the engine (internal/engine/engine.go, \<open>Enqueue\<close> to \<open>EnqueueBatchOnTx\<close>).
  The random part of a run id is an argument, one per request. Between the attempts of
  \<open>createRuns\<close> other engines may commit: \<open>others k\<close> is what they commit before attempt \<open>k\<close>.
\<close>

section \<open>The requests of a batch\<close>

record ('c, 'h) built =
  buRun :: run
  buSteps :: "step list"
  buConflict :: UniqueConflict
  buPolicy :: KeyPolicy
  buHandle :: nat

definition infoOf :: "run \<Rightarrow> enqueueInfo" where
  "infoOf r = \<lparr>infoWorkflow = rWorkflow r, infoKind = rKind r, infoQueue = rQueue r, infoPriority = rPriority r\<rparr>"

text \<open>\<open>BeforeEnqueue\<close> hooks run in registration order; the first error vetoes the call.\<close>

fun beforeEnqueue :: "(enqueueInfo \<Rightarrow> string option) list \<Rightarrow> enqueueInfo \<Rightarrow> string option" where
  "beforeEnqueue [] info = None"
| "beforeEnqueue (f # fs) info = (case f info of Some v \<Rightarrow> Some v | None \<Rightarrow> beforeEnqueue fs info)"

definition policyOf :: "('c, 'h) enqueueRequest \<Rightarrow> run \<Rightarrow> KeyPolicy" where
  "policyOf req r =
     (case erSteps req of
        sr # srs \<Rightarrow> (case srDef sr of
            Some def \<Rightarrow> \<lparr>kpKey = rConcurrencyKey r, kpLimit = tdKeyLimit def, kpStrategy = tdKeyStrategy def\<rparr>
          | None \<Rightarrow> noPolicy)
      | [] \<Rightarrow> noPolicy)"

definition prepareOne ::
  "time \<Rightarrow> ('c, 'h) enqueueRequest option \<Rightarrow> string \<Rightarrow> ('c, 'h) engine \<times> db \<Rightarrow>
     (engineErr + ('c, 'h) built) \<times> ('c, 'h) engine \<times> db" where
  "prepareOne now req rnd ed =
     (case req of
        None \<Rightarrow> (Inl ErrNilRequest, ed)
      | Some q \<Rightarrow>
          (case buildRun q now rnd ed of
             (Inl x, ed1) \<Rightarrow> (Inl x, ed1)
           | (Inr (r, sts), (e1, d1)) \<Rightarrow>
               (case beforeEnqueue (enBeforeEnqueue e1) (infoOf r) of
                  Some v \<Rightarrow> (Inl (ErrVeto v), (e1, d1))
                | None \<Rightarrow>
                    let (e2, h) = newWaiter (rID r) e1 in
                    (Inr \<lparr>buRun = r, buSteps = sts, buConflict = erConflict q, buPolicy = policyOf q r,
                       buHandle = h\<rparr>, (e2, d1)))))"

fun prepareAll ::
  "time \<Rightarrow> (('c, 'h) enqueueRequest option \<times> string) list \<Rightarrow> ('c, 'h) engine \<times> db \<Rightarrow>
     (engineErr + ('c, 'h) built list) \<times> ('c, 'h) engine \<times> db" where
  "prepareAll now [] ed = (Inr [], ed)"
| "prepareAll now ((req, rnd) # qs) ed =
     (case prepareOne now req rnd ed of
        (Inl x, ed1) \<Rightarrow> (Inl x, ed1)
      | (Inr b, ed1) \<Rightarrow> (let (rest, ed2) = prepareAll now qs ed1 in (map_sum id (\<lambda>bs. b # bs) rest, ed2)))"

section \<open>The insert, with retries\<close>

fun createAttempts ::
  "backend \<Rightarrow> (nat \<Rightarrow> db \<Rightarrow> db) \<Rightarrow> time \<Rightarrow> ('c, 'h) built list \<Rightarrow> nat \<Rightarrow> nat \<Rightarrow> db \<Rightarrow>
     (err + string list \<times> ReplacedRun list) \<times> db" where
  "createAttempts be others now bs k 0 d = (Inl ErrUniqueViolation, d)"
| "createAttempts be others now bs k (Suc n) d =
     (let d0 = others k d in
      case CreateRunsUnique be now (map buRun bs) (map buSteps bs) (map buConflict bs) (map buPolicy bs) d0 of
        Inr (d', ids, replaced) \<Rightarrow> (Inr (ids, replaced), d')
      | Inl x \<Rightarrow> if x \<noteq> ErrUniqueViolation then (Inl x, d0) else createAttempts be others now bs (k + 1) n d0)"

definition createRuns ::
  "backend \<Rightarrow> (nat \<Rightarrow> db \<Rightarrow> db) \<Rightarrow> time \<Rightarrow> ('c, 'h) built list \<Rightarrow> db \<Rightarrow>
     (err + string list \<times> ReplacedRun list) \<times> db" where
  "createRuns be others now bs d = createAttempts be others now bs 0 3 d"

section \<open>Waiters of a batch\<close>

definition registerWaiters :: "('c, 'h) built list \<Rightarrow> ('c, 'h) engine \<Rightarrow> ('c, 'h) engine" where
  "registerWaiters bs e = fold (\<lambda>b e. e\<lparr>enWaiters := AList.update (rID (buRun b)) (buHandle b) (enWaiters e)\<rparr>) bs e"

definition dropWaiters :: "('c, 'h) built list \<Rightarrow> ('c, 'h) engine \<Rightarrow> ('c, 'h) engine" where
  "dropWaiters bs e = fold (\<lambda>b e. e\<lparr>enWaiters := AList.delete (rID (buRun b)) (enWaiters e)\<rparr>) bs e"

text \<open>A reused run keeps its own id: the caller gets the waiter of that run, the local one or a
  new one that polls the store.\<close>

fun rebindWaiters ::
  "(string \<times> ('c, 'h) built) list \<Rightarrow> ('c, 'h) engine \<Rightarrow> ('c, 'h) engine \<times> nat list" where
  "rebindWaiters [] e = (e, [])"
| "rebindWaiters ((i, b) # ibs) e =
     (if i = rID (buRun b) then (let (e', hs) = rebindWaiters ibs e in (e', buHandle b # hs))
      else
        let e1 = e\<lparr>enWaiters := AList.delete (rID (buRun b)) (enWaiters e)\<rparr> in
        (case map_of (enWaiters e1) i of
           Some h \<Rightarrow> (let (e', hs) = rebindWaiters ibs e1 in (e', h # hs))
         | None \<Rightarrow>
             let (e2, h) = newWaiter i e1;
                 (e', hs) = rebindWaiters ibs (e2\<lparr>enWaiters := AList.update i h (enWaiters e2)\<rparr>)
             in (e', h # hs)))"

definition interruptReplaced :: "time \<Rightarrow> ReplacedRun list \<Rightarrow> ('c, 'h) engine \<Rightarrow> ('c, 'h) engine" where
  "interruptReplaced now rs e = fold (\<lambda>r. interruptLocal (rrRunID r) Running (rrRunningSteps r) now) rs e"

section \<open>Enqueueing\<close>

definition EnqueueBatch ::
  "backend \<Rightarrow> (nat \<Rightarrow> db \<Rightarrow> db) \<Rightarrow> time \<Rightarrow> (('c, 'h) enqueueRequest option \<times> string) list \<Rightarrow> ('c, 'h) engine \<times> db \<Rightarrow>
     (engineErr + nat list) \<times> ('c, 'h) engine \<times> db" where
  "EnqueueBatch be others now reqs ed =
     (if reqs = [] then (Inr [], ed)
      else
        (case prepareAll now reqs ed of
           (Inl x, ed1) \<Rightarrow> (Inl x, ed1)
         | (Inr bs, (e1, d1)) \<Rightarrow>
             if enClosing e1 then (Inl ErrClosed, (e1, d1))
             else
               let e2 = registerWaiters bs e1 in
               (case createRuns be others now bs d1 of
                  (Inl x, d2) \<Rightarrow> (Inl (ErrOfStore x), (dropWaiters bs e2, d2))
                | (Inr (ids, replaced), d2) \<Rightarrow>
                    let (e3, hs) = rebindWaiters (zip ids bs) e2;
                        inserted = list_ex (\<lambda>(i, b). i = rID (buRun b)) (zip ids bs);
                        e4 = interruptReplaced now replaced e3;
                        e5 = (if inserted \<or> replaced \<noteq> [] then wakeScheduler e4 else e4)
                    in (Inr hs, (e5, d2)))))"

definition Enqueue_run ::
  "backend \<Rightarrow> (nat \<Rightarrow> db \<Rightarrow> db) \<Rightarrow> time \<Rightarrow> ('c, 'h) enqueueRequest option \<Rightarrow> string \<Rightarrow> ('c, 'h) engine \<times> db \<Rightarrow>
     (engineErr + nat) \<times> ('c, 'h) engine \<times> db" where
  "Enqueue_run be others now req rnd ed =
     (let (res, ed') = EnqueueBatch be others now [(req, rnd)] ed in (map_sum id hd res, ed'))"

text \<open>Enqueueing on a transaction of the caller: no waiter, no retry, and the id returned is the
  id built for the request.\<close>

definition EnqueueOnTx ::
  "backend \<Rightarrow> time \<Rightarrow> ('c, 'h) enqueueRequest option \<Rightarrow> string \<Rightarrow> ('c, 'h) engine \<times> db \<Rightarrow>
     (engineErr + string) \<times> ('c, 'h) engine \<times> db" where
  "EnqueueOnTx be now req rnd ed =
     (if \<not> SupportsExternalTx be then (Inl ErrExternalTxUnsupported, ed)
      else
        (case req of
           None \<Rightarrow> (Inl ErrNilRequest, ed)
         | Some q \<Rightarrow>
             (case buildRun q now rnd ed of
                (Inl x, ed1) \<Rightarrow> (Inl x, ed1)
              | (Inr (r, sts), (e1, d1)) \<Rightarrow>
                  (case beforeEnqueue (enBeforeEnqueue e1) (infoOf r) of
                     Some v \<Rightarrow> (Inl (ErrVeto v), (e1, d1))
                   | None \<Rightarrow>
                       (case CreateRunsTx be now [r] [sts] [erConflict q] [policyOf q r] d1 of
                          Inl x \<Rightarrow> (Inl (ErrOfStore x), (e1, d1))
                        | Inr (d2, ids) \<Rightarrow> (Inr (rID r), (e1, d2)))))))"

fun prepareTx ::
  "time \<Rightarrow> (('c, 'h) enqueueRequest option \<times> string) list \<Rightarrow> ('c, 'h) engine \<times> db \<Rightarrow>
     (engineErr + ('c, 'h) built list) \<times> ('c, 'h) engine \<times> db" where
  "prepareTx now [] ed = (Inr [], ed)"
| "prepareTx now ((req, rnd) # qs) ed =
     (case req of
        None \<Rightarrow> (Inl ErrNilRequest, ed)
      | Some q \<Rightarrow>
          (case buildRun q now rnd ed of
             (Inl x, ed1) \<Rightarrow> (Inl x, ed1)
           | (Inr (r, sts), (e1, d1)) \<Rightarrow>
               (case beforeEnqueue (enBeforeEnqueue e1) (infoOf r) of
                  Some v \<Rightarrow> (Inl (ErrVeto v), (e1, d1))
                | None \<Rightarrow>
                    let b = \<lparr>buRun = r, buSteps = sts, buConflict = erConflict q,
                              buPolicy = policyOf q r, buHandle = 0\<rparr>;
                        (rest, ed2) = prepareTx now qs (e1, d1)
                    in (map_sum id (\<lambda>bs. b # bs) rest, ed2))))"

definition EnqueueBatchOnTx ::
  "backend \<Rightarrow> time \<Rightarrow> (('c, 'h) enqueueRequest option \<times> string) list \<Rightarrow> ('c, 'h) engine \<times> db \<Rightarrow>
     (engineErr + string list) \<times> ('c, 'h) engine \<times> db" where
  "EnqueueBatchOnTx be now reqs ed =
     (if \<not> SupportsExternalTx be then (Inl ErrExternalTxUnsupported, ed)
      else if reqs = [] then (Inr [], ed)
      else
        (case prepareTx now reqs ed of
           (Inl x, ed1) \<Rightarrow> (Inl x, ed1)
         | (Inr bs, (e1, d1)) \<Rightarrow>
             (case CreateRunsTx be now (map buRun bs) (map buSteps bs) (map buConflict bs) (map buPolicy bs) d1 of
                Inl x \<Rightarrow> (Inl (ErrOfStore x), (e1, d1))
              | Inr (d2, ids) \<Rightarrow> (Inr ids, (e1, d2)))))"

end
