(* ===== verification/Scheduler.thy ===== *)
theory Scheduler
  imports Engine Claim
begin

text \<open>
  The scheduler (internal/engine/engine.go, \<open>schedulerLoop\<close>, \<open>tick\<close>, \<open>idleWait\<close>): each pass
  claims for all queues with free slots in one transaction, counts the claims as in flight and
  says how long to sleep.
\<close>

section \<open>How long to sleep\<close>

definition idleCap :: "backend \<Rightarrow> time" where
  "idleCap be = (if SupportsExternalTx be then 1000000000 else 60000000000)"

definition idleWait :: "backend \<Rightarrow> time \<Rightarrow> ('c, 'h) engine \<Rightarrow> db \<Rightarrow> time" where
  "idleWait be now e d =
     (let next_due = NextDue d in
      if next_due = 0 then idleCap be
      else if next_due \<le> now then enPoll e
      else min (next_due - now) (idleCap be))"

text \<open>The loop waits for the timer or a wake. A busy scheduler ignores a wake that is not urgent;
  an idle one honors any. The result says whether the wait ends.\<close>

definition takeWake :: "bool \<Rightarrow> ('c, 'h) engine \<Rightarrow> ('c, 'h) engine \<times> bool" where
  "takeWake busy e =
     (if \<not> enWake e then (e, False)
      else if busy then (e\<lparr>enWake := False, enUrgent := False\<rparr>, enUrgent e)
      else (e\<lparr>enWake := False, enUrgent := False\<rparr>, True))"

section \<open>One pass\<close>

definition slots :: "queueState \<Rightarrow> int" where
  "slots q = qConcurrency q - qInFlight q"

definition tickQueues :: "('c, 'h) engine \<Rightarrow> (string \<times> queueState) list" where
  "tickQueues e = filter (\<lambda>p. fst p \<notin> enPaused e) (enQueues e)"

definition tickRequests :: "('c, 'h) engine \<Rightarrow> queueClaim list" where
  "tickRequests e = map (\<lambda>p. \<lparr>qcName = fst p, qcLimit = slots (snd p), qcRateLimit = qRateLimit (snd p),
      qcRateWindow = qRateWindow (snd p)\<rparr>) (filter (\<lambda>p. 0 < slots (snd p)) (tickQueues e))"

text \<open>A claim takes a slot and is published, once per run also for the run itself; then its
  execution is started.\<close>

definition admitClaim :: "time \<Rightarrow> claim \<Rightarrow> ('c, 'h) engine \<times> string list \<Rightarrow> ('c, 'h) engine \<times> string list" where
  "admitClaim now c es =
     (let (e, started) = es; st = clStep c;
          e1 = updQueue (sQueue st) (\<lambda>q. q\<lparr>qInFlight := qInFlight q + 1\<rparr>) e;
          e2 = publish (sRunID st) (sName st) (if clResumed c then Suspended else Queued) Running '''' now e1
      in case clRun c of
           Some r \<Rightarrow>
             if rStartedAt r = now \<and> \<not> List.member started (sRunID st)
             then (publish (sRunID st) '''' Queued Running '''' now e2, sRunID st # started)
             else (e2, started)
         | None \<Rightarrow> (e2, started))"

definition tick ::
  "backend \<Rightarrow> time \<Rightarrow> ('c, 'h) engine \<times> db \<Rightarrow> (time \<times> bool) \<times> claim list \<times> ('c, 'h) engine \<times> db" where
  "tick be now ed =
     (let (e, d) = ed; reqs = tickRequests e in
      if reqs = [] then
        (if tickQueues e = [] then ((idleWait be now e d, False), [], (e, d))
         else ((enPoll e, True), [], (e, d)))
      else
        let (workerID, leaseUntil) = (if enLeaseMode e then (enWorkerID e, now + enLeaseTTL e) else ('''', 0));
            (d', claims) = ClaimDueMulti be reqs now (enWorkerLabels e) workerID leaseUntil d
        in if claims = [] then ((idleWait be now e d', False), [], (e, d'))
           else
             let spawned = filter (\<lambda>c. List.member (map qcName reqs) (sQueue (clStep c))) claims
             in ((enPoll e, True), spawned, (fst (fold (admitClaim now) spawned (e, [])), d')))"

end
