(* ===== verification/Durable.thy ===== *)
theory Durable
  imports Journal
begin

text \<open>
  The durable helpers of a task (internal/engine/durable.go): \<open>SleepDurable\<close>, \<open>RunOnce\<close> and
  \<open>WaitFor\<close>. A task is re-invoked from the top after every suspension; its durable calls are
  numbered by a cursor and aligned with the journal loaded at claim time. A helper returns a
  value, returns an error, or unwinds the task with the suspend signal (a panic in the code).

  The codec is third-party or user code: \<open>marshal\<close> and \<open>unmarshal\<close> are arguments. The function a
  \<open>RunOnce\<close> guards is represented by the result of calling it, and the helper reports whether
  it called it.
\<close>

record stepState =
  ssStepID :: string
  ssJournal :: "journalEntry list"
  ssCursor :: nat

datatype durableErr = ErrJournalMisaligned | ErrWaitTimeout | ErrStore err | ErrDecode | ErrEncode
  | ErrMemoized string | ErrCallback string | ErrEventName

datatype 'v outcome = Returned 'v | Failed_with durableErr | Suspended_task

definition takeEntry :: "journalKind \<Rightarrow> stepState \<Rightarrow> stepState \<times> (durableErr + int \<times> journalEntry option)" where
  "takeEntry k ss =
     (let idx = ssCursor ss; ss' = ss\<lparr>ssCursor := idx + 1\<rparr> in
      if idx < length (ssJournal ss) then
        (let e = ssJournal ss ! idx in
         if jKind e \<noteq> k then (ss', Inl ErrJournalMisaligned) else (ss', Inr (int idx, Some e)))
      else (ss', Inr (int idx, None)))"

definition newEntry :: "string \<Rightarrow> int \<Rightarrow> journalKind \<Rightarrow> journalEntry" where
  "newEntry stepID idx k = \<lparr>jStepID = stepID, jIdx = idx, jKind = k, jKey = '''', jEvent = '''',
     jWakeAt = 0, jDeadline = 0, jPayload = [], jResult = [], jErr = '''', jDone = False, jTimedOut = False\<rparr>"

definition pushEntry :: "journalEntry \<Rightarrow> stepState \<Rightarrow> stepState" where
  "pushEntry e ss = ss\<lparr>ssJournal := ssJournal ss @ [e]\<rparr>"

definition sleep :: "time \<Rightarrow> int \<Rightarrow> stepState \<Rightarrow> db \<Rightarrow> unit outcome \<times> stepState \<times> db" where
  "sleep now dur ss d =
     (case takeEntry JournalSleep ss of
        (ss1, Inl e) \<Rightarrow> (Failed_with e, ss1, d)
      | (ss1, Inr (idx, None)) \<Rightarrow>
          let wake = now + dur;
              entry = (newEntry (ssStepID ss) idx JournalSleep)\<lparr>jWakeAt := wake, jDone := dur \<le> 0\<rparr>
          in if dur \<le> 0 then
               (case AppendJournal entry d of
                  Inl e \<Rightarrow> (Failed_with (ErrStore e), ss1, d)
                | Inr d' \<Rightarrow> (Returned (), pushEntry entry ss1, d'))
             else
               (case SuspendWithJournal entry ''sleep'' '''' wake d of
                  Inl e \<Rightarrow> (Failed_with (ErrStore e), ss1, d)
                | Inr d' \<Rightarrow> (Suspended_task, pushEntry entry ss1, d'))
      | (ss1, Inr (idx, Some e)) \<Rightarrow>
          if jWakeAt e > now then
            (case SuspendStep (ssStepID ss) ''sleep'' '''' (jWakeAt e) d of
               Inl x \<Rightarrow> (Failed_with (ErrStore x), ss1, d)
             | Inr d' \<Rightarrow> (Suspended_task, ss1, d'))
          else (Returned (), ss1, d))"

text \<open>The memoized value of a finished \<open>RunOnce\<close> entry.\<close>

definition onceResult :: "(bytes \<Rightarrow> 'v option) \<Rightarrow> 'v \<Rightarrow> journalEntry \<Rightarrow> 'v outcome" where
  "onceResult unmarshal zero e =
     (if jErr e \<noteq> '''' then Failed_with (ErrMemoized (jErr e))
      else if jResult e \<noteq> [] then
        (case unmarshal (jResult e) of None \<Rightarrow> Failed_with ErrDecode | Some v \<Rightarrow> Returned v)
      else Returned zero)"

text \<open>The in-memory entry at position \<open>pos\<close> is the one the code holds a pointer to.\<close>

definition finishOnce ::
  "('v \<Rightarrow> bytes option) \<Rightarrow> nat \<Rightarrow> int \<Rightarrow> string + 'v \<Rightarrow> stepState \<Rightarrow> db \<Rightarrow> 'v outcome \<times> stepState \<times> db" where
  "finishOnce marshal pos idx out ss d =
     (case out of
        Inl m \<Rightarrow> (Failed_with (ErrCallback m), ss, d)
      | Inr v \<Rightarrow>
          (case marshal v of
             None \<Rightarrow> (Failed_with ErrEncode, ss, d)
           | Some res \<Rightarrow> (Returned v,
               ss\<lparr>ssJournal := (ssJournal ss)[pos := (ssJournal ss ! pos)\<lparr>jDone := True, jResult := res\<rparr>]\<rparr>,
               CompleteJournalOnce (ssStepID ss) idx res '''' d)))"

definition runOnce ::
  "('v \<Rightarrow> bytes option) \<Rightarrow> (bytes \<Rightarrow> 'v option) \<Rightarrow> 'v \<Rightarrow> string \<Rightarrow> string + 'v \<Rightarrow> stepState \<Rightarrow> db \<Rightarrow>
     'v outcome \<times> bool \<times> stepState \<times> db" where
  "runOnce marshal unmarshal zero key out ss d =
     (case takeEntry JournalOnce ss of
        (ss1, Inl e) \<Rightarrow> (Failed_with e, False, ss1, d)
      | (ss1, Inr (idx, Some e)) \<Rightarrow>
          if jKey e \<noteq> key then (Failed_with ErrJournalMisaligned, False, ss1, d)
          else if jDone e then (onceResult unmarshal zero e, False, ss1, d)
          else (let (r, ss2, d2) = finishOnce marshal (nat idx) idx out ss1 d in (r, True, ss2, d2))
      | (ss1, Inr (idx, None)) \<Rightarrow>
          let entry = (newEntry (ssStepID ss) idx JournalOnce)\<lparr>jKey := key\<rparr> in
          (case AppendJournal entry d of
             Inl e \<Rightarrow> (Failed_with (ErrStore e), False, ss1, d)
           | Inr d1 \<Rightarrow>
               (let (r, ss2, d2) = finishOnce marshal (length (ssJournal ss1)) idx out (pushEntry entry ss1) d1
                in (r, True, ss2, d2))))"

definition waitResult :: "(bytes \<Rightarrow> 'v option) \<Rightarrow> 'v \<Rightarrow> journalEntry \<Rightarrow> 'v outcome" where
  "waitResult unmarshal zero e =
     (if jTimedOut e then Failed_with ErrWaitTimeout
      else if jPayload e \<noteq> [] then
        (case unmarshal (jPayload e) of None \<Rightarrow> Failed_with ErrDecode | Some v \<Rightarrow> Returned v)
      else Returned zero)"

text \<open>The deadline of a wait has passed: claim the timeout, or take the payload that won the race.\<close>

definition waitTimeout ::
  "(bytes \<Rightarrow> 'v option) \<Rightarrow> 'v \<Rightarrow> int \<Rightarrow> stepState \<Rightarrow> db \<Rightarrow> 'v outcome \<times> db" where
  "waitTimeout unmarshal zero idx ss d =
     (let (d', won) = TimeoutWait (ssStepID ss) idx d in
      if won then (Failed_with ErrWaitTimeout, d')
      else (case GetJournalEntry (ssStepID ss) idx d' of
              None \<Rightarrow> (Failed_with ErrWaitTimeout, d')
            | Some u \<Rightarrow> if jDone u \<and> \<not> jTimedOut u then (waitResult unmarshal zero u, d')
                else (Failed_with ErrWaitTimeout, d')))"

definition waitFor ::
  "(bytes \<Rightarrow> 'v option) \<Rightarrow> 'v \<Rightarrow> time \<Rightarrow> string \<Rightarrow> int \<Rightarrow> stepState \<Rightarrow> db \<Rightarrow> 'v outcome \<times> stepState \<times> db" where
  "waitFor unmarshal zero now event timeout ss d =
     (case takeEntry JournalWait ss of
        (ss1, Inl e) \<Rightarrow> (Failed_with e, ss1, d)
      | (ss1, Inr (idx, None)) \<Rightarrow>
          let deadline = (if timeout > 0 then now + timeout else 0);
              entry = (newEntry (ssStepID ss) idx JournalWait)\<lparr>jEvent := event, jDeadline := deadline\<rparr>
          in (case SuspendWithJournal entry ''wait'' event deadline d of
                Inl e \<Rightarrow> (Failed_with (ErrStore e), ss1, d)
              | Inr d' \<Rightarrow> (Suspended_task, pushEntry entry ss1, d'))
      | (ss1, Inr (idx, Some e)) \<Rightarrow>
          if jEvent e \<noteq> event then (Failed_with ErrJournalMisaligned, ss1, d)
          else if jDone e then (waitResult unmarshal zero e, ss1, d)
          else if jDeadline e > 0 \<and> now \<ge> jDeadline e then
            (let (r, d') = waitTimeout unmarshal zero idx ss d in (r, ss1, d'))
          else
            (case SuspendStep (ssStepID ss) ''wait'' event (jDeadline e) d of
               Inl x \<Rightarrow> (Failed_with (ErrStore x), ss1, d)
             | Inr d' \<Rightarrow> (Suspended_task, ss1, d')))"

definition WaitFor ::
  "(bytes \<Rightarrow> 'v option) \<Rightarrow> 'v \<Rightarrow> time \<Rightarrow> string \<Rightarrow> int \<Rightarrow> stepState \<Rightarrow> db \<Rightarrow> 'v outcome \<times> stepState \<times> db" where
  "WaitFor unmarshal zero now event timeout ss d =
     (if event = '''' then (Failed_with ErrEventName, ss, d)
      else waitFor unmarshal zero now event timeout ss d)"

text \<open>A claim loads the journal and starts the cursor at the first entry.\<close>

definition claimedState :: "string \<Rightarrow> db \<Rightarrow> stepState" where
  "claimedState stepID d = \<lparr>ssStepID = stepID, ssJournal = LoadJournal stepID d, ssCursor = 0\<rparr>"

section \<open>The journal of a step as a list\<close>

text \<open>The entries of a step are numbered from 0 without gaps.\<close>

definition aligned :: "string \<Rightarrow> db \<Rightarrow> bool" where
  "aligned i d \<longleftrightarrow> map jIdx (LoadJournal i d) = map int [0..<length (LoadJournal i d)]"

lemma LoadJournal_cong: "journal d = journal d' \<Longrightarrow> LoadJournal i d = LoadJournal i d'"
  by (simp add: LoadJournal_def)

lemma insort_key_snoc: "f x \<le> f e \<Longrightarrow> insort_key f x (ys @ [e]) = insort_key f x ys @ [e]"
  by (induction ys) auto

lemma sort_key_snoc:
  assumes "\<forall>x \<in> set xs. f x \<le> f e"
  shows "sort_key f (xs @ [e]) = sort_key f xs @ [e]"
  using assms by (induction xs) (auto simp: insort_key_snoc)

lemma sort_key_map_same:
  assumes "\<And>x. f (g x) = f x"
  shows "sort_key f (map g xs) = map g (sort_key f xs)"
proof -
  have ins: "insort_key f (g x) (map g ys) = map g (insort_key f x ys)" for x ys
    by (induction ys) (auto simp: assms)
  show ?thesis by (induction xs) (auto simp: ins)
qed

lemma aligned_nth:
  assumes "aligned i d" and "n < length (LoadJournal i d)"
  shows "jIdx (LoadJournal i d ! n) = int n"
  using arg_cong [OF assms(1) [unfolded aligned_def], of "\<lambda>xs. xs ! n"] assms(2) by simp

lemma aligned_less:
  assumes "aligned i d" and "j \<in> set (journal d)" and "jStepID j = i"
  shows "jIdx j < int (length (LoadJournal i d))"
proof -
  have "j \<in> set (LoadJournal i d)" using assms(2,3) by (simp add: LoadJournal_def)
  then obtain n where "n < length (LoadJournal i d)" "j = LoadJournal i d ! n"
    by (auto simp: in_set_conv_nth)
  with aligned_nth [OF assms(1)] show ?thesis by auto
qed

lemma LoadJournal_insert:
  assumes "aligned i d" and "insertJournal e d = Inr d'" and "jStepID e = i"
    and "jIdx e = int (length (LoadJournal i d))"
  shows "LoadJournal i d' = LoadJournal i d @ [e]"
proof -
  have "journal d' = journal d @ [e]" using assms(2) by (auto simp: insertJournal_def split: if_splits)
  then have "LoadJournal i d' = sort_key jIdx (filter (\<lambda>j. jStepID j = i) (journal d) @ [e])"
    by (simp add: LoadJournal_def assms(3))
  also have "\<dots> = LoadJournal i d @ [e]"
    unfolding LoadJournal_def
    by (rule sort_key_snoc) (use aligned_less [OF assms(1)] in \<open>force simp: assms(4)\<close>)
  finally show ?thesis .
qed

lemma LoadJournal_update:
  assumes "aligned i d" and "n < length (LoadJournal i d)"
    and f: "\<And>j. jStepID (f j) = jStepID j" "\<And>j. jIdx (f j) = jIdx j"
  shows "LoadJournal i (upd_journal (\<lambda>j. jStepID j = i \<and> jIdx j = int n \<and> P j) f d) =
    (LoadJournal i d)[n := (if P (LoadJournal i d ! n) then f (LoadJournal i d ! n) else LoadJournal i d ! n)]"
proof (rule nth_equalityI)
  let ?g = "\<lambda>j. if jStepID j = i \<and> jIdx j = int n \<and> P j then f j else j"
  have flt: "filter (\<lambda>j. jStepID j = i) (map ?g xs) = map ?g (filter (\<lambda>j. jStepID j = i) xs)" for xs
    by (induction xs) (auto simp: f)
  have upd: "journal (upd_journal (\<lambda>j. jStepID j = i \<and> jIdx j = int n \<and> P j) f d) = map ?g (journal d)"
    by (simp add: upd_journal_def update_where_def)
  have load: "LoadJournal i (upd_journal (\<lambda>j. jStepID j = i \<and> jIdx j = int n \<and> P j) f d) =
      map ?g (LoadJournal i d)"
    unfolding LoadJournal_def upd flt by (rule sort_key_map_same) (simp add: f)
  show "length (LoadJournal i (upd_journal (\<lambda>j. jStepID j = i \<and> jIdx j = int n \<and> P j) f d)) =
      length ((LoadJournal i d)[n := (if P (LoadJournal i d ! n) then f (LoadJournal i d ! n) else LoadJournal i d ! n)])"
    by (simp add: load)
  fix m assume "m < length (LoadJournal i (upd_journal (\<lambda>j. jStepID j = i \<and> jIdx j = int n \<and> P j) f d))"
  then have m: "m < length (LoadJournal i d)" by (simp add: load)
  have "jStepID (LoadJournal i d ! m) = i" using nth_mem [OF m] by (auto simp: LoadJournal_def)
  with aligned_nth [OF assms(1) m] show "LoadJournal i (upd_journal (\<lambda>j. jStepID j = i \<and> jIdx j = int n \<and> P j) f d) ! m =
      ((LoadJournal i d)[n := (if P (LoadJournal i d ! n) then f (LoadJournal i d ! n) else LoadJournal i d ! n)]) ! m"
    using m assms(2) by (auto simp: load nth_list_update)
qed

section \<open>Sleeping\<close>

text \<open>A task whose replay has reached the call numbered \<open>n\<close>.\<close>

definition replayAt :: "nat \<Rightarrow> string \<Rightarrow> db \<Rightarrow> stepState" where
  "replayAt n i d = (claimedState i d)\<lparr>ssCursor := n\<rparr>"

lemma replayAt_sel [simp]:
  "ssStepID (replayAt n i d) = i" "ssJournal (replayAt n i d) = LoadJournal i d" "ssCursor (replayAt n i d) = n"
  by (simp_all add: replayAt_def claimedState_def)

lemma pushEntry_sel [simp]:
  "ssStepID (pushEntry e ss) = ssStepID ss" "ssCursor (pushEntry e ss) = ssCursor ss"
  "ssJournal (pushEntry e ss) = ssJournal ss @ [e]"
  by (simp_all add: pushEntry_def)

lemma newEntry_sel [simp]:
  "jStepID (newEntry i n k) = i" "jIdx (newEntry i n k) = n" "jKind (newEntry i n k) = k"
  "jKey (newEntry i n k) = ''''" "jEvent (newEntry i n k) = ''''" "jErr (newEntry i n k) = ''''"
  "jDone (newEntry i n k) = False" "jTimedOut (newEntry i n k) = False" "jDeadline (newEntry i n k) = 0"
  by (simp_all add: newEntry_def)

lemma takeEntry_new:
  "takeEntry k (replayAt (length (LoadJournal i d)) i d) =
     (replayAt (length (LoadJournal i d) + 1) i d, Inr (int (length (LoadJournal i d)), None))"
  by (simp add: takeEntry_def replayAt_def claimedState_def Let_def)

lemma takeEntry_old:
  assumes "n < length (LoadJournal i d)" and "jKind (LoadJournal i d ! n) = k"
  shows "takeEntry k (replayAt n i d) = (replayAt (n + 1) i d, Inr (int n, Some (LoadJournal i d ! n)))"
  using assms by (simp add: takeEntry_def replayAt_def claimedState_def Let_def)

lemma SuspendWithJournal_parts:
  assumes "SuspendWithJournal e k ev t d = Inr d'"
  shows "count_where (runningStep (jStepID e)) (steps d) = 1"
    and "steps d' = update_where (runningStep (jStepID e)) (suspendRow k ev t) (steps d)"
    and "\<exists>dm. journal dm = journal d \<and> insertJournal e dm = Inr d'"
proof -
  let ?dm = "upd_steps (runningStep (jStepID e)) (suspendRow k ev t) d"
  from assms show "count_where (runningStep (jStepID e)) (steps d) = 1"
    by (auto simp: SuspendWithJournal_def split: if_splits)
  from assms have ins: "insertJournal e ?dm = Inr d'"
    by (auto simp: SuspendWithJournal_def split: if_splits)
  then show "steps d' = update_where (runningStep (jStepID e)) (suspendRow k ev t) (steps d)"
    by (auto simp: insertJournal_def upd_steps_def split: if_splits)
  show "\<exists>dm. journal dm = journal d \<and> insertJournal e dm = Inr d'"
    using ins by (intro exI [of _ ?dm]) (simp add: upd_steps_def)
qed

lemma LoadJournal_suspend:
  assumes "aligned i d" and "SuspendWithJournal e k ev t d = Inr d'" and "jStepID e = i"
    and "jIdx e = int (length (LoadJournal i d))"
  shows "LoadJournal i d' = LoadJournal i d @ [e]"
proof -
  obtain dm where dm: "journal dm = journal d" "insertJournal e dm = Inr d'"
    using SuspendWithJournal_parts(3) [OF assms(2)] by blast
  from dm(1) have "LoadJournal i dm = LoadJournal i d" by (rule LoadJournal_cong)
  with LoadJournal_insert [OF _ dm(2) assms(3)] assms(1,4) show ?thesis by (simp add: aligned_def)
qed

lemma sleep_first:
  assumes "aligned i d" and "0 < dur"
    and "sleep now dur (replayAt (length (LoadJournal i d)) i d) d = (Suspended_task, ss', d')"
  shows "LoadJournal i d' = LoadJournal i d @ [(newEntry i (int (length (LoadJournal i d))) JournalSleep)
      \<lparr>jWakeAt := now + dur, jDone := False\<rparr>]"
    and "count_where (runningStep i) (steps d) = 1"
    and "steps d' = update_where (runningStep i) (suspendRow ''sleep'' '''' (now + dur)) (steps d)"
proof -
  let ?e = "(newEntry i (int (length (LoadJournal i d))) JournalSleep)\<lparr>jWakeAt := now + dur, jDone := False\<rparr>"
  have s: "SuspendWithJournal ?e ''sleep'' '''' (now + dur) d = Inr d'"
    using assms(2,3) by (auto simp: sleep_def takeEntry_new Let_def split: sum.splits)
  show "LoadJournal i d' = LoadJournal i d @ [?e]"
    by (rule LoadJournal_suspend [OF assms(1) s]) simp_all
  show "count_where (runningStep i) (steps d) = 1"
    "steps d' = update_where (runningStep i) (suspendRow ''sleep'' '''' (now + dur)) (steps d)"
    using SuspendWithJournal_parts(1,2) [OF s] by simp_all
qed

lemma sleep_replay:
  assumes "n < length (LoadJournal i d)" and "jKind (LoadJournal i d ! n) = JournalSleep"
  shows "jWakeAt (LoadJournal i d ! n) \<le> now \<Longrightarrow> sleep now dur (replayAt n i d) d = (Returned (), replayAt (n + 1) i d, d)"
    and "now < jWakeAt (LoadJournal i d ! n) \<Longrightarrow> fst (sleep now dur (replayAt n i d) d) \<noteq> Returned ()"
  using assms by (auto simp: sleep_def takeEntry_old split: sum.splits)

section \<open>Memoized calls\<close>

lemma CompleteJournalOnce_load:
  assumes "aligned i d" and "n < length (LoadJournal i d)"
  shows "LoadJournal i (CompleteJournalOnce i (int n) r e d) =
    (LoadJournal i d)[n := (LoadJournal i d ! n)\<lparr>jDone := True, jResult := r, jErr := e\<rparr>]"
  using LoadJournal_update [OF assms, of "\<lambda>j. j\<lparr>jDone := True, jResult := r, jErr := e\<rparr>" "\<lambda>_. True"]
  by (simp add: CompleteJournalOnce_def)

text \<open>The state of the journal once a call of \<open>RunOnce\<close> has succeeded with \<open>v\<close>.\<close>

definition memoized :: "('v \<Rightarrow> bytes option) \<Rightarrow> string \<Rightarrow> nat \<Rightarrow> string \<Rightarrow> 'v \<Rightarrow> db \<Rightarrow> bool" where
  "memoized marshal i n key v d \<longleftrightarrow> n < length (LoadJournal i d) \<and>
     jKind (LoadJournal i d ! n) = JournalOnce \<and> jKey (LoadJournal i d ! n) = key \<and>
     jDone (LoadJournal i d ! n) \<and> jErr (LoadJournal i d ! n) = '''' \<and>
     marshal v = Some (jResult (LoadJournal i d ! n))"

lemma runOnce_memoizes:
  assumes "aligned i d" and "n \<le> length (LoadJournal i d)"
    and "runOnce marshal unmarshal zero key out (replayAt n i d) d = (Returned v, True, ss', d')"
  shows "out = Inr v \<and> memoized marshal i n key v d'"
proof (cases "n < length (LoadJournal i d)")
  case True
  let ?e = "LoadJournal i d ! n"
  from assms(3) True have k: "jKind ?e = JournalOnce" "jKey ?e = key"
    by (auto simp: runOnce_def takeEntry_def Let_def split: if_splits)
  with assms(3) True obtain res where r: "out = Inr v" "marshal v = Some res"
      "d' = CompleteJournalOnce i (int n) res '''' d"
    by (auto simp: runOnce_def takeEntry_old finishOnce_def split: if_splits sum.splits option.splits)
  with CompleteJournalOnce_load [OF assms(1) True, of res "''''"] k True show ?thesis
    by (simp add: memoized_def)
next
  case False
  with assms(2) have n: "n = length (LoadJournal i d)" by simp
  let ?e = "(newEntry i (int n) JournalOnce)\<lparr>jKey := key\<rparr>"
  from assms(3) obtain d1 res where r: "insertJournal ?e d = Inr d1" "out = Inr v" "marshal v = Some res"
      "d' = CompleteJournalOnce i (int n) res '''' d1"
    unfolding n by (auto simp: runOnce_def takeEntry_new finishOnce_def AppendJournal_def Let_def
        split: sum.splits option.splits)
  have l: "LoadJournal i d1 = LoadJournal i d @ [?e]"
    by (rule LoadJournal_insert [OF assms(1) r(1)]) (simp_all add: n)
  have "aligned i d1" using assms(1) by (simp add: aligned_def l n)
  from CompleteJournalOnce_load [OF this, of n res "''''"] r show ?thesis
    by (simp add: memoized_def l n nth_append)
qed

lemma runOnce_replay:
  assumes "memoized marshal i n key v d" and "\<And>b. marshal v = Some b \<Longrightarrow> b \<noteq> [] \<and> unmarshal b = Some v"
  shows "runOnce marshal unmarshal zero key out (replayAt n i d) d = (Returned v, False, replayAt (n + 1) i d, d)"
  using assms by (auto simp: memoized_def runOnce_def takeEntry_old onceResult_def)

section \<open>Waiting for an event\<close>

lemma takeEntry_stale:
  assumes "n < length (ssJournal ss)" and "ssCursor ss = n" and "jKind (ssJournal ss ! n) = k"
  shows "takeEntry k ss = (ss\<lparr>ssCursor := n + 1\<rparr>, Inr (int n, Some (ssJournal ss ! n)))"
  using assms by (simp add: takeEntry_def Let_def)

text \<open>A row of the journal is found by its key.\<close>

lemma GetJournalEntry_row:
  assumes "integrity d" and "e \<in> set (journal d)"
  shows "GetJournalEntry (jStepID e) (jIdx e) d = Some e"
proof -
  obtain u where u: "GetJournalEntry (jStepID e) (jIdx e) d = Some u"
    using assms(2) by (cases "GetJournalEntry (jStepID e) (jIdx e) d")
      (auto simp: GetJournalEntry_def find_None_iff)
  then have "u \<in> set (journal d)" "jStepID u = jStepID e" "jIdx u = jIdx e"
    by (auto simp: GetJournalEntry_def dest!: find_SomeD)
  moreover have "distinct (map (\<lambda>j. (jStepID j, jIdx j)) (journal d))"
    using assms(1) by (simp add: integrity_def keys_wf_def)
  ultimately have "u = e" using distinct_key_eq [OF _ _ assms(2)] by fastforce
  with u show ?thesis by simp
qed

lemma undone_count:
  assumes "integrity d" and "e \<in> set (journal d)"
  shows "count_where (undoneEntry (jStepID e) (jIdx e)) (journal d) = (if jDone e then 0 else 1)"
proof (cases "jDone e")
  case True
  have "x = e" if "x \<in> set (journal d)" "jStepID x = jStepID e" "jIdx x = jIdx e" for x
    using distinct_key_eq [OF _ that(1) assms(2), of "\<lambda>j. (jStepID j, jIdx j)"] assms(1) that(2,3)
    by (simp add: integrity_def keys_wf_def)
  with True show ?thesis by (auto simp: count_where_eq_0 undoneEntry_def)
next
  case False
  have "count_where (\<lambda>j. (jStepID j, jIdx j) = (jStepID e, jIdx e) \<and> \<not> jDone j) (journal d) \<le> 1"
    by (rule count_where_key_le_1) (use assms(1) in \<open>simp add: integrity_def keys_wf_def\<close>)
  moreover have "count_where (undoneEntry (jStepID e) (jIdx e)) (journal d) \<noteq> 0"
    unfolding count_where_eq_0 using assms(2) False by (auto simp: undoneEntry_def)
  ultimately show ?thesis using False by (simp add: undoneEntry_def [abs_def])
qed

lemma waitTimeout_wins:
  assumes "integrity d" and "u \<in> set (journal d)" and "\<not> jDone u" and "ssStepID ss = jStepID u"
  shows "waitTimeout unmarshal zero (jIdx u) ss d =
    (Failed_with ErrWaitTimeout, fst (TimeoutWait (jStepID u) (jIdx u) d))"
    and "u\<lparr>jTimedOut := True, jDone := True\<rparr> \<in> set (journal (fst (TimeoutWait (jStepID u) (jIdx u) d)))"
proof -
  show "waitTimeout unmarshal zero (jIdx u) ss d =
      (Failed_with ErrWaitTimeout, fst (TimeoutWait (jStepID u) (jIdx u) d))"
    using undone_count [OF assms(1,2)] assms(3,4) by (simp add: waitTimeout_def TimeoutWait_def)
  have "undoneEntry (jStepID u) (jIdx u) u" using assms(3) by (simp add: undoneEntry_def)
  with in_update_whereI [OF assms(2), of "undoneEntry (jStepID u) (jIdx u)"]
  show "u\<lparr>jTimedOut := True, jDone := True\<rparr> \<in> set (journal (fst (TimeoutWait (jStepID u) (jIdx u) d)))"
    by (simp add: TimeoutWait_def upd_journal_def)
qed

lemma waitTimeout_late:
  assumes "integrity d" and "u \<in> set (journal d)" and "jDone u" and "ssStepID ss = jStepID u"
  shows "waitTimeout unmarshal zero (jIdx u) ss d = (waitResult unmarshal zero u, d)"
proof -
  have c: "count_where (undoneEntry (jStepID u) (jIdx u)) (journal d) = 0"
    using undone_count [OF assms(1,2)] assms(3) by simp
  then have "fst (TimeoutWait (jStepID u) (jIdx u) d) = d"
    by (simp add: TimeoutWait_def upd_journal_def update_where_id count_where_eq_0)
  with c assms(3,4) GetJournalEntry_row [OF assms(1,2)] show ?thesis
    by (auto simp: waitTimeout_def TimeoutWait_def waitResult_def)
qed

lemma waitFor_expired:
  assumes "n < length (ssJournal ss)" and "ssCursor ss = n"
    and "jKind (ssJournal ss ! n) = JournalWait" and "jEvent (ssJournal ss ! n) = event"
    and "\<not> jDone (ssJournal ss ! n)" and "0 < jDeadline (ssJournal ss ! n)" and "jDeadline (ssJournal ss ! n) \<le> now"
  shows "waitFor unmarshal zero now event timeout ss d =
    (fst (waitTimeout unmarshal zero (int n) ss d), ss\<lparr>ssCursor := n + 1\<rparr>,
     snd (waitTimeout unmarshal zero (int n) ss d))"
  using assms by (simp add: waitFor_def takeEntry_stale split_beta)

lemma waitFor_delivered:
  assumes "n < length (LoadJournal i d)" and "jKind (LoadJournal i d ! n) = JournalWait"
    and "jEvent (LoadJournal i d ! n) = event" and "jDone (LoadJournal i d ! n)"
  shows "waitFor unmarshal zero now event timeout (replayAt n i d) d =
    (waitResult unmarshal zero (LoadJournal i d ! n), replayAt (n + 1) i d, d)"
  using assms by (simp add: waitFor_def takeEntry_old)

text \<open>A delivery fills the row of a live wait, and leaves a consumed one alone.\<close>

lemma DeliverEvent_row:
  assumes "integrity d" and "u \<in> set (journal d)"
  shows "(if waitsFor name d u then u\<lparr>jPayload := payload, jDone := True\<rparr> else u) \<in>
    set (journal (fst (DeliverEvent name payload now d)))"
proof -
  have "journal (fst (DeliverEvent name payload now d)) =
      update_where (waitsFor name d) (\<lambda>j. j\<lparr>jPayload := payload, jDone := True\<rparr>) (journal d)"
    unfolding DeliverEvent_eq(1) [OF assms(1)] by (simp add: insertEvent_def upd_steps_def upd_journal_def)
  with in_update_whereI [OF assms(2), of "waitsFor name d" "\<lambda>j. j\<lparr>jPayload := payload, jDone := True\<rparr>"]
  show ?thesis by simp
qed

end
