(* ===== verification/Execute.thy ===== *)
theory Execute
  imports Scheduler Durable
begin

text \<open>
  Executing a claimed step (internal/engine/engine.go, \<open>execute\<close>, \<open>recordFinalFailure\<close>) and
  recording its outcome, successes through the batching completer (internal/engine/completer.go).
  An execution has two halves, before and after the task's own code: what the task did is
  described by \<open>taskEnd\<close>, and anything may happen to the engine and the database in between.
  An execution first registers its cancel function, and in the end gives its slot back.
\<close>

section \<open>Recording successes\<close>

definition afterComplete :: "completionReq \<Rightarrow> completeResult \<Rightarrow> ('c, 'h) engine \<Rightarrow> ('c, 'h) engine" where
  "afterComplete c res e =
     (let run = coRunID (cqComp c); now = coNow (cqComp c) in
      if \<not> crStepDone res then wakeSlot (publish run (cqName c) Running Cancelled '''' now e)
      else
        let e1 = publish run (cqName c) Running Succeeded '''' now e;
            e2 = fold (\<lambda>n. publish run n Blocked Queued '''' now) (crReadySteps res) e1;
            e3 = (if crRunTerminal res
                  then (case crRunStatus res of
                          Some st \<Rightarrow> finishRun run st (crRunOutput res) (crRunError res) now e2
                        | None \<Rightarrow> e2)
                  else e2)
        in if crReadySteps res \<noteq> [] then wakeScheduler e3 else wakeSlot e3)"

definition completeDirect :: "backend \<Rightarrow> completionReq \<Rightarrow> ('c, 'h) engine \<times> db \<Rightarrow> ('c, 'h) engine \<times> db" where
  "completeDirect be c ed =
     (let (e, d) = ed; co = cqComp c in
      case CompleteStep be (coStepID co) (coRunID co) (cqName c) (coOutput co) (coNow co) d of
        Inl x \<Rightarrow> (e, d)
      | Inr (d', res) \<Rightarrow> (afterComplete c res e, d'))"

definition submitCompletion :: "backend \<Rightarrow> completionReq \<Rightarrow> ('c, 'h) engine \<times> db \<Rightarrow> ('c, 'h) engine \<times> db" where
  "submitCompletion be c ed =
     (let (e, d) = ed in
      if enStopped e then completeDirect be c (e, d)
      else (e\<lparr>enPending := enPending e @ [c]\<rparr>, d))"

text \<open>One transaction for the batch; when it fails, the completions one by one.\<close>

definition flushCompletions :: "backend \<Rightarrow> ('c, 'h) engine \<times> db \<Rightarrow> ('c, 'h) engine \<times> db" where
  "flushCompletions be ed =
     (let (e, d) = ed; batch = enPending e; e1 = e\<lparr>enPending := []\<rparr> in
      if batch = [] then (e, d)
      else
        (case CompleteSteps be (map (\<lambda>c. (cqComp c)\<lparr>coName := cqName c\<rparr>) batch) d of
           Inl x \<Rightarrow> fold (completeDirect be) batch (e1, d)
         | Inr (d', results) \<Rightarrow> (fold (\<lambda>(c, res). afterComplete c res) (zip batch results) e1, d')))"

section \<open>Recording failures\<close>

definition truncateErr :: "string \<Rightarrow> string" where
  "truncateErr s = take 4000 s"

definition recordFinalFailure :: "step \<Rightarrow> string \<Rightarrow> time \<Rightarrow> ('c, 'h) engine \<times> db \<Rightarrow> ('c, 'h) engine \<times> db" where
  "recordFinalFailure st errStr now ed =
     (let (e, d) = ed;
          dead = (case enTasks e (sTask st) of None \<Rightarrow> False | Some def \<Rightarrow> tdDeadLetter def) in
      case FinalFailStep (sID st) (sRunID st) errStr dead now d of
        Inl x \<Rightarrow> (e, d)
      | Inr (d', res) \<Rightarrow>
          let e1 = publish (sRunID st) (sName st) Running Failed errStr now e;
              e2 = fold (\<lambda>n. publish (sRunID st) n Running Cancelled '''' now) (crCancelledSteps res) e1;
              e3 = cancelStepContexts (crCancelledStepIDs res) e2;
              e4 = (if crRunTerminal res
                    then (case crRunStatus res of
                            Some s \<Rightarrow> finishRun (sRunID st) s [] (crRunError res) now e3
                          | None \<Rightarrow> e3)
                    else e3)
          in (wakeSlot e4, d'))"

definition runTerminal :: "string \<Rightarrow> db \<Rightarrow> bool" where
  "runTerminal runID d = (case GetRun runID d of Inl x \<Rightarrow> False | Inr r \<Rightarrow> IsTerminal (rStatus r))"

section \<open>Before the task's code\<close>

datatype started = Ended | Running_task "string \<rightharpoonup> bytes" stepState

text \<open>The deferred calls: forget the cancel function, give the slot back, wake the scheduler.\<close>

definition leaveExecution :: "step \<Rightarrow> ('c, 'h) engine \<Rightarrow> ('c, 'h) engine" where
  "leaveExecution st e =
     wakeSlot (updQueue (sQueue st) (\<lambda>q. q\<lparr>qInFlight := qInFlight q - 1\<rparr>)
       (e\<lparr>enCancels := enCancels e - {sID st}, enInterrupted := enInterrupted e - {sID st}\<rparr>))"

definition taskNameOf :: "step \<Rightarrow> string" where
  "taskNameOf st = (if sTask st = '''' then sName st else sTask st)"

definition beginExecute :: "time \<Rightarrow> claim \<Rightarrow> ('c, 'h) engine \<times> db \<Rightarrow> started \<times> ('c, 'h) engine \<times> db" where
  "beginExecute now c ed =
     (let (e, d) = ed; st = clStep c in
      case enTasks e (taskNameOf st) of
        None \<Rightarrow> (Ended, (leaveExecution st (wakeSlot e),
                   ParkStep (sID st) ''task not registered in this process'' (now + 5000000000) d))
      | Some def \<Rightarrow>
          let halted = sID st \<in> enHaltSteps e;
              e1 = e\<lparr>enCancels := insert (sID st) (enCancels e), enHaltSteps := enHaltSteps e - {sID st}\<rparr>
          in if halted \<and> runTerminal (sRunID st) d
             then (Ended, (leaveExecution st (publish (sRunID st) (sName st) Running Cancelled '''' now e1),
                     StepCancelled (sID st) now d))
             else
               let (e2, paused) = consumePause (sID st) e1 in
               if paused
               then (Ended, (leaveExecution st (publish (sRunID st) (sName st) Running Queued '''' now e2),
                       RequeuePausedStep (sID st) d))
               else (Running_task (if sDependsOn st = [] then Map.empty
                        else GetStepOutputs (sRunID st) (sDependsOn st) d) (claimedState (sID st) d), (e2, d)))"

section \<open>After the task's code\<close>

text \<open>How the task ended: unwound by a durable helper, vetoed by a \<open>BeforeStep\<close> hook, returned an
  output, or returned an error (or panicked), with a flag for an error that is the cancellation
  of its context.\<close>

datatype taskEnd = TaskSuspended | TaskVetoed string | TaskOk bytes | TaskError string bool

fun endError :: "taskEnd \<Rightarrow> string" where
  "endError (TaskVetoed m) = truncateErr m"
| "endError (TaskError m canceled) = truncateErr m"
| "endError _ = ''''"

fun wasCanceled :: "taskEnd \<Rightarrow> bool" where
  "wasCanceled (TaskError m canceled) = canceled"
| "wasCanceled _ = False"

definition cancelledStep :: "step \<Rightarrow> string \<Rightarrow> time \<Rightarrow> ('c, 'h) engine \<times> db \<Rightarrow> ('c, 'h) engine \<times> db" where
  "cancelledStep st errStr now ed =
     (publish (sRunID st) (sName st) Running Cancelled errStr now (fst ed), StepCancelled (sID st) now (snd ed))"

definition recordOutcome ::
  "backend \<Rightarrow> time \<Rightarrow> step \<Rightarrow> ('c, 'h) taskDef \<Rightarrow> taskEnd \<Rightarrow> ('c, 'h) engine \<times> db \<Rightarrow> ('c, 'h) engine \<times> db" where
  "recordOutcome be now st def fin ed =
     (let errStr = endError fin; terminal = runTerminal (sRunID st) (snd ed) in
      case fin of
        TaskSuspended \<Rightarrow>
          (if terminal then cancelledStep st '''' now ed
           else (publish (sRunID st) (sName st) Running Suspended '''' now (fst ed), snd ed))
      | TaskVetoed m \<Rightarrow>
          (if terminal then cancelledStep st errStr now ed else recordFinalFailure st errStr now ed)
      | TaskOk out \<Rightarrow>
          submitCompletion be \<lparr>cqComp = \<lparr>coStepID = sID st, coRunID = sRunID st, coName = '''',
            coOutput = out, coNow = now\<rparr>, cqName = sName st\<rparr> ed
      | TaskError m canceled \<Rightarrow>
          (if terminal then cancelledStep st errStr now ed
           else if enClosing (fst ed) then ed
           else if sAttempts st < sMaxAttempts st then
             (wakeScheduler (publish (sRunID st) (sName st) Running Queued errStr now (fst ed)),
              RetryStep (sID st) errStr (now + tdDelay def (sAttempts st)) (snd ed))
           else recordFinalFailure st errStr now ed))"

definition finishExecute ::
  "backend \<Rightarrow> time \<Rightarrow> claim \<Rightarrow> ('c, 'h) taskDef \<Rightarrow> taskEnd \<Rightarrow> ('c, 'h) engine \<times> db \<Rightarrow> ('c, 'h) engine \<times> db" where
  "finishExecute be now c def fin ed =
     (let (e, d) = ed; st = clStep c;
          (e1, marked) = (if fin = TaskSuspended then (e, False) else consumePause (sID st) e);
          (e2, d2) =
            (if marked \<and> wasCanceled fin \<and> \<not> runTerminal (sRunID st) d
             then (publish (sRunID st) (sName st) Running Queued '''' now e1, RequeuePausedStep (sID st) d)
             else recordOutcome be now st def fin (e1, d))
      in (leaveExecution st e2, d2))"

end
