(* ===== verification/Triggers.thy ===== *)
theory Triggers
  imports Engine_Enqueue Execute
begin

text \<open>
  Triggers and lifecycle: crons (internal/engine/cron.go), events and their bindings
  (internal/engine/events.go), and starting and closing an engine (internal/engine/engine.go).
  A trigger is armed once its task is registered in this process; a persisted one waits in a
  pending map until then.
\<close>

section \<open>Schedules\<close>

definition isSpace :: "char \<Rightarrow> bool" where
  "isSpace c \<longleftrightarrow> c = CHR '' '' \<or> c = CHR 0x09 \<or> c = CHR 0x0A \<or> c = CHR 0x0B \<or> c = CHR 0x0C \<or> c = CHR 0x0D"

definition trimSpace :: "string \<Rightarrow> string" where
  "trimSpace s = rev (dropWhile isSpace (rev (dropWhile isSpace s)))"

text \<open>\<open>@every\<close> schedules are handled here; \<open>parseDuration\<close> is \<open>time.ParseDuration\<close> and
  \<open>parseStandard\<close> the third-party parser of all other specs.\<close>

definition parseCron ::
  "(string \<Rightarrow> int option) \<Rightarrow> (string \<Rightarrow> (time \<Rightarrow> time) option) \<Rightarrow> string \<Rightarrow> (time \<Rightarrow> time) option" where
  "parseCron parseDuration parseStandard spec =
     (if take 7 spec = ''@every '' then
        (case parseDuration (trimSpace (drop 7 spec)) of
           None \<Rightarrow> None
         | Some dur \<Rightarrow> if dur \<le> 0 then None else Some (\<lambda>t. t + dur))
      else parseStandard spec)"

section \<open>Crons\<close>

definition RegisterCron ::
  "(string \<Rightarrow> (time \<Rightarrow> time) option) \<Rightarrow> string \<Rightarrow> string \<Rightarrow> ('c, 'h) taskDef option \<Rightarrow> bytes \<Rightarrow> time \<Rightarrow>
     ('c, 'h) engine \<times> db \<Rightarrow> engineErr option \<times> ('c, 'h) engine \<times> db" where
  "RegisterCron parse name spec def input now ed =
     (if name = '''' then (Some ErrNameRequired, ed)
      else
        (case parse spec of
           None \<Rightarrow> (Some ErrCronSpec, ed)
         | Some sched \<Rightarrow>
             (case def of
                None \<Rightarrow> (Some ErrUnknownTask, ed)
              | Some df \<Rightarrow>
                  let (e1, d1) = RegisterTask df now ed;
                      entry = \<lparr>ceName = name, ceSpec = spec, ceTask = tdName df, ceSched = sched,
                        ceInput = input, ceNext = Some (sched now)\<rparr>;
                      e2 = e1\<lparr>enPendingCrons := AList.delete name (enPendingCrons e1),
                              enCrons := AList.update name entry (enCrons e1)\<rparr>
                  in (None, (e2, UpsertCron (cronRow entry now) d1)))))"

definition RemoveCron :: "string \<Rightarrow> ('c, 'h) engine \<times> db \<Rightarrow> ('c, 'h) engine \<times> db" where
  "RemoveCron name ed =
     (let (e, d) = ed in
      (e\<lparr>enCrons := AList.delete name (enCrons e), enPendingCrons := AList.delete name (enPendingCrons e)\<rparr>,
       DeleteCron name d))"

definition loadPersistedCrons ::
  "(string \<Rightarrow> (time \<Rightarrow> time) option) \<Rightarrow> db \<Rightarrow> ('c, 'h) engine \<Rightarrow> ('c, 'h) engine" where
  "loadPersistedCrons parse d e =
     fold (\<lambda>c e.
       if map_of (enCrons e) (cName c) \<noteq> None then e
       else (case parse (cSpec c) of
               None \<Rightarrow> e
             | Some sched \<Rightarrow> e\<lparr>enPendingCrons := AList.update (cName c)
                 \<lparr>ceName = cName c, ceSpec = cSpec c, ceTask = cTask c, ceSched = sched, ceInput = cInput c,
                   ceNext = (if cNextAt c \<le> 0 then None else Some (cNextAt c))\<rparr> (enPendingCrons e)\<rparr>))
       (ListCrons d) e"

definition nextCronWait :: "time \<Rightarrow> ('c, 'h) engine \<Rightarrow> time" where
  "nextCronWait now e =
     max 1000000 (fold (\<lambda>p w. case ceNext (snd p) of None \<Rightarrow> w | Some t \<Rightarrow> min w (t - now))
       (enCrons e) 200000000)"

definition cronIsDue :: "time \<Rightarrow> cronEntry \<Rightarrow> bool" where
  "cronIsDue now c = (case ceNext c of None \<Rightarrow> True | Some t \<Rightarrow> \<not> t > now)"

definition cronRequest :: "cronEntry \<Rightarrow> ('c, 'h) taskDef \<Rightarrow> ('c, 'h) enqueueRequest" where
  "cronRequest c def = \<lparr>erWorkflow = ceTask c, erKind = KindTask, erInput = ceInput c,
     erQueue = tdQueue def, erPriority = 0, erRunAt = None, erParentID = '''', erParentStep = '''',
     erUniqueKey = '''', erConflict = UniqueReuse, erEphemeral = False, erGroups = [],
     erSteps = [\<lparr>srName = tdName def, srDeps = [], srDef = Some def\<rparr>]\<rparr>"

definition setCronNext :: "string \<Rightarrow> time \<Rightarrow> ('c, 'h) engine \<Rightarrow> ('c, 'h) engine" where
  "setCronNext name t e =
     e\<lparr>enCrons := update_where (\<lambda>p. fst p = name) (\<lambda>p. (fst p, (snd p)\<lparr>ceNext := Some t\<rparr>)) (enCrons e)\<rparr>"

text \<open>One due cron of a tick; an unregistered task is retried five seconds later.\<close>

definition fireOne ::
  "backend \<Rightarrow> time \<Rightarrow> string \<times> string \<Rightarrow> ('c, 'h) engine \<times> db \<Rightarrow> ('c, 'h) engine \<times> db" where
  "fireOne be now nr ed =
     (let (name, rnd) = nr; (e, d) = ed in
      case map_of (enCrons e) name of
        None \<Rightarrow> (e, d)
      | Some c \<Rightarrow>
          (case enTasks e (ceTask c) of
             None \<Rightarrow> (setCronNext name (now + 5000000000) e, d)
           | Some def \<Rightarrow>
               (case buildRun (cronRequest c def) now rnd (e, d) of
                  (Inl x, ed1) \<Rightarrow> ed1
                | (Inr (r, sts), (e1, d1)) \<Rightarrow>
                    let next_at = ceSched c now;
                        e2 = setCronNext name next_at e1
                    in (case FireCron be name (case ceNext c of None \<Rightarrow> 0 | Some t \<Rightarrow> t) next_at r sts d1 of
                          Inl x \<Rightarrow> (e2, d1)
                        | Inr (d2, fired) \<Rightarrow> (if fired then wakeScheduler e2 else e2, d2)))))"

definition cronTick ::
  "backend \<Rightarrow> time \<Rightarrow> (string \<Rightarrow> string) \<Rightarrow> ('c, 'h) engine \<times> db \<Rightarrow> ('c, 'h) engine \<times> db" where
  "cronTick be now rnd ed =
     (if enClosing (fst ed) then ed
      else fold (\<lambda>name. fireOne be now (name, rnd name))
             (map fst (filter (\<lambda>p. cronIsDue now (snd p)) (enCrons (fst ed)))) ed)"

section \<open>Events\<close>

definition RegisterEvent ::
  "string \<Rightarrow> ('c, 'h) taskDef option \<Rightarrow> time \<Rightarrow> ('c, 'h) engine \<times> db \<Rightarrow> engineErr option \<times> ('c, 'h) engine \<times> db" where
  "RegisterEvent event def now ed =
     (if event = '''' then (Some ErrNameRequired, ed)
      else
        (case def of
           None \<Rightarrow> (Some ErrUnknownTask, ed)
         | Some df \<Rightarrow>
             let (e1, d1) = RegisterTask df now ed;
                 subs = enEventSubs e1 event;
                 e2 = (if list_ex (\<lambda>s. asTask s = tdName df) subs then e1
                       else e1\<lparr>enEventSubs := (enEventSubs e1)(event := subs @
                         [\<lparr>asEvent = event, asTask = tdName df\<rparr>])\<rparr>)
             in (None, (e2, UpsertEventSub \<lparr>esEvent = event, esTask = tdName df, esCreatedAt = now\<rparr> d1))))"

fun removeFirst :: "('a \<Rightarrow> bool) \<Rightarrow> 'a list \<Rightarrow> 'a list" where
  "removeFirst P [] = []"
| "removeFirst P (x # xs) = (if P x then xs else x # removeFirst P xs)"

definition RemoveEvent :: "string \<Rightarrow> string \<Rightarrow> ('c, 'h) engine \<times> db \<Rightarrow> ('c, 'h) engine \<times> db" where
  "RemoveEvent event task ed =
     (let (e, d) = ed in
      (e\<lparr>enEventSubs := (enEventSubs e)(event := removeFirst (\<lambda>s. asTask s = task) (enEventSubs e event)),
         enPendingSubs := (enPendingSubs e)(task := removeFirst (\<lambda>s. asEvent s = event) (enPendingSubs e task))\<rparr>,
       DeleteEventSub event task d))"

definition loadPersistedSubs :: "db \<Rightarrow> ('c, 'h) engine \<Rightarrow> ('c, 'h) engine" where
  "loadPersistedSubs d e =
     fold (\<lambda>s e. e\<lparr>enPendingSubs := (enPendingSubs e)(esTask s := enPendingSubs e (esTask s) @
         [\<lparr>asEvent = esEvent s, asTask = esTask s\<rparr>])\<rparr>) (ListEventSubs d) e"

definition eventRequest :: "string \<Rightarrow> bytes \<Rightarrow> ('c, 'h) taskDef \<Rightarrow> ('c, 'h) enqueueRequest" where
  "eventRequest task payload def = \<lparr>erWorkflow = task, erKind = KindTask, erInput = payload,
     erQueue = tdQueue def, erPriority = 0, erRunAt = None, erParentID = '''', erParentStep = '''',
     erUniqueKey = '''', erConflict = UniqueReuse, erEphemeral = False, erGroups = [],
     erSteps = [\<lparr>srName = tdName def, srDeps = [], srDef = Some def\<rparr>]\<rparr>"

text \<open>The bindings of an event, one enqueue each. An engine that closes meanwhile ends the loop;
  any other failure is remembered and the loop goes on.\<close>

fun dispatch ::
  "backend \<Rightarrow> (nat \<Rightarrow> db \<Rightarrow> db) \<Rightarrow> time \<Rightarrow> bytes \<Rightarrow> (armedSub \<times> string) list \<Rightarrow> nat \<Rightarrow> engineErr option \<Rightarrow>
     ('c, 'h) engine \<times> db \<Rightarrow> (nat \<times> engineErr option) \<times> ('c, 'h) engine \<times> db" where
  "dispatch be others now payload [] n err ed = ((n, err), ed)"
| "dispatch be others now payload ((s, rnd) # ss) n err ed =
     (case enTasks (fst ed) (asTask s) of
        None \<Rightarrow> dispatch be others now payload ss n err ed
      | Some def \<Rightarrow>
          (case Enqueue_run be others now (Some (eventRequest (asTask s) payload def)) rnd ed of
             (Inr h, ed1) \<Rightarrow> dispatch be others now payload ss (n + 1) err ed1
           | (Inl x, ed1) \<Rightarrow>
               if x = ErrClosed then ((n, Some x), ed1)
               else dispatch be others now payload ss n (if err = None then Some x else err) ed1))"

definition Emit ::
  "backend \<Rightarrow> (nat \<Rightarrow> db \<Rightarrow> db) \<Rightarrow> (string \<Rightarrow> string option) \<Rightarrow> time \<Rightarrow> string \<Rightarrow> bytes \<Rightarrow> (nat \<Rightarrow> string) \<Rightarrow>
     ('c, 'h) engine \<times> db \<Rightarrow> (nat \<times> engineErr option) \<times> ('c, 'h) engine \<times> db" where
  "Emit be others veto now name payload rnds ed =
     (if name = '''' then ((0, Some ErrNameRequired), ed)
      else
        (case veto name of
           Some v \<Rightarrow> ((0, Some (ErrVeto v)), ed)
         | None \<Rightarrow>
             let (e, d) = ed;
                 (d1, woken) = DeliverEvent name payload now d;
                 e1 = (if woken > 0 then wakeScheduler e else e)
             in dispatch be others now payload (map (\<lambda>(k, s). (s, rnds k)) (enumerate 0 (enEventSubs e1 name))) 0 None (e1, d1)))"

section \<open>Starting and closing\<close>

definition Start :: "(string \<Rightarrow> (time \<Rightarrow> time) option) \<Rightarrow> ('c, 'h) engine \<times> db \<Rightarrow> ('c, 'h) engine \<times> db" where
  "Start parse ed =
     (let (e, d) = ed;
          e1 = loadPersistedSubs d (loadPersistedCrons parse d e);
          e2 = fold ensureQueue (KnownQueues d) e1
      in (e2\<lparr>enPaused := enPaused e2 \<union> set (PausedQueues d)\<rparr>, d))"

definition stopCompleter :: "backend \<Rightarrow> ('c, 'h) engine \<times> db \<Rightarrow> ('c, 'h) engine \<times> db" where
  "stopCompleter be ed = flushCompletions be ((fst ed)\<lparr>enStopped := True\<rparr>, snd ed)"

definition releaseAll :: "('c, 'h) engine \<Rightarrow> ('c, 'h) engine" where
  "releaseAll e =
     fold (\<lambda>p. finishWaiter (snd p) (Some Interrupted) [] (Some WErrInterrupted)) (enWaiters e)
       (e\<lparr>enWaiters := []\<rparr>)"

text \<open>\<open>drain\<close> is what the in-flight executions do until they end or the caller's context expires.\<close>

definition Close ::
  "backend \<Rightarrow> (('c, 'h) engine \<times> db \<Rightarrow> ('c, 'h) engine \<times> db) \<Rightarrow> time \<Rightarrow> ('c, 'h) engine \<times> db \<Rightarrow> ('c, 'h) engine \<times> db" where
  "Close be drain now ed =
     (let ed1 = drain ((fst ed)\<lparr>enClosing := True\<rparr>, snd ed);
          (e2, d2) = stopCompleter be ed1
      in (releaseAll e2, InterruptAll (if enLeaseMode e2 then enWorkerID e2 else '''') now d2))"

end
