(* ===== verification/Engine_Control.thy ===== *)
theory Engine_Control
  imports Engine Control
begin

text \<open>
  Run and queue control at the engine (internal/engine/engine.go, \<open>Cancel\<close> to \<open>PausedQueues\<close>):
  each call is the store's transaction and then the in-memory half, which interrupts local
  executions, releases waiters, publishes the transition and wakes the scheduler.
\<close>

definition Cancel_run :: "string \<Rightarrow> time \<Rightarrow> ('c, 'h) engine \<times> db \<Rightarrow> err option \<times> ('c, 'h) engine \<times> db" where
  "Cancel_run runID now ed =
     (let (e, d) = ed in
      case CancelRun runID now d of
        Inl x \<Rightarrow> (if x = ErrNotFound then None else Some x, (e, d))
      | Inr (d', running, prev, ok) \<Rightarrow>
          if \<not> ok then (None, (e, d'))
          else (None, (interruptLocal runID prev running now e, d')))"

definition Snooze_run :: "string \<Rightarrow> time \<Rightarrow> ('c, 'h) engine \<times> db \<Rightarrow> err option \<times> ('c, 'h) engine \<times> db" where
  "Snooze_run runID until ed =
     (let (e, d) = ed in
      case Snooze runID until d of
        Inl x \<Rightarrow> (Some x, (e, d))
      | Inr d' \<Rightarrow> (None, (wakeScheduler e, d')))"

definition Pause_run :: "string \<Rightarrow> time \<Rightarrow> ('c, 'h) engine \<times> db \<Rightarrow> err option \<times> ('c, 'h) engine \<times> db" where
  "Pause_run runID now ed =
     (let (e, d) = ed in
      case PauseRun runID now d of
        Inl x \<Rightarrow> (Some x, (e, d))
      | Inr (d', running, prev, changed) \<Rightarrow>
          if \<not> changed then (None, (e, d'))
          else
            let e1 = e\<lparr>enPauseSteps := enPauseSteps e \<union> set running,
                       enInterrupted := enInterrupted e \<union> (set running \<inter> enCancels e)\<rparr>
            in (None, (publish runID '''' prev Paused '''' now e1, d')))"

definition Resume_run :: "string \<Rightarrow> time \<Rightarrow> ('c, 'h) engine \<times> db \<Rightarrow> err option \<times> ('c, 'h) engine \<times> db" where
  "Resume_run runID now ed =
     (let (e, d) = ed in
      case ResumeRun runID now d of
        Inl x \<Rightarrow> (Some x, (e, d))
      | Inr d' \<Rightarrow> (None, (wakeScheduler (publish runID '''' Paused Queued '''' now e), d')))"

definition Retry_dead_letter :: "string \<Rightarrow> time \<Rightarrow> ('c, 'h) engine \<times> db \<Rightarrow> err option \<times> ('c, 'h) engine \<times> db" where
  "Retry_dead_letter runID now ed =
     (let (e, d) = ed in
      case RetryDeadLetter runID now d of
        Inl x \<Rightarrow> (Some x, (e, d))
      | Inr d' \<Rightarrow> (None, (wakeScheduler (publish runID '''' Failed Queued '''' now e), d')))"

definition Dismiss_dead_letter :: "string \<Rightarrow> ('c, 'h) engine \<times> db \<Rightarrow> err option \<times> ('c, 'h) engine \<times> db" where
  "Dismiss_dead_letter runID ed =
     (let (e, d) = ed in
      case DismissDeadLetter runID d of Inl x \<Rightarrow> (Some x, (e, d)) | Inr d' \<Rightarrow> (None, (e, d')))"

definition Pause_queue :: "string \<Rightarrow> time \<Rightarrow> ('c, 'h) engine \<times> db \<Rightarrow> ('c, 'h) engine \<times> db" where
  "Pause_queue name now ed =
     (let (e, d) = ed in (e\<lparr>enPaused := insert name (enPaused e)\<rparr>, PauseQueue name now d))"

definition Resume_queue :: "string \<Rightarrow> ('c, 'h) engine \<times> db \<Rightarrow> ('c, 'h) engine \<times> db" where
  "Resume_queue name ed =
     (let (e, d) = ed in (wakeScheduler (e\<lparr>enPaused := enPaused e - {name}\<rparr>), ResumeQueue name d))"

end
