(* ===== verification/Dag_Laws.thy ===== *)
theory Dag_Laws
  imports Dag
begin

text \<open>
  \<open>validateDAG\<close> accepts exactly the well-formed acyclic graphs. The invariant of Kahn's loop is
  stated over the list of visited steps: the in-degrees count the dependencies not yet visited,
  the queue holds the unvisited steps without one, and every visited step comes after its
  dependencies.
\<close>

section \<open>The specification\<close>

definition dependsOn :: "('c, 'h) stepReq list \<Rightarrow> (string \<times> string) set" where
  "dependsOn ss = {(d, m). \<exists>s \<in> set ss. srName s = m \<and> d \<in> set (srDeps s)}"

definition well_formed_dag :: "('c, 'h) stepReq list \<Rightarrow> bool" where
  "well_formed_dag ss \<longleftrightarrow> (\<forall>s \<in> set ss. srName s \<noteq> '''') \<and> distinct (map srName ss) \<and>
     (\<forall>s \<in> set ss. set (srDeps s) \<subseteq> set (map srName ss)) \<and> acyclic (dependsOn ss)"

section \<open>Names and edges\<close>

lemma checkNames_None:
  "checkNames ss names = None \<longleftrightarrow> (\<forall>s \<in> set ss. srName s \<noteq> '''') \<and> distinct (map srName ss) \<and>
     set (map srName ss) \<inter> set names = {}"
  by (induction ss arbitrary: names) (auto simp: List.member_iff)

lemma indegOf_update: "indegOf (AList.update k v indeg) m = (if m = k then v else indegOf indeg m)"
  by (simp add: indegOf_def update_conv)

lemma addDeps_Inr:
  "addDeps names n deps adj = Inr adj' \<longleftrightarrow> set deps \<subseteq> set names \<and>
     adj' = (\<lambda>d. adj d @ replicate (count_list deps d) n)"
proof (induction deps arbitrary: adj)
  case (Cons dep deps)
  have "(\<lambda>d. (adj(dep := adj dep @ [n])) d @ replicate (count_list deps d) n) =
      (\<lambda>d. adj d @ replicate (count_list (dep # deps) d) n)" by (rule ext) simp
  with Cons [of "adj(dep := adj dep @ [n])"]
  have "addDeps names n deps (adj(dep := adj dep @ [n])) = Inr adj' \<longleftrightarrow> set deps \<subseteq> set names \<and>
      adj' = (\<lambda>d. adj d @ replicate (count_list (dep # deps) d) n)" by (simp only:)
  then show ?case
    by (cases "dep \<in> set names") (simp_all only: addDeps.simps List.member_iff, auto)
qed auto

definition edges :: "('c, 'h) stepReq list \<Rightarrow> string \<Rightarrow> string list" where
  "edges ss d = concat (map (\<lambda>s. replicate (count_list (srDeps s) d) (srName s)) ss)"

lemma buildGraph_Inr:
  "buildGraph names ss (indeg, adj) = Inr (indeg', adj') \<longleftrightarrow>
     (\<forall>s \<in> set ss. set (srDeps s) \<subseteq> set names) \<and> adj' = (\<lambda>d. adj d @ edges ss d) \<and>
     indeg' = fold (\<lambda>s. AList.update (srName s) (int (length (srDeps s)))) ss indeg"
proof (induction ss arbitrary: indeg adj)
  case (Cons s ss)
  let ?a = "\<lambda>d. adj d @ replicate (count_list (srDeps s) d) (srName s)"
  show ?case
  proof (cases "set (srDeps s) \<subseteq> set names")
    case True
    then have "addDeps names (srName s) (srDeps s) adj = Inr ?a" using addDeps_Inr by blast
    moreover have "(\<lambda>d. ?a d @ edges ss d) = (\<lambda>d. adj d @ edges (s # ss) d)" by (simp add: edges_def)
    ultimately show ?thesis using Cons True by simp
  next
    case False
    then obtain e where "addDeps names (srName s) (srDeps s) adj = Inl e"
      by (cases "addDeps names (srName s) (srDeps s) adj") (use addDeps_Inr in blast)+
    with False show ?thesis by simp
  qed
qed (auto simp: edges_def)

lemma indegOf_fold:
  assumes "distinct (map srName ss)"
  shows "indegOf (fold (\<lambda>s. AList.update (srName s) (int (length (srDeps s)))) ss indeg) m =
    (case find (\<lambda>s. srName s = m) ss of None \<Rightarrow> indegOf indeg m | Some s \<Rightarrow> int (length (srDeps s)))"
  using assms
proof (induction ss arbitrary: indeg)
  case (Cons s ss)
  then have "find (\<lambda>t. srName t = srName s) ss = None" by (simp add: find_None_key)
  with Cons show ?case by (auto simp: indegOf_update split: option.splits)
qed simp

definition depsOf :: "('c, 'h) stepReq list \<Rightarrow> string \<Rightarrow> string list" where
  "depsOf ss m = (case find (\<lambda>s. srName s = m) ss of None \<Rightarrow> [] | Some s \<Rightarrow> srDeps s)"

lemma depsOf_step:
  assumes "distinct (map srName ss)" and "s \<in> set ss"
  shows "depsOf ss (srName s) = srDeps s"
proof -
  obtain t where t: "find (\<lambda>t. srName t = srName s) ss = Some t"
    using assms(2) by (cases "find (\<lambda>t. srName t = srName s) ss") (auto simp: find_None_iff)
  from find_SomeD [OF t] have "t = s" using distinct_key_eq [OF assms(1) _ assms(2)] by blast
  with t show ?thesis by (simp add: depsOf_def)
qed

lemma count_edges:
  assumes "distinct (map srName ss)"
  shows "count_list (edges ss d) m = count_list (depsOf ss m) d"
  using assms
proof (induction ss)
  case (Cons s ss)
  have rep: "count_list (replicate k n) x = (if n = x then k else 0)" for k and n x :: string
    by (induction k) auto
  have e: "edges (s # ss) d = replicate (count_list (srDeps s) d) (srName s) @ edges ss d"
    by (simp add: edges_def)
  show ?case
  proof (cases "srName s = m")
    case True
    with Cons.prems have "find (\<lambda>t. srName t = m) ss = None" by (simp add: find_None_key)
    then have "depsOf ss m = []" by (simp add: depsOf_def)
    with Cons True show ?thesis by (simp add: e rep count_list_append depsOf_def)
  next
    case False
    with Cons show ?thesis by (simp add: e rep count_list_append depsOf_def)
  qed
qed (simp add: edges_def depsOf_def)

lemma set_edges: "set (edges ss d) \<subseteq> set (map srName ss)"
  by (auto simp: edges_def)

section \<open>Kahn's loop\<close>

lemma relax_spec:
  assumes "relax ms indeg queue = (indeg', queue')"
    and "\<And>m. m \<in> set ms \<Longrightarrow> int (count_list ms m) \<le> indegOf indeg m"
  shows "(\<forall>m. indegOf indeg' m = indegOf indeg m - int (count_list ms m)) \<and>
    (\<exists>new. queue' = queue @ new \<and> distinct new \<and>
      set new = {m \<in> set ms. indegOf indeg m = int (count_list ms m)})"
  using assms
proof (induction ms arbitrary: indeg queue)
  case (Cons m ms)
  let ?i = "AList.update m (indegOf indeg m - 1) indeg"
  let ?q = "if indegOf ?i m = 0 then queue @ [m] else queue"
  have r: "relax ms ?i ?q = (indeg', queue')" using Cons.prems(1) by (simp add: Let_def)
  have le: "int (count_list ms x) \<le> indegOf ?i x" if "x \<in> set ms" for x
    using Cons.prems(2) [of x] that by (auto simp: indegOf_update)
  from Cons.IH [OF r le] obtain new where new: "queue' = ?q @ new" "distinct new"
      "set new = {x \<in> set ms. indegOf ?i x = int (count_list ms x)}"
    and deg: "\<And>x. indegOf indeg' x = indegOf ?i x - int (count_list ms x)" by blast
  have "indegOf indeg' x = indegOf indeg x - int (count_list (m # ms) x)" for x
    by (simp add: deg indegOf_update)
  moreover have "\<exists>new'. queue' = queue @ new' \<and> distinct new' \<and>
      set new' = {x \<in> set (m # ms). indegOf indeg x = int (count_list (m # ms) x)}"
  proof (cases "indegOf ?i m = 0")
    case True
    then have "m \<notin> set ms" using le [of m] count_list_0_iff [of ms m] by auto
    moreover have "indegOf indeg m = 1" using True by (simp add: indegOf_update)
    ultimately show ?thesis using new True
      by (intro exI [of _ "m # new"]) (auto simp: indegOf_update)
  next
    case False
    have "m \<in> set ms" if "indegOf indeg m = int (count_list (m # ms) m)"
      using False that count_list_0_iff [of ms m] by (auto simp: indegOf_update)
    then show ?thesis using new False by (intro exI [of _ new]) (auto simp: indegOf_update)
  qed
  ultimately show ?case by blast
qed simp

lemma pending_visit:
  assumes "n \<notin> V"
  shows "length (filter (\<lambda>d. d \<notin> insert n V) xs) = length (filter (\<lambda>d. d \<notin> V) xs) - count_list xs n \<and>
    count_list xs n \<le> length (filter (\<lambda>d. d \<notin> V) xs)"
  using assms by (induction xs) auto

text \<open>The graph as Kahn's loop sees it: names \<open>N\<close>, dependencies \<open>D\<close>, dependents \<open>adj\<close>.\<close>

definition graph :: "string list \<Rightarrow> (string \<Rightarrow> string list) \<Rightarrow> (string \<Rightarrow> string list) \<Rightarrow> bool" where
  "graph N D adj \<longleftrightarrow> distinct N \<and> (\<forall>n. set (adj n) \<subseteq> set N) \<and>
     (\<forall>n. \<forall>m \<in> set N. count_list (adj n) m = count_list (D m) n) \<and> (\<forall>m \<in> set N. set (D m) \<subseteq> set N)"

definition kahn_inv ::
  "string list \<Rightarrow> (string \<Rightarrow> string list) \<Rightarrow> string list \<Rightarrow> (string \<times> int) list \<Rightarrow> string list \<Rightarrow> bool" where
  "kahn_inv N D P indeg queue \<longleftrightarrow> distinct (P @ queue) \<and> set (P @ queue) \<subseteq> set N \<and>
     (\<forall>m \<in> set N. indegOf indeg m = int (length (filter (\<lambda>d. d \<notin> set P) (D m)))) \<and>
     (\<forall>m \<in> set N. m \<in> set (P @ queue) \<longleftrightarrow> indegOf indeg m = 0) \<and>
     (\<forall>i < length P. set (D (P ! i)) \<subseteq> set (take i P))"

lemma kahn_inv_visit:
  assumes g: "graph N D adj" and inv: "kahn_inv N D P indeg (n # queue)"
    and r: "relax (adj n) indeg queue = (indeg', queue')"
  shows "kahn_inv N D (P @ [n]) indeg' queue'"
proof -
  from inv have n: "n \<in> set N" "n \<notin> set P" and dist: "distinct (P @ n # queue)"
    and sub: "set (P @ n # queue) \<subseteq> set N"
    and deg: "\<And>m. m \<in> set N \<Longrightarrow> indegOf indeg m = int (length (filter (\<lambda>d. d \<notin> set P) (D m)))"
    and zero: "\<And>m. m \<in> set N \<Longrightarrow> m \<in> set (P @ n # queue) \<longleftrightarrow> indegOf indeg m = 0"
    and ord: "\<And>i. i < length P \<Longrightarrow> set (D (P ! i)) \<subseteq> set (take i P)"
    by (auto simp: kahn_inv_def)
  have cnt: "count_list (adj n) m = count_list (D m) n" if "m \<in> set N" for m
    using g that by (simp add: graph_def)
  have adjN: "set (adj n) \<subseteq> set N" using g by (simp add: graph_def)
  have le: "int (count_list (adj n) m) \<le> indegOf indeg m" if "m \<in> set (adj n)" for m
    using that adjN pending_visit [OF n(2), of "D m"] by (auto simp: cnt deg)
  from relax_spec [OF r le] obtain new where new: "queue' = queue @ new" "distinct new"
      "set new = {m \<in> set (adj n). indegOf indeg m = int (count_list (adj n) m)}"
    and deg': "\<And>m. indegOf indeg' m = indegOf indeg m - int (count_list (adj n) m)" by blast
  have set_new: "m \<in> set new \<longleftrightarrow> indegOf indeg m \<noteq> 0 \<and> indegOf indeg' m = 0" if "m \<in> set N" for m
    using count_list_0_iff [of "adj n" m] by (auto simp: new(3) deg')
  have newN: "set new \<subseteq> set N" using new(3) adjN by auto
  have "distinct (P @ n # queue @ new)"
    using dist new(2) newN set_new zero by fastforce
  then have "distinct ((P @ [n]) @ queue')" by (simp add: new(1))
  moreover have "set ((P @ [n]) @ queue') \<subseteq> set N" using sub newN by (simp add: new(1))
  moreover have "indegOf indeg' m = int (length (filter (\<lambda>d. d \<notin> set (P @ [n])) (D m)))" if "m \<in> set N" for m
    using pending_visit [OF n(2), of "D m"] that by (simp add: deg' deg cnt of_nat_diff)
  moreover have "m \<in> set ((P @ [n]) @ queue') \<longleftrightarrow> indegOf indeg' m = 0" if "m \<in> set N" for m
  proof -
    have "indegOf indeg' m = 0" if "indegOf indeg m = 0"
      using that \<open>m \<in> set N\<close> pending_visit [OF n(2), of "D m"] by (auto simp: deg' deg cnt)
    then show ?thesis using set_new [OF that] zero [OF that] by (auto simp: new(1))
  qed
  moreover have "set (D ((P @ [n]) ! i)) \<subseteq> set (take i (P @ [n]))" if "i < length (P @ [n])" for i
  proof (cases "i < length P")
    case True
    with ord [of i] show ?thesis by (simp add: nth_append)
  next
    case False
    with that have i: "i = length P" by simp
    have "indegOf indeg n = 0" using zero [OF n(1)] by simp
    then have "filter (\<lambda>d. d \<notin> set P) (D n) = []" by (simp add: deg [OF n(1)])
    then show ?thesis by (auto simp: i filter_empty_conv)
  qed
  ultimately show ?thesis unfolding kahn_inv_def by blast
qed

lemma kahn_result:
  assumes "graph N D adj" and "kahn_inv N D P indeg queue" and "v = length P"
  shows "\<exists>Q indeg'. kahn_inv N D Q indeg' [] \<and> kahn adj indeg queue v = length Q"
  using assms
proof (induction adj indeg queue v arbitrary: P rule: kahn.induct)
  case (1 adj indeg v)
  then show ?case by auto
next
  case (2 adj indeg n queue v)
  obtain indeg' queue' where r: "relax (adj n) indeg queue = (indeg', queue')" by fastforce
  from 2(1) [OF r [symmetric] refl 2(2) kahn_inv_visit [OF 2(2,3) r]] r 2(4)
  show ?case by simp
qed

section \<open>Kahn's loop visits every step exactly when the graph is acyclic\<close>

lemma takeWhile_nth:
  assumes "distinct P" and "i < length P"
  shows "length (takeWhile (\<lambda>y. y \<noteq> P ! i) P) = i"
proof -
  have "takeWhile (\<lambda>y. y \<noteq> P ! i) P = take i P"
    by (rule takeWhile_eq_take_P_nth) (use assms in \<open>auto simp: nth_eq_iff_index_eq\<close>)
  with assms(2) show ?thesis by simp
qed

lemma ordered_acyclic:
  assumes "distinct P" and "\<And>i. i < length P \<Longrightarrow> set (D (P ! i)) \<subseteq> set (take i P)"
  shows "acyclic {(d, m). m \<in> set P \<and> d \<in> set (D m)}"
proof (rule wf_acyclic, rule wf_subset [OF wf_measure])
  let ?rank = "\<lambda>x. length (takeWhile (\<lambda>y. y \<noteq> x) P)"
  show "{(d, m). m \<in> set P \<and> d \<in> set (D m)} \<subseteq> measure ?rank"
  proof clarify
    fix d m assume "m \<in> set P" "d \<in> set (D m)"
    then obtain i where i: "i < length P" "m = P ! i" by (auto simp: in_set_conv_nth)
    with assms(2) \<open>d \<in> set (D m)\<close> obtain j where j: "j < i" "d = P ! j"
      by (fastforce simp: in_set_conv_nth)
    from i j show "(d, m) \<in> measure ?rank"
      using takeWhile_nth [OF assms(1), of i] takeWhile_nth [OF assms(1), of j] by simp
  qed
qed

lemma acyclic_closed:
  assumes "acyclic {(d, m). m \<in> set N \<and> d \<in> set (D m)}" and "\<And>m. m \<in> set N \<Longrightarrow> set (D m) \<subseteq> set N"
    and "V \<subseteq> set N" and "\<And>m. m \<in> set N \<Longrightarrow> set (D m) \<subseteq> V \<Longrightarrow> m \<in> V"
  shows "V = set N"
proof (rule ccontr)
  let ?R = "{(d, m). m \<in> set N \<and> d \<in> set (D m)}"
  assume "V \<noteq> set N"
  with assms(3) obtain x where x: "x \<in> set N - V" by blast
  have "finite ?R" by (rule finite_subset [of _ "set N \<times> set N"]) (use assms(2) in auto)
  then have "wf ?R" using assms(1) by (rule finite_acyclic_wf)
  then obtain m where m: "m \<in> set N - V" "\<And>d. (d, m) \<in> ?R \<Longrightarrow> d \<notin> set N - V"
    using wfE_min [OF _ x, of ?R] by blast
  then have "set (D m) \<subseteq> V" using assms(2) [of m] by auto
  with assms(4) m(1) show False by blast
qed

lemma kahn_acyclic:
  assumes "graph N D adj" and "kahn_inv N D [] indeg queue"
  shows "kahn adj indeg queue 0 = length N \<longleftrightarrow> acyclic {(d, m). m \<in> set N \<and> d \<in> set (D m)}"
proof -
  obtain Q indeg' where Q: "kahn_inv N D Q indeg' []" "kahn adj indeg queue 0 = length Q"
    using kahn_result [OF assms] by auto
  have dist: "distinct Q" "distinct N" and sub: "set Q \<subseteq> set N"
    and ord: "\<And>i. i < length Q \<Longrightarrow> set (D (Q ! i)) \<subseteq> set (take i Q)"
    using Q(1) assms(1) by (auto simp: kahn_inv_def graph_def)
  have closed: "m \<in> set Q" if "m \<in> set N" "set (D m) \<subseteq> set Q" for m
  proof -
    have "filter (\<lambda>d. d \<notin> set Q) (D m) = []" using that(2) by (auto simp: filter_empty_conv)
    with Q(1) that(1) show ?thesis by (simp add: kahn_inv_def)
  qed
  have "length Q = length N \<longleftrightarrow> set Q = set N"
    using dist sub by (metis card_subset_eq distinct_card finite_set)
  moreover have "set Q = set N \<longleftrightarrow> acyclic {(d, m). m \<in> set N \<and> d \<in> set (D m)}"
  proof
    assume "set Q = set N"
    with ordered_acyclic [OF dist(1) ord] show "acyclic {(d, m). m \<in> set N \<and> d \<in> set (D m)}" by simp
  next
    assume "acyclic {(d, m). m \<in> set N \<and> d \<in> set (D m)}"
    then show "set Q = set N"
      by (rule acyclic_closed [OF _ _ sub closed]) (use assms(1) in \<open>auto simp: graph_def\<close>)
  qed
  ultimately show ?thesis by (simp add: Q(2))
qed

lemma validateDAG_iff: "validateDAG ss = None \<longleftrightarrow> well_formed_dag ss"
proof (cases "checkNames ss [] = None \<and> (\<forall>s \<in> set ss. set (srDeps s) \<subseteq> set (map srName ss))")
  case True
  then have dist: "distinct (map srName ss)" and deps: "\<forall>s \<in> set ss. set (srDeps s) \<subseteq> set (map srName ss)"
    by (auto simp: checkNames_None)
  let ?N = "map srName ss" and ?D = "depsOf ss"
  let ?indeg = "fold (\<lambda>s. AList.update (srName s) (int (length (srDeps s)))) ss []"
  have bg: "buildGraph ?N ss ([], \<lambda>_. []) = Inr (?indeg, edges ss)"
    using deps buildGraph_Inr [of ?N ss "[]" "\<lambda>_. []"] by simp
  have D: "?D (srName s) = srDeps s" if "s \<in> set ss" for s
    by (rule depsOf_step [OF dist that])
  have g: "graph ?N ?D (edges ss)"
    using dist deps D set_edges [of ss] by (simp add: graph_def count_edges)
  have deg: "indegOf ?indeg m = int (length (?D m))" for m
    using indegOf_fold [OF dist, of "[]" m]
    by (auto simp: depsOf_def indegOf_def split: option.splits)
  have "kahn_inv ?N ?D [] ?indeg (filter (\<lambda>n. indegOf ?indeg n = 0) ?N)"
    using dist by (auto simp: kahn_inv_def deg)
  from kahn_acyclic [OF g this]
  have "kahn (edges ss) ?indeg (filter (\<lambda>n. indegOf ?indeg n = 0) ?N) 0 = length ss \<longleftrightarrow>
      acyclic {(d, m). m \<in> set ?N \<and> d \<in> set (?D m)}" by simp
  moreover have "{(d, m). m \<in> set ?N \<and> d \<in> set (?D m)} = dependsOn ss"
    using D by (fastforce simp: dependsOn_def)
  moreover have "validateDAG ss = (if kahn (edges ss) ?indeg
      (filter (\<lambda>n. indegOf ?indeg n = 0) ?N) 0 \<noteq> length ss then Some DependencyCycle else None)"
    using True bg by (simp add: validateDAG_def Let_def)
  moreover have "well_formed_dag ss \<longleftrightarrow> acyclic (dependsOn ss)"
    using True by (auto simp: well_formed_dag_def checkNames_None)
  ultimately show ?thesis by simp
next
  case False
  have "validateDAG ss \<noteq> None" if "checkNames ss [] = None"
  proof (cases "buildGraph (map srName ss) ss ([], \<lambda>_. [])")
    case (Inl e)
    with that show ?thesis by (simp add: validateDAG_def)
  next
    case (Inr g)
    with False that show ?thesis by (cases g) (auto simp: buildGraph_Inr)
  qed
  moreover have "validateDAG ss \<noteq> None" if "checkNames ss [] \<noteq> None"
    using that by (auto simp: validateDAG_def)
  moreover have "\<not> well_formed_dag ss"
    using False by (auto simp: well_formed_dag_def checkNames_None)
  ultimately show ?thesis by blast
qed

end
