(* ===== verification/Build_Laws.thy ===== *)
theory Build_Laws
  imports Engine_Enqueue Dag_Laws Capacity
begin

text \<open>
  What \<open>buildRun\<close> hands to the store: rows that satisfy everything the store's state machine
  assumes of submitted rows, whatever the request; and what it does to the engine and the
  database on the way, on success and on failure. Database effects are stated as sequences of
  store operations (\<open>store_steps\<close>).
\<close>

abbreviation store_steps :: "driver \<Rightarrow> promise \<Rightarrow> db \<Rightarrow> db \<Rightarrow> bool" where
  "store_steps drv W \<equiv> rtranclp (store_step drv W)"

lemma reachable_steps: "reachable drv W d \<Longrightarrow> store_steps drv W d d' \<Longrightarrow> reachable drv W d'"
  by (rotate_tac, induction rule: rtranclp_induct) (auto intro: reach_step)

section \<open>Registering a task\<close>

lemma upserts_steps: "store_steps drv W d (persistArmedCrons cs d)"
  unfolding persistArmedCrons_def
proof (induction cs arbitrary: d)
  case (Cons c cs)
  have "store_step drv W d (UpsertCron (cronRow c 0) d)" by (rule small [where c = "cronRow c 0"]) simp
  with Cons show ?case by (auto intro: converse_rtranclp_into_rtranclp)
qed simp

lemma core_persistArmedCrons: "same_core d (persistArmedCrons cs d)"
  unfolding persistArmedCrons_def
  by (induction cs arbitrary: d) (auto simp: same_core_def UpsertCron_def)

lemma takePendingSubs_sel [simp]:
  "enCodec (takePendingSubs t e) = enCodec e" "enQueues (takePendingSubs t e) = enQueues e"
  "enWaiters (takePendingSubs t e) = enWaiters e" "enHandles (takePendingSubs t e) = enHandles e"
  "enClosing (takePendingSubs t e) = enClosing e" "enTasks (takePendingSubs t e) = enTasks e"
  "enBeforeEnqueue (takePendingSubs t e) = enBeforeEnqueue e" "enPending (takePendingSubs t e) = enPending e"
proof -
  let ?f = "\<lambda>s e :: ('a, 'b) engine. e\<lparr>enEventSubs := (enEventSubs e)(asEvent s := enEventSubs e (asEvent s) @ [s])\<rparr>"
  have "enCodec (fold ?f xs x) = enCodec x \<and> enQueues (fold ?f xs x) = enQueues x \<and>
      enWaiters (fold ?f xs x) = enWaiters x \<and> enHandles (fold ?f xs x) = enHandles x \<and>
      enClosing (fold ?f xs x) = enClosing x \<and> enTasks (fold ?f xs x) = enTasks x \<and>
      enBeforeEnqueue (fold ?f xs x) = enBeforeEnqueue x \<and> enPending (fold ?f xs x) = enPending x" for xs x
    by (induction xs arbitrary: x) auto
  then show
    "enCodec (takePendingSubs t e) = enCodec e" "enQueues (takePendingSubs t e) = enQueues e"
    "enWaiters (takePendingSubs t e) = enWaiters e" "enHandles (takePendingSubs t e) = enHandles e"
    "enClosing (takePendingSubs t e) = enClosing e" "enTasks (takePendingSubs t e) = enTasks e"
    "enBeforeEnqueue (takePendingSubs t e) = enBeforeEnqueue e" "enPending (takePendingSubs t e) = enPending e"
    by (simp_all add: takePendingSubs_def)
qed

lemma RegisterTask_parts:
  "store_steps drv W d (snd (RegisterTask def now (e, d)))"
  "same_core d (snd (RegisterTask def now (e, d)))"
  "enCodec (fst (RegisterTask def now (e, d))) = enCodec e"
  "enWaiters (fst (RegisterTask def now (e, d))) = enWaiters e"
  "enHandles (fst (RegisterTask def now (e, d))) = enHandles e"
  "enClosing (fst (RegisterTask def now (e, d))) = enClosing e"
  "enTasks (fst (RegisterTask def now (e, d))) = (enTasks e)(tdName def := Some def)"
  using upserts_steps core_persistArmedCrons
  by (simp_all add: RegisterTask_def takePendingCrons_def Let_def split_beta)

lemma ensureQueue_sel [simp]:
  "enCodec (ensureQueue q e) = enCodec e" "enWaiters (ensureQueue q e) = enWaiters e"
  "enHandles (ensureQueue q e) = enHandles e" "enClosing (ensureQueue q e) = enClosing e"
  "enTasks (ensureQueue q e) = enTasks e"
  by (simp_all add: ensureQueue_def)

lemma ensureQueue_mem: "map_of (enQueues (ensureQueue q e)) q \<noteq> None"
  by (simp add: ensureQueue_def map_add_Some_iff [symmetric] map_of_eq_None_iff)

section \<open>The rows of a run\<close>

text \<open>What a call that may register tasks leaves alone in the engine and the database.\<close>

definition registered :: "driver \<Rightarrow> promise \<Rightarrow> ('c, 'h) engine \<times> db \<Rightarrow> ('c, 'h) engine \<times> db \<Rightarrow> bool" where
  "registered drv W ed ed' \<longleftrightarrow> store_steps drv W (snd ed) (snd ed') \<and> same_core (snd ed) (snd ed') \<and>
     enCodec (fst ed') = enCodec (fst ed) \<and> enWaiters (fst ed') = enWaiters (fst ed) \<and>
     enHandles (fst ed') = enHandles (fst ed) \<and> enClosing (fst ed') = enClosing (fst ed)"

lemma registered_refl [simp]: "registered drv W ed ed"
  by (simp add: registered_def same_core_def)

lemma registered_trans: "registered drv W ed ed' \<Longrightarrow> registered drv W ed' ed'' \<Longrightarrow> registered drv W ed ed''"
  by (auto simp: registered_def same_core_def intro: rtranclp_trans)

lemma registered_ensureQueue: "registered drv W (e, d) (ensureQueue q e, d)"
  by (simp add: registered_def same_core_def)

lemma registered_RegisterTask: "registered drv W (e, d) (RegisterTask def now (e, d))"
  using RegisterTask_parts [where e = e and d = d] by (simp add: registered_def)

lemma registered_buildSteps: "registered drv W ed (snd (buildSteps req runID runAt now i srs ed))"
proof (induction srs arbitrary: i ed)
  case (Cons sr srs)
  show ?case
  proof (cases "srDef sr")
    case (Some def)
    obtain e d where ed: "ed = (e, d)" by fastforce
    obtain e1 d1 where r: "RegisterTask def now (e, d) = (e1, d1)" by fastforce
    have "registered drv W ed (e1, d1)" using registered_RegisterTask [of drv W e d def now] r ed by simp
    moreover have "registered drv W (e1, d1) (ensureQueue (normQueue (tdQueue def)) e1, d1)"
      by (rule registered_ensureQueue)
    ultimately show ?thesis
      using Cons [where i = "i + 1" and ed = "(ensureQueue (normQueue (tdQueue def)) e1, d1)"] r ed Some
      by (auto simp: split_beta Let_def intro: registered_trans)
  qed simp
qed simp

lemma buildSteps_rows:
  "buildSteps req runID runAt now i srs ed = (Inr sts, ed') \<Longrightarrow>
     list_all2 (\<lambda>(k, sr) s. \<exists>def. srDef sr = Some def \<and> s = buildStep req runID runAt now (enCodec (fst ed)) k sr def)
       (enumerate i srs) sts"
proof (induction srs arbitrary: i ed sts)
  case (Cons sr srs)
  obtain e d where ed: "ed = (e, d)" by fastforce
  from Cons.prems obtain def where def: "srDef sr = Some def" by (cases "srDef sr") auto
  obtain e1 d1 where r: "RegisterTask def now (e, d) = (e1, d1)" by fastforce
  let ?ed2 = "(ensureQueue (normQueue (tdQueue def)) e1, d1)"
  obtain res where b: "buildSteps req runID runAt now (i + 1) srs ?ed2 = (res, ed')"
    using Cons.prems by (auto simp: def ed r split_beta Let_def prod_eq_iff)
  with Cons.prems obtain rest where rest: "res = Inr rest"
      "sts = buildStep req runID runAt now (enCodec e) i sr def # rest"
    by (cases res) (auto simp: def ed r Let_def)
  have "enCodec (fst ?ed2) = enCodec e" using RegisterTask_parts(3) [of def now e d] r by simp
  with Cons.IH [OF b [unfolded rest(1)]] def rest(2) ed show ?case by simp
qed simp

lemma buildSteps_nth:
  assumes "buildSteps req runID runAt now i srs ed = (Inr sts, ed')"
  shows "length sts = length srs"
    and "k < length srs \<Longrightarrow> \<exists>def. srDef (srs ! k) = Some def \<and>
      sts ! k = buildStep req runID runAt now (enCodec (fst ed)) (i + k) (srs ! k) def"
  using buildSteps_rows [OF assms] by (auto simp: list_all2_conv_all_nth nth_enumerate_eq)

lemma buildStep_sel [simp]:
  "sID (buildStep req runID runAt now c i sr def) = runID @ ''/'' @ srName sr"
  "sRunID (buildStep req runID runAt now c i sr def) = runID"
  "sName (buildStep req runID runAt now c i sr def) = srName sr"
  "sTask (buildStep req runID runAt now c i sr def) = tdName def"
  "sOrd (buildStep req runID runAt now c i sr def) = int i"
  "sDependsOn (buildStep req runID runAt now c i sr def) = srDeps sr"
  "sStatus (buildStep req runID runAt now c i sr def) = (if srDeps sr = [] then Queued else Blocked)"
  "sMaxAttempts (buildStep req runID runAt now c i sr def) = max 1 (tdMaxAttempts def)"
  "sKeys (buildStep req runID runAt now c i sr def) = extraKeys def c (erInput req)"
  by (simp_all add: buildStep_def Let_def)

lemma buildStep_key:
  "sConcurrencyKey (buildStep req runID runAt now c i sr def) = stepKey_of def c (erInput req)"
  "stepKey_of def c (erInput req) \<noteq> '''' \<Longrightarrow>
     sKeyLimit (buildStep req runID runAt now c i sr def) = max 1 (tdKeyLimit def)"
  by (simp_all add: buildStep_def Let_def)

lemma extraKeys_limits: "k \<in> set (extraKeys def c input) \<Longrightarrow> 1 \<le> kLimit k \<and> kValue k \<noteq> ''''"
  by (auto simp: extraKeys_def Let_def split: if_splits)

text \<open>The rows the engine submits.\<close>

definition built_ok :: "('c, 'h) enqueueRequest \<Rightarrow> run \<Rightarrow> step list \<Rightarrow> bool" where
  "built_ok req r sts \<longleftrightarrow> well_formed_dag (erSteps req) \<and> newRun r \<and> sts \<noteq> [] \<and>
     map sName sts = map srName (erSteps req) \<and> map sDependsOn sts = map srDeps (erSteps req) \<and>
     map sOrd sts = map int [0..<length sts] \<and> distinct (map sID sts) \<and>
     (\<forall>s \<in> set sts. sRunID s = rID r \<and> (sStatus s = Queued \<or> sStatus s = Blocked) \<and>
        (sStatus s = Blocked \<longleftrightarrow> sDependsOn s \<noteq> []) \<and> 1 \<le> sMaxAttempts s \<and>
        (sConcurrencyKey s \<noteq> '''' \<longrightarrow> 1 \<le> sKeyLimit s) \<and> (\<forall>k \<in> set (sKeys s). 1 \<le> kLimit k))"

lemma buildRun_cases:
  assumes "buildRun req now rnd (e, d) = (Inr (r, sts), ed')"
  obtains runAt where "erSteps req \<noteq> []" "validateDAG (erSteps req) = None"
    "buildSteps req (newID now rnd) runAt now 0 (erSteps req) (ensureQueue (runQueue req) e, d) = (Inr sts, ed')"
    "r = runOf req (newID now rnd) runAt now (hd sts)"
proof -
  let ?runAt = "case erRunAt req of None \<Rightarrow> now | Some t \<Rightarrow> t"
  from assms have 1: "erSteps req \<noteq> []" "validateDAG (erSteps req) = None"
    by (auto simp: buildRun_def Let_def split: if_splits option.splits)
  obtain res ed2 where b: "buildSteps req (newID now rnd) ?runAt now 0 (erSteps req)
      (ensureQueue (runQueue req) e, d) = (res, ed2)" by (meson surj_pair)
  with assms 1 have "res = Inr sts" "r = runOf req (newID now rnd) ?runAt now (hd sts)" "ed2 = ed'"
    by (cases res; auto simp: buildRun_def Let_def)+
  with that [OF 1, of ?runAt] b show thesis by simp
qed

lemma buildRun_ok:
  assumes "buildRun req now rnd (e, d) = (Inr (r, sts), ed')"
  shows "built_ok req r sts" and "rID r = newID now rnd"
proof -
  from assms obtain runAt where ne: "erSteps req \<noteq> []" and v: "validateDAG (erSteps req) = None"
    and b: "buildSteps req (newID now rnd) runAt now 0 (erSteps req) (ensureQueue (runQueue req) e, d) = (Inr sts, ed')"
    and r: "r = runOf req (newID now rnd) runAt now (hd sts)" by (rule buildRun_cases)
  note len = buildSteps_nth(1) [OF b]
  have nth: "\<exists>def. sts ! k = buildStep req (newID now rnd) runAt now (enCodec e) k (erSteps req ! k) def"
    if "k < length sts" for k
    using buildSteps_nth(2) [OF b, of k] that len by auto
  show id: "rID r = newID now rnd" by (simp add: r runOf_def)
  have wf: "well_formed_dag (erSteps req)" using v by (simp add: validateDAG_iff)
  have names: "map sName sts = map srName (erSteps req)" "map sDependsOn sts = map srDeps (erSteps req)"
    "map sOrd sts = map int [0..<length sts]" "map sID sts = map (\<lambda>sr. newID now rnd @ ''/'' @ srName sr) (erSteps req)"
    by (rule nth_equalityI; use len nth in force)+
  have "distinct (map sID sts)"
    using wf unfolding names(4) well_formed_dag_def distinct_map by (auto simp: inj_on_def)
  moreover have "newRun r" by (simp add: newRun_def r runOf_def)
  moreover have "sRunID s = rID r \<and> (sStatus s = Queued \<or> sStatus s = Blocked) \<and>
      (sStatus s = Blocked \<longleftrightarrow> sDependsOn s \<noteq> []) \<and> 1 \<le> sMaxAttempts s \<and>
      (sConcurrencyKey s \<noteq> '''' \<longrightarrow> 1 \<le> sKeyLimit s) \<and> (\<forall>k \<in> set (sKeys s). 1 \<le> kLimit k)"
    if s: "s \<in> set sts" for s
  proof -
    from s obtain k where "k < length sts" "s = sts ! k" by (auto simp: in_set_conv_nth)
    with nth obtain sr def where "s = buildStep req (newID now rnd) runAt now (enCodec e) k sr def" by blast
    then show ?thesis using extraKeys_limits [of _ def "enCodec e" "erInput req"] id
      by (auto simp: buildStep_key)
  qed
  ultimately show "built_ok req r sts"
    unfolding built_ok_def using wf names(1-3) ne len by (metis length_0_conv)
qed

lemma registered_buildRun: "registered drv W ed (snd (buildRun req now rnd ed))"
proof -
  obtain e d where ed: "ed = (e, d)" by fastforce
  have "registered drv W (e, d) (snd (buildSteps req i t now 0 srs (ensureQueue q e, d)))" for i t srs q
    by (rule registered_trans [OF registered_ensureQueue registered_buildSteps])
  then show ?thesis using registered_ensureQueue [of drv W e d]
    by (auto simp: buildRun_def ed Let_def split_beta split: option.splits)
qed

lemma built_submitted:
  assumes "built_ok req r sts"
  shows "newRun r" and "\<forall>s \<in> set sts. newStep s"
  using assms by (auto simp: built_ok_def newStep_def)

end
