(* ===== verification/Scheduler_Laws.thy ===== *)
theory Scheduler_Laws
  imports Scheduler Claim_Laws
begin

text \<open>
  Slot accounting of a scheduler pass: the claims of a queue fit its free slots, each of them
  takes one, and none is lost between the claim transaction and its execution.
\<close>

section \<open>The claims of a queue\<close>

lemma claimOne_queue:
  "\<forall>c \<in> set cs. sQueue (clStep c) = q \<Longrightarrow> sQueue st = q \<Longrightarrow>
     \<forall>c \<in> set (snd (claimOne be now w lease st (d, cs))). sQueue (clStep c) = q"
  by (auto simp: claimOne_def)

lemma fold_claimOne_queue:
  "\<forall>c \<in> set cs. sQueue (clStep c) = q \<Longrightarrow> \<forall>st \<in> set cands. sQueue st = q \<Longrightarrow>
     \<forall>c \<in> set (snd (fold (claimOne be now w lease) cands (d, cs))). sQueue (clStep c) = q"
proof (induction cands arbitrary: d cs)
  case (Cons st cands)
  obtain d1 cs1 where one: "claimOne be now w lease st (d, cs) = (d1, cs1)" by (meson surj_pair)
  from claimOne_queue [OF Cons.prems(1), of st be now w lease d] Cons.prems(2) one
  have "\<forall>c \<in> set cs1. sQueue (clStep c) = q" by simp
  from Cons.IH [OF this, of d1] Cons.prems(2) one show ?case by simp
qed simp

lemma claimQueueTx_queue:
  "c \<in> set (snd (claimQueueTx be q now worker w lease d)) \<Longrightarrow> sQueue (clStep c) = qcName q"
  using fold_claimOne_queue [of "[]" "qcName q"
      "claimCandidates be d (qcName q) now worker (nat (rateBudget d q now))" be now w lease d]
  by (auto simp: claimQueueTx_def Let_def split: if_splits dest: claimCandidates_subset)

abbreviation claimsOf :: "string \<Rightarrow> claim list \<Rightarrow> claim list" where
  "claimsOf n cs \<equiv> filter (\<lambda>c. sQueue (clStep c) = n) cs"

lemma claimQueueTx_length:
  "int (length (snd (claimQueueTx be q now worker w lease d))) \<le> max 0 (qcLimit q)"
proof -
  obtain d' cs where c: "claimQueueTx be q now worker w lease d = (d', cs)" by (meson surj_pair)
  show ?thesis
  proof (cases "cs = []")
    case True
    with c show ?thesis by simp
  next
    case False
    from length_claimQueueTx [OF c False] rateBudget_le [of d q now] c show ?thesis by simp
  qed
qed

lemma claimQueues_names:
  "c \<in> set (snd (claimQueues be qs now worker w lease d)) \<Longrightarrow> sQueue (clStep c) \<in> qcName ` set qs"
  by (induction qs arbitrary: d) (auto simp: split_beta Let_def dest: claimQueueTx_queue)

lemma claimQueues_limit:
  "distinct (map qcName qs) \<Longrightarrow> q \<in> set qs \<Longrightarrow>
     int (length (claimsOf (qcName q) (snd (claimQueues be qs now worker w lease d)))) \<le> max 0 (qcLimit q)"
proof (induction qs arbitrary: d)
  case (Cons p qs)
  obtain d1 cs where one: "claimQueueTx be p now worker w lease d = (d1, cs)" by (meson surj_pair)
  obtain d2 cs' where rest: "claimQueues be qs now worker w lease d1 = (d2, cs')" by (meson surj_pair)
  have cs: "\<forall>c \<in> set cs. sQueue (clStep c) = qcName p"
    using claimQueueTx_queue [of _ be p now worker w lease d] one by auto
  have names: "\<forall>c \<in> set cs'. sQueue (clStep c) \<in> qcName ` set qs"
    using claimQueues_names [of _ be qs now worker w lease d1] rest by auto
  show ?case
  proof (cases "q = p")
    case True
    with Cons.prems(1) have "qcName q \<notin> qcName ` set qs" by simp
    with names have "claimsOf (qcName q) cs' = []" by (metis (mono_tags, lifting) filter_False)
    moreover have "int (length (claimsOf (qcName q) cs)) \<le> max 0 (qcLimit q)"
      using claimQueueTx_length [of be p now worker w lease d] one True cs
      by (simp add: filter_True)
    ultimately show ?thesis by (simp add: one rest)
  next
    case False
    with Cons.prems have q: "q \<in> set qs" by simp
    have "qcName q \<in> qcName ` set qs" using q by (rule imageI)
    with Cons.prems(1) have "qcName q \<noteq> qcName p" by auto
    with cs have "claimsOf (qcName q) cs = []" by (auto simp: filter_empty_conv)
    with Cons.IH [OF _ q, of d1] Cons.prems(1) show ?thesis by (simp add: one rest)
  qed
qed simp

lemma attachRun_step [simp]: "clStep (attachRun d now c) = clStep c"
  by (simp add: attachRun_def)

lemma ClaimDueMulti_claims:
  "map clStep (snd (ClaimDueMulti be qs now worker w lease d)) =
     map clStep (snd (claimQueues be qs now worker w lease d))"
  by (simp add: ClaimDueMulti_def split_beta Let_def)

lemma length_claimsOf: "map clStep cs = map clStep cs' \<Longrightarrow> length (claimsOf n cs) = length (claimsOf n cs')"
proof -
  have *: "length (claimsOf n cs) = length (filter (\<lambda>s. sQueue s = n) (map clStep cs))" for cs
    by (simp add: filter_map comp_def)
  show "map clStep cs = map clStep cs' \<Longrightarrow> ?thesis" unfolding * by simp
qed

lemma ClaimDueMulti_limit:
  assumes "distinct (map qcName qs)" and "q \<in> set qs"
  shows "int (length (claimsOf (qcName q) (snd (ClaimDueMulti be qs now worker w lease d)))) \<le> max 0 (qcLimit q)"
  using claimQueues_limit [OF assms, of be now worker w lease d]
    length_claimsOf [OF ClaimDueMulti_claims [of be qs now worker w lease d]] by simp

lemma ClaimDueMulti_names:
  assumes "c \<in> set (snd (ClaimDueMulti be qs now worker w lease d))"
  shows "sQueue (clStep c) \<in> qcName ` set qs"
  using assms claimQueues_names [of _ be qs now worker w lease d]
  by (auto simp: ClaimDueMulti_def split_beta Let_def)

section \<open>The slots of a queue\<close>

definition inFlightOf :: "string \<Rightarrow> ('c, 'h) engine \<Rightarrow> int" where
  "inFlightOf n e = (case map_of (enQueues e) n of None \<Rightarrow> 0 | Some q \<Rightarrow> qInFlight q)"

definition concurrencyOf :: "string \<Rightarrow> ('c, 'h) engine \<Rightarrow> int" where
  "concurrencyOf n e = (case map_of (enQueues e) n of None \<Rightarrow> 0 | Some q \<Rightarrow> qConcurrency q)"

lemma map_of_update_where:
  "map_of (update_where (\<lambda>p. fst p = n) (\<lambda>p. (fst p, f (snd p))) xs) m =
     (if m = n then map_option f (map_of xs m) else map_of xs m)"
  by (induction xs) (auto simp: update_where_def)

lemma map_of_updQueue:
  "map_of (enQueues (updQueue n f e)) m =
     (if m = n then map_option f (map_of (enQueues e) m) else map_of (enQueues e) m)"
  by (simp add: updQueue_def map_of_update_where)

lemma inFlightOf_updQueue:
  "inFlightOf m (updQueue n (\<lambda>q. q\<lparr>qInFlight := qInFlight q + k\<rparr>) e) =
     inFlightOf m e + (if m = n \<and> map_of (enQueues e) m \<noteq> None then k else 0)"
  by (auto simp: inFlightOf_def map_of_updQueue split: option.split)

lemma concurrencyOf_updQueue:
  "(\<And>q. qConcurrency (f q) = qConcurrency q) \<Longrightarrow> concurrencyOf m (updQueue n f e) = concurrencyOf m e"
  by (auto simp: concurrencyOf_def map_of_updQueue split: option.split)

lemma queue_names_updQueue [simp]: "map fst (enQueues (updQueue n f e)) = map fst (enQueues e)"
  by (simp add: updQueue_def update_where_def)

lemma publish_sel [simp]:
  "enQueues (publish r s a b m t e) = enQueues e" "enPaused (publish r s a b m t e) = enPaused e"
  "enWaiters (publish r s a b m t e) = enWaiters e" "enHandles (publish r s a b m t e) = enHandles e"
  "enTasks (publish r s a b m t e) = enTasks e" "enClosing (publish r s a b m t e) = enClosing e"
  by (simp_all add: publish_def)

lemma queue_member_updQueue: "map_of (enQueues (updQueue n f e)) m \<noteq> None \<longleftrightarrow> map_of (enQueues e) m \<noteq> None"
  by (simp add: map_of_updQueue)

lemma admitClaim_queues:
  "enQueues (fst (admitClaim now c (e, started))) =
     enQueues (updQueue (sQueue (clStep c)) (\<lambda>q. q\<lparr>qInFlight := qInFlight q + 1\<rparr>) e)"
  by (simp add: admitClaim_def Let_def split: option.split)

lemma fold_admitClaim:
  assumes "\<forall>c \<in> set cs. map_of (enQueues e) (sQueue (clStep c)) \<noteq> None"
  shows "inFlightOf n (fst (fold (admitClaim now) cs (e, started))) = inFlightOf n e + int (length (claimsOf n cs))"
    and "map fst (enQueues (fst (fold (admitClaim now) cs (e, started)))) = map fst (enQueues e)"
    and "concurrencyOf n (fst (fold (admitClaim now) cs (e, started))) = concurrencyOf n e"
proof -
  have "inFlightOf n (fst (fold (admitClaim now) cs (e, started))) = inFlightOf n e + int (length (claimsOf n cs)) \<and>
      map fst (enQueues (fst (fold (admitClaim now) cs (e, started)))) = map fst (enQueues e) \<and>
      concurrencyOf n (fst (fold (admitClaim now) cs (e, started))) = concurrencyOf n e"
    using assms
  proof (induction cs arbitrary: e started)
    case (Cons c cs)
    obtain e1 st1 where a: "admitClaim now c (e, started) = (e1, st1)" by (meson surj_pair)
    let ?u = "updQueue (sQueue (clStep c)) (\<lambda>q. q\<lparr>qInFlight := qInFlight q + 1\<rparr>) e"
    have q: "enQueues e1 = enQueues ?u" using admitClaim_queues [of now c e started] a by simp
    have "\<forall>c \<in> set cs. map_of (enQueues e1) (sQueue (clStep c)) \<noteq> None"
      using Cons.prems unfolding q queue_member_updQueue by simp
    from Cons.IH [OF this, of st1] a
    have ih: "inFlightOf n (fst (fold (admitClaim now) (c # cs) (e, started))) = inFlightOf n e1 + int (length (claimsOf n cs))"
      "map fst (enQueues (fst (fold (admitClaim now) (c # cs) (e, started)))) = map fst (enQueues e1)"
      "concurrencyOf n (fst (fold (admitClaim now) (c # cs) (e, started))) = concurrencyOf n e1"
      by simp_all
    have "inFlightOf n e1 = inFlightOf n ?u" "concurrencyOf n e1 = concurrencyOf n ?u"
      by (simp_all add: inFlightOf_def concurrencyOf_def q)
    then have "inFlightOf n e1 = inFlightOf n e + (if sQueue (clStep c) = n then 1 else 0)"
      "concurrencyOf n e1 = concurrencyOf n e"
      using Cons.prems by (auto simp: inFlightOf_updQueue concurrencyOf_updQueue)
    with ih q show ?case by simp
  qed simp
  then show "inFlightOf n (fst (fold (admitClaim now) cs (e, started))) = inFlightOf n e + int (length (claimsOf n cs))"
    "map fst (enQueues (fst (fold (admitClaim now) cs (e, started)))) = map fst (enQueues e)"
    "concurrencyOf n (fst (fold (admitClaim now) cs (e, started))) = concurrencyOf n e" by simp_all
qed

section \<open>One pass\<close>

definition leaseOf :: "time \<Rightarrow> ('c, 'h) engine \<Rightarrow> string \<times> time" where
  "leaseOf now e = (if enLeaseMode e then (enWorkerID e, now + enLeaseTTL e) else ('''', 0))"

lemma ClaimDueMulti_Nil: "ClaimDueMulti be [] now worker w lease d = (d, [])"
  by (simp add: ClaimDueMulti_def)

lemma tick_claims:
  assumes "tick be now (e, d) = (r, spawned, (e', d'))"
  shows "(d', spawned) = ClaimDueMulti be (tickRequests e) now (enWorkerLabels e) (fst (leaseOf now e)) (snd (leaseOf now e)) d"
    and "e' = fst (fold (admitClaim now) spawned (e, []))"
proof -
  obtain d1 cs where c: "ClaimDueMulti be (tickRequests e) now (enWorkerLabels e) (fst (leaseOf now e))
      (snd (leaseOf now e)) d = (d1, cs)" by (meson surj_pair)
  have "filter (\<lambda>c. List.member (map qcName (tickRequests e)) (sQueue (clStep c))) cs = cs"
    using ClaimDueMulti_names [of _ be "tickRequests e" now "enWorkerLabels e" "fst (leaseOf now e)"
        "snd (leaseOf now e)" d] c by (simp add: filter_id_conv List.member_iff)
  with assms c show "(d', spawned) = ClaimDueMulti be (tickRequests e) now (enWorkerLabels e)
      (fst (leaseOf now e)) (snd (leaseOf now e)) d" "e' = fst (fold (admitClaim now) spawned (e, []))"
    by (auto simp: tick_def leaseOf_def Let_def split_beta ClaimDueMulti_Nil split: if_splits)
qed

lemma tickRequests_names:
  "distinct (map fst (enQueues e)) \<Longrightarrow> distinct (map qcName (tickRequests e))"
  by (simp add: tickRequests_def tickQueues_def comp_def distinct_map_filter)

lemma tickRequests_mem:
  assumes "distinct (map fst (enQueues e))" and "n \<in> qcName ` set (tickRequests e)"
  obtains q where "map_of (enQueues e) n = Some q" "n \<notin> enPaused e" "0 < slots q"
    "\<lparr>qcName = n, qcLimit = slots q, qcRateLimit = qRateLimit q, qcRateWindow = qRateWindow q\<rparr> \<in> set (tickRequests e)"
proof -
  from assms(2) obtain q where "(n, q) \<in> set (enQueues e)" "n \<notin> enPaused e" "0 < slots q"
    by (auto simp: tickRequests_def tickQueues_def)
  with assms(1) show thesis
    by (intro that [of q]) (auto simp: tickRequests_def tickQueues_def intro!: image_eqI [where x = "(n, q)"])
qed

lemma tick_capacity_lemma:
  assumes "distinct (map fst (enQueues e))" and "tick be now (e, d) = (r, spawned, (e', d'))"
  shows "inFlightOf n e' = inFlightOf n e + int (length (claimsOf n spawned))"
    and "inFlightOf n e' \<le> max (inFlightOf n e) (concurrencyOf n e)"
    and "n \<in> enPaused e \<Longrightarrow> claimsOf n spawned = []"
    and "map fst (enQueues e') = map fst (enQueues e)" and "concurrencyOf n e' = concurrencyOf n e"
proof -
  note c = tick_claims [OF assms(2)]
  have names: "sQueue (clStep x) \<in> qcName ` set (tickRequests e)" if "x \<in> set spawned" for x
    using ClaimDueMulti_names [of x] that unfolding c(1) [symmetric] by (metis c(1) snd_conv)
  then have known: "\<forall>x \<in> set spawned. map_of (enQueues e) (sQueue (clStep x)) \<noteq> None"
    using tickRequests_mem [OF assms(1)] by (metis option.distinct(1))
  have f: "inFlightOf n e' = inFlightOf n e + int (length (claimsOf n spawned))"
    "map fst (enQueues e') = map fst (enQueues e)" "concurrencyOf n e' = concurrencyOf n e"
    unfolding c(2) by (rule fold_admitClaim [OF known])+
  from f show "inFlightOf n e' = inFlightOf n e + int (length (claimsOf n spawned))"
    "map fst (enQueues e') = map fst (enQueues e)" "concurrencyOf n e' = concurrencyOf n e" by simp_all
  show "claimsOf n spawned = []" if "n \<in> enPaused e"
  proof -
    have "sQueue (clStep x) \<noteq> n" if "x \<in> set spawned" for x
      using tickRequests_mem [OF assms(1) names [OF that]] \<open>n \<in> enPaused e\<close> by metis
    then show ?thesis by (simp add: filter_empty_conv)
  qed
  show "inFlightOf n e' \<le> max (inFlightOf n e) (concurrencyOf n e)"
  proof (cases "claimsOf n spawned = []")
    case True
    with f(1) show ?thesis by simp
  next
    case False
    then have "n \<in> qcName ` set (tickRequests e)" using names by (auto simp: filter_empty_conv)
    from tickRequests_mem [OF assms(1) this] obtain q where q: "map_of (enQueues e) n = Some q" "0 < slots q"
      "\<lparr>qcName = n, qcLimit = slots q, qcRateLimit = qRateLimit q, qcRateWindow = qRateWindow q\<rparr> \<in> set (tickRequests e)"
      by metis
    from ClaimDueMulti_limit [OF tickRequests_names [OF assms(1)] q(3), of be now "enWorkerLabels e"
        "fst (leaseOf now e)" "snd (leaseOf now e)" d, folded c(1)]
    have "int (length (claimsOf n spawned)) \<le> slots q" using q(2) by simp
    with f(1) q(1) show ?thesis by (simp add: inFlightOf_def concurrencyOf_def slots_def)
  qed
qed

lemma idleWait_bounds:
  assumes "0 \<le> enPoll e"
  shows "0 \<le> idleWait be now e d" and "idleWait be now e d \<le> max (enPoll e) (idleCap be)"
    and "NextDue d \<noteq> 0 \<Longrightarrow> now < NextDue d \<Longrightarrow> now + idleWait be now e d \<le> NextDue d"
  using assms by (auto simp: idleWait_def idleCap_def Let_def)

end
