(* ===== verification/Engine_Effects.thy ===== *)
theory Engine_Effects
  imports Triggers Engine_Control Build_Laws Scheduler_Laws Execute_Laws
begin

text \<open>
  What every engine operation does to the database: a sequence of store operations. The rows it
  submits satisfy what the program promises of its tasks (\<open>task_ok\<close>), a promise that
  registration keeps (\<open>tasks_ok\<close>). Both halves are one relation, \<open>refines\<close>, on the engine and
  its database.
\<close>

section \<open>The relation\<close>

text \<open>The random part of an id is eight hex digits.\<close>

definition hexDigits :: "string \<Rightarrow> bool" where
  "hexDigits rnd \<longleftrightarrow> set rnd \<subseteq> set ''0123456789abcdef''"

definition task_ok :: "promise \<Rightarrow> ('c, 'h) taskDef \<Rightarrow> bool" where
  "task_ok W def \<longleftrightarrow> (\<forall>req now rnd runAt c i sr first. hexDigits rnd \<longrightarrow>
     pmStep W (runOf req (newID now rnd) runAt now first) (buildStep req (newID now rnd) runAt now c i sr def))"

definition req_ok :: "promise \<Rightarrow> ('c, 'h) enqueueRequest \<Rightarrow> bool" where
  "req_ok W req \<longleftrightarrow> (\<forall>sr \<in> set (erSteps req). \<forall>def. srDef sr = Some def \<longrightarrow> task_ok W def)"

text \<open>The completion of a claimed step.\<close>

definition completionOf :: "step \<Rightarrow> bytes \<Rightarrow> time \<Rightarrow> completion" where
  "completionOf st out now = \<lparr>coStepID = sID st, coRunID = sRunID st, coName = sName st, coOutput = out, coNow = now\<rparr>"

definition claim_ok :: "promise \<Rightarrow> step \<Rightarrow> bool" where
  "claim_ok W st \<longleftrightarrow> (\<forall>out now. pmDone W (completionOf st out now))"

definition engine_ok :: "promise \<Rightarrow> ('c, 'h) engine \<Rightarrow> bool" where
  "engine_ok W e \<longleftrightarrow> (\<forall>n def. enTasks e n = Some def \<longrightarrow> task_ok W def) \<and>
     (\<forall>c \<in> set (enPending e). pmDone W (namedComp c))"

definition refines :: "driver \<Rightarrow> promise \<Rightarrow> ('c, 'h) engine \<times> db \<Rightarrow> ('c, 'h) engine \<times> db \<Rightarrow> bool" where
  "refines drv W ed ed' \<longleftrightarrow>
     (engine_ok W (fst ed) \<longrightarrow> store_steps drv W (snd ed) (snd ed') \<and> engine_ok W (fst ed'))"

lemma refines_refl [simp]: "refines drv W ed ed"
  by (simp add: refines_def)

lemma refines_trans: "refines drv W ed ed' \<Longrightarrow> refines drv W ed' ed'' \<Longrightarrow> refines drv W ed ed''"
  by (auto simp: refines_def)

lemma refines_same:
  "enTasks e' = enTasks e \<Longrightarrow> enPending e' = enPending e \<Longrightarrow> store_steps drv W d d' \<Longrightarrow> refines drv W (e, d) (e', d')"
  by (simp add: refines_def engine_ok_def)

lemma refines_engine: "enTasks e' = enTasks e \<Longrightarrow> enPending e' = enPending e \<Longrightarrow> refines drv W (e, d) (e', d)"
  by (rule refines_same) simp_all

lemma refines_step:
  "enTasks e' = enTasks e \<Longrightarrow> enPending e' = enPending e \<Longrightarrow> store_step drv W d d' \<Longrightarrow> refines drv W (e, d) (e', d')"
  by (rule refines_same) auto

lemma refines_fold:
  "(\<And>x ed. x \<in> set xs \<Longrightarrow> refines drv W ed (f x ed)) \<Longrightarrow> refines drv W ed (fold f xs ed)"
proof (induction xs arbitrary: ed)
  case (Cons x xs)
  have "refines drv W ed (f x ed)" by (rule Cons.prems) simp
  moreover have "refines drv W (f x ed) (fold f xs (f x ed))" by (rule Cons.IH, rule Cons.prems) simp
  ultimately show ?case by (simp add: refines_trans)
qed simp

text \<open>An operation may be studied under what it may assume.\<close>

lemma refinesI: "(engine_ok W (fst ed) \<Longrightarrow> refines drv W ed ed') \<Longrightarrow> refines drv W ed ed'"
  by (simp add: refines_def)

section \<open>Operations that leave tasks and pending completions alone\<close>

lemma fold_same: "(\<And>x e. g (f x e) = g e) \<Longrightarrow> g (fold f xs e) = g e"
  by (induction xs arbitrary: e) auto

lemma pending_publish [simp]: "enPending (publish r s a b m t e) = enPending e"
  by (simp add: publish_def)

lemma tasks_ensureQueue [simp]: "enPending (ensureQueue q e) = enPending e"
  by (simp add: ensureQueue_def)

lemma tasks_wake [simp]:
  "enTasks (wakeScheduler e) = enTasks e" "enPending (wakeScheduler e) = enPending e"
  "enTasks (wakeSlot e) = enTasks e" "enPending (wakeSlot e) = enPending e"
  by (simp_all add: wakeScheduler_def wakeSlot_def)

lemma tasks_waiters [simp]:
  "enTasks (finishWaiter h st out err e) = enTasks e"
  "enPending (finishWaiter h st out err e) = enPending e"
  "enTasks (releaseWaiter r st out err e) = enTasks e"
  "enPending (releaseWaiter r st out err e) = enPending e"
  "enTasks (fst (newWaiter i e)) = enTasks e" "enPending (fst (newWaiter i e)) = enPending e"
  by (simp_all add: finishWaiter_def releaseWaiter_def newWaiter_def split: option.split)

lemma tasks_runs [simp]:
  "enTasks (finishRun r st out m now e) = enTasks e"
  "enPending (finishRun r st out m now e) = enPending e"
  "enTasks (pollWaiter r h d e) = enTasks e" "enPending (pollWaiter r h d e) = enPending e"
  "enTasks (cancelStepContexts ids e) = enTasks e"
  "enPending (cancelStepContexts ids e) = enPending e"
  "enTasks (interruptLocal r prev ids now e) = enTasks e"
  "enPending (interruptLocal r prev ids now e) = enPending e"
  "enTasks (fst (consumePause i e)) = enTasks e" "enPending (fst (consumePause i e)) = enPending e"
  by (simp_all add: finishRun_def pollWaiter_def cancelStepContexts_def interruptLocal_def
      consumePause_def split: sum.split)

lemma tasks_queues [simp]:
  "enTasks (updQueue q f e) = enTasks e" "enPending (updQueue q f e) = enPending e"
  "enTasks (SetQueue q n e) = enTasks e" "enPending (SetQueue q n e) = enPending e"
  "enTasks (SetRateLimit q n w e) = enTasks e" "enPending (SetRateLimit q n w e) = enPending e"
  by (simp_all add: updQueue_def SetQueue_def SetRateLimit_def Let_def)

lemma tasks_batch [simp]:
  "enTasks (registerWaiters bs e) = enTasks e" "enPending (registerWaiters bs e) = enPending e"
  "enTasks (dropWaiters bs e) = enTasks e" "enPending (dropWaiters bs e) = enPending e"
  "enTasks (interruptReplaced now rs e) = enTasks e"
  "enPending (interruptReplaced now rs e) = enPending e"
  unfolding registerWaiters_def dropWaiters_def interruptReplaced_def
  by (rule fold_same; simp)+

lemma tasks_rebindWaiters [simp]:
  "enTasks (fst (rebindWaiters ibs e)) = enTasks e" "enPending (fst (rebindWaiters ibs e)) = enPending e"
proof -
  have "enTasks (fst (rebindWaiters ibs e)) = enTasks e \<and> enPending (fst (rebindWaiters ibs e)) = enPending e"
  proof (induction ibs e rule: rebindWaiters.induct)
    case (2 i b ibs e)
    then show ?case by (auto simp: newWaiter_def split_beta Let_def split: option.split)
  qed simp
  then show "enTasks (fst (rebindWaiters ibs e)) = enTasks e" "enPending (fst (rebindWaiters ibs e)) = enPending e"
    by simp_all
qed

lemma tasks_admitClaim [simp]:
  "enTasks (fst (admitClaim now c es)) = enTasks (fst es)"
  "enPending (fst (admitClaim now c es)) = enPending (fst es)"
  by (simp_all add: admitClaim_def split_beta Let_def split: option.split)

lemma tasks_fold_admit [simp]:
  "enTasks (fst (fold (admitClaim now) cs es)) = enTasks (fst es)"
  "enPending (fst (fold (admitClaim now) cs es)) = enPending (fst es)"
  by (induction cs arbitrary: es) simp_all

lemma tasks_afterComplete [simp]:
  "enTasks (afterComplete c res e) = enTasks e" "enPending (afterComplete c res e) = enPending e"
  by (simp_all add: afterComplete_def Let_def fold_same [where g = enTasks] fold_same [where g = enPending] split: option.split)

lemma tasks_leave [simp]:
  "enTasks (leaveExecution st e) = enTasks e" "enPending (leaveExecution st e) = enPending e"
  by (simp_all add: leaveExecution_def)

lemma tasks_setCronNext [simp]:
  "enTasks (setCronNext n t e) = enTasks e" "enPending (setCronNext n t e) = enPending e"
  by (simp_all add: setCronNext_def)

lemma tasks_releaseAll [simp]:
  "enTasks (releaseAll e) = enTasks e" "enPending (releaseAll e) = enPending e"
  unfolding releaseAll_def by (simp_all add: fold_same [where g = enTasks] fold_same [where g = enPending])

lemma tasks_load [simp]:
  "enTasks (loadPersistedCrons parse d e) = enTasks e"
  "enPending (loadPersistedCrons parse d e) = enPending e"
  "enTasks (loadPersistedSubs d e) = enTasks e" "enPending (loadPersistedSubs d e) = enPending e"
  unfolding loadPersistedCrons_def loadPersistedSubs_def
  by (rule fold_same; simp split: option.split)+

lemma pending_RegisterTask: "enPending (fst (RegisterTask def now (e, d))) = enPending e"
  by (simp add: RegisterTask_def takePendingCrons_def Let_def)

section \<open>Registering and building\<close>

lemma refines_RegisterTask: "task_ok W def \<Longrightarrow> refines drv W (e, d) (RegisterTask def now (e, d))"
  using RegisterTask_parts(1) [where e = e and d = d] RegisterTask_parts(7) [of def now e d]
    pending_RegisterTask [of def now e d]
  by (auto simp: refines_def engine_ok_def)

lemma refines_ensureQueue: "refines drv W (e, d) (ensureQueue q e, d)"
  by (rule refines_engine) simp_all

lemma refines_buildSteps:
  "\<forall>sr \<in> set srs. \<forall>def. srDef sr = Some def \<longrightarrow> task_ok W def \<Longrightarrow>
     refines drv W ed (snd (buildSteps req runID runAt now i srs ed))"
proof (induction srs arbitrary: i ed)
  case (Cons sr srs)
  show ?case
  proof (cases "srDef sr")
    case (Some def)
    obtain e d where ed: "ed = (e, d)" by (meson surj_pair)
    obtain e1 d1 where r: "RegisterTask def now (e, d) = (e1, d1)" by (meson surj_pair)
    have "refines drv W ed (e1, d1)" using refines_RegisterTask [of W def drv e d now] r ed Cons.prems Some by simp
    moreover have "refines drv W (e1, d1) (ensureQueue (normQueue (tdQueue def)) e1, d1)"
      by (rule refines_ensureQueue)
    ultimately show ?thesis
      using Cons.IH [where i = "i + 1" and ed = "(ensureQueue (normQueue (tdQueue def)) e1, d1)"] r ed Some Cons.prems
      by (auto simp: split_beta Let_def intro: refines_trans)
  qed simp
qed simp

lemma refines_buildRun: "req_ok W req \<Longrightarrow> refines drv W ed (snd (buildRun req now rnd ed))"
proof -
  assume ok: "req_ok W req"
  obtain e d where ed: "ed = (e, d)" by (meson surj_pair)
  have "refines drv W (e, d) (snd (buildSteps req i t now 0 (erSteps req) (ensureQueue q e, d)))" for i t q
    by (rule refines_trans [OF refines_ensureQueue refines_buildSteps]) (use ok in \<open>simp add: req_ok_def\<close>)
  then show ?thesis using refines_ensureQueue [of drv W e d]
    by (auto simp: buildRun_def ed Let_def split_beta split: option.splits)
qed

lemma buildRun_submitted:
  assumes "buildRun req now rnd ed = (Inr (r, sts), ed')" and "req_ok W req" and "hexDigits rnd"
  shows "newRun r" and "\<forall>s \<in> set sts. newStep s \<and> pmStep W r s"
proof -
  obtain e d where ed: "ed = (e, d)" by (meson surj_pair)
  note ok = buildRun_ok(1) [OF assms(1) [unfolded ed]]
  show "newRun r" by (rule built_submitted(1) [OF ok])
  obtain runAt where len: "length sts = length (erSteps req)"
    and b: "buildSteps req (newID now rnd) runAt now 0 (erSteps req) (ensureQueue (runQueue req) e, d) = (Inr sts, ed')"
    and r: "r = runOf req (newID now rnd) runAt now (hd sts)"
    by (rule buildRun_cases [OF assms(1) [unfolded ed]]) (use buildSteps_nth(1) in blast)
  have "pmStep W r s" if "s \<in> set sts" for s
  proof -
    from that obtain k where k: "k < length (erSteps req)" "s = sts ! k" by (auto simp: in_set_conv_nth len)
    with buildSteps_nth(2) [OF b k(1)] obtain def where
      def: "srDef (erSteps req ! k) = Some def" "s = buildStep req (newID now rnd) runAt now (enCodec e) (0 + k) (erSteps req ! k) def"
      by auto
    then have "task_ok W def" using assms(2) nth_mem [OF k(1)] by (auto simp: req_ok_def)
    with assms(3) show ?thesis unfolding def(2) r by (simp add: task_ok_def)
  qed
  with built_submitted(2) [OF ok] show "\<forall>s \<in> set sts. newStep s \<and> pmStep W r s" by blast
qed

section \<open>Enqueueing\<close>

definition reqs_ok :: "promise \<Rightarrow> (('c, 'h) enqueueRequest option \<times> string) list \<Rightarrow> bool" where
  "reqs_ok W reqs \<longleftrightarrow> (\<forall>q rnd. (Some q, rnd) \<in> set reqs \<longrightarrow> req_ok W q \<and> hexDigits rnd)"

lemma reqs_ok_Cons: "reqs_ok W ((req, rnd) # qs) \<longleftrightarrow> (\<forall>q. req = Some q \<longrightarrow> req_ok W q \<and> hexDigits rnd) \<and> reqs_ok W qs"
  by (auto simp: reqs_ok_def)

abbreviation batch_ok :: "promise \<Rightarrow> ('c, 'h) built list \<Rightarrow> bool" where
  "batch_ok W bs \<equiv> submitted W (map buRun bs) (map buSteps bs)"

lemma prepareOne_ok:
  assumes "\<forall>q. req = Some q \<longrightarrow> req_ok W q \<and> hexDigits rnd"
  shows "refines drv W ed (snd (prepareOne now req rnd ed))"
    and "prepareOne now req rnd ed = (Inr b, ed') \<Longrightarrow> batch_ok W [b]"
proof -
  show "refines drv W ed (snd (prepareOne now req rnd ed))"
  proof (cases req)
    case (Some q)
    obtain res e1 d1 where b: "buildRun q now rnd ed = (res, (e1, d1))" by (metis surj_pair)
    have "refines drv W ed (e1, d1)" using refines_buildRun [of W q drv ed now rnd] assms Some b by simp
    moreover have "refines drv W (e1, d1) (fst (newWaiter i e1), d1)" for i by (rule refines_engine) simp_all
    ultimately show ?thesis
      by (auto simp: prepareOne_def Some b split_beta Let_def split: sum.split option.split intro: refines_trans)
  qed (simp add: prepareOne_def)
  show "batch_ok W [b]" if "prepareOne now req rnd ed = (Inr b, ed')"
  proof -
    from that obtain q r sts ed1 where q: "req = Some q" "buildRun q now rnd ed = (Inr (r, sts), ed1)"
        "buRun b = r" "buSteps b = sts"
      by (auto simp: prepareOne_def split_beta Let_def prod_eq_iff split: option.splits sum.splits)
    with buildRun_submitted [OF q(2), of W] assms show ?thesis by (simp add: submitted_def)
  qed
qed

lemma prepareAll_ok:
  assumes "reqs_ok W reqs"
  shows "refines drv W ed (snd (prepareAll now reqs ed))"
    and "prepareAll now reqs ed = (Inr bs, ed') \<Longrightarrow> batch_ok W bs"
proof -
  have "refines drv W ed (snd (prepareAll now reqs ed)) \<and>
      (\<forall>bs. fst (prepareAll now reqs ed) = Inr bs \<longrightarrow> batch_ok W bs)"
    using assms
  proof (induction now reqs ed rule: prepareAll.induct)
    case (1 now ed)
    then show ?case by (simp add: submitted_def)
  next
    case (2 now req rnd qs ed)
    note ok = 2(2) [unfolded reqs_ok_Cons]
    obtain res ed1 where p: "prepareOne now req rnd ed = (res, ed1)" by (meson surj_pair)
    have 1: "refines drv W ed ed1" using prepareOne_ok(1) [of req W rnd drv ed now] ok p by simp
    show ?case
    proof (cases res)
      case (Inl x)
      with 1 p show ?thesis by simp
    next
      case (Inr b)
      obtain rest ed2 where r: "prepareAll now qs ed1 = (rest, ed2)" by (meson surj_pair)
      have b: "batch_ok W [b]" using prepareOne_ok(2) ok p Inr by blast
      have "refines drv W ed1 ed2 \<and> (\<forall>bs. rest = Inr bs \<longrightarrow> batch_ok W bs)"
        using 2(1) [OF p [symmetric] Inr] ok r by simp
      with 1 b p Inr r show ?thesis
        by (cases rest) (auto simp: submitted_def intro: refines_trans)
    qed
  qed
  then show "refines drv W ed (snd (prepareAll now reqs ed))"
    and "prepareAll now reqs ed = (Inr bs, ed') \<Longrightarrow> batch_ok W bs" by auto
qed

text \<open>What other engines commit between the attempts is theirs to promise.\<close>

abbreviation peers :: "driver \<Rightarrow> promise \<Rightarrow> (nat \<Rightarrow> db \<Rightarrow> db) \<Rightarrow> bool" where
  "peers drv W others \<equiv> \<forall>k d. store_steps drv W d (others k d)"

lemma createAttempts_steps:
  assumes "batch_ok W bs" and "peers drv W others"
  shows "store_steps drv W d (snd (createAttempts (backendOf drv) others now bs k n d))"
  using assms
proof (induction "backendOf drv" others now bs k n d rule: createAttempts.induct)
  case (2 others now bs k n d)
  let ?c = "CreateRunsUnique (backendOf drv) now (map buRun bs) (map buSteps bs) (map buConflict bs)
    (map buPolicy bs) (others k d)"
  have o: "store_steps drv W d (others k d)" using 2(3) by simp
  show ?case
  proof (cases ?c)
    case (Inl x)
    show ?thesis
    proof (cases "x = ErrUniqueViolation")
      case True
      with 2(1) [OF refl Inl] 2(2,3) o Inl show ?thesis
        by (auto simp: Let_def intro: rtranclp_trans)
    next
      case False
      with o Inl show ?thesis by (simp add: Let_def)
    qed
  next
    case (Inr r)
    obtain d' ids reps where r: "r = (d', ids, reps)" by (metis surj_pair)
    have "store_step drv W (others k d) d'"
      by (rule store_step.enqueue [OF 2(2)]) (use Inr r in simp)
    with o Inr r show ?thesis by (simp add: Let_def)
  qed
qed simp

lemma createRuns_steps:
  "batch_ok W bs \<Longrightarrow> peers drv W others \<Longrightarrow>
     store_steps drv W d (snd (createRuns (backendOf drv) others now bs d))"
  by (simp add: createRuns_def createAttempts_steps)

lemma refines_EnqueueBatch:
  assumes "reqs_ok W reqs" and "peers drv W others"
  shows "refines drv W ed (snd (EnqueueBatch (backendOf drv) others now reqs ed))"
proof -
  obtain res e1 d1 where p: "prepareAll now reqs ed = (res, (e1, d1))" by (metis surj_pair)
  have 1: "refines drv W ed (e1, d1)" using prepareAll_ok(1) [OF assms(1), of drv ed now] p by simp
  show ?thesis
  proof (cases res)
    case (Inl x)
    with 1 p show ?thesis by (simp add: EnqueueBatch_def)
  next
    case (Inr bs)
    obtain cr d2 where c: "createRuns (backendOf drv) others now bs d1 = (cr, d2)" by (meson surj_pair)
    have "batch_ok W bs" using prepareAll_ok(2) [OF assms(1)] p Inr by blast
    from createRuns_steps [OF this assms(2), of d1 now] c have "store_steps drv W d1 d2" by simp
    then have r: "refines drv W ed (e', d2)" if "enTasks e' = enTasks e1" "enPending e' = enPending e1" for e'
      by (intro refines_trans [OF 1 refines_same] that)
    from 1 p Inr c r show ?thesis
      by (auto simp: EnqueueBatch_def Let_def split_beta split: sum.split)
  qed
qed

lemma refines_Enqueue_run:
  "\<forall>q. req = Some q \<longrightarrow> req_ok W q \<and> hexDigits rnd \<Longrightarrow> peers drv W others \<Longrightarrow>
     refines drv W ed (snd (Enqueue_run (backendOf drv) others now req rnd ed))"
  using refines_EnqueueBatch [of W "[(req, rnd)]" drv others ed now]
  by (auto simp: Enqueue_run_def split_beta reqs_ok_def)

lemma CreateRunsTx_step:
  assumes "batch_ok W bs"
    and "CreateRunsTx (backendOf drv) now (map buRun bs) (map buSteps bs) (map buConflict bs) (map buPolicy bs) d = Inr (d', ids)"
  shows "store_step drv W d d'"
proof -
  from assms(2) obtain reps where "CreateRunsUnique (backendOf drv) now (map buRun bs) (map buSteps bs)
      (map buConflict bs) (map buPolicy bs) d = Inr (d', ids, reps)"
    by (auto simp: CreateRunsTx_def CreateRunsUnique_def map_sum_def split: sum.splits prod.splits)
  with assms(1) show ?thesis by (rule store_step.enqueue)
qed

lemma prepareTx_ok:
  assumes "reqs_ok W reqs"
  shows "refines drv W ed (snd (prepareTx now reqs ed))"
    and "prepareTx now reqs ed = (Inr bs, ed') \<Longrightarrow> batch_ok W bs"
proof -
  have "refines drv W ed (snd (prepareTx now reqs ed)) \<and>
      (\<forall>bs. fst (prepareTx now reqs ed) = Inr bs \<longrightarrow> batch_ok W bs)"
    using assms
  proof (induction reqs arbitrary: ed)
    case Nil
    then show ?case by (simp add: submitted_def)
  next
    case (Cons p qs)
    obtain req rnd where p: "p = (req, rnd)" by (meson surj_pair)
    note ok = Cons.prems [unfolded p reqs_ok_Cons]
    show ?case
    proof (cases req)
      case None
      then show ?thesis by (simp add: p)
    next
      case (Some q)
      obtain res e1 d1 where b: "buildRun q now rnd ed = (res, (e1, d1))" by (metis surj_pair)
      have 1: "refines drv W ed (e1, d1)" using refines_buildRun [of W q drv ed now rnd] ok Some b by simp
      show ?thesis
      proof (cases res)
        case (Inl x)
        with 1 b Some show ?thesis by (simp add: p)
      next
        case (Inr rs)
        obtain r sts where rs: "rs = (r, sts)" by (meson surj_pair)
        note new = buildRun_submitted [OF b [unfolded Inr rs], of W]
        obtain rest ed2 where t: "prepareTx now qs (e1, d1) = (rest, ed2)" by (meson surj_pair)
        have "refines drv W (e1, d1) ed2 \<and> (\<forall>bs. rest = Inr bs \<longrightarrow> batch_ok W bs)"
          using Cons.IH [of "(e1, d1)"] ok t by simp
        with 1 new ok Some b Inr rs t show ?thesis
          by (cases rest) (auto simp: p Let_def submitted_def split: option.split intro: refines_trans)
      qed
    qed
  qed
  then show "refines drv W ed (snd (prepareTx now reqs ed))"
    and "prepareTx now reqs ed = (Inr bs, ed') \<Longrightarrow> batch_ok W bs" by auto
qed

lemma refines_EnqueueBatchOnTx:
  assumes "reqs_ok W reqs"
  shows "refines drv W ed (snd (EnqueueBatchOnTx (backendOf drv) now reqs ed))"
proof -
  obtain res e1 d1 where p: "prepareTx now reqs ed = (res, (e1, d1))" by (metis surj_pair)
  have 1: "refines drv W ed (e1, d1)" using prepareTx_ok(1) [OF assms, of drv ed now] p by simp
  show ?thesis
  proof (cases res)
    case (Inl x)
    with 1 p show ?thesis by (simp add: EnqueueBatchOnTx_def)
  next
    case (Inr bs)
    have b: "batch_ok W bs" using prepareTx_ok(2) [OF assms] p Inr by blast
    have "refines drv W ed (e1, d2)" if "CreateRunsTx (backendOf drv) now (map buRun bs) (map buSteps bs)
        (map buConflict bs) (map buPolicy bs) d1 = Inr (d2, ids)" for d2 ids
      by (intro refines_trans [OF 1 refines_step] CreateRunsTx_step [OF b that]) simp_all
    with 1 p Inr show ?thesis by (auto simp: EnqueueBatchOnTx_def split: sum.split)
  qed
qed

text \<open>The single call is a batch of one, but for the id it returns.\<close>

lemma EnqueueOnTx_batch:
  "snd (EnqueueOnTx be now req rnd ed) = snd (EnqueueBatchOnTx be now [(req, rnd)] ed)"
  by (auto simp: EnqueueOnTx_def EnqueueBatchOnTx_def Let_def split_beta split: option.split sum.split)

lemma refines_EnqueueOnTx:
  "\<forall>q. req = Some q \<longrightarrow> req_ok W q \<and> hexDigits rnd \<Longrightarrow> refines drv W ed (snd (EnqueueOnTx (backendOf drv) now req rnd ed))"
  unfolding EnqueueOnTx_batch by (rule refines_EnqueueBatchOnTx) (auto simp: reqs_ok_def)

section \<open>Scheduling, executing, completing\<close>

lemma refines_tick: "tick (backendOf drv) now (e, d) = (r, spawned, (e', d')) \<Longrightarrow> refines drv W (e, d) (e', d')"
  by (frule tick_claims(1), drule tick_claims(2))
    (auto intro: refines_step [OF _ _ store_step.claim [OF sym]])

lemma refines_beginExecute: "refines drv W ed (snd (beginExecute now c ed))"
proof -
  obtain e d where ed: "ed = (e, d)" by (meson surj_pair)
  show ?thesis
    by (auto simp: ed beginExecute_def consumePause_def Let_def split: option.split
        intro: refines_step refines_engine store_step.intros)
qed

lemma CompleteStep_step:
  assumes "pmDone W (namedComp c)"
    and "CompleteStep (backendOf drv) (coStepID (cqComp c)) (coRunID (cqComp c)) (cqName c) (coOutput (cqComp c))
      (coNow (cqComp c)) d = Inr (d', res)"
  shows "store_step drv W d d'"
  by (rule complete [where comps = "[namedComp c]"])
    (use assms in \<open>simp_all add: CompleteSteps_seq namedComp_def split: sum.split\<close>)

lemma refines_completeDirect:
  assumes "pmDone W (namedComp c)"
  shows "refines drv W ed (completeDirect (backendOf drv) c ed)"
proof -
  obtain e d where ed: "ed = (e, d)" by (meson surj_pair)
  show ?thesis
    by (auto simp: ed completeDirect_def Let_def split: sum.split
        intro!: refines_step intro: CompleteStep_step [OF assms])
qed

lemma refines_submit:
  assumes "pmDone W (namedComp c)"
  shows "refines drv W ed (submitCompletion (backendOf drv) c ed)"
proof (cases "enStopped (fst ed)")
  case True
  with refines_completeDirect [OF assms, of drv ed] show ?thesis by (cases ed) (simp add: submitCompletion_def)
next
  case False
  with assms show ?thesis by (cases ed) (auto simp: submitCompletion_def refines_def engine_ok_def)
qed

lemma refines_flush: "refines drv W ed (flushCompletions (backendOf drv) ed)"
proof (rule refinesI)
  assume ok: "engine_ok W (fst ed)"
  obtain e d where ed: "ed = (e, d)" by (meson surj_pair)
  have "refines drv W (e, d) (e\<lparr>enPending := []\<rparr>, d)" by (auto simp: refines_def engine_ok_def)
  moreover have "refines drv W (e\<lparr>enPending := []\<rparr>, d)
      (fold (completeDirect (backendOf drv)) (enPending e) (e\<lparr>enPending := []\<rparr>, d))"
    by (rule refines_fold) (use ok in \<open>auto simp: ed engine_ok_def intro!: refines_completeDirect\<close>)
  ultimately show "refines drv W ed (flushCompletions (backendOf drv) ed)"
    unfolding ed flush_direct by (rule refines_trans)
qed

lemma refines_cancelledStep: "refines drv W ed (cancelledStep st m now ed)"
  by (cases ed) (auto simp: cancelledStep_def publish_def intro: refines_step store_step.intros)

text \<open>A final failure is recorded by the executor of the step, so no success of it is on record.\<close>

definition unfinishedBy :: "step \<Rightarrow> db \<Rightarrow> bool" where
  "unfinishedBy st d \<longleftrightarrow> (\<forall>s \<in> set (steps d). sID s = sID st \<longrightarrow> sStatus s \<noteq> Succeeded)"

lemma refines_recordFinalFailure:
  assumes "unfinishedBy st (snd ed)"
  shows "refines drv W ed (recordFinalFailure st m now ed)"
proof -
  obtain e d where ed: "ed = (e, d)" by (meson surj_pair)
  have "store_step drv W d d'" if "FinalFailStep (sID st) (sRunID st) m dead now d = Inr (d', res)" for dead d' res
    using assms by (intro finalFail [OF _ that]) (auto simp: ed unfinishedBy_def)
  then show ?thesis
    by (auto simp: ed recordFinalFailure_def Let_def fold_same [where g = enTasks] fold_same [where g = enPending] split: sum.split option.split
        intro!: refines_step)
qed

lemma refines_recordOutcome:
  assumes "unfinishedBy st (snd ed)" and "claim_ok W st"
  shows "refines drv W ed (recordOutcome (backendOf drv) now st def fin ed)"
proof -
  obtain e d where ed: "ed = (e, d)" by (meson surj_pair)
  have "pmDone W (namedComp \<lparr>cqComp = \<lparr>coStepID = sID st, coRunID = sRunID st, coName = '''', coOutput = out,
      coNow = now\<rparr>, cqName = sName st\<rparr>)" for out
    using assms(2) by (simp add: claim_ok_def completionOf_def namedComp_def)
  note submit = refines_submit [OF this]
  show ?thesis
    using assms(1)
    by (auto simp: ed recordOutcome_def Let_def split: taskEnd.split
        intro: refines_cancelledStep refines_recordFinalFailure submit refines_engine refines_step store_step.intros)
qed

lemma refines_finishExecute:
  assumes "unfinishedBy (clStep c) (snd ed)" and "claim_ok W (clStep c)"
  shows "refines drv W ed (finishExecute (backendOf drv) now c def fin ed)"
proof -
  obtain e d where ed: "ed = (e, d)" by (meson surj_pair)
  let ?st = "clStep c"
  obtain e1 marked where p: "(if fin = TaskSuspended then (e, False) else consumePause (sID ?st) e) = (e1, marked)"
    by (meson surj_pair)
  then have t: "enTasks e1 = enTasks e" "enPending e1 = enPending e"
    by (auto simp: consumePause_def split: if_splits)
  obtain e2 d2 where q: "(if marked \<and> wasCanceled fin \<and> \<not> runTerminal (sRunID ?st) d
       then (publish (sRunID ?st) (sName ?st) Running Queued '''' now e1, RequeuePausedStep (sID ?st) d)
       else recordOutcome (backendOf drv) now ?st def fin (e1, d)) = (e2, d2)" by (meson surj_pair)
  have "refines drv W (e1, d) (recordOutcome (backendOf drv) now ?st def fin (e1, d))"
    by (rule refines_recordOutcome) (use assms ed in simp_all)
  with q have "refines drv W (e1, d) (e2, d2)"
    by (auto split: if_splits intro: refines_step store_step.intros)
  then have "refines drv W (e, d) (leaveExecution ?st e2, d2)"
    using refines_trans [OF refines_engine [OF t]] refines_trans [OF _ refines_engine] tasks_leave by metis
  then show ?thesis by (simp add: ed finishExecute_def Let_def p q)
qed

section \<open>Control\<close>

lemma refines_control:
  "refines drv W ed (snd (Cancel_run i now ed))" "refines drv W ed (snd (Snooze_run i now ed))"
  "refines drv W ed (snd (Pause_run i now ed))" "refines drv W ed (snd (Resume_run i now ed))"
  "refines drv W ed (snd (Retry_dead_letter i now ed))" "refines drv W ed (snd (Dismiss_dead_letter i ed))"
  by (cases ed; auto simp: Cancel_run_def Snooze_run_def Pause_run_def Resume_run_def Retry_dead_letter_def
      Dismiss_dead_letter_def Let_def split: sum.split
      intro!: refines_step intro: store_step.intros)+

lemma refines_queues:
  "refines drv W ed (Pause_queue q now ed)" "refines drv W ed (Resume_queue q ed)"
  by (cases ed; auto simp: Pause_queue_def Resume_queue_def intro!: refines_step intro: small)+

section \<open>Triggers\<close>

lemma refines_RegisterCron:
  assumes "\<forall>df. def = Some df \<longrightarrow> task_ok W df"
  shows "refines drv W ed (snd (RegisterCron parse name spec def input now ed))"
proof (cases def)
  case (Some df)
  obtain e d where ed: "ed = (e, d)" by (meson surj_pair)
  obtain e1 d1 where r: "RegisterTask df now (e, d) = (e1, d1)" by (meson surj_pair)
  have "refines drv W (e, d) (e1, d1)" using refines_RegisterTask [of W df drv e d now] assms Some r by simp
  moreover have "refines drv W (e1, d1) (e2, UpsertCron c d1)" if "enTasks e2 = enTasks e1" "enPending e2 = enPending e1" for e2 c
    using that by (rule refines_step) (rule small [where c = c], simp)
  ultimately show ?thesis
    by (auto simp: RegisterCron_def ed Some r Let_def split: option.split intro: refines_trans)
qed (auto simp: RegisterCron_def split: option.split)

lemma refines_RegisterEvent:
  assumes "\<forall>df. def = Some df \<longrightarrow> task_ok W df"
  shows "refines drv W ed (snd (RegisterEvent event def now ed))"
proof (cases def)
  case (Some df)
  obtain e d where ed: "ed = (e, d)" by (meson surj_pair)
  obtain e1 d1 where r: "RegisterTask df now (e, d) = (e1, d1)" by (meson surj_pair)
  have "refines drv W (e, d) (e1, d1)" using refines_RegisterTask [of W df drv e d now] assms Some r by simp
  moreover have "refines drv W (e1, d1) (e2, UpsertEventSub s d1)" if "enTasks e2 = enTasks e1" "enPending e2 = enPending e1" for e2 s
    using that by (rule refines_step) (rule small [where sub = s], simp)
  ultimately show ?thesis
    by (auto simp: RegisterEvent_def ed Some r Let_def intro!: refines_trans [of drv W "(e, d)" "(e1, d1)"])
qed (simp add: RegisterEvent_def)

lemma refines_remove:
  "refines drv W ed (RemoveCron n ed)" "refines drv W ed (RemoveEvent ev t ed)"
  by (cases ed; auto simp: RemoveCron_def RemoveEvent_def intro!: refines_step intro: small)+

lemma req_ok_triggers:
  assumes "task_ok W def"
  shows "req_ok W (cronRequest c def)" and "req_ok W (eventRequest t payload def)"
  using assms by (simp_all add: req_ok_def cronRequest_def eventRequest_def)

lemma refines_fireOne:
  assumes "hexDigits (snd nr)"
  shows "refines drv W ed (fireOne (backendOf drv) now nr ed)"
proof (rule refinesI)
  assume ready: "engine_ok W (fst ed)"
  obtain e d where ed: "ed = (e, d)" by (meson surj_pair)
  obtain name rnd where nr: "nr = (name, rnd)" by (meson surj_pair)
  show "refines drv W ed (fireOne (backendOf drv) now nr ed)"
  proof (cases "map_of (enCrons e) name")
    case (Some c)
    show ?thesis
    proof (cases "enTasks e (ceTask c)")
      case None
      with Some show ?thesis by (simp add: fireOne_def ed nr refines_engine)
    next
      case def: (Some def)
      have ok: "req_ok W (cronRequest c def)"
        using ready def by (intro req_ok_triggers) (auto simp: ed engine_ok_def)
      obtain res e1 d1 where b: "buildRun (cronRequest c def) now rnd (e, d) = (res, (e1, d1))" by (metis surj_pair)
      have 1: "refines drv W (e, d) (e1, d1)" using refines_buildRun [OF ok, of drv "(e, d)" now rnd] b by simp
      show ?thesis
      proof (cases res)
        case (Inl x)
        with 1 b Some def show ?thesis by (simp add: fireOne_def ed nr)
      next
        case (Inr rs)
        obtain r sts where rs: "rs = (r, sts)" by (meson surj_pair)
        have sub: "submitted W [r] [sts]"
          using buildRun_submitted [OF b [unfolded Inr rs] ok] assms nr by (simp add: submitted_def)
        have st: "store_step drv W d1 d2" if "FireCron (backendOf drv) name t u r sts d1 = Inr (d2, fired)" for t u d2 fired
          by (rule store_step.fire [OF sub that])
        have e2: "refines drv W (e1, d1) (setCronNext name t e1, d1)" for t by (rule refines_engine) simp_all
        let ?f = "FireCron (backendOf drv) name (case ceNext c of None \<Rightarrow> 0 | Some t \<Rightarrow> t) (ceSched c now) r sts d1"
        show ?thesis
        proof (cases ?f)
          case (Inl x)
          with refines_trans [OF 1 e2] b Some def Inr rs show ?thesis by (simp add: fireOne_def ed nr)
        next
          case f: (Inr y)
          obtain d2 fired where y: "y = (d2, fired)" by (meson surj_pair)
          have "refines drv W (e1, d1) (e3, d2)" if "enTasks e3 = enTasks e1" "enPending e3 = enPending e1" for e3
            by (rule refines_step [OF that]) (rule st, use f y in simp)
          from refines_trans [OF 1 this] f y b Some def Inr rs show ?thesis
            by (simp add: fireOne_def ed nr Let_def)
        qed
      qed
    qed
  qed (simp add: fireOne_def ed nr)
qed

lemma refines_cronTick:
  assumes "\<forall>n. hexDigits (rnd n)"
  shows "refines drv W ed (cronTick (backendOf drv) now rnd ed)"
proof -
  have "refines drv W ed (fold (\<lambda>name. fireOne (backendOf drv) now (name, rnd name)) ns ed)" for ns
    by (rule refines_fold, rule refines_fireOne) (use assms in simp)
  then show ?thesis by (simp add: cronTick_def)
qed

lemma refines_dispatch:
  assumes "peers drv W others" and "\<forall>(s, rnd) \<in> set ss. hexDigits rnd"
  shows "refines drv W ed (snd (dispatch (backendOf drv) others now payload ss n err ed))"
  using assms(2)
proof (induction ss arbitrary: n err ed)
  case (Cons p ss)
  obtain s rnd where p: "p = (s, rnd)" by (meson surj_pair)
  show ?case
  proof (rule refinesI)
    assume ready: "engine_ok W (fst ed)"
    show "refines drv W ed (snd (dispatch (backendOf drv) others now payload (p # ss) n err ed))"
    proof (cases "enTasks (fst ed) (asTask s)")
      case None
      with Cons.IH [of ed n err] Cons.prems show ?thesis by (simp add: p)
    next
      case (Some def)
      let ?req = "Some (eventRequest (asTask s) payload def)"
      obtain res ed1 where q: "Enqueue_run (backendOf drv) others now ?req rnd ed = (res, ed1)" by (meson surj_pair)
      have "task_ok W def" using ready Some by (auto simp: engine_ok_def)
      then have 1: "refines drv W ed ed1"
        using refines_Enqueue_run [of ?req W rnd drv others ed now] assms(1) q Cons.prems p req_ok_triggers(2) [of W def]
        by simp
      have "refines drv W ed1 (snd (dispatch (backendOf drv) others now payload ss n' err' ed1))" for n' err'
        by (rule Cons.IH) (use Cons.prems in simp)
      from refines_trans [OF 1 this] 1 q Some show ?thesis by (auto simp: p split: sum.split)
    qed
  qed
qed simp

lemma refines_Emit:
  assumes "peers drv W others" and "\<forall>k. hexDigits (rnds k)"
  shows "refines drv W ed (snd (Emit (backendOf drv) others veto now name payload rnds ed))"
proof -
  obtain e d where ed: "ed = (e, d)" by (meson surj_pair)
  obtain d1 woken where dv: "DeliverEvent name payload now d = (d1, woken)" by (meson surj_pair)
  let ?e1 = "if woken > 0 then wakeScheduler e else e"
  have st: "store_step drv W d d1" using deliver [of drv W d name payload now] dv by simp
  have 1: "refines drv W (e, d) (?e1, d1)" by (rule refines_step [OF _ _ st]) simp_all
  have "\<forall>(s, rnd) \<in> set (map (\<lambda>(k, s). (s, rnds k)) (enumerate 0 subs)). hexDigits rnd" for subs :: "armedSub list"
    using assms(2) by auto
  from refines_trans [OF 1 refines_dispatch [OF assms(1) this]] show ?thesis
    by (auto simp: Emit_def ed dv Let_def split: option.split)
qed

section \<open>Lifecycle\<close>

lemma refines_Start: "refines drv W ed (Start parse ed)"
  by (cases ed) (auto simp: Start_def Let_def fold_same [where g = enTasks] fold_same [where g = enPending] intro: refines_engine)

lemma refines_Close:
  assumes "\<And>ed. refines drv W ed (drain ed)"
  shows "refines drv W ed (Close (backendOf drv) drain now ed)"
proof -
  obtain e d where ed: "ed = (e, d)" by (meson surj_pair)
  obtain e1 d1 where dr: "drain (e\<lparr>enClosing := True\<rparr>, d) = (e1, d1)" by (meson surj_pair)
  obtain e2 d2 where sc: "flushCompletions (backendOf drv) (e1\<lparr>enStopped := True\<rparr>, d1) = (e2, d2)" by (meson surj_pair)
  have "refines drv W (e, d) (e\<lparr>enClosing := True\<rparr>, d)" by (rule refines_engine) simp_all
  moreover have "refines drv W (e\<lparr>enClosing := True\<rparr>, d) (e1, d1)" using assms dr by metis
  moreover have "refines drv W (e1, d1) (e1\<lparr>enStopped := True\<rparr>, d1)" by (rule refines_engine) simp_all
  moreover have "refines drv W (e1\<lparr>enStopped := True\<rparr>, d1) (e2, d2)" using refines_flush sc by metis
  moreover have "refines drv W (e2, d2) (releaseAll e2, InterruptAll w now d2)" for w
    by (rule refines_step) (simp_all add: interrupt)
  ultimately show ?thesis
    by (simp add: ed Close_def stopCompleter_def dr sc Let_def) (blast intro: refines_trans)
qed

end
