(* ===== verification/Loops.thy ===== *)
theory Loops
  imports Triggers Purge
begin

text \<open>
  Constructing an engine and its background loops (internal/engine/engine.go: \<open>New\<close>, \<open>Use\<close>,
  \<open>wrapHandler\<close>, \<open>heartbeatLoop\<close>, \<open>reapLoop\<close>, the log flusher; internal/engine/retention.go;
  internal/engine/metrics.go). A loop is its interval and the function that one tick runs.
\<close>

section \<open>Construction\<close>

record ('c, 'h) options =
  opPoll :: time
  opMiddleware :: "('h \<Rightarrow> 'h) list"
  opBeforeEnqueue :: "(enqueueInfo \<Rightarrow> string option) list"
  opWorkerLabels :: "string list"
  opWorkerID :: string
  opLeaseTTL :: time
  opCodec :: "'c option"

definition newWorkerID :: "string \<Rightarrow> string" where
  "newWorkerID rnd = ''w-'' @ rnd"

definition newEngine :: "backend \<Rightarrow> 'c \<Rightarrow> string \<Rightarrow> ('c, 'h) options \<Rightarrow> ('c, 'h) engine" where
  "newEngine be jsonCodec rnd opts =
     \<lparr>enQueues = [], enTasks = Map.empty, enCrons = [], enPendingCrons = [], enEventSubs = (\<lambda>_. []),
      enPendingSubs = (\<lambda>_. []), enMiddleware = opMiddleware opts,
      enBeforeEnqueue = opBeforeEnqueue opts, enWaiters = [], enHandles = [], enCancels = {},
      enInterrupted = {}, enHaltSteps = {}, enPaused = {}, enPauseSteps = {}, enPending = [],
      enStopped = False, enWake = False, enUrgent = False, enClosing = False, enEvents = [],
      enPoll = (if opPoll opts \<le> 0 then 50000000 else opPoll opts),
      enWorkerLabels = opWorkerLabels opts,
      enWorkerID = (if opWorkerID opts = '''' then newWorkerID rnd else opWorkerID opts),
      enLeaseMode = SupportsLeases be,
      enLeaseTTL = (if opLeaseTTL opts \<le> 0 then 30000000000 else opLeaseTTL opts),
      enCodec = (case opCodec opts of None \<Rightarrow> jsonCodec | Some c \<Rightarrow> c)\<rparr>"

text \<open>Middleware: the first one registered is the outermost, engine-wide ones around the task's.\<close>

definition Use_mw :: "('h \<Rightarrow> 'h) list \<Rightarrow> ('c, 'h) engine \<Rightarrow> ('c, 'h) engine" where
  "Use_mw mw e = (if length mw = 0 then e else e\<lparr>enMiddleware := enMiddleware e @ mw\<rparr>)"

definition wrapHandler :: "('c, 'h) taskDef \<Rightarrow> ('c, 'h) engine \<Rightarrow> 'h" where
  "wrapHandler def e =
     fold (\<lambda>w h. w h) (rev (enMiddleware e)) (fold (\<lambda>w h. w h) (rev (tdWrappers def)) (tdFn def))"

definition ForgetTask :: "string \<Rightarrow> ('c, 'h) engine \<Rightarrow> ('c, 'h) engine" where
  "ForgetTask name e = e\<lparr>enTasks := (enTasks e)(name := None)\<rparr>"

lemma wrapHandler_order:
  "wrapHandler def e = foldr (\<lambda>w h. w h) (enMiddleware e @ tdWrappers def) (tdFn def)"
  by (simp add: wrapHandler_def foldr_conv_fold)

section \<open>Leases\<close>

definition heartbeatInterval :: "('c, 'h) engine \<Rightarrow> time" where
  "heartbeatInterval e = (let interval = enLeaseTTL e div 3 in if interval < 100000000 then 100000000 else interval)"

definition heartbeatTick :: "time \<Rightarrow> ('c, 'h) engine \<times> db \<Rightarrow> ('c, 'h) engine \<times> db" where
  "heartbeatTick now ed = (fst ed, HeartbeatWorker (enWorkerID (fst ed)) (now + enLeaseTTL (fst ed)) (snd ed))"

definition reapInterval :: "('c, 'h) engine \<Rightarrow> time" where
  "reapInterval e = (if enLeaseTTL e < 500000000 then 500000000 else enLeaseTTL e)"

definition reapTick :: "time \<Rightarrow> ('c, 'h) engine \<times> db \<Rightarrow> ('c, 'h) engine \<times> db" where
  "reapTick now ed =
     (let (e, d) = ed; (d', n) = ReapExpired now 200 d in (if n > 0 then wakeScheduler e else e, d'))"

text \<open>A heartbeat comes before the lease it renews ends, provided leases last longer than the
  minimal interval; a shorter \<open>LeaseTTL\<close> lets the leases of a healthy worker expire.\<close>

lemma heartbeatInterval_less: "heartbeatInterval e < enLeaseTTL e \<longleftrightarrow> 100000000 < enLeaseTTL e"
  by (auto simp: heartbeatInterval_def Let_def)

section \<open>Retention and metrics\<close>

record RetentionPolicy =
  rpOlderThan :: time
  rpStatuses :: "status list"
  rpQueue :: string
  rpExcludeDeadLettered :: bool
  rpKeepLogs :: bool
  rpInterval :: time

definition retentionInterval :: "RetentionPolicy \<Rightarrow> time" where
  "retentionInterval p =
     (let interval = (if rpInterval p \<le> 0 then 60000000000 else rpInterval p)
      in if interval < 1000000000 then 1000000000 else interval)"

definition runRetention :: "time \<Rightarrow> RetentionPolicy option \<Rightarrow> db \<Rightarrow> db" where
  "runRetention now policy d =
     (case policy of
        None \<Rightarrow> d
      | Some p \<Rightarrow>
          if rpOlderThan p \<le> 0 then d
          else (case PurgeRuns \<lparr>poBefore = now - rpOlderThan p, poStatuses = rpStatuses p,
                  poQueue = rpQueue p, poExcludeDeadLettered = rpExcludeDeadLettered p,
                  poKeepLogs = rpKeepLogs p, poBatchSize = 0\<rparr> d of
                  Inl x \<Rightarrow> d
                | Inr (d', res) \<Rightarrow> d'))"

definition metricsInterval :: "time \<Rightarrow> time" where
  "metricsInterval configured =
     (let interval = (if configured \<le> 0 then 15000000000 else configured)
      in if interval < 100000000 then 100000000 else interval)"

record MetricsSnapshot =
  msRuns :: "status \<Rightarrow> nat option"
  msQueues :: "string \<Rightarrow> QueueStats option"

definition emitMetrics :: "db \<Rightarrow> MetricsSnapshot" where
  "emitMetrics d = \<lparr>msRuns = fst (Metrics d), msQueues = snd (Metrics d)\<rparr>"

section \<open>Task logs\<close>

text \<open>The sink puts a line on a bounded channel or counts it as dropped; the flusher takes
  lines off and writes them in batches, at 64 lines, on its timer, and when the channel closes.\<close>

record logPipe =
  lpChan :: "logEntry list"
  lpClosed :: bool
  lpDropped :: nat
  lpBatch :: "logEntry list"

definition storageLogSink :: "logEntry \<Rightarrow> logPipe \<Rightarrow> logPipe" where
  "storageLogSink entry p =
     (if lpClosed p then p
      else if length (lpChan p) < 4096 then p\<lparr>lpChan := lpChan p @ [entry]\<rparr>
      else p\<lparr>lpDropped := lpDropped p + 1\<rparr>)"

definition drainLogs :: "logPipe \<times> db \<Rightarrow> logPipe \<times> db" where
  "drainLogs pd =
     (let (p, d) = pd in
      if length (lpBatch p) = 0 then (p, d) else (p\<lparr>lpBatch := []\<rparr>, AppendLogs (lpBatch p) d))"

definition takeLog :: "logPipe \<times> db \<Rightarrow> logPipe \<times> db" where
  "takeLog pd =
     (let (p, d) = pd in
      case lpChan p of
        [] \<Rightarrow> if lpClosed p then drainLogs (p, d) else (p, d)
      | entry # rest \<Rightarrow>
          let p1 = p\<lparr>lpChan := rest, lpBatch := lpBatch p @ [entry]\<rparr>
          in if length (lpBatch p1) \<ge> 64 then drainLogs (p1, d) else (p1, d))"

text \<open>The lines on record, in the batch and on the channel are conserved, in order.\<close>

definition logLines :: "logPipe \<times> db \<Rightarrow> logEntry list" where
  "logLines pd = map snd (logs (snd pd)) @ lpBatch (fst pd) @ lpChan (fst pd)"

lemma lines_AppendLogs: "map snd (logs (AppendLogs es d)) = map snd (logs d) @ es"
proof -
  have "map snd (logs (fold appendLog es d)) = map snd (logs d) @ es"
    by (induction es arbitrary: d) (auto simp: appendLog_def)
  then show ?thesis by (simp add: AppendLogs_def)
qed

lemma drainLogs_lines [simp]: "logLines (drainLogs pd) = logLines pd"
  by (cases pd) (simp add: drainLogs_def logLines_def lines_AppendLogs)

lemma takeLog_lines: "logLines (takeLog pd) = logLines pd"
proof -
  obtain p d where pd: "pd = (p, d)" by (meson surj_pair)
  show ?thesis
    by (cases "lpChan p") (simp_all add: pd takeLog_def Let_def, simp_all add: logLines_def)
qed

lemma storageLogSink_lines:
  "logLines (storageLogSink entry p, d) =
     logLines (p, d) @ (if \<not> lpClosed p \<and> length (lpChan p) < 4096 then [entry] else [])"
  by (simp add: storageLogSink_def logLines_def)

text \<open>Once the channel is closed, taking every line off it and one more time writes them all.\<close>

lemma takeLog_flush:
  assumes "lpClosed p" and "n = length (lpChan p)"
  shows "map snd (logs (snd ((takeLog ^^ Suc n) (p, d)))) = logLines (p, d)"
  using assms
proof (induction n arbitrary: p d)
  case 0
  then show ?case
    by (simp add: takeLog_def logLines_def drainLogs_def lines_AppendLogs)
next
  case (Suc n)
  obtain x xs where x: "lpChan p = x # xs" using Suc.prems(2) by (cases "lpChan p") auto
  obtain p1 d1 where t: "takeLog (p, d) = (p1, d1)" by (meson surj_pair)
  have p1: "lpClosed p1" "lpChan p1 = xs"
    using t x Suc.prems(1) by (auto simp: takeLog_def drainLogs_def Let_def split: if_splits)
  have "(takeLog ^^ Suc (Suc n)) (p, d) = (takeLog ^^ Suc n) (p1, d1)"
    by (simp only: funpow_Suc_right comp_apply t)
  moreover have "map snd (logs (snd ((takeLog ^^ Suc n) (p1, d1)))) = logLines (p1, d1)"
    by (rule Suc.IH [OF p1(1)]) (use x Suc.prems(2) p1(2) in simp)
  moreover have "logLines (p1, d1) = logLines (p, d)" using takeLog_lines [of "(p, d)"] t by simp
  ultimately show ?case by simp
qed

end
