(* ===== verification/Engine_Machine.thy ===== *)
theory Engine_Machine
  imports Engine_Effects Loops
begin

text \<open>
  The engine as a state machine over its memory and the shared database: one rule per call,
  background loop and half of an execution, and one for whatever another engine of the cluster
  commits. It implements the store's state machine, so the store's invariants hold in every
  state a cluster can reach. The values of the generic durable helpers are byte strings here;
  only their encodings reach the database.
\<close>

section \<open>Steps\<close>

inductive engine_step ::
  "driver \<Rightarrow> promise \<Rightarrow> ('c, 'h) engine \<times> db \<Rightarrow> ('c, 'h) engine \<times> db \<Rightarrow> bool" for drv W where
  peer: "store_step drv W d d' \<Longrightarrow> engine_step drv W (e, d) (e, d')"
| register: "task_ok W def \<Longrightarrow> engine_step drv W ed (RegisterTask def now ed)"
| forget: "engine_step drv W (e, d) (ForgetTask n e, d)"
| configure: "e' \<in> {SetQueue q n e, SetRateLimit q k w e, Use_mw mw e} \<Longrightarrow> engine_step drv W (e, d) (e', d)"
| enqueues: "reqs_ok W reqs \<Longrightarrow> peers drv W others \<Longrightarrow>
    engine_step drv W ed (snd (EnqueueBatch (backendOf drv) others now reqs ed))"
| enqueueTx: "reqs_ok W reqs \<Longrightarrow> engine_step drv W ed (snd (EnqueueBatchOnTx (backendOf drv) now reqs ed))"
| poll: "engine_step drv W (e, d) (pollWaiter r h d e, d)"
| schedule: "tick (backendOf drv) now ed = (r, spawned, ed') \<Longrightarrow> engine_step drv W ed ed'"
| begins: "engine_step drv W ed (snd (beginExecute now c ed))"
| ends: "unfinishedBy (clStep c) (snd ed) \<Longrightarrow> claim_ok W (clStep c) \<Longrightarrow>
    engine_step drv W ed (finishExecute (backendOf drv) now c def fin ed)"
| sleeps: "engine_step drv W (e, d) (e, snd (snd (sleep now dur ss d)))"
| runs_once: "engine_step drv W (e, d) (e, snd (snd (snd (runOnce marshal unmarshal (zero :: bytes) key out ss d))))"
| waits: "engine_step drv W (e, d) (e, snd (snd (WaitFor unmarshal (zero :: bytes) now event t ss d)))"
| flush: "engine_step drv W ed (flushCompletions (backendOf drv) ed)"
| control: "ed' \<in> {snd (Cancel_run i now ed), snd (Snooze_run i now ed), snd (Pause_run i now ed),
      snd (Resume_run i now ed), snd (Retry_dead_letter i now ed), snd (Dismiss_dead_letter i ed),
      Pause_queue q now ed, Resume_queue q ed} \<Longrightarrow> engine_step drv W ed ed'"
| cron_register: "(\<And>df. def = Some df \<Longrightarrow> task_ok W df) \<Longrightarrow>
    engine_step drv W ed (snd (RegisterCron parse name spec def input now ed))"
| event_register: "(\<And>df. def = Some df \<Longrightarrow> task_ok W df) \<Longrightarrow>
    engine_step drv W ed (snd (RegisterEvent event def now ed))"
| unregister: "ed' \<in> {RemoveCron name ed, RemoveEvent event name ed} \<Longrightarrow> engine_step drv W ed ed'"
| cron: "(\<And>n. hexDigits (rnd n)) \<Longrightarrow> engine_step drv W ed (cronTick (backendOf drv) now rnd ed)"
| emit: "peers drv W others \<Longrightarrow> (\<And>k. hexDigits (rnds k)) \<Longrightarrow>
    engine_step drv W ed (snd (Emit (backendOf drv) others veto now name payload rnds ed))"
| heartbeats: "engine_step drv W ed (heartbeatTick now ed)"
| reaps: "engine_step drv W ed (reapTick now ed)"
| retains: "engine_step drv W (e, d) (e, runRetention now policy d)"
| logs: "drainLogs (p, d) = (p', d') \<Longrightarrow> engine_step drv W (e, d) (e, d')"
| starts: "engine_step drv W ed (Start parse ed)"
| closes: "(\<And>x. refines drv W x (drain x)) \<Longrightarrow> engine_step drv W ed (Close (backendOf drv) drain now ed)"

text \<open>A cluster starts on an empty database; an engine is created over the database as it is.\<close>

inductive engine_reachable :: "driver \<Rightarrow> promise \<Rightarrow> ('c, 'h) engine \<Rightarrow> db \<Rightarrow> bool" for drv W where
  boot: "reachable drv W d \<Longrightarrow> engine_reachable drv W (newEngine (backendOf drv) codec rnd opts) d"
| steps: "engine_reachable drv W e d \<Longrightarrow> engine_step drv W (e, d) (e', d') \<Longrightarrow> engine_reachable drv W e' d'"

section \<open>Refinement\<close>

lemma store_steps_single: "store_step drv W d d' \<Longrightarrow> store_steps drv W d d'"
  by (rule r_into_rtranclp)

lemma store_steps_sleep: "store_steps drv W d (snd (snd (sleep now dur ss d)))"
  by (auto simp: sleep_def Let_def split_beta split: sum.split option.split
      intro!: store_steps_single intro: store_step.intros)

lemma store_steps_finishOnce: "store_steps drv W d (snd (snd (finishOnce marshal pos idx out ss d)))"
  by (auto simp: finishOnce_def split: sum.split option.split intro!: store_steps_single once)

lemma store_steps_runOnce: "store_steps drv W d (snd (snd (snd (runOnce marshal unmarshal zero key out ss d))))"
proof -
  have "store_steps drv W d (snd (snd (finishOnce marshal pos idx out ss' d1)))"
    if "AppendJournal j d = Inr d1" for j d1 pos idx ss'
    by (rule converse_rtranclp_into_rtranclp [of "store_step drv W", OF store_step.append [OF that] store_steps_finishOnce])
  then show ?thesis
    using store_steps_finishOnce
    by (auto simp: runOnce_def Let_def split_beta split: sum.split option.split)
qed

lemma store_steps_waitFor: "store_steps drv W d (snd (snd (waitFor unmarshal zero now event t ss d)))"
proof -
  have "store_steps drv W d (snd (waitTimeout unmarshal zero idx ss d))" for idx
  proof -
    obtain d' won where t: "TimeoutWait (ssStepID ss) idx d = (d', won)" by (meson surj_pair)
    have "store_step drv W d d'" using timeout [of drv W d "ssStepID ss" idx] t by simp
    with t show ?thesis by (auto simp: waitTimeout_def split: option.split)
  qed
  then show ?thesis
    by (auto simp: waitFor_def Let_def split_beta split: sum.split option.split
        intro!: store_steps_single intro: store_step.intros)
qed

lemma refines_runRetention: "refines drv W (e, d) (e, runRetention now policy d)"
  by (auto simp: runRetention_def split: option.split sum.split intro!: refines_step intro: store_step.purge)

lemma refines_drainLogs: "drainLogs (p, d) = (p', d') \<Longrightarrow> refines drv W (e, d) (e, d')"
  by (auto simp: drainLogs_def split: if_splits intro!: refines_step intro: small [where es = "lpBatch p"])

lemma engine_step_refines:
  assumes "engine_step drv W ed ed'"
  shows "refines drv W ed ed'"
  using assms
proof (cases rule: engine_step.cases)
  case (schedule now r spawned)
  then show ?thesis by (metis refines_tick surj_pair)
next
  case (register def now)
  then show ?thesis using refines_RegisterTask by (metis surj_pair)
next
  case (forget e d n)
  then show ?thesis by (auto simp: refines_def engine_ok_def ForgetTask_def)
next
  case (configure e' q n e k w mw d)
  then show ?thesis by (auto intro!: refines_engine simp: Use_mw_def)
next
  case (heartbeats now)
  then show ?thesis by (cases ed) (auto simp: heartbeatTick_def intro: refines_step heartbeat)
next
  case (reaps now)
  obtain e d where ed: "ed = (e, d)" by (meson surj_pair)
  obtain d1 n where r: "ReapExpired now 200 d = (d1, n)" by (meson surj_pair)
  have "store_step drv W d d1" using reap [of drv W d now 200] r by simp
  with reaps ed r show ?thesis by (auto simp: reapTick_def intro: refines_step)
next
  case (sleeps e d now dur ss)
  then show ?thesis by (auto intro: refines_same store_steps_sleep)
next
  case (runs_once e d marshal unmarshal zero key out ss)
  then show ?thesis by (auto intro: refines_same store_steps_runOnce)
next
  case (waits e d unmarshal zero now event t ss)
  then show ?thesis by (auto simp: WaitFor_def intro: refines_same store_steps_waitFor)
next
  case (peer d d' e)
  then show ?thesis by (auto intro: refines_step)
next
  case (poll e d r h)
  then show ?thesis by (auto intro: refines_engine)
next
  case (control i now q)
  then show ?thesis
    by (elim insertE emptyE; hypsubst) (rule refines_control refines_queues)+
next
  case (closes drain now)
  then show ?thesis using refines_Close by blast
qed (auto intro: refines_EnqueueBatch refines_EnqueueBatchOnTx refines_beginExecute
    refines_finishExecute refines_flush refines_RegisterCron refines_RegisterEvent refines_remove
    refines_cronTick refines_Emit refines_Start refines_runRetention refines_drainLogs)

lemma engine_reachable_store:
  assumes "engine_reachable drv W e d"
  shows "reachable drv W d" and "engine_ok W e"
proof -
  have "reachable drv W d \<and> engine_ok W e"
    using assms
  proof (induction rule: engine_reachable.induct)
    case (boot d codec rnd opts)
    then show ?case by (simp add: engine_ok_def newEngine_def)
  next
    case (steps e d e' d')
    then have "refines drv W (e, d) (e', d')" using engine_step_refines by blast
    with steps show ?case by (auto simp: refines_def intro: reachable_steps)
  qed
  then show "reachable drv W d" "engine_ok W e" by simp_all
qed

end
