(* ===== verification/Progress.thy ===== *)
theory Progress
  imports Quiet Complete_Laws Dag_Laws
begin

text \<open>
  No lost wake-up. A BLOCKED step is waiting for something: one of its dependencies has not
  succeeded. That holds in every reachable database because a completion queues exactly the
  dependents it makes ready and nothing else makes a step succeed. It rests on what the engine
  promises of its calls: step ids are \<open>run/name\<close> with a run id free of slashes, a run's steps are
  submitted with the run, and a completion names its own step. With an acyclic dependency graph
  a run is never stuck: behind a blocked step there is one that something will still move, or
  one that has failed and so ended the run.
\<close>

section \<open>What the engine promises\<close>

definition named :: "step \<Rightarrow> bool" where
  "named s \<longleftrightarrow> sID s = sRunID s @ ''/'' @ sName s \<and> CHR ''/'' \<notin> set (sRunID s)"

definition tidy :: "run \<Rightarrow> step \<Rightarrow> bool" where
  "tidy r s \<longleftrightarrow> named s \<and> sRunID s = rID r \<and> (sStatus s = Blocked \<longrightarrow> sDependsOn s \<noteq> [])"

definition addressed :: "completion \<Rightarrow> bool" where
  "addressed c \<longleftrightarrow> coStepID c = coRunID c @ ''/'' @ coName c \<and> CHR ''/'' \<notin> set (coRunID c)"

definition tidy_promise :: promise where
  "tidy_promise = \<lparr>pmStep = tidy, pmDone = addressed\<rparr>"

lemma tidy_promise_sel [simp]: "pmStep tidy_promise = tidy" "pmDone tidy_promise = addressed"
  by (simp_all add: tidy_promise_def)

lemma split_id:
  assumes "x @ ''/'' @ m = y @ ''/'' @ n" and "CHR ''/'' \<notin> set x" and "CHR ''/'' \<notin> set y"
  shows "x = y \<and> m = n"
proof -
  have "takeWhile (\<lambda>c. c \<noteq> CHR ''/'') (z @ ''/'' @ k) = z" if "CHR ''/'' \<notin> set z" for z k :: string
    using that by (subst takeWhile_append2) (auto simp: takeWhile_eq_Nil_iff)
  with assms have "x = y" by metis
  with assms(1) show ?thesis by simp
qed

lemma addressed_row:
  "named t \<Longrightarrow> addressed c \<Longrightarrow> sID t = coStepID c \<Longrightarrow> sRunID t = coRunID c \<and> sName t = coName c"
  by (intro split_id) (simp_all add: named_def addressed_def)

section \<open>Blocked steps wait\<close>

definition waits_ok :: "db \<Rightarrow> bool" where
  "waits_ok d \<longleftrightarrow> (\<forall>s \<in> set (steps d). named s \<and> (sStatus s = Blocked \<longrightarrow> \<not> dep_ok d s))"

lemma waits_okD:
  "waits_ok d \<Longrightarrow> s \<in> set (steps d) \<Longrightarrow> named s"
  "waits_ok d \<Longrightarrow> s \<in> set (steps d) \<Longrightarrow> sStatus s = Blocked \<Longrightarrow> \<not> dep_ok d s"
  by (simp_all add: waits_ok_def)

definition idle :: "step \<Rightarrow> step \<Rightarrow> bool" where
  "idle s s' \<longleftrightarrow> same_rows s s' \<and> (\<forall>st \<in> {Succeeded, Blocked}. sStatus s' = st \<longrightarrow> sStatus s = st)"

lemma quiet_idle: "quiet d d' \<Longrightarrow> moves idle d d'"
  by (erule moves_mono) (auto simp: idle_def keeps_def)

lemma dep_ok_idle:
  assumes "moves idle d d'" and "same_rows s s'" and "dep_ok d' s'"
  shows "dep_ok d s"
  unfolding dep_ok_def
proof
  fix n assume "n \<in> set (sDependsOn s)"
  with assms(2,3) obtain t' where t': "t' \<in> set (steps d')" "sRunID t' = sRunID s" "sName t' = n" "sStatus t' = Succeeded"
    by (auto simp: dep_ok_def same_rows_def)
  obtain t where "t \<in> set (steps d)" "idle t t'" by (rule moves_row [OF assms(1) t'(1)])
  with t' show "\<exists>t \<in> set (steps d). sRunID t = sRunID s \<and> sName t = n \<and> sStatus t = Succeeded"
    by (intro bexI [of _ t]) (simp_all add: idle_def same_rows_def)
qed

lemma waits_ok_idle:
  assumes "moves idle d d'" and "waits_ok d"
  shows "waits_ok d'"
  unfolding waits_ok_def
proof
  fix s' assume "s' \<in> set (steps d')"
  then obtain s where s: "s \<in> set (steps d)" "idle s s'" by (rule moves_row [OF assms(1)])
  then have "named s'" using waits_okD(1) [OF assms(2) s(1)] by (simp add: named_def idle_def same_rows_def)
  moreover have "\<not> dep_ok d' s'" if "sStatus s' = Blocked"
    using s that waits_okD(2) [OF assms(2) s(1)] dep_ok_idle [OF assms(1), of s s'] by (auto simp: idle_def)
  ultimately show "named s' \<and> (sStatus s' = Blocked \<longrightarrow> \<not> dep_ok d' s')" by blast
qed

lemmas dep_ok_quiet = dep_ok_idle [OF quiet_idle]
lemmas waits_ok_quiet = waits_ok_idle [OF quiet_idle]

lemma names_unique_named:
  assumes "distinct (map sID (steps d))" and "waits_ok d"
  shows "names_unique d i"
proof -
  let ?xs = "filter (\<lambda>s. sRunID s = i) (steps d)"
  have "map sID ?xs = map (\<lambda>n. i @ ''/'' @ n) (map sName ?xs)"
    using waits_okD(1) [OF assms(2)] by (auto simp: named_def)
  moreover have "distinct (map sID ?xs)" using assms(1) by (rule distinct_map_filter)
  ultimately have "distinct (map (\<lambda>n. i @ ''/'' @ n) (map sName ?xs))" by (simp only:)
  then show ?thesis unfolding names_unique_def by (metis distinct_map)
qed

section \<open>A completion\<close>

lemma dep_ok_success:
  assumes "waits_ok d" and "addressed c"
    and "dep_ok (upd_steps (liveStep (coStepID c)) (succeedRow out now) d) s" and "\<not> dep_ok d s"
  shows "sRunID s = coRunID c \<and> coName c \<in> set (sDependsOn s)"
proof -
  from assms(4) obtain n where n: "n \<in> set (sDependsOn s)"
    "\<not> (\<exists>t \<in> set (steps d). sRunID t = sRunID s \<and> sName t = n \<and> sStatus t = Succeeded)"
    by (auto simp: dep_ok_def)
  with assms(3) obtain t' where t': "t' \<in> set (steps (upd_steps (liveStep (coStepID c)) (succeedRow out now) d))"
    "sRunID t' = sRunID s" "sName t' = n" "sStatus t' = Succeeded"
    unfolding dep_ok_def by blast
  from t'(1) obtain t where t: "t \<in> set (steps d)"
    "t' = (if liveStep (coStepID c) t then succeedRow out now t else t)"
    by (auto elim!: in_update_whereE)
  then have "liveStep (coStepID c) t" using n(2) t'(2-4) by (auto split: if_splits)
  then have "sID t = coStepID c" "sRunID t = sRunID s" "sName t = n"
    using t(2) t'(2,3) by (simp_all add: liveStep_def succeedRow_def)
  with addressed_row [OF waits_okD(1) [OF assms(1) t(1)] assms(2)]
  have "sRunID t = coRunID c \<and> sName t = coName c" by simp
  with n(1) \<open>sRunID t = sRunID s\<close> \<open>sName t = n\<close> show ?thesis by simp
qed

lemma named_succeedRow [simp]: "named (succeedRow out now s) \<longleftrightarrow> named s"
  by (simp add: named_def succeedRow_def)

lemma dep_ok_row: "sRunID s = sRunID t \<Longrightarrow> sDependsOn s = sDependsOn t \<Longrightarrow> dep_ok d s = dep_ok d t"
  by (simp add: dep_ok_def)

lemma blocked_before:
  assumes "s \<in> set (steps (upd_steps (liveStep i) (succeedRow out now) d))" and "sStatus s = Blocked"
  shows "s \<in> set (steps d)"
  using assms by (auto elim!: in_update_whereE)

lemma waits_ok_single:
  assumes "waits_ok d" and "addressed c" and "stepCount (coRunID c) d = 1"
    and "count_where (liveStep (coStepID c)) (steps d) \<noteq> 0"
  shows "waits_ok (upd_steps (liveStep (coStepID c)) (succeedRow out now) d)"
  unfolding waits_ok_def
proof (intro ballI conjI impI notI)
  let ?d1 = "upd_steps (liveStep (coStepID c)) (succeedRow out now) d"
  fix s assume s: "s \<in> set (steps ?d1)"
  then show "named s" using assms(1) by (auto elim!: in_update_whereE dest: waits_okD)
  assume b: "sStatus s = Blocked" and "dep_ok ?d1 s"
  have s0: "s \<in> set (steps d)" using s b by (rule blocked_before)
  with b \<open>dep_ok ?d1 s\<close> have run: "sRunID s = coRunID c"
    using dep_ok_success [OF assms(1,2)] waits_okD(2) [OF assms(1)] by blast
  obtain t where t: "t \<in> set (steps d)" "liveStep (coStepID c) t"
    using assms(4) by (auto simp: count_where_eq_0)
  have "sRunID t = coRunID c"
    using addressed_row [OF waits_okD(1) [OF assms(1) t(1)] assms(2)] t(2) by (simp add: liveStep_def)
  then have "t \<in> set (filter (\<lambda>t. sRunID t = coRunID c) (steps d))" using t(1) by simp
  with t(2) b show False unfolding single_step [OF assms(3) s0 run] by (simp add: liveStep_def)
qed

lemma waits_ok_unblock:
  assumes "integrity d" and "waits_ok d" and "addressed c"
  shows "waits_ok (fst (unblockReadyTx (backendOf drv) (coRunID c) (coName c) now' res
    (upd_steps (liveStep (coStepID c)) (succeedRow out now) d)))"
    (is "waits_ok (fst ?u)")
  unfolding waits_ok_def
proof (intro ballI conjI impI notI)
  let ?d1 = "upd_steps (liveStep (coStepID c)) (succeedRow out now) d"
  have dist: "distinct (map sID (steps ?d1))"
    using integrityD(2) [OF assms(1)] by (simp add: map_key_update_where succeedRow_def)
  have uniq: "names_unique ?d1 (coRunID c)"
  proof -
    have "map sName (filter (\<lambda>s. sRunID s = i) (update_where P (succeedRow out now) xs)) =
        map sName (filter (\<lambda>s. sRunID s = i) xs)" for i P xs
      by (induction xs) (auto simp: succeedRow_def)
    with names_unique_named [OF integrityD(2) [OF assms(1)] assms(2), of "coRunID c"] show ?thesis
      by (simp add: names_unique_def)
  qed
  have blocked: "BlockedDependents (backendOf drv) ?d1 (coRunID c) st (coName c) =
      filter (\<lambda>s. sRunID s = coRunID c \<and> sStatus s = st \<and> coName c \<in> set (sDependsOn s)) (steps ?d1)" for st
    by (simp add: shipped.blocked_dependents)
  note rows = unblock_rows(1) [OF dist uniq blocked, of now' res]
  fix s assume "s \<in> set (steps (fst ?u))"
  then have s: "s \<in> set (update_where (\<lambda>s. sRunID s = coRunID c \<and> sStatus s = Blocked \<and>
      coName c \<in> set (sDependsOn s) \<and> dep_ok ?d1 s) (\<lambda>s. s\<lparr>sStatus := Queued, sRunAt := now'\<rparr>) (steps ?d1))"
    unfolding rows .
  show "named s" using s assms(2)
    by (auto elim!: in_update_whereE dest: waits_okD simp: named_def succeedRow_def)
  assume b: "sStatus s = Blocked" and ok: "dep_ok (fst ?u) s"
  have s1: "s \<in> set (steps ?d1)" "\<not> (sRunID s = coRunID c \<and> coName c \<in> set (sDependsOn s) \<and> dep_ok ?d1 s)"
    using s b by (auto elim!: in_update_whereE)
  have "quiet ?d1 (fst ?u)" by (rule quiet_unblockReadyTx [OF prod.collapse [symmetric]])
  then have "dep_ok ?d1 s" by (rule dep_ok_quiet [OF _ _ ok]) (simp add: same_rows_def)
  with s1(2) dep_ok_success [OF assms(2,3), of out now s] have "dep_ok d s" by blast
  with waits_okD(2) [OF assms(2) blocked_before [OF s1(1) b] b] show False by simp
qed

lemma waits_ok_CompleteStep:
  assumes "integrity d" and "waits_ok d" and "addressed c"
    and "CompleteStep (backendOf drv) (coStepID c) (coRunID c) (coName c) out now d = Inr (d', res)"
  shows "waits_ok d'"
proof -
  let ?live = "liveStep (coStepID c)"
  let ?d1 = "upd_steps ?live (succeedRow out now) d"
  let ?res = "zeroResult\<lparr>crStepDone := True, crRunStatus := Some Running\<rparr>"
  obtain d2 r2 where u: "unblockReadyTx (backendOf drv) (coRunID c) (coName c) now ?res ?d1 = (d2, r2)"
    by (meson surj_pair)
  have 0: "waits_ok (upd_steps ?live (\<lambda>s. s\<lparr>sStatus := Cancelled, sCompletedAt := now\<rparr>) d)"
    by (rule waits_ok_quiet [OF quiet_upd_steps assms(2)]) simp
  have 1: "waits_ok (endRun i e st o' m now ?d1)"
    if "stepCount (coRunID c) d = 1" "count_where ?live (steps d) \<noteq> 0" for i e st o' m
    by (rule waits_ok_quiet [OF quiet_endRun waits_ok_single [OF assms(2,3) that]])
  have 2: "waits_ok d2"
    using waits_ok_unblock [OF assms(1-3), of drv now ?res out now] u by simp
  have 3: "waits_ok (endRun i e st o' m now d2)" for i e st o' m
    by (rule waits_ok_quiet [OF quiet_endRun 2])
  from assms(4) 0 1 2 3 assms(2) show ?thesis
    unfolding CompleteStep_def completeStepTx_def Let_def u prod.case
    by (auto split: option.splits if_splits)
qed

lemma waits_ok_completeSeq:
  "integrity d \<Longrightarrow> waits_ok d \<Longrightarrow> (\<And>c. c \<in> set cs \<Longrightarrow> addressed c) \<Longrightarrow>
     completeSeq (backendOf drv) cs d = Inr (d', rs) \<Longrightarrow> waits_ok d'"
proof (induction cs arbitrary: d rs)
  case (Cons c cs)
  from Cons.prems(4) obtain d1 r1 rs1 where
    1: "CompleteStep (backendOf drv) (coStepID c) (coRunID c) (coName c) (coOutput c) (coNow c) d = Inr (d1, r1)" and
    2: "completeSeq (backendOf drv) cs d1 = Inr (d', rs1)"
    by (auto split: sum.splits prod.splits)
  have "integrity d1"
    using shipped.integrity_completeStepTx [OF Cons.prems(1)] 1 by (auto simp: CompleteStep_def)
  moreover have "waits_ok d1"
    by (rule waits_ok_CompleteStep [OF Cons.prems(1,2) _ 1]) (simp add: Cons.prems(3))
  ultimately show ?case using Cons.IH [OF _ _ _ 2] Cons.prems(3) by simp
qed simp

section \<open>Inserts and retries\<close>

lemma waits_ok_insertRunsTx:
  assumes "integrity d" and "waits_ok d" and "newItems tidy rs" and "insertRunsTx be rs d = Inr d'"
  shows "waits_ok d'"
proof -
  let ?new = "concat (map snd rs)"
  have w: "steps d' = steps d @ map stepRow ?new" "runs d' = runs d @ map runRow (map fst rs)"
    using insertRunsTx_written [OF assms(4)] by (simp_all add: written_def)
  have "integrity d'"
    by (rule integrity_insertRunsTx [OF assms(1,4)]) (use assms(3) in \<open>auto simp: newItems_def\<close>)
  then have "distinct (map rID (runs d'))" by (rule integrityD(1))
  then have fresh: "rID r \<notin> rID ` set (runs d)" if "r \<in> set (map fst rs)" for r
    using that unfolding w(2) by (auto simp: runRow_def)
  have new: "newStep s \<and> named s \<and> (sStatus s = Blocked \<longrightarrow> sDependsOn s \<noteq> []) \<and> sRunID s \<notin> rID ` set (runs d)"
    if "s \<in> set ?new" for s
  proof -
    from that obtain r ss where r: "(r, ss) \<in> set rs" "s \<in> set ss" by auto
    have "r \<in> set (map fst rs)" using r(1) by force
    with fresh assms(3) r show ?thesis by (fastforce simp: newItems_def tidy_def)
  qed
  have old: "dep_ok d s" if "dep_ok d' s" for s
    using that new unfolding dep_ok_def w(1)
    by (fastforce simp: stepRow_def newStep_def)
  show ?thesis
    unfolding waits_ok_def
  proof (intro ballI conjI impI notI)
    fix s assume s: "s \<in> set (steps d')"
    then consider (old) "s \<in> set (steps d)" | (new) t where "t \<in> set ?new" "s = stepRow t"
      unfolding w(1) by auto
    note cs = this
    show "named s"
      using cs by cases (use waits_okD(1) [OF assms(2)] new in \<open>auto simp: named_def stepRow_def\<close>)
    assume b: "sStatus s = Blocked" and "dep_ok d' s"
    then have ok: "dep_ok d s" by (simp add: old)
    show False
      using cs
    proof cases
      case old
      with waits_okD(2) [OF assms(2)] b ok show False by blast
    next
      case (new t)
      then have "sRunID s = sRunID t" "sDependsOn s = sDependsOn t" "sStatus s = sStatus t" by (simp_all add: stepRow_def)
      with \<open>\<And>s. s \<in> set ?new \<Longrightarrow> _\<close> [OF new(1)] b have ne: "sDependsOn s \<noteq> []" and run: "sRunID s \<notin> rID ` set (runs d)" by auto
      from ne obtain n where "n \<in> set (sDependsOn s)" by (cases "sDependsOn s") auto
      with ok obtain x where "x \<in> set (steps d)" "sRunID x = sRunID s" by (auto simp: dep_ok_def)
      with integrityD(3) [OF assms(1)] run show False by metis
    qed
  qed
qed

lemma waits_ok_RetryDeadLetter:
  assumes "integrity d" and "waits_ok d" and "RetryDeadLetter i now d = Inr d'"
  shows "waits_ok d'"
proof -
  let ?g = "\<lambda>s. resetStepRow (reopenStatus s) now s"
  have st: "steps d' = update_where (\<lambda>s. sRunID s = i) ?g (steps d)"
    by (simp add: RetryDeadLetter_eq [OF assms(1,3)])
  have g: "sRunID (?g s) = sRunID s" "sName (?g s) = sName s" "sDependsOn (?g s) = sDependsOn s" "sID (?g s) = sID s"
    "sStatus (?g s) = reopenStatus s" for s by (simp_all add: resetStepRow_def)
  show ?thesis
    unfolding waits_ok_def
  proof (intro ballI conjI impI notI)
    fix s' assume s': "s' \<in> set (steps d')"
    then obtain s where s: "s \<in> set (steps d)" "s' = (if sRunID s = i then ?g s else s)"
      unfolding st by (auto elim!: in_update_whereE)
    then show "named s'" using waits_okD(1) [OF assms(2) s(1)] by (auto simp: named_def g)
    assume b: "sStatus s' = Blocked" and ok: "dep_ok d' s'"
    have rows: "x \<in> set (steps d) \<and> sRunID x \<noteq> i" if "x \<in> set (steps d')" "sStatus x = Succeeded" for x
      using that unfolding st by (auto elim!: in_update_whereE simp: g reopenStatus_def split: if_splits)
    show False
    proof (cases "sRunID s = i")
      case True
      with b s(2) have "sDependsOn s' \<noteq> []" by (auto simp: g reopenStatus_def split: if_splits)
      then obtain n where "n \<in> set (sDependsOn s')" by (cases "sDependsOn s'") auto
      with ok rows True s(2) show False by (fastforce simp: dep_ok_def g)
    next
      case False
      with s(2) have "s' = s" by simp
      have "dep_ok d s" using ok rows unfolding \<open>s' = s\<close> dep_ok_def by blast
      with waits_okD(2) [OF assms(2) s(1)] b \<open>s' = s\<close> show False by simp
    qed
  qed
qed

section \<open>Every reachable database\<close>

interpretation waiting: Enqueue_Invariant be "\<lambda>d. integrity d \<and> waits_ok d" tidy for be
proof
  fix d d' rs i now n
  show "integrity d' \<and> waits_ok d'" if "integrity d \<and> waits_ok d" "newItems tidy rs" "insertRunsTx be rs d = Inr d'"
    using that waits_ok_insertRunsTx sound.insert_ok [of d rs be d'] by (auto simp: newItems_def)
  show "integrity (fst (replaceRunTx i now d)) \<and> waits_ok (fst (replaceRunTx i now d))" if "integrity d \<and> waits_ok d"
    using that waits_ok_quiet [OF quiet_replaceRunTx] integrity_replaceRunTx by blast
  show "integrity (fst (cancelOrDeleteRunTx i now d)) \<and> waits_ok (fst (cancelOrDeleteRunTx i now d))"
    if "integrity d \<and> waits_ok d"
    using that waits_ok_quiet [OF quiet_cancelOrDeleteRunTx] integrity_cancelOrDeleteRunTx by blast
  show "integrity (d\<lparr>counter := n\<rparr>) \<and> waits_ok (d\<lparr>counter := n\<rparr>)" if "integrity d \<and> waits_ok d"
    using that waits_ok_quiet [OF quiet_eq] sound.counter_ok by simp
qed (auto simp: tidy_def named_def)

lemma waits_ok_store_step:
  assumes "store_step drv tidy_promise d d'" and "integrity d" and "waits_ok d"
  shows "waits_ok d'"
  using assms(1)
proof (cases rule: store_step.cases)
  case (enqueue rs stss now cs ps ids reps)
  have "integrity d' \<and> waits_ok d'"
    by (rule waiting.createRunsUniqueTx_ok [OF conjI [OF assms(2,3)]])
      (use enqueue in \<open>auto simp: CreateRunsUnique_def submitted_def\<close>)
  then show ?thesis ..
next
  case (create rs stss)
  then have "insertRunsTx (backendOf drv) (zip rs stss) d = Inr d'"
    by (simp add: CreateRuns_def split: if_splits)
  then show ?thesis
    by (rule waits_ok_insertRunsTx [OF assms(2,3), rotated])
      (use create(1) in \<open>auto simp: submitted_def newItems_def dest: set_zip_leftD\<close>)
next
  case (fire r sts name t u fired)
  let ?d1 = "d\<lparr>crons := update_where (dueCron name t) (\<lambda>c. c\<lparr>cNextAt := u\<rparr>) (crons d)\<rparr>"
  have 1: "integrity ?d1" by (rule integrity_same_core [OF _ assms(2)]) (simp add: same_core_def)
  have 2: "waits_ok ?d1" by (rule waits_ok_quiet [OF quiet_eq assms(3)]) simp
  have "newItems tidy [(r, sts)]" using fire(1) by (simp add: submitted_def newItems_def)
  then show ?thesis
    using fire(2) 2 waits_ok_insertRunsTx [OF 1 2]
    by (auto simp: FireCron_def Let_def split: if_splits sum.splits)
next
  case (claim qs now ws w lease cs)
  have "waits_ok (fst (ClaimDueMulti (backendOf drv) qs now ws w lease d))"
  proof (rule ClaimDueMulti_invariant [where I = waits_ok, OF assms(3)])
    fix st and d :: db and cs assume ok: "waits_ok d"
    obtain d1 cs1 where one: "claimOne (backendOf drv) now w lease st (d, cs) = (d1, cs1)" by (meson surj_pair)
    then have "waits_ok d1"
    proof (cases rule: claimOne_steps)
      case skip
      with ok show ?thesis by simp
    next
      case (claim G f c)
      have "idle s (f s)" if "sID s = sID st \<and> G s" for s
        using claim(2) by (elim disjE) (simp_all add: idle_def same_rows_def resumeRow_def startRow_def)
      then have "moves idle d (upd_steps (\<lambda>s. sID s = sID st \<and> G s) f d)"
        by (intro moves_upd_steps) (simp_all add: idle_def same_rows_def)
      then have "moves idle d d1" by (simp add: moves_def claim(4))
      then show ?thesis using ok by (rule waits_ok_idle)
    qed
    then show "waits_ok (fst (claimOne (backendOf drv) now w lease st (d, cs)))" by (simp add: one)
  qed
  with claim show ?thesis by (metis fst_conv)
next
  case (complete comps rs)
  then show ?thesis
    using waits_ok_completeSeq [OF assms(2,3), of comps drv d' rs] by (simp add: CompleteSteps_seq)
next
  case (retryDead i now)
  then show ?thesis by (rule waits_ok_RetryDeadLetter [OF assms(2,3)])
next
  case (small es c n sub ev tk q now)
  then have "same_core d d'" using same_core_small by blast
  then show ?thesis by (intro waits_ok_quiet [OF quiet_eq assms(3)]) (simp add: same_core_def)
next
  case (finalFail i ri e dl now res)
  then show ?thesis by (intro waits_ok_quiet [OF quiet_FinalFailStep assms(3)])
qed (auto intro!: waits_ok_quiet [OF _ assms(3)] intro: quiet_intros quiet_control quiet_suspend
  quiet_InterruptAll quiet_ReapExpired quiet_recoverInterrupted
  quiet_DeliverEvent [OF assms(2)] quiet_PurgeRuns [OF assms(2)] quiet_insertJournal
  simp: AppendJournal_def CompleteJournalOnce_def TimeoutWait_def)

lemma waits_ok_reachable: "reachable drv tidy_promise d \<Longrightarrow> waits_ok d"
proof (induction rule: reachable.induct)
  case reach_init
  then show ?case by (simp add: waits_ok_def emptyDB_def)
next
  case (reach_step d d')
  then show ?case using waits_ok_store_step integrity_reachable by blast
qed

section \<open>Never stuck\<close>

lemma never_stuck:
  assumes "waits_ok d" and dag: "well_formed_dag ss"
    and rows: "(\<lambda>s. (sName s, sDependsOn s)) ` {s \<in> set (steps d). sRunID s = i} = (\<lambda>r. (srName r, srDeps r)) ` set ss"
    and all: "\<And>s. s \<in> set (steps d) \<Longrightarrow> sRunID s = i \<Longrightarrow> sStatus s = Succeeded \<or> sStatus s = Blocked"
    and s: "s \<in> set (steps d)" "sRunID s = i"
  shows "sStatus s = Succeeded"
proof -
  define V where "V = {n. \<exists>t \<in> set (steps d). sRunID t = i \<and> sName t = n \<and> sStatus t = Succeeded}"
  have row: "\<exists>r \<in> set ss. srName r = sName t \<and> srDeps r = sDependsOn t" if "t \<in> set (steps d)" "sRunID t = i" for t
  proof -
    have "(sName t, sDependsOn t) \<in> (\<lambda>s. (sName s, sDependsOn s)) ` {s \<in> set (steps d). sRunID s = i}"
      using that by auto
    then show ?thesis unfolding rows by force
  qed
  have V: "V \<subseteq> set (map srName ss)" using row by (force simp: V_def)
  have step: "\<exists>t \<in> set (steps d). sRunID t = i \<and> sName t = srName r \<and> sDependsOn t = srDeps r" if "r \<in> set ss" for r
  proof -
    have "(srName r, srDeps r) \<in> (\<lambda>s. (sName s, sDependsOn s)) ` {s \<in> set (steps d). sRunID s = i}"
      unfolding rows using that by force
    then show ?thesis by auto
  qed
  have closed: "srName r \<in> V" if r: "r \<in> set ss" "set (srDeps r) \<subseteq> V" for r
  proof -
    from step [OF r(1)] obtain t where t: "t \<in> set (steps d)" "sRunID t = i" "sName t = srName r" "sDependsOn t = srDeps r" by blast
    then have "dep_ok d t" using r(2) by (force simp: dep_ok_def V_def)
    with all [OF t(1,2)] waits_okD(2) [OF assms(1) t(1)] t show ?thesis by (auto simp: V_def)
  qed
  have deps: "set (srDeps r) \<subseteq> set (map srName ss)" if "r \<in> set ss" for r
    using dag that by (auto simp: well_formed_dag_def)
  have "finite (dependsOn ss)"
    by (rule finite_subset [of _ "set (map srName ss) \<times> set (map srName ss)"]) (use deps in \<open>force simp: dependsOn_def\<close>)+
  then have wf: "wf (dependsOn ss)" using dag by (intro finite_acyclic_wf) (simp_all add: well_formed_dag_def)
  have "\<forall>r \<in> set ss. srName r = n \<longrightarrow> n \<in> V" for n
    using wf
  proof (induction n rule: wf_induct_rule)
    case (less n)
    show ?case
    proof (intro ballI impI)
      fix r assume r: "r \<in> set ss" "srName r = n"
      have "m \<in> V" if "m \<in> set (srDeps r)" for m
      proof -
        have "(m, n) \<in> dependsOn ss" using r that by (auto simp: dependsOn_def)
        moreover from deps [OF r(1)] that have "m \<in> srName ` set ss" by auto
        then obtain q where "q \<in> set ss" "srName q = m" by blast
        ultimately show ?thesis using less by blast
      qed
      then show "n \<in> V" using closed [OF r(1)] r(2) by auto
    qed
  qed
  with row [OF s] have "sName s \<in> V" by auto
  then obtain t where t: "t \<in> set (steps d)" "sRunID t = i" "sName t = sName s" "sStatus t = Succeeded" by (auto simp: V_def)
  show ?thesis
  proof (rule ccontr)
    assume "sStatus s \<noteq> Succeeded"
    with all [OF s] have b: "sStatus s = Blocked" by simp
    from row [OF s] obtain r where r: "r \<in> set ss" "srName r = sName s" "srDeps r = sDependsOn s" by auto
    have "m \<in> V" if "m \<in> set (sDependsOn s)" for m
      using deps [OF r(1)] that r(3) \<open>\<And>n. \<forall>r \<in> set ss. srName r = n \<longrightarrow> n \<in> V\<close> by auto
    then have "dep_ok d s" using s(2) by (force simp: dep_ok_def V_def)
    with waits_okD(2) [OF assms(1) s(1) b] show False by simp
  qed
qed

end
