(* ===== verification/Engine_Promise.thy ===== *)
theory Engine_Promise
  imports Engine_Machine Progress
begin

text \<open>
  The promises of theory Store_Machine that the engine keeps without any condition on its caller:
  the ids it builds are \<open>run/name\<close> with a run id free of slashes, so every task satisfies
  \<open>tidy_promise\<close>, and so does the completion of every claimed row. A key limit holds of the tasks
  whose definition stays below it.
\<close>

declare formatBase36.simps [simp del]

lemma set_formatBase36: "set (formatBase36 n) \<subseteq> set ''0123456789abcdefghijklmnopqrstuvwxyz''"
proof (induction n rule: formatBase36.induct)
  case (1 n)
  have "digit36 k \<in> set ''0123456789abcdefghijklmnopqrstuvwxyz''" if "k < 36" for k
    unfolding digit36_def by (rule nth_mem) (use that in simp)
  with 1 show ?case by (subst formatBase36.simps) simp
qed

lemma newID_slash:
  assumes "hexDigits rnd"
  shows "CHR ''/'' \<notin> set (newID now rnd)"
proof -
  have "CHR ''/'' \<notin> set (formatBase36 n)" for n using set_formatBase36 [of n] by auto
  moreover have "CHR ''/'' \<notin> set rnd" using assms by (auto simp: hexDigits_def)
  ultimately show ?thesis by (auto simp: newID_def)
qed

lemma task_ok_tidy: "task_ok tidy_promise def"
  using newID_slash by (auto simp: task_ok_def tidy_def named_def runOf_def split: if_splits)

lemma task_ok_none: "task_ok no_promise def"
  by (simp add: task_ok_def no_promise_def)

lemma req_ok_tidy: "req_ok tidy_promise req"
  by (simp add: req_ok_def task_ok_tidy)

lemma claim_ok_tidy: "named s \<Longrightarrow> claim_ok tidy_promise s"
  by (simp add: claim_ok_def addressed_def completionOf_def named_def)

lemma claim_ok_reachable: "reachable drv tidy_promise d \<Longrightarrow> s \<in> set (steps d) \<Longrightarrow> claim_ok tidy_promise s"
  using waits_ok_reachable waits_okD(1) claim_ok_tidy by blast

lemma task_ok_key_limit: "k \<noteq> '''' \<Longrightarrow> max 1 (tdKeyLimit def) \<le> int L \<Longrightarrow> task_ok (key_limit k L) def"
  by (auto simp: task_ok_def limit_ok_def buildStep_key)

end
