(* ===== verification/Enqueue_Failure.thy ===== *)
theory Enqueue_Failure
  imports Build_Laws
begin

text \<open>
  A failed enqueue. Whatever makes \<open>EnqueueBatch\<close> fail (a bad request, a veto, a closing engine,
  the store) the batch leaves no row behind and no waiter: the waiters it registered are dropped
  again and the handles that existed before are untouched.
\<close>

text \<open>What preparing a batch leaves alone, and where the ids it builds come from.\<close>

definition prepared :: "('c, 'h) engine \<times> db \<Rightarrow> ('c, 'h) engine \<times> db \<Rightarrow> bool" where
  "prepared ed ed' \<longleftrightarrow> same_core (snd ed) (snd ed') \<and> enWaiters (fst ed') = enWaiters (fst ed) \<and>
     take (length (enHandles (fst ed))) (enHandles (fst ed')) = enHandles (fst ed)"

lemma prepared_refl [simp]: "prepared ed ed"
  by (simp add: prepared_def same_core_def)

lemma take_prefix_trans: "take (length a) b = a \<Longrightarrow> take (length b) c = b \<Longrightarrow> take (length a) c = a"
  by (metis append_eq_conv_conj append.assoc append_take_drop_id)

lemma prepared_trans: "prepared ed ed' \<Longrightarrow> prepared ed' ed'' \<Longrightarrow> prepared ed ed''"
  by (auto simp: prepared_def same_core_def intro: take_prefix_trans)

lemma prepared_registered: "registered drv W ed ed' \<Longrightarrow> prepared ed ed'"
  by (simp add: registered_def prepared_def)

lemma prepareOne_prepared:
  assumes "prepareOne now req rnd ed = (res, ed')"
  shows "prepared ed ed'" and "res = Inr b \<Longrightarrow> rID (buRun b) = newID now rnd"
proof -
  show "prepared ed ed'"
  proof (cases req)
    case (Some q)
    obtain r0 e1 d1 where b: "buildRun q now rnd ed = (r0, (e1, d1))" by (metis surj_pair)
    have "prepared ed (e1, d1)" using prepared_registered [OF registered_buildRun [of SQLite no_promise ed q now rnd]] b by simp
    moreover have "prepared (e1, d1) (fst (newWaiter i e1), d1)" for i by (simp add: prepared_def newWaiter_def same_core_def)
    ultimately show ?thesis
      using assms by (auto simp: prepareOne_def Some b split_beta Let_def split: sum.splits option.splits
          intro: prepared_trans)
  qed (use assms in \<open>auto simp: prepareOne_def\<close>)
  show "rID (buRun b) = newID now rnd" if "res = Inr b"
  proof -
    from assms that obtain q r sts ed1 where q: "buildRun q now rnd ed = (Inr (r, sts), ed1)" "buRun b = r"
      by (auto simp: prepareOne_def split_beta Let_def prod_eq_iff split: option.splits sum.splits)
    obtain e d where "ed = (e, d)" by (meson surj_pair)
    with buildRun_ok(2) [of q now rnd e d r sts ed1] q show ?thesis by simp
  qed
qed

lemma prepareAll_prepared:
  "prepareAll now reqs ed = (res, ed') \<Longrightarrow>
     prepared ed ed' \<and> (\<forall>bs. res = Inr bs \<longrightarrow> map (\<lambda>b. rID (buRun b)) bs = map (\<lambda>rq. newID now (snd rq)) reqs)"
proof (induction now reqs ed arbitrary: res ed' rule: prepareAll.induct)
  case (2 now req rnd qs ed)
  obtain r1 ed1 where p: "prepareOne now req rnd ed = (r1, ed1)" by (meson surj_pair)
  note one = prepareOne_prepared [OF p]
  show ?case
  proof (cases r1)
    case (Inl x)
    with 2(2) p one(1) show ?thesis by auto
  next
    case (Inr b)
    obtain rest ed2 where r: "prepareAll now qs ed1 = (rest, ed2)" by (meson surj_pair)
    with 2(1) [OF p [symmetric] Inr r] 2(2) p Inr one show ?thesis
      by (cases rest) (auto intro: prepared_trans)
  qed
qed auto

text \<open>Dropping the waiters that a batch registered restores the map.\<close>

lemma dropWaiters_registered:
  assumes "\<forall>b \<in> set bs. rID (buRun b) \<notin> fst ` set (enWaiters e)"
  shows "dropWaiters bs (registerWaiters bs e) = e"
proof -
  let ?i = "\<lambda>b :: ('c, 'h) built. rID (buRun b)"
  let ?reg = "\<lambda>bs e. fold (\<lambda>b e :: ('a, 'b) engine. e\<lparr>enWaiters := AList.update (?i b) (buHandle b) (enWaiters e)\<rparr>) bs e"
  have reg: "registerWaiters bs e = e\<lparr>enWaiters := fold (\<lambda>b. AList.update (?i b) (buHandle b)) bs (enWaiters e)\<rparr>"
    for e :: "('a, 'b) engine" and bs :: "('c, 'h) built list"
    by (induction bs arbitrary: e) (simp_all add: registerWaiters_def)
  have drop: "dropWaiters bs e = e\<lparr>enWaiters := filter (\<lambda>p. fst p \<notin> ?i ` set bs) (enWaiters e)\<rparr>"
    for e :: "('a, 'b) engine" and bs :: "('c, 'h) built list"
    by (induction bs arbitrary: e)
      (auto simp: dropWaiters_def AList.delete_eq intro!: arg_cong [where f = "\<lambda>w. e\<lparr>enWaiters := w\<rparr>" for e] filter_cong)
  have upd: "filter (\<lambda>p. fst p \<notin> S) (fold (\<lambda>b. AList.update (?i b) (buHandle b)) bs ws) = filter (\<lambda>p. fst p \<notin> S) ws"
    if "?i ` set bs \<subseteq> S" for bs :: "('c, 'h) built list" and S ws
    using that
  proof (induction bs arbitrary: ws)
    case (Cons b bs)
    have "filter (\<lambda>p. fst p \<notin> S) (AList.update k v ws) = filter (\<lambda>p. fst p \<notin> S) ws" if "k \<in> S" for k v
      using that by (induction ws) auto
    with Cons show ?case by simp
  qed simp
  have "filter (\<lambda>p. fst p \<notin> ?i ` set bs) (enWaiters e) = enWaiters e"
    using assms unfolding filter_id_conv by (metis (no_types, lifting) imageE image_eqI)
  with upd [of bs "?i ` set bs" "enWaiters e"] show ?thesis by (simp add: reg drop)
qed

lemma createAttempts_failed:
  "fst (createAttempts be (\<lambda>k d. d) now bs k n d) = Inl x \<Longrightarrow> snd (createAttempts be (\<lambda>k d. d) now bs k n d) = d"
  by (induction n arbitrary: k) (auto simp: Let_def split: sum.splits if_splits prod.splits)

lemma EnqueueBatch_failed:
  assumes "EnqueueBatch be (\<lambda>k d. d) now reqs (e, d) = (Inl x, (e', d'))"
    and "\<forall>rq \<in> set reqs. newID now (snd rq) \<notin> fst ` set (enWaiters e)"
  shows "prepared (e, d) (e', d')"
proof -
  obtain res e1 d1 where p: "prepareAll now reqs (e, d) = (res, (e1, d1))" by (metis surj_pair)
  note pr = prepareAll_prepared [OF p]
  show ?thesis
  proof (cases res)
    case (Inl y)
    with assms(1) p pr show ?thesis by (auto simp: EnqueueBatch_def split: if_splits)
  next
    case (Inr bs)
    with pr have ids: "map (\<lambda>b. rID (buRun b)) bs = map (\<lambda>rq. newID now (snd rq)) reqs" by blast
    have "rID (buRun b) \<notin> fst ` set (enWaiters e1)" if "b \<in> set bs" for b
    proof -
      have "rID (buRun b) \<in> set (map (\<lambda>b. rID (buRun b)) bs)" using that by simp
      then obtain rq where "rq \<in> set reqs" "rID (buRun b) = newID now (snd rq)" unfolding ids by auto
      with assms(2) pr show ?thesis by (simp add: prepared_def)
    qed
    then have "dropWaiters bs (registerWaiters bs e1) = e1" by (intro dropWaiters_registered) blast
    with assms(1) p pr Inr createAttempts_failed [of be now bs 0 3 d1] show ?thesis
      by (auto simp: EnqueueBatch_def createRuns_def Let_def split_beta split: if_splits sum.splits prod.splits)
  qed
qed

end
