(* ===== verification/Work.thy ===== *)
theory Work
  imports Complete_Laws
begin

text \<open>
  The work left in the database: its unfinished steps. Every completion that the store accepts
  uses one up and no completion creates one, so the number of completions a run can absorb is
  bounded by the number of its steps.
\<close>

definition openSteps :: "db \<Rightarrow> nat" where
  "openSteps d = count_where (\<lambda>s. unfinished (sStatus s)) (steps d)"

lemma openSteps_upd_steps:
  assumes "\<And>s. P s \<Longrightarrow> unfinished (sStatus (f s)) \<Longrightarrow> unfinished (sStatus s)"
  shows "openSteps (upd_steps P f d) \<le> openSteps d"
proof -
  have "count_where (\<lambda>s. unfinished (sStatus s)) (update_where P f xs) \<le> count_where (\<lambda>s. unfinished (sStatus s)) xs" for xs
    using assms by (induction xs) auto
  then show ?thesis by (simp add: openSteps_def)
qed

lemma openSteps_finish:
  assumes "count_where P (steps d) \<noteq> 0"
    and "\<And>s. P s \<Longrightarrow> unfinished (sStatus s) \<and> \<not> unfinished (sStatus (f s))"
  shows "openSteps (upd_steps P f d) + 1 \<le> openSteps d"
proof -
  have "count_where (\<lambda>s. unfinished (sStatus s)) (update_where P f xs) + count_where P xs = count_where (\<lambda>s. unfinished (sStatus s)) xs" for xs
    using assms(2) by (induction xs) auto
  from this [of "steps d"] assms(1) show ?thesis by (simp add: openSteps_def)
qed

lemma openSteps_endRun: "openSteps (endRun i e st out m now d) \<le> openSteps d"
  by (auto simp: openSteps_def endRun_def Let_def deleteEphemeralRunTx_def upd_runs_def
      intro: le_trans [OF count_where_delete_le count_where_delete_le])

lemma openSteps_unblock: "openSteps (fst (unblockReadyTx be i n now res d)) \<le> openSteps d"
proof -
  obtain d' res' where u: "unblockReadyTx be i n now res d = (d', res')" by (meson surj_pair)
  show ?thesis unfolding u fst_conv unblockReadyTx_steps(1) [OF u]
    by (rule openSteps_upd_steps) simp
qed

lemma crStepDone_unblock: "crStepDone (snd (unblockReadyTx be i n now res d)) = crStepDone res"
  by (simp add: unblockReadyTx_def Let_def)

lemma openSteps_CompleteStep:
  assumes "CompleteStep be i r n out now d = Inr (d', res)"
  shows "openSteps d' + (if crStepDone res then 1 else 0) \<le> openSteps d"
proof -
  let ?d1 = "upd_steps (liveStep i) (succeedRow out now) d"
  let ?res = "zeroResult\<lparr>crStepDone := True, crRunStatus := Some Running\<rparr>"
  obtain d2 r2 where u: "unblockReadyTx be r n now ?res ?d1 = (d2, r2)" by (meson surj_pair)
  have 1: "openSteps ?d1 + 1 \<le> openSteps d" if "count_where (liveStep i) (steps d) \<noteq> 0"
    using that by (rule openSteps_finish) (auto simp: liveStep_def)
  have 2: "openSteps (endRun r e st o' m now ?d1) \<le> openSteps ?d1" for e st o' m
    by (rule openSteps_endRun)
  have 3: "openSteps d2 \<le> openSteps ?d1" "crStepDone r2"
    using openSteps_unblock [of be r n now ?res ?d1] crStepDone_unblock [of be r n now ?res ?d1] by (simp_all add: u)
  have 4: "openSteps (endRun r e st o' m now d2) \<le> openSteps d2" for e st o' m
    by (rule openSteps_endRun)
  have 5: "openSteps (upd_steps (liveStep i) (\<lambda>s. s\<lparr>sStatus := Cancelled, sCompletedAt := now\<rparr>) d) \<le> openSteps d"
    by (rule openSteps_upd_steps) simp
  have z: "\<not> crStepDone zeroResult" by (simp add: zeroResult_def)
  show ?thesis
  proof (cases "find_run r d")
    case None
    with assms show ?thesis by (simp add: CompleteStep_def completeStepTx_def)
  next
    case (Some q)
    show ?thesis
      using assms 1 le_trans [OF add_le_mono1 [OF 2] 1] le_trans [OF add_le_mono1 [OF 3(1)] 1]
        le_trans [OF add_le_mono1 [OF le_trans [OF 4 3(1)]] 1] 3(2) 5 z
      unfolding CompleteStep_def completeStepTx_def Some option.case Let_def u prod.case
      by (auto split: if_splits)
  qed
qed

lemma openSteps_CompleteSteps:
  "CompleteSteps be cs d = Inr (d', rs) \<Longrightarrow> openSteps d' + length (filter crStepDone rs) \<le> openSteps d"
  unfolding CompleteSteps_seq
proof (induction cs arbitrary: d rs)
  case (Cons c cs)
  from Cons.prems obtain d1 r1 rs1 where
    1: "CompleteStep be (coStepID c) (coRunID c) (coName c) (coOutput c) (coNow c) d = Inr (d1, r1)" and
    2: "completeSeq be cs d1 = Inr (d', rs1)" "rs = r1 # rs1"
    by (auto split: sum.splits prod.splits)
  from Cons.IH [OF 2(1)] openSteps_CompleteStep [OF 1] 2(2) show ?case by (auto split: if_splits)
qed simp

end
