(* ===== verification/Engine_Theorems.thy ===== *)
theory Engine_Theorems
  imports Engine_Promise Enqueue_Failure Work Sample
begin

text \<open>
  The properties of the engine and of the durable helpers, on top of the laws of the theories it
  imports, each with a witness at a concrete engine and database.
\<close>

section \<open>A concrete engine\<close>

definition sampleTask :: "string \<Rightarrow> (unit, unit) taskDef" where
  "sampleTask n = \<lparr>tdName = n, tdQueue = ''q'', tdMaxAttempts = 3, tdTimeout = 0, tdDelay = (\<lambda>_. 1),
     tdFn = (), tdWrappers = [], tdLabels = [], tdKeyFn = None, tdKeyLimit = 0,
     tdKeyStrategy = ConcurrencyHold, tdExtraKeys = [], tdDeadLetter = False, tdSequenceFn = None,
     tdEphemeral = False\<rparr>"

definition sampleReq :: "(unit, unit) stepReq list \<Rightarrow> (unit, unit) enqueueRequest" where
  "sampleReq ss = \<lparr>erWorkflow = ''wf'', erKind = KindWorkflow, erInput = [], erQueue = ''q'',
     erPriority = 0, erRunAt = None, erParentID = '''', erParentStep = '''', erUniqueKey = '''',
     erConflict = UniqueReuse, erEphemeral = False, erGroups = [], erSteps = ss\<rparr>"

definition stepA :: "(unit, unit) stepReq" where
  "stepA = \<lparr>srName = ''a'', srDeps = [], srDef = Some (sampleTask ''a'')\<rparr>"

definition stepB :: "(unit, unit) stepReq" where
  "stepB = \<lparr>srName = ''b'', srDeps = [''a''], srDef = Some (sampleTask ''b'')\<rparr>"

definition sampleEngine :: "(unit, unit) engine" where
  "sampleEngine = newEngine (backendOf SQLite) () ''1''
     \<lparr>opPoll = 0, opMiddleware = [], opBeforeEnqueue = [], opWorkerLabels = [], opWorkerID = '''',
      opLeaseTTL = 0, opCodec = None\<rparr>"

lemmas sample_engine_defs = sampleEngine_def newEngine_def sampleReq_def sampleTask_def stepA_def stepB_def

lemma sampleEngine_sel [simp]:
  "enQueues sampleEngine = []" "enWaiters sampleEngine = []" "enHandles sampleEngine = []"
  "enPending sampleEngine = []" "enPaused sampleEngine = {}" "enPoll sampleEngine = 50000000"
  "enBeforeEnqueue sampleEngine = []" "enClosing sampleEngine = False" "enStopped sampleEngine = False"
  by (simp_all add: sampleEngine_def newEngine_def)

section \<open>The engine over the store\<close>



text \<open>C31: the validation of a dependency graph accepts exactly the graphs whose steps have
  distinct, non-empty names, depend only on steps of the graph and have no cycle.\<close>

theorem validate_dag_exact: "validateDAG ss = None \<longleftrightarrow> well_formed_dag ss"
  by (rule validateDAG_iff)







section \<open>Scheduling and completing\<close>

text \<open>C34: a scheduler pass respects the queues. It starts at most as many steps of a queue as the queue
  has free slots, none of a paused queue, counts exactly the started ones as in flight, and never
  raises the steps in flight above the queue's concurrency.\<close>

theorem tick_respects_queues:
  assumes "distinct (map fst (enQueues e))" and "tick be now (e, d) = (r, spawned, (e', d'))"
  shows "inFlightOf n e' = inFlightOf n e + int (length (claimsOf n spawned)) \<and>
    inFlightOf n e' \<le> max (inFlightOf n e) (concurrencyOf n e) \<and>
    (n \<in> enPaused e \<longrightarrow> claimsOf n spawned = [])"
  using tick_capacity_lemma [OF assms] by blast

lemma tick_respects_queues_witness:
  "inFlightOf ''q'' (fst (snd (snd (tick (backendOf Postgres) 9 (SetQueue ''q'' 1 sampleEngine, scheduled))))) \<le> 1"
proof -
  let ?e = "SetQueue ''q'' 1 sampleEngine"
  have q: "enQueues ?e = [(''q'', newQueueState 1)]" by (simp add: SetQueue_def Let_def)
  obtain r spawned e' d' where t: "tick (backendOf Postgres) 9 (?e, scheduled) = (r, spawned, (e', d'))" by (metis surj_pair)
  have "distinct (map fst (enQueues ?e))" by (simp add: q)
  with tick_respects_queues [OF this t, of "''q''"] t show ?thesis
    by (simp add: inFlightOf_def concurrencyOf_def q newQueueState_def)
qed

text \<open>C35: the batching completer is only an optimisation: flushing a batch does to the engine and to
  the database what recording its completions one by one does, whether the batch transaction
  commits or fails.\<close>

theorem flush_is_direct:
  "flushCompletions be (e, d) = fold (completeDirect be) (enPending e) (e\<lparr>enPending := []\<rparr>, d)"
  by (rule flush_direct)

section \<open>Durable helpers\<close>

text \<open>A durable sleep sleeps once. The first call records its wake time in the journal, in the
  transaction that suspends the step until then. The re-invocation that reaches the same call with
  that journal returns at once, without touching the store, when the wake time has come, whatever
  duration it is given; before it, it does not return.\<close>

theorem sleep_once:
  assumes "aligned i d" and "0 < dur" and "n = length (LoadJournal i d)"
    and "sleep now dur (replayAt n i d) d = (Suspended_task, ss', d')" and "LoadJournal i d2 = LoadJournal i d'"
  shows "steps d' = update_where (runningStep i) (suspendRow ''sleep'' '''' (now + dur)) (steps d) \<and>
    (if now + dur \<le> now2 then sleep now2 dur2 (replayAt n i d2) d2 = (Returned (), replayAt (n + 1) i d2, d2)
     else fst (sleep now2 dur2 (replayAt n i d2) d2) \<noteq> Returned ())"
proof -
  note first = sleep_first [OF assms(1,2) assms(4) [unfolded assms(3)]]
  have l: "n < length (LoadJournal i d2)" "jKind (LoadJournal i d2 ! n) = JournalSleep"
    "jWakeAt (LoadJournal i d2 ! n) = now + dur"
    unfolding assms(5) first(1) by (simp_all add: assms(3))
  from sleep_replay [OF l(1,2)] l(3) first(3) show ?thesis by simp
qed

lemma sleep_once_witness:
  "fst (sleep 8 3 (replayAt 0 ''1'' (snd (snd (sleep 5 3 (replayAt 0 ''1'' inFlight) inFlight))))
     (snd (snd (sleep 5 3 (replayAt 0 ''1'' inFlight) inFlight)))) = Returned ()"
proof -
  have l: "LoadJournal ''1'' inFlight = []" by (simp add: LoadJournal_def inFlight_def sample_defs)
  obtain r ss' d' where s: "sleep 5 3 (replayAt 0 ''1'' inFlight) inFlight = (r, ss', d')" by (metis surj_pair)
  have t: "takeEntry JournalSleep (replayAt 0 ''1'' inFlight) = (replayAt 1 ''1'' inFlight, Inr (0, None))"
    using takeEntry_new [of JournalSleep "''1''" inFlight] l by simp
  have "SuspendWithJournal j ''sleep'' '''' 8 inFlight \<noteq> Inl x" if "jStepID j = ''1''" for j x
    by (simp add: SuspendWithJournal_def runningStep_def insertJournal_def inFlight_def sample_defs suspendRow_def that)
  then have "fst (sleep 5 3 (replayAt 0 ''1'' inFlight) inFlight) = Suspended_task"
    by (auto simp: sleep_def t Let_def split: sum.split)
  with sleep_once [of "''1''" inFlight 3 0 5 ss' d' d' 8 3] s l show ?thesis by (simp add: aligned_def)
qed

text \<open>C37: a memoized call runs once. When \<open>RunOnce\<close> has called its function and returned a value, every
  later call at the same position with the same key returns that value without calling it and
  without touching the store. The codec must be a round trip on that value.\<close>

theorem run_once_round_trip:
  assumes "aligned i d" and "n \<le> length (LoadJournal i d)"
    and "runOnce marshal unmarshal zero key out (replayAt n i d) d = (Returned v, True, ss', d')"
    and "\<And>b. marshal v = Some b \<Longrightarrow> b \<noteq> [] \<and> unmarshal b = Some v"
  shows "runOnce marshal unmarshal zero key out2 (replayAt n i d') d' = (Returned v, False, replayAt (n + 1) i d', d')"
  using runOnce_memoizes [OF assms(1-3)] runOnce_replay [OF _ assms(4)] by blast

lemma run_once_round_trip_witness:
  "fst (runOnce (\<lambda>b. Some (CHR ''v'' # b)) (\<lambda>b. Some (tl b)) [] ''k'' (Inl ''not called'')
     (replayAt 0 ''1'' (snd (snd (snd (runOnce (\<lambda>b. Some (CHR ''v'' # b)) (\<lambda>b. Some (tl b)) [] ''k'' (Inr ''7'') (replayAt 0 ''1'' inFlight) inFlight)))))
     (snd (snd (snd (runOnce (\<lambda>b. Some (CHR ''v'' # b)) (\<lambda>b. Some (tl b)) [] ''k'' (Inr ''7'') (replayAt 0 ''1'' inFlight) inFlight))))) = Returned ''7''"
proof -
  let ?m = "\<lambda>b :: bytes. Some (CHR ''v'' # b)" and ?u = "\<lambda>b :: bytes. Some (tl b)"
  have l: "LoadJournal ''1'' inFlight = []" by (simp add: LoadJournal_def inFlight_def sample_defs)
  obtain r c ss' d' where s: "runOnce ?m ?u [] ''k'' (Inr ''7'') (replayAt 0 ''1'' inFlight) inFlight = (r, c, ss', d')"
    by (metis surj_pair)
  have "AppendJournal ((newEntry ''1'' 0 JournalOnce)\<lparr>jKey := ''k''\<rparr>) inFlight \<noteq> Inl e" for e
    by (simp add: AppendJournal_def insertJournal_def inFlight_def sample_defs)
  with s have "r = Returned ''7''" "c = True"
    by (auto simp: runOnce_def takeEntry_def l Let_def finishOnce_def split: sum.splits)
  with run_once_round_trip [of "''1''" inFlight 0 ?m ?u "[]" "''k''" "Inr ''7''" "''7''" ss' d' "Inl ''not called''"] s l
  show ?thesis by (simp add: aligned_def)
qed

text \<open>C38: an event and a timeout race for a wait, and exactly one wins. If the delivery commits first,
  the timeout that comes after it returns the payload and changes nothing. If the timeout commits
  first it is reported as such, and a later delivery leaves the consumed wait alone.\<close>

theorem wait_race:
  assumes "integrity d" and "u \<in> set (journal d)" and "waitsFor name d u" and "ssStepID ss = jStepID u"
    and "d1 = fst (DeliverEvent name payload now d)" and "d2 = fst (TimeoutWait (jStepID u) (jIdx u) d)"
  shows "waitTimeout unmarshal zero (jIdx u) ss d1 =
      (waitResult unmarshal zero (u\<lparr>jPayload := payload, jDone := True\<rparr>), d1) \<and>
    waitTimeout unmarshal zero (jIdx u) ss d = (Failed_with ErrWaitTimeout, d2) \<and>
    u\<lparr>jTimedOut := True, jDone := True\<rparr> \<in> set (journal (fst (DeliverEvent name payload now d2)))"
proof (intro conjI)
  let ?u1 = "u\<lparr>jPayload := payload, jDone := True\<rparr>" and ?u2 = "u\<lparr>jTimedOut := True, jDone := True\<rparr>"
  have "?u1 \<in> set (journal d1)"
    using DeliverEvent_row [OF assms(1,2), of name payload now] assms(3,5) by simp
  with waitTimeout_late [of d1 ?u1 ss unmarshal zero] integrity_DeliverEvent [OF assms(1)] assms(4,5)
  show "waitTimeout unmarshal zero (jIdx u) ss d1 = (waitResult unmarshal zero ?u1, d1)" by simp
  have undone: "\<not> jDone u" using assms(3) by (simp add: waitsFor_def)
  from waitTimeout_wins(1) [OF assms(1,2) undone assms(4)] assms(6)
  show "waitTimeout unmarshal zero (jIdx u) ss d = (Failed_with ErrWaitTimeout, d2)" by simp
  have "?u2 \<in> set (journal d2)" using waitTimeout_wins(2) [OF assms(1,2) undone assms(4)] assms(6) by simp
  with DeliverEvent_row [of d2 ?u2 name payload now] integrity_TimeoutWait [OF assms(1)] assms(6)
  show "?u2 \<in> set (journal (fst (DeliverEvent name payload now d2)))" by (simp add: waitsFor_def)
qed

definition sampleWait :: journalEntry where
  "sampleWait = (newEntry ''1'' 0 JournalWait)\<lparr>jEvent := ''paid'', jDeadline := 9\<rparr>"

definition waitingDB :: db where
  "waitingDB = (sampleDB (sampleRun ''r'' Running) [sampleStep ''1'' ''a'' Running []])\<lparr>journal := [sampleWait]\<rparr>"

lemma wait_race_witness:
  "fst (waitTimeout Some '''' 0 (replayAt 0 ''1'' waitingDB) (fst (DeliverEvent ''paid'' ''ok'' 8 waitingDB))) = Returned ''ok''"
proof -
  have u: "jIdx sampleWait = 0" "jStepID sampleWait = ''1''" "jTimedOut sampleWait = False" "jErr sampleWait = ''''"
    by (simp_all add: sampleWait_def)
  have "integrity waitingDB"
    by (simp add: waitingDB_def sampleWait_def sample_defs integrity_defs dep_ok_def keyed_runs_def)
  moreover have "sampleWait \<in> set (journal waitingDB)" by (simp add: waitingDB_def)
  moreover have "waitsFor ''paid'' waitingDB sampleWait"
    by (simp add: waitsFor_def waitingDB_def sampleWait_def sample_defs)
  ultimately show ?thesis
    using wait_race [where d = waitingDB and u = sampleWait and name = "''paid''" and unmarshal = Some
        and ss = "replayAt 0 ''1'' waitingDB" and payload = "''ok''" and now = 8 and zero = "''''", OF _ _ _ _ refl refl] u
    by (simp add: waitResult_def)
qed

section \<open>Progress\<close>

text \<open>C39: a workflow never gets stuck. In a cluster whose engines submit what they build, if not all
  steps of a run with an acyclic dependency graph have succeeded, one of them is neither SUCCEEDED
  nor BLOCKED: it is due, running or suspended, so that something will move it, or it has ended
  without success and has ended the run with it. No run waits forever on blocked steps only.\<close>

theorem workflow_never_stuck:
  assumes "engine_reachable drv tidy_promise e d" and "well_formed_dag ss"
    and "(\<lambda>s. (sName s, sDependsOn s)) ` {s \<in> set (steps d). sRunID s = i} = (\<lambda>r. (srName r, srDeps r)) ` set ss"
    and "s \<in> set (steps d)" and "sRunID s = i" and "sStatus s \<noteq> Succeeded"
  shows "\<exists>t. t \<in> set (steps d) \<and> sRunID t = i \<and> sStatus t \<noteq> Succeeded \<and> sStatus t \<noteq> Blocked"
proof (rule ccontr)
  assume "\<not> ?thesis"
  then have "sStatus t = Succeeded \<or> sStatus t = Blocked" if "t \<in> set (steps d)" "sRunID t = i" for t
    using that by blast
  with never_stuck [OF waits_ok_reachable [OF engine_reachable_store(1) [OF assms(1)]] assms(2,3)] assms(4-6)
  show False by blast
qed

definition graphSteps :: "step list" where
  "graphSteps = [(sampleStep ''r/a'' ''a'' Queued [])\<lparr>sConcurrencyKey := ''''\<rparr>,
     (sampleStep ''r/b'' ''b'' Blocked [''a''])\<lparr>sConcurrencyKey := ''''\<rparr>]"

lemma graph_created:
  obtains d where "CreateRuns (backendOf SQLite) [sampleRun ''r'' Queued] [graphSteps] emptyDB = Inr d"
    and "steps d = map stepRow graphSteps"
proof -
  let ?i = "insertRunsTx (backendOf SQLite) [(sampleRun ''r'' Queued, graphSteps)] emptyDB"
  have "map_sum (\<lambda>_. ()) (\<lambda>_. ()) ?i = Inr ()" unfolding insertRunsTx_single by code_simp
  then obtain d where d: "?i = Inr d" by (cases ?i) auto
  from insertRunsTx_written [OF d] have "steps d = map stepRow graphSteps" by (simp add: written_def emptyDB_def)
  with d that show thesis by (simp add: CreateRuns_def)
qed

lemma workflow_never_stuck_witness:
  "\<exists>d. CreateRuns (backendOf SQLite) [sampleRun ''r'' Queued] [graphSteps] emptyDB = Inr d \<and>
     (\<exists>t. t \<in> set (steps d) \<and> sRunID t = ''r'' \<and> sStatus t \<noteq> Succeeded \<and> sStatus t \<noteq> Blocked)"
proof -
  from graph_created obtain d where d:
    "CreateRuns (backendOf SQLite) [sampleRun ''r'' Queued] [graphSteps] emptyDB = Inr d" "steps d = map stepRow graphSteps"
    by blast
  let ?b = "stepRow (graphSteps ! 1)"
  have "submitted tidy_promise [sampleRun ''r'' Queued] [graphSteps]"
    by (simp add: submitted_def newRun_def newStep_def tidy_def named_def graphSteps_def sampleStep_def sampleRun_def)
  then have "store_step SQLite tidy_promise emptyDB d" using d(1) by (rule create)
  then have r: "engine_reachable SQLite tidy_promise sampleEngine d"
    unfolding sampleEngine_def by (intro boot reach_step [OF reach_init])
  have g: "well_formed_dag [stepA, stepB]" unfolding validateDAG_iff [symmetric] by code_simp
  have "(\<lambda>s. (sName s, sDependsOn s)) ` {s \<in> set (steps d). sRunID s = ''r''} = (\<lambda>r. (srName r, srDeps r)) ` set [stepA, stepB]"
    unfolding d(2) set_filter [symmetric] set_map [symmetric]
    by (simp add: graphSteps_def sampleStep_def stepRow_def stepA_def stepB_def)
  from workflow_never_stuck [OF r g this, of ?b] d show ?thesis
    by (simp add: graphSteps_def sampleStep_def stepRow_def)
qed

text \<open>C40: completions use up work. Every completion that the store accepts takes one unfinished step
  away and none adds one: a batch accepts at most as many completions as there are unfinished
  steps, so a run of n steps has ended after n accepted completions at the latest.\<close>

theorem completions_use_up_work:
  assumes "CompleteSteps be comps d = Inr (d', results)"
  shows "length (filter crStepDone results) + openSteps d' \<le> openSteps d"
  using openSteps_CompleteSteps [OF assms] by simp

lemma completions_use_up_work_witness:
  "openSteps (case CompleteSteps (backendOf SQLite)
      [\<lparr>coStepID = ''1'', coRunID = ''r'', coName = ''a'', coOutput = [], coNow = 9\<rparr>] inFlight of
     Inl x \<Rightarrow> inFlight | Inr (d', results) \<Rightarrow> d') \<le> 2"
proof -
  let ?c = "CompleteSteps (backendOf SQLite)
      [\<lparr>coStepID = ''1'', coRunID = ''r'', coName = ''a'', coOutput = [], coNow = 9\<rparr>] inFlight"
  have n: "openSteps inFlight = 2" by (simp add: openSteps_def inFlight_def sample_defs)
  show ?thesis
  proof (cases ?c)
    case (Inl x)
    with n show ?thesis by simp
  next
    case (Inr p)
    then obtain d' results where p: "?c = Inr (d', results)" by (cases p) simp
    from completions_use_up_work [OF p] n show ?thesis unfolding p by simp
  qed
qed

end
