(* ===== verification/Stuck_Cron.thy ===== *)
theory Stuck_Cron
  imports Build_Laws Triggers Control_Laws
begin

text \<open>
  A cron that stops. \<open>cronTick\<close> (\<open>internal/engine/cron.go\<close>) moves the next time it keeps in memory also
  when \<open>FireCron\<close> failed or lost the race, while the stored one moves only when the compare-and-set
  succeeds. An engine whose time is ahead of the stored one never fires that cron again.
\<close>

text \<open>The engine's next time for a cron is ahead of the stored one, which lies before \<open>limit\<close>.\<close>

definition ahead :: "time \<Rightarrow> string \<Rightarrow> ('c, 'h) engine \<Rightarrow> db \<Rightarrow> bool" where
  "ahead limit name e d \<longleftrightarrow> enPendingCrons e = [] \<and>
     (\<exists>c t. map_of (enCrons e) name = Some c \<and> ceNext c = Some t \<and> (\<forall>x. x < ceSched c x) \<and>
        (\<forall>row \<in> set (crons d). cName row = name \<longrightarrow> cNextAt row < t \<and> cNextAt row \<le> limit))"

section \<open>Building a run\<close>

text \<open>When no cron waits for its task, building a run leaves the crons and the database alone.\<close>

lemma cronFields [simp]:
  "enCrons (ensureQueue q e) = enCrons e" "enPendingCrons (ensureQueue q e) = enPendingCrons e"
  by (simp_all add: ensureQueue_def)

lemma armSubs_crons:
  "enCrons (fold (\<lambda>s e. e\<lparr>enEventSubs := (enEventSubs e)(asEvent s := enEventSubs e (asEvent s) @ [s])\<rparr>) ss e) = enCrons e \<and>
   enPendingCrons (fold (\<lambda>s e. e\<lparr>enEventSubs := (enEventSubs e)(asEvent s := enEventSubs e (asEvent s) @ [s])\<rparr>) ss e) = enPendingCrons e"
  by (induction ss arbitrary: e) simp_all

lemma takePendingSubs_crons [simp]:
  "enCrons (takePendingSubs task e) = enCrons e" "enPendingCrons (takePendingSubs task e) = enPendingCrons e"
  by (simp_all add: takePendingSubs_def armSubs_crons)

lemma RegisterTask_crons:
  assumes "enPendingCrons e = []" and "RegisterTask def now (e, d) = (e', d')"
  shows "d' = d \<and> enCrons e' = enCrons e \<and> enPendingCrons e' = []"
  using assms by (auto simp: RegisterTask_def takePendingCrons_def persistArmedCrons_def delete_where_def Let_def)

lemma buildSteps_crons:
  "enPendingCrons e = [] \<Longrightarrow> buildSteps req i runAt now n srs (e, d) = (x, (e', d')) \<Longrightarrow>
     d' = d \<and> enCrons e' = enCrons e \<and> enPendingCrons e' = []"
proof (induction srs arbitrary: n e d x e' d')
  case (Cons sr srs)
  show ?case
  proof (cases "srDef sr")
    case (Some df)
    obtain e1 d1 where r: "RegisterTask df now (e, d) = (e1, d1)" by (meson surj_pair)
    obtain y e3 d3 where b: "buildSteps req i runAt now (n + 1) srs (ensureQueue (normQueue (tdQueue df)) e1, d1) = (y, (e3, d3))"
      by (metis surj_pair)
    with Cons.IH [OF _ b] Cons.prems Some r RegisterTask_crons [OF Cons.prems(1) r] show ?thesis by (simp add: Let_def)
  qed (use Cons.prems in simp)
qed simp

lemma buildRun_crons:
  assumes "enPendingCrons e = []" and "buildRun req now rnd (e, d) = (x, (e', d'))"
  shows "d' = d \<and> enCrons e' = enCrons e \<and> enPendingCrons e' = []"
proof -
  obtain y e2 d2 where b: "buildSteps req (newID now rnd) (case erRunAt req of None \<Rightarrow> now | Some t \<Rightarrow> t) now 0 (erSteps req)
      (ensureQueue (runQueue req) e, d) = (y, (e2, d2))" by (metis surj_pair)
  have "enPendingCrons (ensureQueue (runQueue req) e) = []" using assms(1) by simp
  from buildSteps_crons [OF this b] b assms show ?thesis
    by (cases "erSteps req = []"; cases "validateDAG (erSteps req)") (auto simp: buildRun_def Let_def)
qed

section \<open>One cron of a tick\<close>

lemma map_of_setCronNext:
  "map_of (enCrons (setCronNext n t e)) name =
     (if name = n then map_option (\<lambda>c. c\<lparr>ceNext := Some t\<rparr>) (map_of (enCrons e) n) else map_of (enCrons e) name)"
proof -
  have "map_of (update_where (\<lambda>p. fst p = n) (\<lambda>p. (fst p, (snd p)\<lparr>ceNext := Some t\<rparr>)) ps) name =
    (if name = n then map_option (\<lambda>c. c\<lparr>ceNext := Some t\<rparr>) (map_of ps n) else map_of ps name)" for ps :: "(string \<times> cronEntry) list"
    by (induction ps) auto
  from this [of "enCrons e"] show ?thesis by (simp add: setCronNext_def)
qed

lemma setCronNext_pending [simp]: "enPendingCrons (setCronNext n t e) = enPendingCrons e"
  by (simp add: setCronNext_def)

lemma FireCron_rows:
  assumes "FireCron be n t u r sts d = Inr (d', fired)" and "row \<in> set (crons d')" and "cName row \<noteq> n"
  shows "row \<in> set (crons d)"
proof -
  have "crons d' = update_where (dueCron n t) (\<lambda>c. c\<lparr>cNextAt := u\<rparr>) (crons d)"
    using assms(1) by (auto simp: FireCron_def Let_def split: if_splits sum.splits dest: crons_insertRunsTx)
  with assms(2,3) show ?thesis by (auto simp: set_update_where dueCron_def split: if_splits)
qed

lemma FireCron_missed:
  assumes "\<And>row. row \<in> set (crons d) \<Longrightarrow> cName row = n \<Longrightarrow> cNextAt row \<noteq> t"
  shows "FireCron be n t u r sts d = Inr (d, False)"
proof -
  have none: "\<not> dueCron n t row" if "row \<in> set (crons d)" for row using assms that by (auto simp: dueCron_def)
  then have "count_where (dueCron n t) (crons d) = 0" by (simp add: count_where_eq_0)
  moreover have "update_where (dueCron n t) f (crons d) = crons d" for f using none by (rule update_where_id)
  ultimately show ?thesis by (simp add: FireCron_def)
qed

text \<open>The cron that is ahead does not fire, and stays ahead.\<close>

lemma fireOne_ahead:
  assumes "ahead limit name e d" and "limit \<le> now" and "fireOne be now (name, rnd) (e, d) = (e', d')"
  shows "d' = d \<and> ahead limit name e' d"
proof -
  from assms(1) obtain c t where c: "map_of (enCrons e) name = Some c" "ceNext c = Some t" "\<forall>x. x < ceSched c x"
    and rows: "\<And>row. row \<in> set (crons d) \<Longrightarrow> cName row = name \<Longrightarrow> cNextAt row < t \<and> cNextAt row \<le> limit"
    and p: "enPendingCrons e = []" by (auto simp: ahead_def)
  have later: "ahead limit name e2 d" if "enPendingCrons e2 = []" "map_of (enCrons e2) name = Some (c\<lparr>ceNext := Some u\<rparr>)" "now < u" for e2 :: "('a, 'b) engine" and u
    using that c rows assms(2) by (force simp: ahead_def)
  have fire: "FireCron be name t u r sts d = Inr (d, False)" for u r sts
    by (rule FireCron_missed) (use rows in fastforce)
  show ?thesis
  proof (cases "enTasks e (ceTask c)")
    case None
    with assms(3) c(1) have "d' = d" "e' = setCronNext name (now + 5000000000) e" by (simp_all add: fireOne_def)
    then show ?thesis using later [of e' "now + 5000000000"] p c by (simp add: map_of_setCronNext)
  next
    case (Some df)
    obtain x e1 d1 where b: "buildRun (cronRequest c df) now rnd (e, d) = (x, (e1, d1))" by (metis surj_pair)
    note same = buildRun_crons [OF p b]
    show ?thesis
    proof (cases x)
      case (Inl err)
      with assms(1,3) b c(1) Some same show ?thesis by (simp add: fireOne_def ahead_def)
    next
      case (Inr rs)
      with assms(3) b c Some same fire have "d' = d" "e' = setCronNext name (ceSched c now) e1"
        by (auto simp: fireOne_def Let_def split: prod.splits)
      then show ?thesis using later [of e' "ceSched c now"] same c by (simp add: map_of_setCronNext)
    qed
  qed
qed

text \<open>Another cron of the same engine does not change that.\<close>

lemma ahead_same:
  assumes "ahead limit name e d" and "enPendingCrons e' = []" and "map_of (enCrons e') name = map_of (enCrons e) name"
    and "\<And>row. row \<in> set (crons d') \<Longrightarrow> cName row = name \<Longrightarrow> row \<in> set (crons d)"
  shows "ahead limit name e' d'"
  using assms unfolding ahead_def by metis

lemma fireOne_other:
  assumes a: "ahead limit name e d" and "n \<noteq> name" and f: "fireOne be now (n, rnd) (e, d) = (e', d')"
  shows "ahead limit name e' d'"
proof (cases "map_of (enCrons e) n")
  case None
  with a f show ?thesis by (simp add: fireOne_def)
next
  case c: (Some c)
  have p: "enPendingCrons e = []" using a by (simp add: ahead_def)
  show ?thesis
  proof (cases "enTasks e (ceTask c)")
    case None
    with f c have "d' = d" "e' = setCronNext n (now + 5000000000) e" by (simp_all add: fireOne_def)
    with ahead_same [OF a, of e' d'] p assms(2) show ?thesis by (simp add: map_of_setCronNext)
  next
    case (Some df)
    obtain x e1 d1 where b: "buildRun (cronRequest c df) now rnd (e, d) = (x, (e1, d1))" by (metis surj_pair)
    note same = buildRun_crons [OF p b]
    show ?thesis
    proof (cases x)
      case (Inl err)
      with f b c Some have "e' = e1" "d' = d1" by (simp_all add: fireOne_def)
      with ahead_same [OF a, of e' d'] same show ?thesis by simp
    next
      case (Inr rs)
      obtain r sts where rs: "rs = (r, sts)" by (meson surj_pair)
      let ?f = "FireCron be n (case ceNext c of None \<Rightarrow> 0 | Some t \<Rightarrow> t) (ceSched c now) r sts d1"
      show ?thesis
      proof (cases ?f)
        case (Inl err)
        with f b c Some Inr rs have "e' = setCronNext n (ceSched c now) e1" "d' = d1" by (simp_all add: fireOne_def)
        with ahead_same [OF a, of e' d'] same assms(2) show ?thesis by (simp add: map_of_setCronNext)
      next
        case y: (Inr y)
        obtain d2 fired where d2: "y = (d2, fired)" by (meson surj_pair)
        with f b c Some Inr rs y have "d' = d2" "e' = (if fired then wakeScheduler (setCronNext n (ceSched c now) e1) else setCronNext n (ceSched c now) e1)"
          by (simp_all add: fireOne_def Let_def split: if_splits)
        moreover have "row \<in> set (crons d)" if "row \<in> set (crons d2)" "cName row = name" for row
          using FireCron_rows [OF y [unfolded d2] that(1)] that(2) assms(2) same by simp
        ultimately show ?thesis using ahead_same [OF a, of e' d'] same assms(2) by (simp add: map_of_setCronNext wakeScheduler_def)
      qed
    qed
  qed
qed

section \<open>Ticks\<close>

lemma cronTick_ahead:
  assumes "ahead limit name (fst ed) (snd ed)" and "limit \<le> now"
  shows "ahead limit name (fst (cronTick be now rnd ed)) (snd (cronTick be now rnd ed))"
proof -
  have "ahead limit name (fst (fold (\<lambda>n. fireOne be now (n, rnd n)) ns ed)) (snd (fold (\<lambda>n. fireOne be now (n, rnd n)) ns ed))" for ns
    using assms(1)
  proof (induction ns arbitrary: ed)
    case (Cons n ns)
    obtain e d e' d' where ed: "ed = (e, d)" "fireOne be now (n, rnd n) (e, d) = (e', d')" by (metis surj_pair)
    have "ahead limit name e' d'"
    proof (cases "n = name")
      case True
      then show ?thesis using fireOne_ahead [OF _ assms(2), of name e d be "rnd name" e' d'] Cons.prems ed by simp
    next
      case False
      then show ?thesis using fireOne_other [of limit name e d n be now "rnd n" e' d'] Cons.prems ed by simp
    qed
    with Cons.IH [of "(e', d')"] show ?case by (simp add: ed)
  qed simp
  with assms(1) show ?thesis by (simp add: cronTick_def)
qed

text \<open>So the row of the cron never moves again by this engine: no tick fires it.\<close>

lemma stuck_cron_never_fires:
  assumes "ahead limit name (fst ed) (snd ed)" and "\<forall>now \<in> set ticks. limit \<le> now"
  shows "ahead limit name (fst (fold (\<lambda>now. cronTick be now (rnd now)) ticks ed)) (snd (fold (\<lambda>now. cronTick be now (rnd now)) ticks ed))"
  using assms
proof (induction ticks arbitrary: ed)
  case (Cons now ticks)
  from Cons.IH [OF cronTick_ahead [OF Cons.prems(1)]] Cons.prems(2) show ?case by simp
qed simp

text \<open>How an engine gets ahead: a transaction that fails once, although the occurrence was due.\<close>

lemma failed_fire_gets_ahead:
  assumes "map_of (enCrons e) name = Some c" and "\<forall>x. x < ceSched c x" and "enPendingCrons e = []"
    and "\<forall>row \<in> set (crons d). cName row = name \<longrightarrow> cNextAt row \<le> now"
    and "enTasks e (ceTask c) = Some df" and "buildRun (cronRequest c df) now rnd (e, d) = (Inr (r, sts), (e1, d1))"
    and "FireCron be name (case ceNext c of None \<Rightarrow> 0 | Some t \<Rightarrow> t) (ceSched c now) r sts d1 = Inl x"
    and "fireOne be now (name, rnd) (e, d) = (e', d')"
  shows "d' = d \<and> ahead now name e' d'"
proof -
  note same = buildRun_crons [OF assms(3,6)]
  have "d' = d" "e' = setCronNext name (ceSched c now) e1" using assms(1,5-8) same by (simp_all add: fireOne_def)
  moreover have "cNextAt row < ceSched c now" if "row \<in> set (crons d)" "cName row = name" for row
    using assms(4) that assms(2) [rule_format, of now] by fastforce
  ultimately show ?thesis using assms(1,2,4) same by (auto simp: ahead_def map_of_setCronNext)
qed

text \<open>Or a lost race, when the winner fired earlier and its schedule, as \<open>@every\<close> does, counts from the
  time of firing: should the winner stop, the loser does not take over.\<close>

lemma lost_race_gets_ahead:
  assumes "map_of (enCrons e) name = Some c" and "ceNext c = Some t" and "\<forall>x. x < ceSched c x" and "enPendingCrons e = []"
    and rows: "\<forall>row \<in> set (crons d). cName row = name \<longrightarrow> cNextAt row \<noteq> t \<and> cNextAt row < ceSched c now"
    and "enTasks e (ceTask c) = Some df" and b: "buildRun (cronRequest c df) now rnd (e, d) = (Inr (r, sts), (e1, d1))"
    and "fireOne be now (name, rnd) (e, d) = (e', d')"
  shows "d' = d \<and> ahead (ceSched c now) name e' d'"
proof -
  note same = buildRun_crons [OF assms(4) b]
  have "FireCron be name t (ceSched c now) r sts d = Inr (d, False)" by (rule FireCron_missed) (use rows in blast)
  with assms(1,2,6-8) same have "d' = d" "e' = setCronNext name (ceSched c now) e1" by (simp_all add: fireOne_def Let_def)
  then show ?thesis using assms(1,3) rows same by (auto simp: ahead_def map_of_setCronNext order.strict_implies_order)
qed

end
