(* ===== verification/Deviations.thy ===== *)
theory Deviations
  imports Engine_Theorems Stuck_Cron
begin

text \<open>
  Where the code does something else than a comment, a document or the obvious intention says,
  each as a fact about the model.
\<close>

text \<open>\<open>EnqueueOnTx\<close> is documented to return the id of the run. It returns the id it built, also when
  the unique key of the request was held and no run was inserted.\<close>

lemma EnqueueOnTx_returns_new_id:
  assumes "EnqueueOnTx be now (Some q) rnd ed = (Inr i, ed')"
  shows "i = newID now rnd"
proof -
  from assms obtain r sts ed1 where b: "buildRun q now rnd ed = (Inr (r, sts), ed1)" "i = rID r"
    by (auto simp: EnqueueOnTx_def split_beta Let_def prod_eq_iff split: if_splits sum.splits option.splits)
  obtain e d where "ed = (e, d)" by (meson surj_pair)
  with buildRun_ok(2) [of q now rnd e d r sts ed1] b show ?thesis by simp
qed

text \<open>\<open>Engine.ResumeRun\<close> is documented as a no-op on a run that is not paused. It publishes a
  transition from PAUSED to QUEUED all the same, here for a RUNNING run.\<close>

lemma resume_publishes_for_running_run:
  "enEvents (fst (snd (Resume_run ''r'' 9 (sampleEngine, inFlight)))) =
     [\<lparr>beRun = ''r'', beStep = '''', beFrom = Paused, beTo = Queued, beAt = 9, beError = ''''\<rparr>]"
  by (simp add: Resume_run_def ResumeRun_def find_run_def publish_def wakeScheduler_def sampleEngine_def
      newEngine_def inFlight_def sample_defs)

text \<open>\<open>FinalFailStep\<close> writes FAILED without looking at the status of the step: a late failure turns a
  SUCCEEDED step into a FAILED one.\<close>

lemma final_fail_overwrites_success:
  "map_sum (\<lambda>_. ()) (\<lambda>(d', res). map sStatus (steps d')) (FinalFailStep ''1'' ''r'' ''late'' False 9
      (sampleDB (sampleRun ''r'' Running) [sampleStep ''1'' ''a'' Succeeded [], sampleStep ''2'' ''b'' Running [''a'']])) =
     Inr [Failed, Cancelled]"
  by code_simp

text \<open>\<open>GetRunWithSteps\<close> promises terminal steps with a terminal run. \<open>CancelRun\<close> ends the run and leaves
  its RUNNING steps to their executions.\<close>

lemma cancelled_run_has_running_step:
  "map_sum (\<lambda>_. ()) (\<lambda>(d', x). (map rStatus (runs d'), map sStatus (steps d'))) (CancelRun ''r'' 9 inFlight) =
     Inr ([Cancelled], [Running, Cancelled])"
  by code_simp

text \<open>A lease of at most 100 ms is not renewed in time by a healthy worker.\<close>

lemma short_lease_not_renewed: "enLeaseTTL e \<le> 100000000 \<Longrightarrow> enLeaseTTL e \<le> heartbeatInterval e"
  using heartbeatInterval_less [of e] by linarith

text \<open>A pause that reaches a step which then suspends leaves its mark: the next execution of the step
  finds it and puts the step back in the queue although the run may have been resumed.\<close>

lemma suspension_keeps_pause_mark:
  assumes "sID (clStep c) \<in> enPauseSteps e"
  shows "sID (clStep c) \<in> enPauseSteps (fst (finishExecute be now c def TaskSuspended (e, d)))"
  using assms by (simp add: finishExecute_def recordOutcome_def cancelledStep_def leaveExecution_def wakeSlot_def
      updQueue_def publish_def Let_def)

text \<open>At boot, steps are recovered by their own status only. With \<open>RecoverRunningOnBoot(false)\<close> a run is
  FAILED and a QUEUED step of it is claimed all the same; otherwise a step that was RUNNING when its
  run was cancelled is queued again and claimed.\<close>

lemma failed_run_step_claimed:
  "(\<lambda>d. (map rStatus (runs d), map (sID \<circ> clStep) (snd (claimQueueTx (backendOf SQLite) sampleQueue 20 [] ''w'' 30 d))))
     (recoverInterrupted False 9 (sampleDB (sampleRun ''r'' Running)
        [sampleStep ''1'' ''a'' Running [], (sampleStep ''2'' ''b'' Queued [])\<lparr>sConcurrencyKey := []\<rparr>])) = ([Failed], [''2''])"
  by code_simp

lemma cancelled_run_step_claimed:
  "(\<lambda>d. (map rStatus (runs d), map (sID \<circ> clStep) (snd (claimQueueTx (backendOf SQLite) sampleQueue 20 [] ''w'' 30 d))))
     (recoverInterrupted True 9 (sampleDB (sampleRun ''r'' Cancelled) [sampleStep ''1'' ''a'' Running []])) = ([Cancelled], [''1''])"
  by code_simp

end
