(* ===== verification/Retry.thy ===== *)
theory Retry
  imports Prelude Complex_Main
begin

text \<open>
  Retry delays (internal/engine/retry.go, and the constructors of task.go). The code computes in
  float64; the model is exact (rationals), so it ignores rounding and the overflow of a delay
  that leaves 64 bits before it is capped. The random fraction \<open>u\<close> of the jitter is an argument.
\<close>

record Backoff =
  bkBase :: time
  bkFactor :: rat
  bkMax :: time
  bkJitter :: rat

definition withDefaults :: "Backoff \<Rightarrow> Backoff" where
  "withDefaults b =
     \<lparr>bkBase = (if bkBase b \<le> 0 then 500000000 else bkBase b),
      bkFactor = (if bkFactor b \<le> 0 then 2 else bkFactor b),
      bkMax = (if bkMax b \<le> 0 then 30000000000 else bkMax b),
      bkJitter = (if bkJitter b < 0 then 0 else bkJitter b)\<rparr>"

text \<open>The growth loop: it stops at the cap.\<close>

fun growDelay :: "Backoff \<Rightarrow> nat \<Rightarrow> time \<Rightarrow> time" where
  "growDelay b 0 d = d"
| "growDelay b (Suc n) d =
     (let d' = \<lfloor>of_int d * bkFactor b\<rfloor> in if d' \<ge> bkMax b then bkMax b else growDelay b n d')"

definition Delay :: "Backoff \<Rightarrow> rat \<Rightarrow> int \<Rightarrow> time" where
  "Delay b0 u attempt =
     (let b = withDefaults b0;
          n = nat ((if attempt < 1 then 1 else attempt) - 1);
          d = growDelay b n (bkBase b);
          d' = (if d > bkMax b then bkMax b else d)
      in if bkJitter b > 0 then \<lfloor>of_int d' * (1 + bkJitter b * u)\<rfloor> else d')"

definition Exponential :: "time \<Rightarrow> Backoff" where
  "Exponential base = \<lparr>bkBase = base, bkFactor = 2, bkMax = 30000000000, bkJitter = 1 / 10\<rparr>"

definition Constant :: "time \<Rightarrow> Backoff" where
  "Constant d = \<lparr>bkBase = d, bkFactor = 1, bkMax = 0, bkJitter = 0\<rparr>"

definition defaultBackoff :: Backoff where
  "defaultBackoff = Exponential 500000000"

section \<open>Bounds\<close>

lemma withDefaults_pos: "0 < bkBase (withDefaults b)" "0 < bkFactor (withDefaults b)"
  "0 < bkMax (withDefaults b)" "0 \<le> bkJitter (withDefaults b)"
  by (simp_all add: withDefaults_def)

lemma growDelay_nonneg: "0 \<le> d \<Longrightarrow> 0 < bkFactor b \<Longrightarrow> 0 < bkMax b \<Longrightarrow> 0 \<le> growDelay b n d"
  by (induction b n d rule: growDelay.induct) (auto simp: Let_def)

definition uncappedDelay :: "Backoff \<Rightarrow> int \<Rightarrow> time" where
  "uncappedDelay b attempt = min (bkMax (withDefaults b))
     (growDelay (withDefaults b) (nat ((if attempt < 1 then 1 else attempt) - 1)) (bkBase (withDefaults b)))"

lemma Delay_jitter:
  "Delay b u attempt = (if bkJitter (withDefaults b) > 0
     then \<lfloor>of_int (uncappedDelay b attempt) * (1 + bkJitter (withDefaults b) * u)\<rfloor> else uncappedDelay b attempt)"
  by (simp add: Delay_def uncappedDelay_def Let_def min_def)

lemma uncappedDelay_bounds: "0 \<le> uncappedDelay b attempt" "uncappedDelay b attempt \<le> bkMax (withDefaults b)"
  using growDelay_nonneg withDefaults_pos by (auto simp: uncappedDelay_def less_imp_le)

lemma Delay_bounds:
  assumes "0 \<le> u" and "u \<le> 1"
  shows "0 \<le> Delay b u attempt"
    and "of_int (Delay b u attempt) \<le> of_int (bkMax (withDefaults b)) * (1 + bkJitter (withDefaults b))"
proof -
  let ?m = "of_int (bkMax (withDefaults b)) :: rat" and ?j = "bkJitter (withDefaults b)" and ?d = "of_int (uncappedDelay b attempt) :: rat"
  have j: "0 \<le> ?j" by (rule withDefaults_pos)
  have d: "0 \<le> ?d" "?d \<le> ?m" using uncappedDelay_bounds [of b attempt] by simp_all
  have f: "1 \<le> 1 + ?j * u" "1 + ?j * u \<le> 1 + ?j" using j assms by (simp_all add: mult_left_le)
  have le: "?d * (1 + ?j * u) \<le> ?m * (1 + ?j)" using d f by (intro mult_mono) simp_all
  have nn: "0 \<le> ?d * (1 + ?j * u)" using d f by simp
  show "0 \<le> Delay b u attempt" using nn uncappedDelay_bounds(1) by (simp add: Delay_jitter)
  have "of_int \<lfloor>?d * (1 + ?j * u)\<rfloor> \<le> ?m * (1 + ?j)" using le by linarith
  moreover have "?d \<le> ?m * (1 + ?j)" if "?j = 0" using d that by simp
  ultimately show "of_int (Delay b u attempt) \<le> ?m * (1 + ?j)" using j by (auto simp: Delay_jitter)
qed

text \<open>Without jitter and with a factor of at least one the delays do not shrink.\<close>

lemma grows: "0 \<le> d \<Longrightarrow> 1 \<le> f \<Longrightarrow> d \<le> \<lfloor>of_int d * (f :: rat)\<rfloor>"
  using mult_left_mono [of 1 f "of_int d"] by (simp add: le_floor_iff)

lemma growDelay_ge:
  "d \<le> bkMax b \<Longrightarrow> 0 \<le> d \<Longrightarrow> 1 \<le> bkFactor b \<Longrightarrow> d \<le> growDelay b n d"
proof (induction b n d rule: growDelay.induct)
  case (2 b n d)
  have "d \<le> \<lfloor>of_int d * bkFactor b\<rfloor>" using 2(3,4) by (rule grows)
  with 2 show ?case by (auto simp: Let_def)
qed simp

lemma growDelay_mono:
  "d \<le> bkMax b \<Longrightarrow> 0 \<le> d \<Longrightarrow> 1 \<le> bkFactor b \<Longrightarrow> m \<le> n \<Longrightarrow> growDelay b m d \<le> growDelay b n d"
proof (induction b m d arbitrary: n rule: growDelay.induct)
  case (1 b d)
  then show ?case by (simp add: growDelay_ge)
next
  case (2 b m d)
  then obtain k where n: "n = Suc k" "m \<le> k" by (cases n) auto
  let ?d = "\<lfloor>of_int d * bkFactor b\<rfloor>"
  have "d \<le> ?d" using 2(3,4) by (rule grows)
  with 2 n show ?case by (simp add: Let_def)
qed

lemma Delay_mono:
  assumes "1 \<le> bkFactor (withDefaults b)" and "bkJitter b \<le> 0" and "bkBase (withDefaults b) \<le> bkMax (withDefaults b)"
    and "i \<le> j"
  shows "Delay b u i \<le> Delay b u j"
proof -
  have "bkJitter (withDefaults b) = 0" using assms(2) by (simp add: withDefaults_def)
  moreover have "uncappedDelay b i \<le> uncappedDelay b j"
    unfolding uncappedDelay_def using assms(4) withDefaults_pos(1) [of b]
    by (intro min.mono growDelay_mono assms(1,3)) auto
  ultimately show ?thesis by (simp add: Delay_jitter)
qed

text \<open>The closed form of the default policy: doubling up to thirty seconds, plus at most a tenth.\<close>

lemma growDelay_double:
  assumes "bkFactor b = 2" and "0 \<le> d"
  shows "min (bkMax b) (growDelay b n d) = min (bkMax b) (d * 2 ^ n)"
  using assms(2)
proof (induction n arbitrary: d)
  case (Suc n)
  have two: "\<lfloor>of_int d * (2 :: rat)\<rfloor> = d * 2"
    by (metis floor_of_int of_int_mult of_int_numeral)
  show ?case
  proof (cases "bkMax b \<le> d * 2")
    case True
    have "d * 2 * 1 \<le> d * 2 * 2 ^ n" using Suc.prems by (intro mult_left_mono) simp_all
    with True have "bkMax b \<le> d * 2 ^ Suc n" by simp
    with True show ?thesis by (simp add: two assms(1) Let_def)
  next
    case False
    with Suc.IH [of "d * 2"] Suc.prems show ?thesis by (simp add: two assms(1) Let_def mult.assoc)
  qed
qed simp

lemma Delay_Exponential:
  assumes "0 < base" and "1 \<le> n"
  shows "Delay (Exponential base) u n = \<lfloor>of_int (min 30000000000 (base * 2 ^ nat (n - 1))) * (1 + 1 / 10 * u)\<rfloor>"
proof -
  let ?b = "withDefaults (Exponential base)"
  have b: "bkFactor ?b = 2" "bkMax ?b = 30000000000" "bkBase ?b = base" "bkJitter ?b = 1 / 10"
    using assms(1) by (simp_all add: withDefaults_def Exponential_def)
  have "uncappedDelay (Exponential base) n = min 30000000000 (base * 2 ^ nat (n - 1))"
    using growDelay_double [OF b(1), of base "nat (n - 1)"] assms unfolding uncappedDelay_def b by simp
  then show ?thesis by (simp add: Delay_jitter b)
qed

end
