(* ===== verification/Tasks.thy ===== *)
theory Tasks
  imports Retry Triggers
begin

text \<open>
  The typed API over the engine: tasks and their options (task.go), enqueueing them (quacker.go),
  handles (handle.go), triggers (events.go). A Go type parameter comes with its zero value and
  with how the engine's codec reads and writes it (\<open>payload\<close>). A handler is what a task body is at
  the engine's level: from the codec and the raw input to an error or a raw output; what else the
  body does goes through the durable helpers and the engine.
\<close>

section \<open>Payloads and handlers\<close>

record ('c, 'a) payload =
  plMarshal :: "'c \<Rightarrow> 'a \<Rightarrow> bytes option"
  plUnmarshal :: "'c \<Rightarrow> bytes \<Rightarrow> 'a option"
  plZero :: 'a

datatype handlerErr = DecodeInput string | TaskFailed string | EncodeOutput

type_synonym 'c handler = "'c \<Rightarrow> bytes \<Rightarrow> handlerErr + bytes"

section \<open>Task options\<close>

record 'c taskConfig =
  tcQueue :: string
  tcMaxAttempts :: int
  tcTimeout :: time
  tcBackoff :: Backoff
  tcKeyFn :: "('c \<Rightarrow> bytes \<Rightarrow> string) option"
  tcKeyLimit :: int
  tcKeyStrategy :: ConcurrencyStrategy
  tcKeys :: "'c keyDef list"
  tcUniqueFn :: "('c \<Rightarrow> bytes \<Rightarrow> string) option"
  tcUniqueOn :: bool
  tcUniqueMode :: UniqueConflict
  tcDeadLetter :: bool
  tcEphemeral :: bool
  tcSequenceFn :: "('c \<Rightarrow> bytes \<Rightarrow> string) option"
  tcSequenceOn :: bool
  tcWrap :: "('c handler \<Rightarrow> 'c handler) list"
  tcLabels :: "string list"

text \<open>A key function on the raw input: input that does not decode has no key, no input is the zero value.\<close>

definition keyOf :: "('c, 'i) payload \<Rightarrow> ('i \<Rightarrow> string) \<Rightarrow> 'c \<Rightarrow> bytes \<Rightarrow> string" where
  "keyOf pI fn codec raw =
     (if length raw > 0 then (case plUnmarshal pI codec raw of None \<Rightarrow> '''' | Some x \<Rightarrow> fn x)
      else fn (plZero pI))"

definition Retries :: "int \<Rightarrow> 'c taskConfig \<Rightarrow> 'c taskConfig" where
  "Retries n c = c\<lparr>tcMaxAttempts := n + 1\<rparr>"

definition BackoffPolicy :: "Backoff \<Rightarrow> 'c taskConfig \<Rightarrow> 'c taskConfig" where
  "BackoffPolicy b c = c\<lparr>tcBackoff := b\<rparr>"

definition Timeout :: "time \<Rightarrow> 'c taskConfig \<Rightarrow> 'c taskConfig" where
  "Timeout d c = c\<lparr>tcTimeout := d\<rparr>"

definition Queue :: "string \<Rightarrow> 'c taskConfig \<Rightarrow> 'c taskConfig" where
  "Queue name c = c\<lparr>tcQueue := name\<rparr>"

definition WithKey :: "('c, 'i) payload \<Rightarrow> ('i \<Rightarrow> string) \<Rightarrow> 'c taskConfig \<Rightarrow> 'c taskConfig" where
  "WithKey pI fn c = c\<lparr>tcKeyFn := Some (keyOf pI fn)\<rparr>"

definition WithKeyLimit :: "('c, 'i) payload \<Rightarrow> string \<Rightarrow> ('i \<Rightarrow> string) \<Rightarrow> int \<Rightarrow> 'c taskConfig \<Rightarrow> 'c taskConfig" where
  "WithKeyLimit pI name fn limit c =
     c\<lparr>tcKeys := tcKeys c @ [\<lparr>kdName = name, kdFn = keyOf pI fn, kdLimit = limit\<rparr>]\<rparr>"

definition WithKeyStrategy :: "ConcurrencyStrategy \<Rightarrow> 'c taskConfig \<Rightarrow> 'c taskConfig" where
  "WithKeyStrategy s c = c\<lparr>tcKeyStrategy := s\<rparr>"

definition WithKeyConcurrency :: "int \<Rightarrow> 'c taskConfig \<Rightarrow> 'c taskConfig" where
  "WithKeyConcurrency n c = c\<lparr>tcKeyLimit := n\<rparr>"

definition WithUnique :: "('c, 'i) payload \<Rightarrow> ('i \<Rightarrow> string) \<Rightarrow> 'c taskConfig \<Rightarrow> 'c taskConfig" where
  "WithUnique pI fn c = c\<lparr>tcUniqueOn := True, tcUniqueFn := Some (keyOf pI fn)\<rparr>"

definition WithUniqueConflict :: "UniqueConflict \<Rightarrow> 'c taskConfig \<Rightarrow> 'c taskConfig" where
  "WithUniqueConflict m c = c\<lparr>tcUniqueOn := True, tcUniqueMode := m\<rparr>"

definition WithSequence :: "('c, 'i) payload \<Rightarrow> ('i \<Rightarrow> string) \<Rightarrow> 'c taskConfig \<Rightarrow> 'c taskConfig" where
  "WithSequence pI fn c = c\<lparr>tcSequenceOn := True, tcSequenceFn := Some (keyOf pI fn)\<rparr>"

definition WithEphemeral :: "'c taskConfig \<Rightarrow> 'c taskConfig" where
  "WithEphemeral c = c\<lparr>tcEphemeral := True\<rparr>"

definition WithDeadLetter :: "'c taskConfig \<Rightarrow> 'c taskConfig" where
  "WithDeadLetter c = c\<lparr>tcDeadLetter := True\<rparr>"

definition Wrap :: "('c handler \<Rightarrow> 'c handler) list \<Rightarrow> 'c taskConfig \<Rightarrow> 'c taskConfig" where
  "Wrap mw c = c\<lparr>tcWrap := tcWrap c @ mw\<rparr>"

definition WithLabels :: "string list \<Rightarrow> 'c taskConfig \<Rightarrow> 'c taskConfig" where
  "WithLabels labels c = c\<lparr>tcLabels := tcLabels c @ labels\<rparr>"

section \<open>Tasks\<close>

record ('c, 'i, 'o) task =
  tkName :: string
  tkCfg :: "'c taskConfig"
  tkFn :: "'i \<Rightarrow> string + 'o"

definition zeroConfig :: "'c taskConfig" where
  "zeroConfig = \<lparr>tcQueue = '''', tcMaxAttempts = 1, tcTimeout = 0, tcBackoff = defaultBackoff,
     tcKeyFn = None, tcKeyLimit = 0, tcKeyStrategy = ConcurrencyHold, tcKeys = [], tcUniqueFn = None,
     tcUniqueOn = False, tcUniqueMode = UniqueReuse, tcDeadLetter = False, tcEphemeral = False,
     tcSequenceFn = None, tcSequenceOn = False, tcWrap = [], tcLabels = []\<rparr>"

definition NewTask :: "string \<Rightarrow> ('i \<Rightarrow> string + 'o) \<Rightarrow> ('c taskConfig \<Rightarrow> 'c taskConfig) list \<Rightarrow> ('c, 'i, 'o) task" where
  "NewTask name fn opts = \<lparr>tkName = name, tkCfg = fold (\<lambda>opt cfg. opt cfg) opts zeroConfig, tkFn = fn\<rparr>"

definition taskHandler :: "('c, 'i) payload \<Rightarrow> ('c, 'o) payload \<Rightarrow> ('c, 'i, 'o) task \<Rightarrow> 'c handler" where
  "taskHandler pI pO t codec raw =
     (case (if length raw > 0 then plUnmarshal pI codec raw else Some (plZero pI)) of
        None \<Rightarrow> Inl (DecodeInput (tkName t))
      | Some x \<Rightarrow>
          (case tkFn t x of
             Inl err \<Rightarrow> Inl (TaskFailed err)
           | Inr out \<Rightarrow> (case plMarshal pO codec out of None \<Rightarrow> Inl EncodeOutput | Some b \<Rightarrow> Inr b)))"

text \<open>\<open>u\<close> is the random fraction that the delays of the task draw.\<close>

definition toDef :: "('c, 'i) payload \<Rightarrow> ('c, 'o) payload \<Rightarrow> rat \<Rightarrow> ('c, 'i, 'o) task \<Rightarrow> ('c, 'c handler) taskDef" where
  "toDef pI pO u t =
     (let cfg = tkCfg t in
      \<lparr>tdName = tkName t, tdQueue = tcQueue cfg, tdMaxAttempts = tcMaxAttempts cfg,
       tdTimeout = tcTimeout cfg, tdDelay = Delay (tcBackoff cfg) u, tdFn = taskHandler pI pO t,
       tdWrappers = tcWrap cfg, tdLabels = tcLabels cfg, tdKeyFn = tcKeyFn cfg,
       tdKeyLimit = tcKeyLimit cfg, tdKeyStrategy = tcKeyStrategy cfg, tdExtraKeys = tcKeys cfg,
       tdDeadLetter = tcDeadLetter cfg, tdSequenceFn = tcSequenceFn cfg, tdEphemeral = tcEphemeral cfg\<rparr>)"

section \<open>Enqueue options\<close>

record enqueueConfig =
  ecRunAt :: "time option"
  ecPriority :: int
  ecUniqueKey :: string
  ecUniqueKeySet :: bool

definition zeroEnqueue :: enqueueConfig where
  "zeroEnqueue = \<lparr>ecRunAt = None, ecPriority = 0, ecUniqueKey = '''', ecUniqueKeySet = False\<rparr>"

definition WithUniqueKey :: "string \<Rightarrow> enqueueConfig \<Rightarrow> enqueueConfig" where
  "WithUniqueKey key c = c\<lparr>ecUniqueKey := key, ecUniqueKeySet := True\<rparr>"

definition WithDelay :: "time \<Rightarrow> time \<Rightarrow> enqueueConfig \<Rightarrow> enqueueConfig" where
  "WithDelay now d c = c\<lparr>ecRunAt := Some (now + d)\<rparr>"

definition WithRunAt :: "time option \<Rightarrow> enqueueConfig \<Rightarrow> enqueueConfig" where
  "WithRunAt t c = c\<lparr>ecRunAt := t\<rparr>"

definition WithPriority :: "int \<Rightarrow> enqueueConfig \<Rightarrow> enqueueConfig" where
  "WithPriority p c = c\<lparr>ecPriority := p\<rparr>"

definition enqueueOptions :: "(enqueueConfig \<Rightarrow> enqueueConfig) list \<Rightarrow> enqueueConfig" where
  "enqueueOptions opts = fold (\<lambda>opt c. opt c) opts zeroEnqueue"

definition uniqueKeyFor :: "enqueueConfig \<Rightarrow> 'c taskConfig option \<Rightarrow> 'c \<Rightarrow> bytes \<Rightarrow> string" where
  "uniqueKeyFor ec cfg codec input =
     (if ecUniqueKeySet ec then ecUniqueKey ec
      else (case cfg of
              None \<Rightarrow> ''''
            | Some c \<Rightarrow> if tcUniqueOn c then (case tcUniqueFn c of None \<Rightarrow> '''' | Some f \<Rightarrow> f codec input) else ''''))"

section \<open>Enqueueing tasks\<close>

datatype apiErr = ApiMarshal | ApiEngine engineErr | ApiNoTaskContext | ApiGroupName | ApiDuplicateGroup string
  | ApiUnknownGroup string string | ApiPanic

record runHandle =
  rhRunID :: string
  rhWaiter :: nat

definition handleOf :: "('c, 'h) engine \<Rightarrow> nat \<Rightarrow> runHandle" where
  "handleOf e w = \<lparr>rhRunID = fst (enHandles e ! w), rhWaiter = w\<rparr>"

text \<open>The step a task function runs in: the run and the step's name.\<close>

type_synonym taskContext = "(string \<times> string) option"

definition RunIDFromContext :: "taskContext \<Rightarrow> string" where
  "RunIDFromContext ctx = (case ctx of None \<Rightarrow> '''' | Some (runID, step) \<Rightarrow> runID)"

definition parentStepOf :: "taskContext \<Rightarrow> string \<Rightarrow> string" where
  "parentStepOf ctx parent =
     (if parent = '''' then '''' else (case ctx of None \<Rightarrow> '''' | Some (runID, step) \<Rightarrow> step))"

definition taskRequest ::
  "('c, 'i) payload \<Rightarrow> ('c, 'o) payload \<Rightarrow> rat \<Rightarrow> 'c \<Rightarrow> ('c, 'i, 'o) task \<Rightarrow> enqueueConfig \<Rightarrow> string \<Rightarrow> string \<Rightarrow>
     bytes \<Rightarrow> ('c, 'c handler) enqueueRequest" where
  "taskRequest pI pO u codec t ec parent parentStep b =
     \<lparr>erWorkflow = tkName t, erKind = KindTask, erInput = b, erQueue = '''', erPriority = ecPriority ec,
      erRunAt = ecRunAt ec, erParentID = parent, erParentStep = parentStep,
      erUniqueKey = uniqueKeyFor ec (Some (tkCfg t)) codec b, erConflict = tcUniqueMode (tkCfg t),
      erEphemeral = tcEphemeral (tkCfg t), erGroups = [],
      erSteps = [\<lparr>srName = tkName t, srDeps = [], srDef = Some (toDef pI pO u t)\<rparr>]\<rparr>"

definition enqueueTask ::
  "backend \<Rightarrow> (nat \<Rightarrow> db \<Rightarrow> db) \<Rightarrow> time \<Rightarrow> string \<Rightarrow> rat \<Rightarrow> ('c, 'i) payload \<Rightarrow> ('c, 'o) payload \<Rightarrow> taskContext \<Rightarrow>
     ('c, 'i, 'o) task \<Rightarrow> 'i \<Rightarrow> string \<Rightarrow> (enqueueConfig \<Rightarrow> enqueueConfig) list \<Rightarrow> ('c, 'c handler) engine \<times> db \<Rightarrow>
     (apiErr + runHandle) \<times> ('c, 'c handler) engine \<times> db" where
  "enqueueTask be others now rnd u pI pO ctx t input parent opts ed =
     (let ec = enqueueOptions opts; codec = enCodec (fst ed) in
      case plMarshal pI codec input of
        None \<Rightarrow> (Inl ApiMarshal, ed)
      | Some b \<Rightarrow>
          let (res, ed') = Enqueue_run be others now
                (Some (taskRequest pI pO u codec t ec parent (parentStepOf ctx parent) b)) rnd ed
          in (map_sum ApiEngine (handleOf (fst ed')) res, ed'))"

definition Enqueue ::
  "backend \<Rightarrow> (nat \<Rightarrow> db \<Rightarrow> db) \<Rightarrow> time \<Rightarrow> string \<Rightarrow> rat \<Rightarrow> ('c, 'i) payload \<Rightarrow> ('c, 'o) payload \<Rightarrow> taskContext \<Rightarrow>
     ('c, 'i, 'o) task \<Rightarrow> 'i \<Rightarrow> (enqueueConfig \<Rightarrow> enqueueConfig) list \<Rightarrow> ('c, 'c handler) engine \<times> db \<Rightarrow>
     (apiErr + runHandle) \<times> ('c, 'c handler) engine \<times> db" where
  "Enqueue be others now rnd u pI pO ctx t input opts ed = enqueueTask be others now rnd u pI pO ctx t input '''' opts ed"

definition EnqueueChild ::
  "backend \<Rightarrow> (nat \<Rightarrow> db \<Rightarrow> db) \<Rightarrow> time \<Rightarrow> string \<Rightarrow> rat \<Rightarrow> ('c, 'i) payload \<Rightarrow> ('c, 'o) payload \<Rightarrow> taskContext \<Rightarrow>
     ('c, 'i, 'o) task \<Rightarrow> 'i \<Rightarrow> (enqueueConfig \<Rightarrow> enqueueConfig) list \<Rightarrow> ('c, 'c handler) engine \<times> db \<Rightarrow>
     (apiErr + runHandle) \<times> ('c, 'c handler) engine \<times> db" where
  "EnqueueChild be others now rnd u pI pO ctx t input opts ed =
     (let parent = RunIDFromContext ctx in
      if parent = '''' then (Inl ApiNoTaskContext, ed)
      else enqueueTask be others now rnd u pI pO ctx t input parent opts ed)"

text \<open>A batch marshals every input before the engine is called. \<open>rnds\<close> gives the random part of the id
  of each input.\<close>

fun batchRequests ::
  "('c, 'i) payload \<Rightarrow> ('c, 'o) payload \<Rightarrow> rat \<Rightarrow> 'c \<Rightarrow> ('c, 'i, 'o) task \<Rightarrow> enqueueConfig \<Rightarrow> 'i list \<Rightarrow>
     ('c, 'c handler) enqueueRequest list option" where
  "batchRequests pI pO u codec t ec [] = Some []"
| "batchRequests pI pO u codec t ec (x # xs) =
     (case plMarshal pI codec x of
        None \<Rightarrow> None
      | Some b \<Rightarrow> map_option (\<lambda>rs. taskRequest pI pO u codec t ec '''' '''' b # rs) (batchRequests pI pO u codec t ec xs))"

definition withRnds :: "(nat \<Rightarrow> string) \<Rightarrow> 'r list \<Rightarrow> ('r option \<times> string) list" where
  "withRnds rnds reqs = zip (map Some reqs) (map rnds [0..<length reqs])"

definition Enqueue_batch ::
  "backend \<Rightarrow> (nat \<Rightarrow> db \<Rightarrow> db) \<Rightarrow> time \<Rightarrow> (nat \<Rightarrow> string) \<Rightarrow> rat \<Rightarrow> ('c, 'i) payload \<Rightarrow> ('c, 'o) payload \<Rightarrow>
     ('c, 'i, 'o) task \<Rightarrow> 'i list \<Rightarrow> (enqueueConfig \<Rightarrow> enqueueConfig) list \<Rightarrow> ('c, 'c handler) engine \<times> db \<Rightarrow>
     (apiErr + runHandle list) \<times> ('c, 'c handler) engine \<times> db" where
  "Enqueue_batch be others now rnds u pI pO t inputs opts ed =
     (case batchRequests pI pO u (enCodec (fst ed)) t (enqueueOptions opts) inputs of
        None \<Rightarrow> (Inl ApiMarshal, ed)
      | Some reqs \<Rightarrow>
          let (res, ed') = EnqueueBatch be others now (withRnds rnds reqs) ed
          in (map_sum ApiEngine (map (handleOf (fst ed'))) res, ed'))"

definition EnqueueTx ::
  "backend \<Rightarrow> time \<Rightarrow> string \<Rightarrow> rat \<Rightarrow> ('c, 'i) payload \<Rightarrow> ('c, 'o) payload \<Rightarrow>
     ('c, 'i, 'o) task \<Rightarrow> 'i \<Rightarrow> (enqueueConfig \<Rightarrow> enqueueConfig) list \<Rightarrow> ('c, 'c handler) engine \<times> db \<Rightarrow>
     (apiErr + string) \<times> ('c, 'c handler) engine \<times> db" where
  "EnqueueTx be now rnd u pI pO t input opts ed =
     (let codec = enCodec (fst ed) in
      case plMarshal pI codec input of
        None \<Rightarrow> (Inl ApiMarshal, ed)
      | Some b \<Rightarrow>
          let (res, ed') = EnqueueOnTx be now (Some (taskRequest pI pO u codec t (enqueueOptions opts) '''' '''' b)) rnd ed
          in (map_sum ApiEngine id res, ed'))"

definition EnqueueBatchTx ::
  "backend \<Rightarrow> time \<Rightarrow> (nat \<Rightarrow> string) \<Rightarrow> rat \<Rightarrow> ('c, 'i) payload \<Rightarrow> ('c, 'o) payload \<Rightarrow>
     ('c, 'i, 'o) task \<Rightarrow> 'i list \<Rightarrow> (enqueueConfig \<Rightarrow> enqueueConfig) list \<Rightarrow> ('c, 'c handler) engine \<times> db \<Rightarrow>
     (apiErr + string list) \<times> ('c, 'c handler) engine \<times> db" where
  "EnqueueBatchTx be now rnds u pI pO t inputs opts ed =
     (case batchRequests pI pO u (enCodec (fst ed)) t (enqueueOptions opts) inputs of
        None \<Rightarrow> (Inl ApiMarshal, ed)
      | Some reqs \<Rightarrow>
          let (res, ed') = EnqueueBatchOnTx be now (withRnds rnds reqs) ed
          in (map_sum ApiEngine id res, ed'))"

section \<open>Results\<close>

datatype 'o result = ResultOf 'o | RunFailed string string | ResultErr waitErr | DecodeOutput string

text \<open>The result of a released waiter; \<open>None\<close> while it is not.\<close>

definition Result :: "('c, 'o) payload \<Rightarrow> ('c, 'h) engine \<Rightarrow> runHandle \<Rightarrow> 'o result option" where
  "Result pO e h =
     (case snd (enHandles e ! rhWaiter h) of
        Waiting \<Rightarrow> None
      | Released st raw err \<Rightarrow> Some
          (case err of
             Some (WErrRun runID m) \<Rightarrow> RunFailed runID m
           | Some x \<Rightarrow> ResultErr x
           | None \<Rightarrow>
               if st = Some Succeeded \<and> length raw > 0 then
                 (case plUnmarshal pO (enCodec e) raw of None \<Rightarrow> DecodeOutput (rhRunID h) | Some v \<Rightarrow> ResultOf v)
               else ResultOf (plZero pO)))"

section \<open>Triggers and registration\<close>

definition Register ::
  "('c, 'i) payload \<Rightarrow> ('c, 'o) payload \<Rightarrow> rat \<Rightarrow> ('c, 'i, 'o) task \<Rightarrow> time \<Rightarrow> ('c, 'c handler) engine \<times> db \<Rightarrow>
     ('c, 'c handler) engine \<times> db" where
  "Register pI pO u t now ed = RegisterTask (toDef pI pO u t) now ed"

definition Cron ::
  "(string \<Rightarrow> (time \<Rightarrow> time) option) \<Rightarrow> ('c, 'i) payload \<Rightarrow> ('c, 'o) payload \<Rightarrow> rat \<Rightarrow> string \<Rightarrow> string \<Rightarrow>
     ('c, 'i, 'o) task \<Rightarrow> 'i \<Rightarrow> time \<Rightarrow> ('c, 'c handler) engine \<times> db \<Rightarrow>
     apiErr option \<times> ('c, 'c handler) engine \<times> db" where
  "Cron parse pI pO u name spec t input now ed =
     (case plMarshal pI (enCodec (fst ed)) input of
        None \<Rightarrow> (Some ApiMarshal, ed)
      | Some b \<Rightarrow>
          let (res, ed') = RegisterCron parse name spec (Some (toDef pI pO u t)) b now ed
          in (map_option ApiEngine res, ed'))"

definition On ::
  "('c, 'i) payload \<Rightarrow> ('c, 'o) payload \<Rightarrow> rat \<Rightarrow> string \<Rightarrow> ('c, 'i, 'o) task \<Rightarrow> time \<Rightarrow> ('c, 'c handler) engine \<times> db \<Rightarrow>
     apiErr option \<times> ('c, 'c handler) engine \<times> db" where
  "On pI pO u event t now ed =
     (let (res, ed') = RegisterEvent event (Some (toDef pI pO u t)) now ed in (map_option ApiEngine res, ed'))"

definition Off :: "string \<Rightarrow> ('c, 'i, 'o) task \<Rightarrow> ('c, 'h) engine \<times> db \<Rightarrow> ('c, 'h) engine \<times> db" where
  "Off event t ed = RemoveEvent event (tkName t) ed"

end
