(* ===== verification/Workflows.thy ===== *)
theory Workflows
  imports Tasks Dag_Laws
begin

text \<open>
  Workflows of the public API (workflow.go, the workflow calls of quacker.go): steps, groups of
  steps with dependencies between whole groups, their expansion to step dependencies, and the
  enqueue call. Groups are persisted as JSON by a third-party library: \<open>marshalGroups\<close>. A workflow
  without steps makes the code index an empty slice: \<open>ApiPanic\<close>.
\<close>

section \<open>Steps and groups\<close>

record 'c stepDef =
  sdName :: string
  sdDeps :: "string list"
  sdDef :: "('c, 'c handler) taskDef"

record 'c group =
  gName :: string
  gSteps :: "'c stepDef list"
  gAfter :: "string list"

record RunGroup =
  rgName :: string
  rgDeps :: "string list"
  rgSteps :: "string list"

record 'c workflow =
  wfName :: string
  wfSteps :: "'c stepDef list"
  wfGroups :: "RunGroup list"

definition Step :: "('c, 'i) payload \<Rightarrow> ('c, 'o) payload \<Rightarrow> rat \<Rightarrow> string \<Rightarrow> ('c, 'i, 'o) task \<Rightarrow> string list \<Rightarrow> 'c stepDef" where
  "Step pI pO u name t deps = \<lparr>sdName = name, sdDeps = deps, sdDef = toDef pI pO u t\<rparr>"

definition NewGroup :: "string \<Rightarrow> 'c stepDef list \<Rightarrow> 'c group" where
  "NewGroup name ss = \<lparr>gName = name, gSteps = ss, gAfter = []\<rparr>"

definition After :: "string list \<Rightarrow> 'c group \<Rightarrow> 'c group" where
  "After groups g = g\<lparr>gAfter := gAfter g @ groups\<rparr>"

definition NewWorkflow :: "string \<Rightarrow> 'c stepDef list \<Rightarrow> 'c workflow" where
  "NewWorkflow name ss = \<lparr>wfName = name, wfSteps = ss, wfGroups = []\<rparr>"

text \<open>Duplicates go, the first occurrence stays.\<close>

fun dedupFrom :: "string list \<Rightarrow> string list \<Rightarrow> string list" where
  "dedupFrom seen [] = []"
| "dedupFrom seen (x # xs) = (if List.member seen x then dedupFrom seen xs else x # dedupFrom (x # seen) xs)"

definition dedupStrings :: "string list \<Rightarrow> string list" where
  "dedupStrings xs = dedupFrom [] xs"

text \<open>A nil group is \<open>None\<close>; of two groups with one name the later one is found by it.\<close>

definition groupsByName :: "'c group option list \<Rightarrow> string \<Rightarrow> 'c group option" where
  "groupsByName groups =
     fold (\<lambda>g m. case g of None \<Rightarrow> m | Some x \<Rightarrow> if gName x = '''' then m else m(gName x := Some x)) groups (\<lambda>_. None)"

definition groupDeps :: "'c group option list \<Rightarrow> 'c group \<Rightarrow> string list" where
  "groupDeps groups g = dedupStrings (concat (map (\<lambda>dep.
     case groupsByName groups dep of None \<Rightarrow> [] | Some dg \<Rightarrow> map sdName (gSteps dg)) (gAfter g)))"

definition expandGroup :: "'c group option list \<Rightarrow> 'c group \<Rightarrow> 'c stepDef list" where
  "expandGroup groups g =
     map (\<lambda>s. s\<lparr>sdDeps := dedupStrings (sdDeps s @ groupDeps groups g)\<rparr>) (gSteps g)"

definition NewGroupWorkflow :: "string \<Rightarrow> 'c group option list \<Rightarrow> 'c workflow" where
  "NewGroupWorkflow name groups =
     \<lparr>wfName = name, wfSteps = concat (map (expandGroup groups) (List.map_filter id groups)),
      wfGroups = map (\<lambda>g. \<lparr>rgName = gName g, rgDeps = gAfter g, rgSteps = map sdName (gSteps g)\<rparr>)
        (List.map_filter id groups)\<rparr>"

section \<open>Enqueueing\<close>

fun checkGroupNames :: "string list \<Rightarrow> RunGroup list \<Rightarrow> apiErr option" where
  "checkGroupNames seen [] = None"
| "checkGroupNames seen (g # gs) =
     (if rgName g = '''' then Some ApiGroupName
      else if List.member seen (rgName g) then Some (ApiDuplicateGroup (rgName g))
      else checkGroupNames (rgName g # seen) gs)"

fun checkGroupDeps :: "string list \<Rightarrow> (string \<times> string) list \<Rightarrow> apiErr option" where
  "checkGroupDeps names [] = None"
| "checkGroupDeps names ((g, dep) # ds) =
     (if \<not> List.member names dep then Some (ApiUnknownGroup g dep) else checkGroupDeps names ds)"

definition validateWorkflowGroups :: "'c workflow \<Rightarrow> apiErr option" where
  "validateWorkflowGroups w =
     (case checkGroupNames [] (wfGroups w) of
        Some x \<Rightarrow> Some x
      | None \<Rightarrow> checkGroupDeps (map rgName (wfGroups w))
          (concat (map (\<lambda>g. map (\<lambda>dep. (rgName g, dep)) (rgDeps g)) (wfGroups w))))"

definition stepReqs :: "'c workflow \<Rightarrow> ('c, 'c handler) stepReq list" where
  "stepReqs w = map (\<lambda>s. \<lparr>srName = sdName s, srDeps = sdDeps s, srDef = Some (sdDef s)\<rparr>) (wfSteps w)"

definition encodeGroups :: "(RunGroup list \<Rightarrow> bytes option) \<Rightarrow> 'c workflow \<Rightarrow> apiErr + bytes" where
  "encodeGroups marshalGroups w =
     (if length (wfGroups w) > 0 then
        (case validateWorkflowGroups w of
           Some x \<Rightarrow> Inl x
         | None \<Rightarrow> (case marshalGroups (wfGroups w) of None \<Rightarrow> Inl ApiMarshal | Some b \<Rightarrow> Inr b))
      else Inr [])"

definition enqueueWorkflow ::
  "backend \<Rightarrow> (nat \<Rightarrow> db \<Rightarrow> db) \<Rightarrow> time \<Rightarrow> string \<Rightarrow> (RunGroup list \<Rightarrow> bytes option) \<Rightarrow> ('c, 'i) payload \<Rightarrow> taskContext \<Rightarrow>
     'c workflow \<Rightarrow> 'i \<Rightarrow> string \<Rightarrow> (enqueueConfig \<Rightarrow> enqueueConfig) list \<Rightarrow> ('c, 'c handler) engine \<times> db \<Rightarrow>
     (apiErr + runHandle) \<times> ('c, 'c handler) engine \<times> db" where
  "enqueueWorkflow be others now rnd marshalGroups pI ctx w input parent opts ed =
     (let ec = enqueueOptions opts in
      case plMarshal pI (enCodec (fst ed)) input of
        None \<Rightarrow> (Inl ApiMarshal, ed)
      | Some b \<Rightarrow>
          (case encodeGroups marshalGroups w of
             Inl x \<Rightarrow> (Inl x, ed)
           | Inr groupsJSON \<Rightarrow>
               (case wfSteps w of
                  [] \<Rightarrow> (Inl ApiPanic, ed)
                | s0 # rest \<Rightarrow>
                    let (res, ed') = Enqueue_run be others now (Some
                          \<lparr>erWorkflow = wfName w, erKind = KindWorkflow, erInput = b, erQueue = '''',
                           erPriority = ecPriority ec, erRunAt = ecRunAt ec, erParentID = parent,
                           erParentStep = parentStepOf ctx parent, erUniqueKey = ecUniqueKey ec,
                           erConflict = UniqueReuse, erEphemeral = tdEphemeral (sdDef s0),
                           erGroups = groupsJSON, erSteps = stepReqs w\<rparr>) rnd ed
                    in (map_sum ApiEngine (handleOf (fst ed')) res, ed'))))"

definition EnqueueWorkflow ::
  "backend \<Rightarrow> (nat \<Rightarrow> db \<Rightarrow> db) \<Rightarrow> time \<Rightarrow> string \<Rightarrow> (RunGroup list \<Rightarrow> bytes option) \<Rightarrow> ('c, 'i) payload \<Rightarrow> taskContext \<Rightarrow>
     'c workflow \<Rightarrow> 'i \<Rightarrow> (enqueueConfig \<Rightarrow> enqueueConfig) list \<Rightarrow> ('c, 'c handler) engine \<times> db \<Rightarrow>
     (apiErr + runHandle) \<times> ('c, 'c handler) engine \<times> db" where
  "EnqueueWorkflow be others now rnd marshalGroups pI ctx w input opts ed =
     enqueueWorkflow be others now rnd marshalGroups pI ctx w input '''' opts ed"

definition EnqueueWorkflowChild ::
  "backend \<Rightarrow> (nat \<Rightarrow> db \<Rightarrow> db) \<Rightarrow> time \<Rightarrow> string \<Rightarrow> (RunGroup list \<Rightarrow> bytes option) \<Rightarrow> ('c, 'i) payload \<Rightarrow> taskContext \<Rightarrow>
     'c workflow \<Rightarrow> 'i \<Rightarrow> (enqueueConfig \<Rightarrow> enqueueConfig) list \<Rightarrow> ('c, 'c handler) engine \<times> db \<Rightarrow>
     (apiErr + runHandle) \<times> ('c, 'c handler) engine \<times> db" where
  "EnqueueWorkflowChild be others now rnd marshalGroups pI ctx w input opts ed =
     (let parent = RunIDFromContext ctx in
      if parent = '''' then (Inl ApiNoTaskContext, ed)
      else enqueueWorkflow be others now rnd marshalGroups pI ctx w input parent opts ed)"

section \<open>Expansion\<close>

lemma set_dedupFrom: "set (dedupFrom seen xs) = set xs - set seen"
  by (induction xs arbitrary: seen) (auto simp: List.member_iff)

lemma distinct_dedupFrom: "distinct (dedupFrom seen xs)"
  by (induction xs arbitrary: seen) (auto simp: set_dedupFrom)

lemma dedupStrings [simp]: "set (dedupStrings xs) = set xs" "distinct (dedupStrings xs)"
  by (simp_all add: dedupStrings_def set_dedupFrom distinct_dedupFrom)

lemma checkGroupNames_None:
  "checkGroupNames seen gs = None \<longleftrightarrow> (\<forall>g \<in> set gs. rgName g \<noteq> '''') \<and> distinct (map rgName gs) \<and>
     set (map rgName gs) \<inter> set seen = {}"
  by (induction gs arbitrary: seen) (auto simp: List.member_iff)

lemma checkGroupDeps_None: "checkGroupDeps names ds = None \<longleftrightarrow> snd ` set ds \<subseteq> set names"
  by (induction names ds rule: checkGroupDeps.induct) (auto simp: List.member_iff)

lemma validateWorkflowGroups_None:
  "validateWorkflowGroups w = None \<longleftrightarrow> (\<forall>g \<in> set (wfGroups w). rgName g \<noteq> '''') \<and>
     distinct (map rgName (wfGroups w)) \<and>
     (\<forall>g \<in> set (wfGroups w). set (rgDeps g) \<subseteq> rgName ` set (wfGroups w))"
proof (cases "checkGroupNames [] (wfGroups w)")
  case None
  have deps: "snd ` set (concat (map (\<lambda>g. map (\<lambda>dep. (rgName g, dep)) (rgDeps g)) gs)) \<subseteq> N \<longleftrightarrow> (\<forall>g \<in> set gs. set (rgDeps g) \<subseteq> N)" for gs N
    by (induction gs) (auto simp: image_image image_Un)
  from None checkGroupNames_None [of "[]" "wfGroups w"] show ?thesis
    unfolding validateWorkflowGroups_def checkGroupDeps_None None option.case deps by simp
next
  case (Some x)
  then have "\<not> ((\<forall>g \<in> set (wfGroups w). rgName g \<noteq> '''') \<and> distinct (map rgName (wfGroups w)))"
    using checkGroupNames_None [of "[]" "wfGroups w"] by simp
  moreover have "validateWorkflowGroups w = Some x" using Some by (simp add: validateWorkflowGroups_def)
  ultimately show ?thesis by auto
qed

lemma map_filter_Some [simp]: "List.map_filter id (map Some gs) = gs"
  by (induction gs) (simp_all add: map_filter_simps)


lemma groupsByName_snoc:
  "groupsByName (gs @ [g]) = (case g of None \<Rightarrow> groupsByName gs
     | Some x \<Rightarrow> if gName x = '''' then groupsByName gs else (groupsByName gs)(gName x := Some x))"
  by (simp add: groupsByName_def split: option.split)

lemma groupsByName_mem: "groupsByName (map Some gs) n = Some g \<Longrightarrow> g \<in> set gs \<and> gName g = n"
proof (induction gs rule: rev_induct)
  case Nil
  then show ?case by (simp add: groupsByName_def)
next
  case (snoc x gs)
  then show ?case by (auto simp: groupsByName_snoc split: if_splits)
qed

lemma groupsByName_find:
  "distinct (map gName gs) \<Longrightarrow> \<forall>g \<in> set gs. gName g \<noteq> '''' \<Longrightarrow> g \<in> set gs \<Longrightarrow>
     groupsByName (map Some gs) (gName g) = Some g"
proof (induction gs rule: rev_induct)
  case (snoc x gs)
  have "gName x \<notin> gName ` set gs" using snoc.prems(1) by simp
  then have "gName g \<noteq> gName x" if "g \<in> set gs" using that by (metis imageI)
  with snoc show ?case by (auto simp: groupsByName_snoc)
qed simp

lemma set_groupDeps:
  assumes "distinct (map gName gs)" and "\<forall>g \<in> set gs. gName g \<noteq> ''''"
  shows "set (groupDeps (map Some gs) g) = {sdName s |s h. h \<in> set gs \<and> gName h \<in> set (gAfter g) \<and> s \<in> set (gSteps h)}"
proof -
  have "set (groupDeps (map Some gs) g) =
      {sdName s |s dep h. dep \<in> set (gAfter g) \<and> groupsByName (map Some gs) dep = Some h \<and> s \<in> set (gSteps h)}"
    by (force simp: groupDeps_def split: option.splits)
  also have "\<dots> = {sdName s |s h. h \<in> set gs \<and> gName h \<in> set (gAfter g) \<and> s \<in> set (gSteps h)}"
    using groupsByName_mem groupsByName_find [OF assms] by blast
  finally show ?thesis .
qed

lemma wfSteps_groups: "wfSteps (NewGroupWorkflow name (map Some gs)) = concat (map (expandGroup (map Some gs)) gs)"
  by (simp add: NewGroupWorkflow_def)

text \<open>The steps of a group workflow: those of the groups, with the steps of the awaited groups added to
  their dependencies.\<close>

lemma group_steps:
  assumes "distinct (map gName gs)" and "\<forall>g \<in> set gs. gName g \<noteq> ''''"
  shows "s' \<in> set (wfSteps (NewGroupWorkflow name (map Some gs))) \<longleftrightarrow>
    (\<exists>g \<in> set gs. \<exists>s \<in> set (gSteps g). s' = s\<lparr>sdDeps := dedupStrings (sdDeps s @ groupDeps (map Some gs) g)\<rparr>)"
  unfolding wfSteps_groups by (auto simp: expandGroup_def)

lemma group_names:
  "map sdName (wfSteps (NewGroupWorkflow name (map Some gs))) = concat (map (\<lambda>g. map sdName (gSteps g)) gs)"
  unfolding wfSteps_groups map_concat by (simp add: expandGroup_def comp_def)

section \<open>Group workflows are acyclic\<close>

text \<open>The steps of the groups before the expansion, and the order between groups.\<close>

definition ownDeps :: "'c group list \<Rightarrow> (string \<times> string) set" where
  "ownDeps gs = {(d, sdName s) |d s g. g \<in> set gs \<and> s \<in> set (gSteps g) \<and> d \<in> set (sdDeps s)}"

definition groupOrder :: "'c group list \<Rightarrow> (string \<times> string) set" where
  "groupOrder gs = {(a, gName g) |a g. g \<in> set gs \<and> a \<in> set (gAfter g)}"

definition stepNames :: "'c group \<Rightarrow> string set" where
  "stepNames g = sdName ` set (gSteps g)"

text \<open>A well-formed collection of groups: steps have globally unique names and their own dependencies
  stay in their group.\<close>

definition groups_ok :: "'c group list \<Rightarrow> bool" where
  "groups_ok gs \<longleftrightarrow> distinct (concat (map (\<lambda>g. map sdName (gSteps g)) gs)) \<and>
     (\<forall>g \<in> set gs. \<forall>s \<in> set (gSteps g). sdName s \<noteq> '''' \<and> set (sdDeps s) \<subseteq> stepNames g)"

lemma group_unique:
  assumes "groups_ok gs" and "distinct (map gName gs)" and "g \<in> set gs" and "h \<in> set gs" and "n \<in> stepNames g" and "n \<in> stepNames h"
  shows "g = h"
  using assms
proof (induction gs)
  case (Cons x gs)
  have d: "set (map sdName (gSteps x)) \<inter> (\<Union>g \<in> set gs. stepNames g) = {}"
    using Cons.prems(1) by (auto simp: groups_ok_def stepNames_def)
  have ok: "groups_ok gs" using Cons.prems(1) by (auto simp: groups_ok_def)
  from d Cons.IH [OF ok] Cons.prems show ?case by (auto simp: stepNames_def)
qed simp

lemma dependsOn_groups:
  assumes "distinct (map gName gs)" and "\<forall>g \<in> set gs. gName g \<noteq> ''''"
    and "(d, m) \<in> dependsOn (stepReqs (NewGroupWorkflow name (map Some gs)))"
  shows "(\<exists>g \<in> set gs. \<exists>s \<in> set (gSteps g). m = sdName s \<and> d \<in> set (sdDeps s)) \<or>
    (\<exists>g \<in> set gs. \<exists>h \<in> set gs. m \<in> stepNames g \<and> d \<in> stepNames h \<and> gName h \<in> set (gAfter g))"
proof -
  from assms(3) obtain s' where s': "s' \<in> set (wfSteps (NewGroupWorkflow name (map Some gs)))" "sdName s' = m" "d \<in> set (sdDeps s')"
    by (auto simp: dependsOn_def stepReqs_def)
  from s'(1) [unfolded group_steps [OF assms(1,2)]] obtain g s where
    g: "g \<in> set gs" "s \<in> set (gSteps g)" "s' = s\<lparr>sdDeps := dedupStrings (sdDeps s @ groupDeps (map Some gs) g)\<rparr>" by blast
  with s' have "d \<in> set (sdDeps s) \<or> d \<in> set (groupDeps (map Some gs) g)" "m = sdName s" by auto
  with g show ?thesis unfolding set_groupDeps [OF assms(1,2)] stepNames_def by blast
qed

lemma group_workflow_dag:
  assumes valid: "validateWorkflowGroups (NewGroupWorkflow name (map Some gs)) = None"
    and ok: "groups_ok gs" and own: "acyclic (ownDeps gs)" and order: "acyclic (groupOrder gs)"
  shows "well_formed_dag (stepReqs (NewGroupWorkflow name (map Some gs)))"
proof -
  let ?w = "NewGroupWorkflow name (map Some gs)"
  have g: "distinct (map gName gs)" "\<forall>g \<in> set gs. gName g \<noteq> ''''"
    using valid unfolding validateWorkflowGroups_None by (auto simp: NewGroupWorkflow_def comp_def)
  define of' where "of' n = (SOME g. g \<in> set gs \<and> n \<in> stepNames g)" for n
  have of': "of' n = g" if "g \<in> set gs" "n \<in> stepNames g" for n g
    unfolding of'_def using that group_unique [OF ok g(1)] by (intro some_equality) auto
  have fin: "finite (ownDeps gs)" "finite (groupOrder gs)"
  proof -
    have "ownDeps gs = (\<Union>g \<in> set gs. \<Union>s \<in> set (gSteps g). (\<lambda>d. (d, sdName s)) ` set (sdDeps s))"
      by (auto simp: ownDeps_def)
    then show "finite (ownDeps gs)" by simp
    have "groupOrder gs = (\<Union>g \<in> set gs. (\<lambda>a. (a, gName g)) ` set (gAfter g))" by (auto simp: groupOrder_def)
    then show "finite (groupOrder gs)" by simp
  qed
  have wf: "wf (groupOrder gs <*lex*> ownDeps gs)"
    using fin own order by (intro wf_lex_prod finite_acyclic_wf)
  have "dependsOn (stepReqs ?w) \<subseteq> inv_image (groupOrder gs <*lex*> ownDeps gs) (\<lambda>n. (gName (of' n), n))"
  proof (rule subrelI)
    fix d m assume "(d, m) \<in> dependsOn (stepReqs ?w)"
    from dependsOn_groups [OF g this] consider
      (own) g s where "g \<in> set gs" "s \<in> set (gSteps g)" "m = sdName s" "d \<in> set (sdDeps s)"
    | (after) g h where "g \<in> set gs" "h \<in> set gs" "m \<in> stepNames g" "d \<in> stepNames h" "gName h \<in> set (gAfter g)"
      by blast
    then show "(d, m) \<in> inv_image (groupOrder gs <*lex*> ownDeps gs) (\<lambda>n. (gName (of' n), n))"
    proof cases
      case (own g s)
      then have "m \<in> stepNames g" "d \<in> stepNames g" using ok by (auto simp: groups_ok_def stepNames_def)
      with own of' show ?thesis by (auto simp: ownDeps_def)
    next
      case (after g h)
      with of' show ?thesis by (auto simp: groupOrder_def)
    qed
  qed
  with wf have "wf (dependsOn (stepReqs ?w))" by (meson wf_inv_image wf_subset)
  then have "acyclic (dependsOn (stepReqs ?w))" by (rule wf_acyclic)
  moreover have names: "map srName (stepReqs ?w) = concat (map (\<lambda>g. map sdName (gSteps g)) gs)"
    using group_names [of name gs] by (simp add: stepReqs_def comp_def)
  moreover have "set (srDeps r) \<subseteq> set (map srName (stepReqs ?w))" if "r \<in> set (stepReqs ?w)" for r
  proof
    fix d assume d: "d \<in> set (srDeps r)"
    then have "(d, srName r) \<in> dependsOn (stepReqs ?w)" using that by (auto simp: dependsOn_def)
    from dependsOn_groups [OF g this] show "d \<in> set (map srName (stepReqs ?w))"
      unfolding names using ok by (fastforce simp: groups_ok_def stepNames_def)
  qed
  moreover have "srName r \<noteq> ''''" if "r \<in> set (stepReqs ?w)" for r
  proof -
    have "srName r \<in> set (map srName (stepReqs ?w))" using that by simp
    then show ?thesis unfolding names using ok by (fastforce simp: groups_ok_def)
  qed
  ultimately show ?thesis using ok by (simp add: well_formed_dag_def groups_ok_def)
qed

end
