(* ===== verification/Views.thy ===== *)
theory Views
  imports Workflows Control Purge
begin

text \<open>
  What the public API reports (execution.go, dag.go, runtree.go, retention.go): executions, run
  summaries, metrics, logs, the DAG of a run with its groups, and the tree of a run with its
  child runs. The zero time is \<open>None\<close>, and so is the empty status. The persisted groups of a run
  are decoded by a third-party library: \<open>unmarshalGroups\<close> gives the list it leaves.
\<close>

definition unixToTime :: "time \<Rightarrow> time option" where
  "unixToTime n = (if n = 0 then None else Some n)"

section \<open>Executions\<close>

record StepState =
  vsName :: string
  vsTask :: string
  vsStatus :: status
  vsDeps :: "string list"
  vsKey :: string
  vsAttempts :: int
  vsMaxAttempts :: int
  vsTimeout :: time
  vsInput :: bytes
  vsOutput :: bytes
  vsError :: string
  vsRunAt :: "time option"
  vsCreatedAt :: "time option"
  vsStartedAt :: "time option"
  vsCompletedAt :: "time option"
  vsWaitEvent :: string
  vsResumeAt :: "time option"
  vsLabels :: "string list"

record RunSummary =
  rsRunID :: string
  rsWorkflow :: string
  rsKind :: kind
  rsStatus :: status
  rsQueue :: string
  rsPriority :: int
  rsError :: string
  rsParentID :: string
  rsParentStep :: string
  rsCreatedAt :: "time option"
  rsStartedAt :: "time option"
  rsCompletedAt :: "time option"
  rsDeadLetteredAt :: "time option"
  rsEphemeral :: bool

record Execution =
  exRunID :: string
  exWorkflow :: string
  exKind :: kind
  exStatus :: status
  exQueue :: string
  exPriority :: int
  exAttempts :: int
  exMaxAttempts :: int
  exInput :: bytes
  exOutput :: bytes
  exError :: string
  exKey :: string
  exTraceParent :: string
  exRunAt :: "time option"
  exCreatedAt :: "time option"
  exStartedAt :: "time option"
  exCompletedAt :: "time option"
  exSteps :: "StepState list"
  exGroups :: "RunGroup list"
  exChildren :: "RunSummary list"

definition stepView :: "step \<Rightarrow> StepState" where
  "stepView s = \<lparr>vsName = sName s, vsTask = sTask s, vsStatus = sStatus s, vsDeps = sDependsOn s,
     vsKey = sConcurrencyKey s, vsAttempts = sAttempts s, vsMaxAttempts = sMaxAttempts s,
     vsTimeout = sTimeout s, vsInput = sInput s, vsOutput = sOutput s, vsError = sError s,
     vsRunAt = unixToTime (sRunAt s), vsCreatedAt = unixToTime (sCreatedAt s),
     vsStartedAt = unixToTime (sStartedAt s), vsCompletedAt = unixToTime (sCompletedAt s),
     vsWaitEvent = sWaitEvent s, vsResumeAt = unixToTime (sResumeAt s), vsLabels = sLabels s\<rparr>"

definition runSummary :: "run \<Rightarrow> RunSummary" where
  "runSummary r = \<lparr>rsRunID = rID r, rsWorkflow = rWorkflow r, rsKind = rKind r, rsStatus = rStatus r,
     rsQueue = rQueue r, rsPriority = rPriority r, rsError = rError r, rsParentID = rParentID r,
     rsParentStep = rParentStep r, rsCreatedAt = unixToTime (rCreatedAt r),
     rsStartedAt = unixToTime (rStartedAt r), rsCompletedAt = unixToTime (rCompletedAt r),
     rsDeadLetteredAt = unixToTime (rDeadLetteredAt r), rsEphemeral = rEphemeral r\<rparr>"

text \<open>The children of an execution are summarized without the parent step, the dead-letter time and the
  ephemeral mark.\<close>

definition childSummary :: "run \<Rightarrow> RunSummary" where
  "childSummary r = \<lparr>rsRunID = rID r, rsWorkflow = rWorkflow r, rsKind = rKind r, rsStatus = rStatus r,
     rsQueue = rQueue r, rsPriority = rPriority r, rsError = rError r, rsParentID = rParentID r,
     rsParentStep = '''', rsCreatedAt = unixToTime (rCreatedAt r),
     rsStartedAt = unixToTime (rStartedAt r), rsCompletedAt = unixToTime (rCompletedAt r),
     rsDeadLetteredAt = None, rsEphemeral = False\<rparr>"

definition executionOf :: "(bytes \<Rightarrow> RunGroup list) \<Rightarrow> string \<Rightarrow> db \<Rightarrow> err + Execution" where
  "executionOf unmarshalGroups runID d =
     (case GetRunWithSteps runID d d of
        Inl x \<Rightarrow> Inl x
      | Inr (r, ss) \<Rightarrow> Inr
          \<lparr>exRunID = rID r, exWorkflow = rWorkflow r, exKind = rKind r, exStatus = rStatus r,
           exQueue = rQueue r, exPriority = rPriority r, exAttempts = rAttempts r,
           exMaxAttempts = rMaxAttempts r, exInput = rInput r, exOutput = rOutput r,
           exError = rError r, exKey = rConcurrencyKey r, exTraceParent = rTraceParent r,
           exRunAt = unixToTime (rRunAt r), exCreatedAt = unixToTime (rCreatedAt r),
           exStartedAt = unixToTime (rStartedAt r), exCompletedAt = unixToTime (rCompletedAt r),
           exSteps = map stepView ss,
           exGroups = (if length (rGroups r) > 0 then unmarshalGroups (rGroups r) else []),
           exChildren = map childSummary (ListChildren runID d)\<rparr>)"

definition Runs :: "Filter \<Rightarrow> db \<Rightarrow> RunSummary list" where
  "Runs f d = map runSummary (ListRuns f d)"

definition Dead_letters :: "string \<Rightarrow> string \<Rightarrow> int \<Rightarrow> int \<Rightarrow> db \<Rightarrow> RunSummary list" where
  "Dead_letters workflow queue limit offset d = map runSummary (DeadLetters workflow queue limit offset d)"

text \<open>The per-queue depths leave the suspended steps at zero.\<close>

definition Metrics_view :: "db \<Rightarrow> (status \<Rightarrow> nat option) \<times> (string \<Rightarrow> QueueStats option)" where
  "Metrics_view d =
     (let (byStatus, queues) = Metrics d in
      (byStatus, \<lambda>name. map_option (\<lambda>qs. \<lparr>qsQueued = qsQueued qs, qsRunning = qsRunning qs,
         qsBlocked = qsBlocked qs, qsSuspended = 0\<rparr>) (queues name)))"

definition metricsFromSnapshot :: "(status \<Rightarrow> nat option) \<times> (string \<Rightarrow> QueueStats option) \<Rightarrow>
    (status \<Rightarrow> nat option) \<times> (string \<Rightarrow> QueueStats option)" where
  "metricsFromSnapshot s = (fst s, \<lambda>name. map_option (\<lambda>qs. \<lparr>qsQueued = qsQueued qs, qsRunning = qsRunning qs,
     qsBlocked = qsBlocked qs, qsSuspended = qsSuspended qs\<rparr>) (snd s name))"

section \<open>Purging\<close>

record PurgeRequest =
  pqOlderThan :: time
  pqStatuses :: "status list"
  pqQueue :: string
  pqExcludeDeadLettered :: bool
  pqKeepLogs :: bool
  pqBatchSize :: int

text \<open>\<open>None\<close> is the error of an age that is not positive.\<close>

definition Purge_runs :: "time \<Rightarrow> PurgeRequest \<Rightarrow> db \<Rightarrow> (err + db \<times> PurgeResult) option" where
  "Purge_runs now opts d =
     (if pqOlderThan opts \<le> 0 then None
      else Some (PurgeRuns \<lparr>poBefore = now - pqOlderThan opts, poStatuses = pqStatuses opts,
        poQueue = pqQueue opts, poExcludeDeadLettered = pqExcludeDeadLettered opts,
        poKeepLogs = pqKeepLogs opts, poBatchSize = pqBatchSize opts\<rparr> d))"

section \<open>The graph of a run\<close>

text \<open>A group's label: its own name, or a spawning step and how many child runs it has.\<close>

datatype groupLabel = NamedGroup string | ChildRuns string nat

record DAGNode =
  dnName :: string
  dnTask :: string
  dnStatus :: status
  dnDeps :: "string list"
  dnAttempts :: int
  dnMaxAttempts :: int
  dnError :: string
  dnGroup :: string

record DAGGroup =
  dgName :: string
  dgLabel :: groupLabel
  dgStatus :: "status option"
  dgParent :: string
  dgDeps :: "string list"
  dgSteps :: "string list"

record DAG =
  daRunID :: string
  daWorkflow :: string
  daKind :: "kind option"
  daStatus :: "status option"
  daQueue :: string
  daNodes :: "DAGNode list"
  daEdges :: "(string \<times> string) list"
  daGroups :: "DAGGroup list"

definition zeroDAG :: DAG where
  "zeroDAG = \<lparr>daRunID = '''', daWorkflow = '''', daKind = None, daStatus = None, daQueue = '''',
     daNodes = [], daEdges = [], daGroups = []\<rparr>"

text \<open>A failure wins, then a cancellation, then an interruption; then work in flight.\<close>

fun aggregateSteps :: "status \<Rightarrow> bool \<Rightarrow> status list \<Rightarrow> status" where
  "aggregateSteps acc inflight [] = (if acc = Succeeded \<and> inflight then Running else acc)"
| "aggregateSteps acc inflight (s # ss) =
     (if s = Failed then Failed
      else if s = Cancelled then aggregateSteps Cancelled inflight ss
      else if s = Interrupted then aggregateSteps (if acc \<noteq> Cancelled then Interrupted else acc) inflight ss
      else if s \<in> {Running, Queued, Blocked, Suspended, Paused} then aggregateSteps acc True ss
      else aggregateSteps acc inflight ss)"

definition aggregateStepStatus :: "status list \<Rightarrow> status option" where
  "aggregateStepStatus ss = (if length ss = 0 then None else Some (aggregateSteps Succeeded False ss))"

fun aggregateRuns :: "status \<Rightarrow> status list \<Rightarrow> status" where
  "aggregateRuns acc [] = acc"
| "aggregateRuns acc (s # ss) =
     (if s = Failed then Failed
      else if s = Cancelled then aggregateRuns Cancelled ss
      else if s = Interrupted then aggregateRuns (if acc \<noteq> Cancelled then Interrupted else acc) ss
      else if s \<in> {Running, Queued, Blocked, Suspended, Paused} then aggregateRuns (if acc = Succeeded then Running else acc) ss
      else aggregateRuns acc ss)"

definition aggregateRunStatus :: "RunSummary list \<Rightarrow> status" where
  "aggregateRunStatus rs = aggregateRuns Succeeded (map rsStatus rs)"

text \<open>The group of a step: the last group that lists it.\<close>

definition groupOf :: "RunGroup list \<Rightarrow> string \<Rightarrow> string" where
  "groupOf gs n = fold (\<lambda>g acc. if List.member (rgSteps g) n then rgName g else acc) gs ''''"

definition stepNode :: "RunGroup list \<Rightarrow> StepState \<Rightarrow> DAGNode" where
  "stepNode gs s = \<lparr>dnName = vsName s, dnTask = vsTask s, dnStatus = vsStatus s, dnDeps = vsDeps s,
     dnAttempts = vsAttempts s, dnMaxAttempts = vsMaxAttempts s, dnError = vsError s,
     dnGroup = groupOf gs (vsName s)\<rparr>"

definition stepEdges :: "RunGroup list \<Rightarrow> StepState \<Rightarrow> (string \<times> string) list" where
  "stepEdges gs s = map (\<lambda>dep. (dep, vsName s))
     (filter (\<lambda>dep. \<not> (groupOf gs dep \<noteq> '''' \<and> groupOf gs (vsName s) \<noteq> '''' \<and> groupOf gs dep \<noteq> groupOf gs (vsName s)))
        (vsDeps s))"

definition groupView :: "Execution \<Rightarrow> RunGroup \<Rightarrow> DAGGroup" where
  "groupView ex g = \<lparr>dgName = rgName g, dgLabel = NamedGroup (rgName g),
     dgStatus = aggregateStepStatus (map vsStatus (filter (\<lambda>s. groupOf (exGroups ex) (vsName s) \<noteq> '''' \<and>
       groupOf (exGroups ex) (vsName s) = rgName g) (exSteps ex))),
     dgParent = '''', dgDeps = rgDeps g, dgSteps = rgSteps g\<rparr>"

definition dagView :: "Execution \<Rightarrow> DAG" where
  "dagView ex = \<lparr>daRunID = exRunID ex, daWorkflow = exWorkflow ex, daKind = Some (exKind ex),
     daStatus = Some (exStatus ex), daQueue = exQueue ex, daNodes = map (stepNode (exGroups ex)) (exSteps ex),
     daEdges = concat (map (stepEdges (exGroups ex)) (exSteps ex)) @
       concat (map (\<lambda>g. map (\<lambda>dep. (dep, rgName g)) (rgDeps g)) (exGroups ex)),
     daGroups = map (groupView ex) (exGroups ex)\<rparr>"

definition DAG_of :: "(bytes \<Rightarrow> RunGroup list) \<Rightarrow> string \<Rightarrow> db \<Rightarrow> err + DAG" where
  "DAG_of unmarshalGroups runID d = map_sum id dagView (executionOf unmarshalGroups runID d)"

section \<open>The tree of a run\<close>

text \<open>The suffix of a run id after its last dash, or its first eight characters.\<close>

definition shortRunID :: "string \<Rightarrow> string" where
  "shortRunID i =
     (let suffix = rev (takeWhile (\<lambda>c. c \<noteq> CHR ''-'') (rev i)) in
      if CHR ''-'' \<in> set i \<and> suffix \<noteq> '''' then suffix
      else if length i > 8 then take 8 i else i)"

text \<open>The children of a run by the step that spawned them, in the order of first appearance.\<close>

definition spawnGroups :: "RunSummary list \<Rightarrow> (string \<times> RunSummary list) list" where
  "spawnGroups kids = map (\<lambda>st. (st, filter (\<lambda>k. rsParentStep k = st) kids)) (dedupStrings (map rsParentStep kids))"

definition spawnerGroup :: "string \<Rightarrow> string \<Rightarrow> (string \<times> RunSummary list) list \<Rightarrow> string \<Rightarrow> string option" where
  "spawnerGroup i pfx order name =
     map_option (\<lambda>g. i @ ''/'' @ fst g) (find (\<lambda>g. fst g \<noteq> '''' \<and> pfx @ fst g = name) order)"

definition redirect :: "(string \<Rightarrow> string option) \<Rightarrow> string \<Rightarrow> string" where
  "redirect spawner dep = (case spawner dep of Some g \<Rightarrow> g | None \<Rightarrow> dep)"

definition stepDepsOf :: "string \<Rightarrow> StepState list \<Rightarrow> string \<Rightarrow> string list" where
  "stepDepsOf pfx ss name =
     concat (map (\<lambda>s. if pfx @ vsName s = name then map (\<lambda>d. pfx @ d) (vsDeps s) else []) ss)"

text \<open>The node of a step that has not spawned runs, with its edges.\<close>

definition addStepNode :: "string \<Rightarrow> string \<Rightarrow> (string \<Rightarrow> string option) \<Rightarrow> StepState \<Rightarrow> DAG \<Rightarrow> DAG" where
  "addStepNode pfx parentGroup spawner s out =
     (let name = pfx @ vsName s in
      if spawner name \<noteq> None then out
      else
        let deps = map (\<lambda>d. redirect spawner (pfx @ d)) (vsDeps s) in
        out\<lparr>daEdges := daEdges out @ map (\<lambda>d. (d, name)) deps,
            daNodes := daNodes out @ [\<lparr>dnName = name, dnTask = vsTask s, dnStatus = vsStatus s,
              dnDeps = deps, dnAttempts = vsAttempts s, dnMaxAttempts = vsMaxAttempts s,
              dnError = vsError s, dnGroup = parentGroup\<rparr>]\<rparr>)"

definition addSpawnGroup ::
  "string \<Rightarrow> string \<Rightarrow> string \<Rightarrow> (string \<Rightarrow> string option) \<Rightarrow> StepState list \<Rightarrow> string \<times> RunSummary list \<Rightarrow> DAG \<Rightarrow> DAG" where
  "addSpawnGroup i pfx parentGroup spawner ss g out =
     (let deps = dedupStrings (map (redirect spawner) (stepDepsOf pfx ss (pfx @ fst g)));
          name = i @ ''/'' @ fst g
      in out\<lparr>daGroups := daGroups out @ [\<lparr>dgName = name, dgLabel = ChildRuns (fst g) (length (snd g)),
               dgStatus = Some (aggregateRunStatus (snd g)), dgParent = parentGroup, dgDeps = deps, dgSteps = []\<rparr>],
             daEdges := daEdges out @ map (\<lambda>d. (d, name)) deps\<rparr>)"

text \<open>\<open>addRun\<close> for the levels that are left, and the limits of the code: depth 8, 2000 nodes, 200
  children of a run. The state is the graph built so far and the runs already drawn.\<close>

primrec addRun ::
  "(bytes \<Rightarrow> RunGroup list) \<Rightarrow> db \<Rightarrow> nat \<Rightarrow> string \<Rightarrow> string \<Rightarrow> string \<Rightarrow> DAG \<times> string set \<Rightarrow> err + DAG \<times> string set" where
  "addRun unmarshalGroups d 0 i pfx parentGroup st = Inr st"
| "addRun unmarshalGroups d (Suc n) i pfx parentGroup st =
     (let (out, seen) = st in
      if i \<in> seen \<or> length (daNodes out) \<ge> 2000 then Inr st
      else
        (case executionOf unmarshalGroups i d of
           Inl x \<Rightarrow> Inl x
         | Inr ex \<Rightarrow>
             let out1 = (if daRunID out = ''''
                   then out\<lparr>daRunID := exRunID ex, daWorkflow := exWorkflow ex, daKind := Some (exKind ex),
                     daStatus := Some (exStatus ex), daQueue := exQueue ex\<rparr> else out);
                 kids = Runs \<lparr>fStatus = None, fQueue = '''', fWorkflow = '''', fParentID = i, fLimit = 200, fOffset = 0\<rparr> d;
                 order = spawnGroups kids;
                 spawner = spawnerGroup i pfx order;
                 out2 = fold (addStepNode pfx parentGroup spawner) (exSteps ex) out1
             in foldE (\<lambda>g st. let (o', seen') = st in
                    foldE (\<lambda>k. addRun unmarshalGroups d n (rsRunID k) (pfx @ shortRunID (rsRunID k) @ ''/'') (i @ ''/'' @ fst g))
                      (snd g) (addSpawnGroup i pfx parentGroup spawner (exSteps ex) g o', seen'))
                  order (out2, insert i seen)))"

definition DAGTree :: "(bytes \<Rightarrow> RunGroup list) \<Rightarrow> string \<Rightarrow> db \<Rightarrow> err + DAG" where
  "DAGTree unmarshalGroups runID d = map_sum id fst (addRun unmarshalGroups d 9 runID '''' '''' (zeroDAG, {}))"

end
