(* ===== verification/Route.thy ===== *)
theory Route
  imports Prelude Complex_Main
begin

text \<open>
  Routing of an edge of a drawn graph (dag_route.go): right-angle paths on the grid that the
  obstacles span, found by Dijkstra's algorithm with a penalty for bends. The code computes in
  float64; coordinates are exact here (rationals). The priority queue of container/heap is a list
  from which the least node is taken; a distance that is infinite and a predecessor that is -1 are
  \<open>None\<close>. The arrays indexed by state number are functions of the state.
\<close>

definition routeClearance :: rat where "routeClearance = 7"
definition routeBendPenalty :: rat where "routeBendPenalty = 24"
definition routeMargin :: rat where "routeMargin = 16"
definition rrEps :: rat where "rrEps = 1 / 1000000"

record svgRect =
  rectX :: rat
  rectY :: rat
  rectW :: rat
  rectH :: rat

type_synonym routePoint = "rat \<times> rat"

definition inflateRect :: "svgRect \<Rightarrow> rat \<Rightarrow> svgRect" where
  "inflateRect r by' = \<lparr>rectX = rectX r - by', rectY = rectY r - by', rectW = rectW r + 2 * by', rectH = rectH r + 2 * by'\<rparr>"

section \<open>The search\<close>

record 'v rrNode =
  nAt :: 'v
  nDist :: rat

record 'v search =
  shHeap :: "'v rrNode list"
  shDist :: "'v \<Rightarrow> rat option"
  shPrev :: "'v \<Rightarrow> 'v option"

text \<open>The order of the queue: the distance, then the number of the state.\<close>

definition rrLess :: "('v \<Rightarrow> nat) \<Rightarrow> 'v rrNode \<Rightarrow> 'v rrNode \<Rightarrow> bool" where
  "rrLess num a b = (if nDist a \<noteq> nDist b then nDist a < nDist b else num (nAt a) < num (nAt b))"

fun leastNode :: "('v \<Rightarrow> nat) \<Rightarrow> 'v rrNode \<Rightarrow> 'v rrNode list \<Rightarrow> 'v rrNode" where
  "leastNode num n [] = n"
| "leastNode num n (m # ms) = leastNode num (if rrLess num m n then m else n) ms"

definition relaxMove :: "'v rrNode \<Rightarrow> 'v \<times> rat \<Rightarrow> 'v search \<Rightarrow> 'v search" where
  "relaxMove cur mv st =
     (let v = fst mv; cost = nDist cur + snd mv in
      if (case shDist st v of None \<Rightarrow> True | Some d \<Rightarrow> cost < d)
      then \<lparr>shHeap = shHeap st @ [\<lparr>nAt = v, nDist = cost\<rparr>], shDist = (shDist st)(v \<mapsto> cost),
            shPrev = (shPrev st)(v \<mapsto> nAt cur)\<rparr>
      else st)"

text \<open>The loop, with fuel. A node whose distance has improved since it was queued is skipped.\<close>

fun routeSearch :: "('v \<Rightarrow> nat) \<Rightarrow> ('v \<Rightarrow> ('v \<times> rat) list) \<Rightarrow> 'v \<Rightarrow> nat \<Rightarrow> 'v search \<Rightarrow> 'v search option" where
  "routeSearch num moves goal 0 st = None"
| "routeSearch num moves goal (Suc n) st =
     (case shHeap st of
        [] \<Rightarrow> Some st
      | x # xs \<Rightarrow>
          let cur = leastNode num x xs; st' = st\<lparr>shHeap := remove1 cur (shHeap st)\<rparr> in
          if (case shDist st (nAt cur) of None \<Rightarrow> False | Some d \<Rightarrow> nDist cur > d) then routeSearch num moves goal n st'
          else if nAt cur = goal then Some st'
          else routeSearch num moves goal n (fold (relaxMove cur) (moves (nAt cur)) st'))"

text \<open>The states from the goal back to the start.\<close>

fun traceBack :: "('v \<Rightarrow> 'v option) \<Rightarrow> nat \<Rightarrow> 'v \<Rightarrow> 'v list option" where
  "traceBack prev 0 s = None"
| "traceBack prev (Suc n) s =
     (case prev s of None \<Rightarrow> Some [s] | Some p \<Rightarrow> map_option (\<lambda>ss. s # ss) (traceBack prev n p))"

definition startSearch :: "'v \<Rightarrow> 'v search" where
  "startSearch s = \<lparr>shHeap = [\<lparr>nAt = s, nDist = 0\<rparr>], shDist = [s \<mapsto> 0], shPrev = Map.empty\<rparr>"

text \<open>The states from the start to the goal; none when the goal was not reached.\<close>

definition shortestPath :: "('v \<Rightarrow> nat) \<Rightarrow> ('v \<Rightarrow> ('v \<times> rat) list) \<Rightarrow> nat \<Rightarrow> 'v \<Rightarrow> 'v \<Rightarrow> 'v list option" where
  "shortestPath num moves sz start goal =
     (case routeSearch num moves goal (4 * sz + 2) (startSearch start) of
        None \<Rightarrow> None
      | Some st \<Rightarrow> if shDist st goal = None then Some [] else map_option rev (traceBack (shPrev st) (sz + 1) goal))"

section \<open>The grid\<close>

datatype dir = DirRight | DirLeft | DirDown | DirUp | DirNone

definition dirNo :: "dir \<Rightarrow> nat" where
  "dirNo d = (case d of DirRight \<Rightarrow> 0 | DirLeft \<Rightarrow> 1 | DirDown \<Rightarrow> 2 | DirUp \<Rightarrow> 3 | DirNone \<Rightarrow> 4)"

type_synonym gridState = "nat \<times> nat \<times> dir"

definition stateNo :: "nat \<Rightarrow> gridState \<Rightarrow> nat" where
  "stateNo width s = (case s of (i, j, d) \<Rightarrow> (j * width + i) * 5 + dirNo d)"

definition uniqSortedFloat :: "rat list \<Rightarrow> rat list" where
  "uniqSortedFloat vals = remdups_adj (sort vals)"

text \<open>The lines of the grid: the coordinates of the ends and the obstacles with a border around.\<close>

definition gridLines :: "rat list \<Rightarrow> rat list" where
  "gridLines vals = (let us = uniqSortedFloat vals in (hd us - routeMargin) # us @ [last us + routeMargin])"

definition indexOf :: "rat list \<Rightarrow> rat \<Rightarrow> nat" where
  "indexOf vs v = fold (\<lambda>i m. if vs ! i = v then i else m) [0..<length vs] 0"

definition clearH :: "svgRect list \<Rightarrow> rat list \<Rightarrow> rat list \<Rightarrow> nat \<Rightarrow> nat \<Rightarrow> nat \<Rightarrow> bool" where
  "clearH obstacles xs ys i ni j =
     (let xa = min (xs ! i) (xs ! ni); xb = max (xs ! i) (xs ! ni); y = ys ! j in
      list_all (\<lambda>r. \<not> (y > rectY r + rrEps \<and> y < rectY r + rectH r - rrEps \<and>
        xb > rectX r + rrEps \<and> xa < rectX r + rectW r - rrEps)) obstacles)"

definition clearV :: "svgRect list \<Rightarrow> rat list \<Rightarrow> rat list \<Rightarrow> nat \<Rightarrow> nat \<Rightarrow> nat \<Rightarrow> bool" where
  "clearV obstacles xs ys j nj i =
     (let ya = min (ys ! j) (ys ! nj); yb = max (ys ! j) (ys ! nj); x = xs ! i in
      list_all (\<lambda>r. \<not> (x > rectX r + rrEps \<and> x < rectX r + rectW r - rrEps \<and>
        yb > rectY r + rrEps \<and> ya < rectY r + rectH r - rrEps)) obstacles)"

text \<open>The cell one step in a direction, if it is on the grid.\<close>

definition gridStep :: "nat \<Rightarrow> nat \<Rightarrow> nat \<Rightarrow> nat \<Rightarrow> dir \<Rightarrow> (nat \<times> nat) option" where
  "gridStep width height i j d =
     (case d of
        DirRight \<Rightarrow> if i + 1 < width then Some (i + 1, j) else None
      | DirLeft \<Rightarrow> if i > 0 then Some (i - 1, j) else None
      | DirDown \<Rightarrow> if j + 1 < height then Some (i, j + 1) else None
      | DirUp \<Rightarrow> if j > 0 then Some (i, j - 1) else None
      | DirNone \<Rightarrow> None)"

definition gridMoves :: "svgRect list \<Rightarrow> rat list \<Rightarrow> rat list \<Rightarrow> gridState \<Rightarrow> (gridState \<times> rat) list" where
  "gridMoves obstacles xs ys s =
     (case s of (i, j, dir) \<Rightarrow>
        concat (map (\<lambda>d.
          if dir = DirNone \<and> d \<noteq> DirRight then []
          else
            (case gridStep (length xs) (length ys) i j d of
               None \<Rightarrow> []
             | Some (ni, nj) \<Rightarrow>
                 let bend = (if dir \<noteq> DirNone \<and> dir \<noteq> d then routeBendPenalty else 0) in
                 if d = DirRight \<or> d = DirLeft then
                   (if clearH obstacles xs ys i ni j then [((ni, nj, d), \<bar>xs ! ni - xs ! i\<bar> + bend)] else [])
                 else
                   (if clearV obstacles xs ys j nj i then [((ni, nj, d), \<bar>ys ! nj - ys ! j\<bar> + bend)] else [])))
          [DirRight, DirLeft, DirDown, DirUp]))"

section \<open>Routes\<close>

fun simplifyFrom :: "routePoint \<Rightarrow> routePoint list \<Rightarrow> routePoint list" where
  "simplifyFrom a (b # c # ps) =
     (if (fst a = fst b \<and> fst b = fst c) \<or> (snd a = snd b \<and> snd b = snd c) then simplifyFrom a (c # ps)
      else b # simplifyFrom b (c # ps))"
| "simplifyFrom a [b] = [b]"
| "simplifyFrom a [] = []"

definition simplifyRoute :: "routePoint list \<Rightarrow> routePoint list" where
  "simplifyRoute pts = (if length pts < 3 then pts else hd pts # simplifyFrom (hd pts) (tl pts))"

definition routeXs :: "rat \<Rightarrow> rat \<Rightarrow> svgRect list \<Rightarrow> rat list" where
  "routeXs x1 x2 obstacles = gridLines ([x1, x2] @ concat (map (\<lambda>r. [rectX r, rectX r + rectW r]) obstacles))"

definition routeYs :: "rat \<Rightarrow> rat \<Rightarrow> svgRect list \<Rightarrow> rat list" where
  "routeYs y1 y2 obstacles = gridLines ([y1, y2] @ concat (map (\<lambda>r. [rectY r, rectY r + rectH r]) obstacles))"

definition startState :: "rat \<Rightarrow> rat \<Rightarrow> rat \<Rightarrow> rat \<Rightarrow> svgRect list \<Rightarrow> gridState" where
  "startState x1 y1 x2 y2 obstacles =
     (indexOf (routeXs x1 x2 obstacles) x1, indexOf (routeYs y1 y2 obstacles) y1, DirNone)"

definition goalState :: "rat \<Rightarrow> rat \<Rightarrow> rat \<Rightarrow> rat \<Rightarrow> svgRect list \<Rightarrow> gridState" where
  "goalState x1 y1 x2 y2 obstacles =
     (indexOf (routeXs x1 x2 obstacles) x2, indexOf (routeYs y1 y2 obstacles) y2, DirRight)"

text \<open>The states of a route on the grid; the empty list when there is none, and \<open>None\<close> would be a search
  that ran out of fuel.\<close>

definition gridPath :: "rat \<Rightarrow> rat \<Rightarrow> rat \<Rightarrow> rat \<Rightarrow> svgRect list \<Rightarrow> gridState list option" where
  "gridPath x1 y1 x2 y2 obstacles =
     (let xs = routeXs x1 x2 obstacles; ys = routeYs y1 y2 obstacles in
      shortestPath (stateNo (length xs)) (gridMoves obstacles xs ys) (length xs * length ys * 5)
        (startState x1 y1 x2 y2 obstacles) (goalState x1 y1 x2 y2 obstacles))"

definition pointAt :: "rat list \<Rightarrow> rat list \<Rightarrow> gridState \<Rightarrow> routePoint" where
  "pointAt xs ys s = (xs ! fst s, ys ! fst (snd s))"

text \<open>The empty list is the missing route.\<close>

definition routeEdge :: "rat \<Rightarrow> rat \<Rightarrow> rat \<Rightarrow> rat \<Rightarrow> svgRect list \<Rightarrow> routePoint list option" where
  "routeEdge x1 y1 x2 y2 obstacles =
     (if x2 \<le> x1 then Some []
      else map_option (\<lambda>ss. simplifyRoute (map (pointAt (routeXs x1 x2 obstacles) (routeYs y1 y2 obstacles)) ss))
        (gridPath x1 y1 x2 y2 obstacles))"

end
