(* ===== verification/Layout.thy ===== *)
theory Layout
  imports Views Route
begin

text \<open>
  The layout of a drawn graph (dag_svg.go): the tree of clusters, the levels of the units of a cluster
  by Kahn's algorithm, columns and stacks, and absolute positions. Coordinates are rationals. A unit
  is a node or a whole child cluster; a unit is known by its index in the code's list of units. A Go
  map that is only read back is the list of its writes, the last one counts. Levels that were never
  set read as 0, which is also the level the code falls back to.
\<close>

definition dagNodeH :: rat where "dagNodeH = 44"
definition dagHGap :: rat where "dagHGap = 72"
definition dagVGap :: rat where "dagVGap = 20"
definition dagPadX :: rat where "dagPadX = 28"
definition dagPadY :: rat where "dagPadY = 24"
definition dagTitleH :: rat where "dagTitleH = 54"
definition dagLegend :: rat where "dagLegend = 46"
definition clusterPadX :: rat where "clusterPadX = 16"
definition clusterPadY :: rat where "clusterPadY = 12"
definition clusterLabelH :: rat where "clusterLabelH = 18"

section \<open>Clusters\<close>

datatype dagCluster = Cluster (clKey: string) (clDeps: "string list") (clNodes: "nat list") (clChildren: "dagCluster list")

definition known_group :: "DAG \<Rightarrow> string \<Rightarrow> bool" where
  "known_group d k \<longleftrightarrow> k = '''' \<or> List.member (map dgName (daGroups d)) k"

text \<open>The cluster a group hangs off: the root, when the parent is unknown or the group itself.\<close>

definition parentKey :: "DAG \<Rightarrow> DAGGroup \<Rightarrow> string" where
  "parentKey d g = (if known_group d (dgParent g) \<and> dgParent g \<noteq> dgName g then dgParent g else '''')"

definition childKeys :: "DAG \<Rightarrow> string \<Rightarrow> string list" where
  "childKeys d k = map dgName (filter (\<lambda>g. parentKey d g = k) (daGroups d))"

definition clusterDeps :: "DAG \<Rightarrow> string \<Rightarrow> string list" where
  "clusterDeps d k = (case find (\<lambda>g. dgName g = k) (rev (daGroups d)) of None \<Rightarrow> [] | Some g \<Rightarrow> dgDeps g)"

definition clusterNodes :: "DAG \<Rightarrow> string \<Rightarrow> nat list" where
  "clusterNodes d k = filter (\<lambda>i. (let g = dnGroup (daNodes d ! i) in (if known_group d g then g else '''')) = k)
     [0..<length (daNodes d)]"

text \<open>The tree below a key, for so many levels; \<open>None\<close> when they do not suffice. (Groups that contain
  each other below the root make the code recurse forever.)\<close>

primrec clusterTree :: "DAG \<Rightarrow> nat \<Rightarrow> string \<Rightarrow> dagCluster option" where
  "clusterTree d 0 k = None"
| "clusterTree d (Suc n) k =
     map_option (Cluster k (clusterDeps d k) (clusterNodes d k)) (those (map (clusterTree d n) (childKeys d k)))"

definition buildClusters :: "DAG \<Rightarrow> dagCluster option" where
  "buildClusters d = clusterTree d (length (daGroups d) + 1) ''''"

section \<open>Levels\<close>

type_synonym 'v levelState = "('v \<Rightarrow> int) \<times> ('v \<Rightarrow> nat) \<times> 'v list"

fun relaxLevels :: "'v \<Rightarrow> 'v list \<Rightarrow> 'v levelState \<Rightarrow> 'v levelState" where
  "relaxLevels u [] st = st"
| "relaxLevels u (v # vs) (indeg, level, queue) =
     (let level' = (if level u + 1 > level v then level(v := level u + 1) else level);
          indeg' = indeg(v := indeg v - 1)
      in relaxLevels u vs (indeg', level', if indeg' v = 0 then queue @ [v] else queue))"

text \<open>The loop runs once for every unit that is queued; \<open>levelLoop_done\<close> shows that the rounds suffice.\<close>

fun levelLoop :: "('v \<Rightarrow> 'v list) \<Rightarrow> nat \<Rightarrow> 'v levelState \<Rightarrow> 'v levelState" where
  "levelLoop adj 0 st = st"
| "levelLoop adj (Suc n) (indeg, level, queue) =
     (case queue of
        [] \<Rightarrow> (indeg, level, queue)
      | u # q \<Rightarrow> levelLoop adj n (relaxLevels u (adj u) (indeg, level, q)))"

definition longestLevels :: "'v list \<Rightarrow> ('v \<times> 'v) list \<Rightarrow> 'v \<Rightarrow> nat" where
  "longestLevels us es =
     (let indeg = (\<lambda>v. int (length (filter (\<lambda>e. snd e = v) es)));
          adj = (\<lambda>u. map snd (filter (\<lambda>e. fst e = u) es))
      in fst (snd (levelLoop adj (length us) (indeg, \<lambda>_. 0, filter (\<lambda>u. indeg u = 0) us))))"

definition dagLevels :: "DAG \<Rightarrow> string \<Rightarrow> nat" where
  "dagLevels d = longestLevels (map dnName (daNodes d))
     (concat (map (\<lambda>n. map (\<lambda>dep. (dep, dnName n))
        (filter (List.member (map dnName (daNodes d))) (dnDeps n))) (daNodes d)))"

section \<open>The units of a cluster\<close>

record layoutUnit =
  unKey :: string
  unW :: rat
  unH :: rat
  unGroup :: bool
  unMembers :: "string list"

datatype box = Box (bxKey: string) (bxW: rat) (bxH: rat) (bxLocal: "(string \<times> rat \<times> rat) list")
  (bxUnits: "(string \<times> rat \<times> rat) list") (bxChildren: "box list")

definition nodeName :: "DAG \<Rightarrow> nat \<Rightarrow> string" where
  "nodeName d i = dnName (daNodes d ! i)"

fun subNodes :: "dagCluster \<Rightarrow> nat list" where
  "subNodes (Cluster k deps ns cs) = ns @ concat (map subNodes cs)"

definition layoutUnits :: "DAG \<Rightarrow> rat \<Rightarrow> nat list \<Rightarrow> (dagCluster \<times> box) list \<Rightarrow> layoutUnit list" where
  "layoutUnits d nodeW ns kids =
     map (\<lambda>i. \<lparr>unKey = nodeName d i, unW = nodeW, unH = dagNodeH, unGroup = False, unMembers = [nodeName d i]\<rparr>) ns @
     map (\<lambda>(c, b). \<lparr>unKey = clKey c, unW = bxW b, unH = bxH b, unGroup = True, unMembers = map (nodeName d) (subNodes c)\<rparr>) kids"

definition ownerOf :: "layoutUnit list \<Rightarrow> string \<Rightarrow> nat option" where
  "ownerOf us name = find (\<lambda>u. List.member (unMembers (us ! u)) name) (rev [0..<length us])"

definition groupUnit :: "layoutUnit list \<Rightarrow> string \<Rightarrow> nat option" where
  "groupUnit us k = find (\<lambda>u. unGroup (us ! u) \<and> unKey (us ! u) = k) (rev [0..<length us])"

definition liftEdge :: "nat option \<Rightarrow> nat option \<Rightarrow> (nat \<times> nat) list" where
  "liftEdge fu tu = (case fu of None \<Rightarrow> [] | Some f \<Rightarrow> (case tu of None \<Rightarrow> [] | Some t \<Rightarrow> if f = t then [] else [(f, t)]))"

definition unitEdges :: "DAG \<Rightarrow> layoutUnit list \<Rightarrow> dagCluster list \<Rightarrow> (nat \<times> nat) list" where
  "unitEdges d us cs =
     concat (map (\<lambda>e. liftEdge (ownerOf us (fst e)) (ownerOf us (snd e))) (daEdges d)) @
     concat (map (\<lambda>c. concat (map (\<lambda>dep.
       liftEdge (case ownerOf us dep of None \<Rightarrow> groupUnit us dep | Some u \<Rightarrow> Some u) (groupUnit us (clKey c))) (clDeps c))) cs)"

section \<open>Columns and stacks\<close>

definition columnUnits :: "(nat \<Rightarrow> nat) \<Rightarrow> nat \<Rightarrow> nat \<Rightarrow> nat list" where
  "columnUnits level n l = filter (\<lambda>u. level u = l) [0..<n]"

definition columnWidth :: "(rat \<times> rat) list \<Rightarrow> nat list \<Rightarrow> rat" where
  "columnWidth szs us = fold (\<lambda>u m. if fst (szs ! u) > m then fst (szs ! u) else m) us 0"

fun columnHeight :: "(rat \<times> rat) list \<Rightarrow> nat list \<Rightarrow> rat" where
  "columnHeight szs [] = 0"
| "columnHeight szs [u] = snd (szs ! u)"
| "columnHeight szs (u # us) = snd (szs ! u) + dagVGap + columnHeight szs us"

fun stackFrom :: "(rat \<times> rat) list \<Rightarrow> rat \<Rightarrow> nat list \<Rightarrow> (nat \<times> rat) list" where
  "stackFrom szs y [] = []"
| "stackFrom szs y (u # us) = (u, y) # stackFrom szs (y + snd (szs ! u) + dagVGap) us"

definition maxLevel :: "(nat \<Rightarrow> nat) \<Rightarrow> nat \<Rightarrow> nat" where
  "maxLevel level n = fold (\<lambda>u m. if level u > m then level u else m) [0..<n] 0"

definition columnX :: "(rat \<times> rat) list \<Rightarrow> (nat \<Rightarrow> nat) \<Rightarrow> nat \<Rightarrow> rat" where
  "columnX szs level l =
     sum_list (map (\<lambda>k. columnWidth szs (columnUnits level (length szs) k) + dagHGap) [0..<l])"

definition contentW :: "(rat \<times> rat) list \<Rightarrow> (nat \<Rightarrow> nat) \<Rightarrow> rat" where
  "contentW szs level = (let m = maxLevel level (length szs) in
     columnX szs level m + columnWidth szs (columnUnits level (length szs) m))"

definition contentH :: "(rat \<times> rat) list \<Rightarrow> (nat \<Rightarrow> nat) \<Rightarrow> rat" where
  "contentH szs level = fold (\<lambda>l m. let h = columnHeight szs (columnUnits level (length szs) l) in if h > m then h else m)
     [0..<maxLevel level (length szs) + 1] 0"

definition placeColumn :: "(rat \<times> rat) list \<Rightarrow> (nat \<Rightarrow> nat) \<Rightarrow> nat \<Rightarrow> (nat \<times> rat \<times> rat) list" where
  "placeColumn szs level l =
     (let us = columnUnits level (length szs) l in
      map (\<lambda>(u, y). (u, columnX szs level l + (columnWidth szs us - fst (szs ! u)) / 2, y))
        (stackFrom szs ((contentH szs level - columnHeight szs us) / 2) us))"

definition placeUnits :: "(rat \<times> rat) list \<Rightarrow> (nat \<Rightarrow> nat) \<Rightarrow> (nat \<times> rat \<times> rat) list" where
  "placeUnits szs level = concat (map (placeColumn szs level) [0..<maxLevel level (length szs) + 1])"

section \<open>Laying out\<close>

fun layoutCluster :: "DAG \<Rightarrow> rat \<Rightarrow> bool \<Rightarrow> dagCluster \<Rightarrow> box" where
  "layoutCluster d nodeW isRoot (Cluster k deps ns cs) =
     (let kids = map (layoutCluster d nodeW False) cs;
          us = layoutUnits d nodeW ns (zip cs kids)
      in if length us = 0 then Box k 0 0 [] [] kids
         else
           let level = longestLevels [0..<length us] (unitEdges d us cs);
               szs = map (\<lambda>u. (unW u, unH u)) us;
               padX = (if isRoot then dagPadX else clusterPadX);
               padY = (if isRoot then dagPadY else clusterPadY);
               labelH = (if isRoot then 0 else clusterLabelH);
               placed = map (\<lambda>(u, x, y). (us ! u, x + padX, y + padY + labelH)) (placeUnits szs level)
           in Box k (contentW szs level + 2 * padX) (contentH szs level + 2 * padY + labelH)
                (map (\<lambda>(u, p). (unKey u, p)) (filter (\<lambda>(u, p). \<not> unGroup u) placed))
                (map (\<lambda>(u, p). (unKey u, p)) (filter (\<lambda>(u, p). unGroup u) placed)) kids)"

definition lookupPos :: "(string \<times> rat \<times> rat) list \<Rightarrow> string \<Rightarrow> rat \<times> rat" where
  "lookupPos ps k = (case map_of (rev ps) k of None \<Rightarrow> (0, 0) | Some p \<Rightarrow> p)"

text \<open>\<open>absolutize\<close>, what it writes into \<open>pos\<close> and into \<open>boxes\<close>.\<close>

fun absNodes :: "box \<Rightarrow> rat \<Rightarrow> rat \<Rightarrow> (string \<times> rat \<times> rat) list" where
  "absNodes (Box k w h local units kids) dx dy =
     map (\<lambda>(n, x, y). (n, x + dx, y + dy)) local @
     concat (map (\<lambda>b. absNodes b (dx + fst (lookupPos units (bxKey b))) (dy + snd (lookupPos units (bxKey b)))) kids)"

fun absBoxes :: "box \<Rightarrow> rat \<Rightarrow> rat \<Rightarrow> (string \<times> svgRect) list" where
  "absBoxes (Box k w h local units kids) dx dy =
     (if k \<noteq> '''' then [(k, \<lparr>rectX = dx, rectY = dy, rectW = w, rectH = h\<rparr>)] else []) @
     concat (map (\<lambda>b. absBoxes b (dx + fst (lookupPos units (bxKey b))) (dy + snd (lookupPos units (bxKey b)))) kids)"

definition layoutDAG :: "DAG \<Rightarrow> rat \<Rightarrow> ((string \<times> rat \<times> rat) list \<times> (string \<times> svgRect) list \<times> rat \<times> rat) option" where
  "layoutDAG d nodeW =
     map_option (\<lambda>c. let b = layoutCluster d nodeW True c in
        (absNodes b 0 dagTitleH, absBoxes b 0 dagTitleH, bxW b, dagTitleH + bxH b + dagLegend)) (buildClusters d)"

end
