(* ===== verification/Layout_Laws.thy ===== *)
theory Layout_Laws
  imports Layout
begin

text \<open>
  Laws of the layout. Levels: along an edge the level grows, unless the edge leaves a cycle. Columns:
  units never overlap, keep the gaps and stay inside the content. Clusters: the boxes of the children
  and the nodes of a cluster lie apart, and each inside the box of its cluster.
\<close>

section \<open>Levels\<close>

lemma relaxLevels_spec:
  assumes "relaxLevels u vs (indeg, level, q) = (indeg', level', q')" and "u \<notin> set vs"
    and "\<And>v. v \<in> set vs \<Longrightarrow> int (count_list vs v) \<le> indeg v"
  shows "(\<forall>v. indeg' v = indeg v - int (count_list vs v)) \<and>
    (\<forall>v. level' v = (if v \<in> set vs then max (level v) (level u + 1) else level v)) \<and>
    (\<exists>new. q' = q @ new \<and> distinct new \<and> set new = {v \<in> set vs. indeg v = int (count_list vs v)})"
  using assms
proof (induction vs arbitrary: indeg level q)
  case (Cons v vs)
  let ?l = "if level u + 1 > level v then level(v := level u + 1) else level"
  let ?i = "indeg(v := indeg v - 1)"
  let ?q = "if ?i v = 0 then q @ [v] else q"
  have r: "relaxLevels u vs (?i, ?l, ?q) = (indeg', level', q')" using Cons.prems(1) by (simp add: Let_def)
  have u: "u \<notin> set vs" "u \<noteq> v" using Cons.prems(2) by auto
  have le: "int (count_list vs x) \<le> ?i x" if "x \<in> set vs" for x
    using Cons.prems(3) [of x] that by auto
  from Cons.IH [OF r u(1) le] obtain new where new: "q' = ?q @ new" "distinct new"
      "set new = {x \<in> set vs. ?i x = int (count_list vs x)}"
    and deg: "\<And>x. indeg' x = ?i x - int (count_list vs x)"
    and lev: "\<And>x. level' x = (if x \<in> set vs then max (?l x) (?l u + 1) else ?l x)" by blast
  have "indeg' x = indeg x - int (count_list (v # vs) x)" for x by (simp add: deg)
  moreover have "level' x = (if x \<in> set (v # vs) then max (level x) (level u + 1) else level x)" for x
    using u(2) by (auto simp: lev max_def)
  moreover have "\<exists>new'. q' = q @ new' \<and> distinct new' \<and> set new' = {x \<in> set (v # vs). indeg x = int (count_list (v # vs) x)}"
  proof (cases "?i v = 0")
    case True
    then have "v \<notin> set vs" using le [of v] count_list_0_iff [of vs v] by auto
    moreover have "indeg v = 1" using True by simp
    ultimately show ?thesis using new True by (intro exI [of _ "v # new"]) auto
  next
    case False
    have "v \<in> set vs" if "indeg v = int (count_list (v # vs) v)"
      using False that count_list_0_iff [of vs v] by auto
    then show ?thesis using new False by (intro exI [of _ new]) auto
  qed
  ultimately show ?case by blast
qed simp

definition pending :: "('v \<times> 'v) list \<Rightarrow> 'v set \<Rightarrow> 'v \<Rightarrow> nat" where
  "pending es P v = length (filter (\<lambda>e. snd e = v \<and> fst e \<notin> P) es)"

definition level_inv :: "'v list \<Rightarrow> ('v \<times> 'v) list \<Rightarrow> 'v list \<Rightarrow> 'v levelState \<Rightarrow> bool" where
  "level_inv us es P st \<longleftrightarrow> (case st of (indeg, level, queue) \<Rightarrow>
     distinct (P @ queue) \<and> set (P @ queue) \<subseteq> set us \<and> (\<forall>v. indeg v = int (pending es (set P) v)) \<and>
     (\<forall>v \<in> set us. v \<in> set (P @ queue) \<longleftrightarrow> indeg v = 0) \<and>
     (\<forall>u \<in> set P. \<forall>v. (u, v) \<in> set es \<longrightarrow> level u < level v))"

lemma waiting_visit:
  assumes "u \<notin> P"
  shows "pending es P v = pending es (insert u P) v + count_list (map snd (filter (\<lambda>e. fst e = u) es)) v"
  using assms by (induction es) (auto simp: pending_def)

lemma level_inv_visit:
  assumes inv: "level_inv us es P (indeg, level, u # q)" and es: "set es \<subseteq> set us \<times> set us"
    and loop: "(u, u) \<notin> set es"
    and r: "relaxLevels u (map snd (filter (\<lambda>e. fst e = u) es)) (indeg, level, q) = (indeg', level', q')"
  shows "level_inv us es (P @ [u]) (indeg', level', q')"
proof -
  let ?vs = "map snd (filter (\<lambda>e. fst e = u) es)"
  from inv have dist: "distinct (P @ u # q)" and sub: "set (P @ u # q) \<subseteq> set us"
    and deg: "\<And>v. indeg v = int (pending es (set P) v)"
    and zero: "\<And>v. v \<in> set us \<Longrightarrow> v \<in> set (P @ u # q) \<longleftrightarrow> indeg v = 0"
    and lev: "\<And>w v. w \<in> set P \<Longrightarrow> (w, v) \<in> set es \<Longrightarrow> level w < level v"
    by (auto simp: level_inv_def)
  have u: "u \<notin> set P" "u \<in> set us" "u \<notin> set ?vs" using dist sub loop by auto
  have vs: "set ?vs \<subseteq> set us" using es by auto
  have split: "pending es (set P) v = pending es (insert u (set P)) v + count_list ?vs v" for v
    by (rule waiting_visit [OF u(1)])
  have le: "int (count_list ?vs v) \<le> indeg v" for v using split [of v] by (simp add: deg)
  from relaxLevels_spec [OF r u(3) le] obtain new where new: "q' = q @ new" "distinct new"
      "set new = {v \<in> set ?vs. indeg v = int (count_list ?vs v)}"
    and deg': "\<And>v. indeg' v = indeg v - int (count_list ?vs v)"
    and lev': "\<And>v. level' v = (if v \<in> set ?vs then max (level v) (level u + 1) else level v)" by blast
  have d': "indeg' v = int (pending es (set (P @ [u])) v)" for v using split [of v] by (simp add: deg' deg)
  have set_new: "v \<in> set new \<longleftrightarrow> indeg v \<noteq> 0 \<and> indeg' v = 0" for v
    using count_list_0_iff [of ?vs v] by (auto simp: new(3) deg')
  have "distinct ((P @ [u]) @ q')" using dist new(1,2) set_new zero vs new(3) by fastforce
  moreover have "set ((P @ [u]) @ q') \<subseteq> set us" using sub vs new by auto
  moreover have "v \<in> set ((P @ [u]) @ q') \<longleftrightarrow> indeg' v = 0" if "v \<in> set us" for v
  proof -
    have "indeg' v = 0" if "indeg v = 0" using that split [of v] by (simp add: d' deg)
    then show ?thesis using set_new [of v] zero [OF that] by (auto simp: new(1))
  qed
  moreover have "level' w < level' v" if "w \<in> set (P @ [u])" "(w, v) \<in> set es" for w v
  proof -
    have "w \<in> set us" "indeg w = 0" using that(1) sub zero u(2) by auto
    then have "count_list ?vs w = 0" using le [of w] by simp
    then have same: "level' w = level w" by (simp add: lev' count_list_0_iff)
    show ?thesis
    proof (cases "w = u")
      case True
      then have "v \<in> set ?vs" using that(2) by force
      with True same show ?thesis by (auto simp: lev')
    next
      case False
      then have "level w < level v" using that lev by auto
      then show ?thesis unfolding same by (auto simp: lev')
    qed
  qed
  ultimately show ?thesis using d' unfolding level_inv_def by blast
qed

lemma levelLoop_inv:
  assumes "level_inv us es P st" and "set es \<subseteq> set us \<times> set us" and "irrefl (set es)"
    and "length us \<le> length P + n"
  shows "\<exists>Q indeg level. levelLoop (\<lambda>u. map snd (filter (\<lambda>e. fst e = u) es)) n st = (indeg, level, []) \<and>
    level_inv us es Q (indeg, level, [])"
  using assms
proof (induction n arbitrary: P st)
  case 0
  obtain indeg level q where st: "st = (indeg, level, q)" by (cases st)
  have "distinct (P @ q)" "set (P @ q) \<subseteq> set us" using 0(1) by (auto simp: level_inv_def st)
  then have "length (P @ q) \<le> length us" by (metis card_length card_mono distinct_card finite_set le_trans)
  with 0(4) have "length q = 0" by (simp only: length_append)
  then have "q = []" by simp
  with 0(1) st show ?case by auto
next
  case (Suc n)
  obtain indeg level q where st: "st = (indeg, level, q)" by (cases st)
  show ?case
  proof (cases q)
    case Nil
    with Suc st show ?thesis by auto
  next
    case (Cons u q')
    obtain i' l' q'' where r: "relaxLevels u (map snd (filter (\<lambda>e. fst e = u) es)) (indeg, level, q') = (i', l', q'')"
      by (metis prod_cases3)
    have "(u, u) \<notin> set es" using Suc.prems(3) by (auto simp: irrefl_def)
    with Suc.prems(1,2) r have "level_inv us es (P @ [u]) (i', l', q'')"
      unfolding st Cons by (rule_tac level_inv_visit)
    with Suc.IH [of "P @ [u]" "(i', l', q'')"] Suc.prems r st Cons show ?thesis by simp
  qed
qed

text \<open>The rounds of the loop suffice, and along the edges of an acyclic graph the level grows.\<close>

lemma levelLoop_done:
  assumes "distinct us" and "set es \<subseteq> set us \<times> set us" and "irrefl (set es)"
  shows "\<exists>Q indeg. levelLoop (\<lambda>u. map snd (filter (\<lambda>e. fst e = u) es)) (length us)
      (\<lambda>v. int (length (filter (\<lambda>e. snd e = v) es)), \<lambda>_. 0,
       filter (\<lambda>u. int (length (filter (\<lambda>e. snd e = u) es)) = 0) us) = (indeg, longestLevels us es, []) \<and>
    level_inv us es Q (indeg, longestLevels us es, [])"
proof -
  let ?st = "(\<lambda>v. int (length (filter (\<lambda>e. snd e = v) es)), \<lambda>_. 0,
       filter (\<lambda>u. int (length (filter (\<lambda>e. snd e = u) es)) = 0) us) :: 'a levelState"
  have "level_inv us es [] ?st" using assms(1) by (auto simp: level_inv_def pending_def)
  from levelLoop_inv [OF this assms(2,3)] obtain Q indeg level where
    "levelLoop (\<lambda>u. map snd (filter (\<lambda>e. fst e = u) es)) (length us) ?st = (indeg, level, [])"
    "level_inv us es Q (indeg, level, [])" using order_refl [of "length us"] by (metis add.left_neutral list.size(3))
  moreover have "longestLevels us es = level" using calculation(1) by (simp add: longestLevels_def Let_def)
  ultimately show ?thesis by blast
qed

lemma longestLevels_edge:
  assumes "distinct us" and "set es \<subseteq> set us \<times> set us" and "acyclic (set es)" and "(u, v) \<in> set es"
  shows "longestLevels us es u < longestLevels us es v"
proof -
  have "irrefl (set es)" using assms(3) by (auto simp: irrefl_def acyclic_def)
  from levelLoop_done [OF assms(1,2) this] obtain Q indeg where inv: "level_inv us es Q (indeg, longestLevels us es, [])"
    by blast
  have "set us - set Q = {}"
  proof (rule ccontr)
    assume "set us - set Q \<noteq> {}"
    moreover have "wf (set es)" using assms(3) by (intro finite_acyclic_wf) simp
    ultimately obtain m where m: "m \<in> set us - set Q" "\<And>d. (d, m) \<in> set es \<Longrightarrow> d \<notin> set us - set Q"
      using wfE_min by (metis ex_in_conv)
    then have "indeg m \<noteq> 0" "indeg m = int (pending es (set Q) m)" using inv by (auto simp: level_inv_def)
    then obtain e where "e \<in> set es" "snd e = m" "fst e \<notin> set Q"
      by (auto simp: pending_def filter_empty_conv)
    with m(2) [of "fst e"] assms(2) show False by (cases e) auto
  qed
  with inv assms(2,4) show ?thesis by (auto simp: level_inv_def)
qed

section \<open>Columns\<close>

definition apart :: "rat \<Rightarrow> svgRect \<Rightarrow> svgRect \<Rightarrow> bool" where
  "apart g r s \<longleftrightarrow> rectX r + rectW r + g \<le> rectX s \<or> rectX s + rectW s + g \<le> rectX r \<or>
     rectY r + rectH r + g \<le> rectY s \<or> rectY s + rectH s + g \<le> rectY r"

definition enclosed :: "svgRect \<Rightarrow> svgRect \<Rightarrow> bool" where
  "enclosed r s \<longleftrightarrow> rectX s \<le> rectX r \<and> rectX r + rectW r \<le> rectX s + rectW s \<and>
     rectY s \<le> rectY r \<and> rectY r + rectH r \<le> rectY s + rectH s"

lemma apart_sym: "apart g r s \<Longrightarrow> apart g s r"
  by (auto simp: apart_def)

lemma apart_enclosed: "apart g r s \<Longrightarrow> enclosed r' r \<Longrightarrow> enclosed s' s \<Longrightarrow> apart g r' s'"
  unfolding apart_def enclosed_def by linarith

lemma enclosed_trans: "enclosed r s \<Longrightarrow> enclosed s t \<Longrightarrow> enclosed r t"
  unfolding enclosed_def by linarith

lemma enclosed_refl [simp]: "enclosed r r"
  by (simp add: enclosed_def)

lemma fold_greatest:
  fixes f :: "'a \<Rightarrow> 'b :: linorder"
  shows "a \<le> fold (\<lambda>u m. if f u > m then f u else m) us a"
    and "u \<in> set us \<Longrightarrow> f u \<le> fold (\<lambda>u m. if f u > m then f u else m) us a"
proof -
  have ge: "a \<le> fold (\<lambda>u m. if f u > m then f u else m) us a" for a us
  proof (induction us arbitrary: a)
    case (Cons x us)
    have "a \<le> (if f x > a then f x else a)" by (simp add: less_imp_le)
    also note Cons [of "if f x > a then f x else a"]
    finally show ?case by simp
  qed simp
  then show "a \<le> fold (\<lambda>u m. if f u > m then f u else m) us a" .
  show "u \<in> set us \<Longrightarrow> f u \<le> fold (\<lambda>u m. if f u > m then f u else m) us a"
  proof (induction us arbitrary: a)
    case (Cons x us)
    show ?case
    proof (cases "u = x")
      case True
      have "f x \<le> (if f x > a then f x else a)" by (simp add: not_less)
      also note ge [of "if f x > a then f x else a" us]
      finally show ?thesis using True by (simp only: fold_simps)
    next
      case False
      with Cons show ?thesis by simp
    qed
  qed simp
qed

lemma columnWidth: "0 \<le> columnWidth szs us" "u \<in> set us \<Longrightarrow> fst (szs ! u) \<le> columnWidth szs us"
  unfolding columnWidth_def by (rule fold_greatest)+

lemma columnHeight_le_content:
  "l \<le> maxLevel level (length szs) \<Longrightarrow> columnHeight szs (columnUnits level (length szs) l) \<le> contentH szs level"
  unfolding contentH_def Let_def by (rule fold_greatest) auto

lemma level_le_max: "u < n \<Longrightarrow> level u \<le> maxLevel level n"
  unfolding maxLevel_def by (rule fold_greatest) auto

lemma columnX_next:
  assumes "l < m"
  shows "columnX szs level l + columnWidth szs (columnUnits level (length szs) l) + dagHGap \<le> columnX szs level m"
  using assms
proof (induction m)
  case (Suc m)
  have x: "columnX szs level (Suc m) = columnX szs level m + columnWidth szs (columnUnits level (length szs) m) + dagHGap"
    by (simp add: columnX_def)
  show ?case
  proof (cases "l = m")
    case False
    with Suc columnWidth(1) [of szs "columnUnits level (length szs) m"] show ?thesis by (simp add: x dagHGap_def)
  qed (simp add: x)
qed simp

lemma columnX_nonneg: "0 \<le> columnX szs level l"
  unfolding columnX_def using columnWidth(1) by (intro sum_list_nonneg) (auto simp: dagHGap_def add_nonneg_nonneg)

text \<open>The stack of a column.\<close>

lemma columnHeight_Cons: "columnHeight szs (u # us) = snd (szs ! u) + (if us = [] then 0 else dagVGap + columnHeight szs us)"
  by (cases us) simp_all

lemma columnHeight_nonneg: "\<forall>u \<in> set us. 0 \<le> snd (szs ! u) \<Longrightarrow> 0 \<le> columnHeight szs us"
  by (induction us) (auto simp: columnHeight_Cons dagVGap_def)

lemma stackFrom_fst: "map fst (stackFrom szs y us) = us"
  by (induction us arbitrary: y) simp_all

lemma stackFrom_bounds:
  "(u, z) \<in> set (stackFrom szs y us) \<Longrightarrow> \<forall>v \<in> set us. 0 \<le> snd (szs ! v) \<Longrightarrow>
     y \<le> z \<and> z + snd (szs ! u) \<le> y + columnHeight szs us"
proof (induction us arbitrary: y)
  case (Cons v us)
  have nn: "0 \<le> snd (szs ! v)" "0 \<le> columnHeight szs us" using Cons.prems(2) by (auto intro: columnHeight_nonneg)
  show ?case
  proof (cases "(u, z) = (v, y)")
    case True
    with nn show ?thesis by (auto simp: columnHeight_Cons dagVGap_def)
  next
    case False
    with Cons.prems(1) have "(u, z) \<in> set (stackFrom szs (y + snd (szs ! v) + dagVGap) us)" by auto
    with Cons.IH [OF this] Cons.prems(2) nn show ?thesis
      by (cases us) (auto simp: columnHeight_Cons dagVGap_def)
  qed
qed simp

lemma stackFrom_apart:
  "(u, y1) \<in> set (stackFrom szs y us) \<Longrightarrow> (v, y2) \<in> set (stackFrom szs y us) \<Longrightarrow> u \<noteq> v \<Longrightarrow>
     \<forall>v \<in> set us. 0 \<le> snd (szs ! v) \<Longrightarrow>
     y1 + snd (szs ! u) + dagVGap \<le> y2 \<or> y2 + snd (szs ! v) + dagVGap \<le> y1"
proof (induction us arbitrary: y)
  case (Cons w us)
  let ?y = "y + snd (szs ! w) + dagVGap"
  have b: "?y \<le> z" if "(x, z) \<in> set (stackFrom szs ?y us)" for x z
    using stackFrom_bounds [OF that] Cons.prems(4) by auto
  consider "u = w" "y1 = y" "(v, y2) \<in> set (stackFrom szs ?y us)" | "v = w" "y2 = y" "(u, y1) \<in> set (stackFrom szs ?y us)"
    | "(u, y1) \<in> set (stackFrom szs ?y us)" "(v, y2) \<in> set (stackFrom szs ?y us)"
    using Cons.prems(1-3) by auto
  then show ?case
  proof cases
    case 1
    with b show ?thesis by auto
  next
    case 2
    with b show ?thesis by auto
  next
    case 3
    with Cons.IH [OF this] Cons.prems(3,4) show ?thesis by auto
  qed
qed simp

text \<open>All units of a cluster.\<close>

definition unitRect :: "(rat \<times> rat) list \<Rightarrow> nat \<times> rat \<times> rat \<Rightarrow> svgRect" where
  "unitRect szs p = \<lparr>rectX = fst (snd p), rectY = snd (snd p), rectW = fst (szs ! fst p), rectH = snd (szs ! fst p)\<rparr>"

lemma set_columnUnits: "u \<in> set (columnUnits level n l) \<longleftrightarrow> u < n \<and> level u = l"
  by (auto simp: columnUnits_def)

lemma placeUnits_mem:
  assumes "(u, x, y) \<in> set (placeUnits szs level)"
  shows "u < length szs" and "level u \<le> maxLevel level (length szs)"
    and "x = columnX szs level (level u) + (columnWidth szs (columnUnits level (length szs) (level u)) - fst (szs ! u)) / 2"
    and "(u, y) \<in> set (stackFrom szs ((contentH szs level - columnHeight szs (columnUnits level (length szs) (level u))) / 2)
      (columnUnits level (length szs) (level u)))"
proof -
  from assms obtain l where l: "(u, x, y) \<in> set (placeColumn szs level l)" "l \<le> maxLevel level (length szs)"
    by (auto simp: placeUnits_def)
  let ?us = "columnUnits level (length szs) l"
  from l(1) have s: "(u, y) \<in> set (stackFrom szs ((contentH szs level - columnHeight szs ?us) / 2) ?us)"
    "x = columnX szs level l + (columnWidth szs ?us - fst (szs ! u)) / 2" by (auto simp: placeColumn_def Let_def)
  from s(1) have "u \<in> set (map fst (stackFrom szs ((contentH szs level - columnHeight szs ?us) / 2) ?us))" by force
  then have u: "u < length szs" "level u = l" by (simp_all add: stackFrom_fst set_columnUnits)
  with s l(2) show "u < length szs" "level u \<le> maxLevel level (length szs)"
    "x = columnX szs level (level u) + (columnWidth szs (columnUnits level (length szs) (level u)) - fst (szs ! u)) / 2"
    "(u, y) \<in> set (stackFrom szs ((contentH szs level - columnHeight szs (columnUnits level (length szs) (level u))) / 2)
      (columnUnits level (length szs) (level u)))" by simp_all
qed

lemma placeUnits_fst: "set (map fst (placeUnits szs level)) = {..<length szs}" "distinct (map fst (placeUnits szs level))"
proof -
  have col: "map fst (placeColumn szs level l) = columnUnits level (length szs) l" for l
  proof -
    have "map fst (placeColumn szs level l) = map fst (stackFrom szs ((contentH szs level -
        columnHeight szs (columnUnits level (length szs) l)) / 2) (columnUnits level (length szs) l))"
      by (simp add: placeColumn_def Let_def comp_def case_prod_beta)
    then show ?thesis by (simp add: stackFrom_fst)
  qed
  have all: "map fst (placeUnits szs level) = concat (map (columnUnits level (length szs)) [0..<maxLevel level (length szs) + 1])"
    by (simp add: placeUnits_def map_concat comp_def col del: upt_Suc)
  show "set (map fst (placeUnits szs level)) = {..<length szs}"
    unfolding all using level_le_max [of _ "length szs" level] by (auto simp: set_columnUnits less_Suc_eq_le simp del: upt_Suc)
  have "distinct (concat (map (columnUnits level n) [0..<m]))" for n m
    by (induction m) (auto simp: set_columnUnits columnUnits_def)
  then show "distinct (map fst (placeUnits szs level))" unfolding all .
qed

definition sized :: "(rat \<times> rat) list \<Rightarrow> bool" where
  "sized szs \<longleftrightarrow> (\<forall>p \<in> set szs. 0 \<le> fst p \<and> 0 \<le> snd p)"

lemma sized_nth: "sized szs \<Longrightarrow> u < length szs \<Longrightarrow> 0 \<le> fst (szs ! u) \<and> 0 \<le> snd (szs ! u)"
  by (simp add: sized_def)

lemma placeUnits_before:
  assumes "(u, x, y) \<in> set (placeUnits szs level)" and "(v, x', y') \<in> set (placeUnits szs level)" and "level u < level v"
  shows "x + fst (szs ! u) + dagHGap \<le> x'"
proof -
  note p = placeUnits_mem [OF assms(1)] and q = placeUnits_mem [OF assms(2)]
  have "fst (szs ! u) \<le> columnWidth szs (columnUnits level (length szs) (level u))"
    "fst (szs ! v) \<le> columnWidth szs (columnUnits level (length szs) (level v))"
    using p(1) q(1) by (auto intro!: columnWidth(2) simp: set_columnUnits)
  with columnX_next [OF assms(3), of szs level] show ?thesis unfolding p(3) q(3) by (simp add: field_simps)
qed

lemma placeUnits_apart:
  assumes "sized szs" and "p \<in> set (placeUnits szs level)" and "q \<in> set (placeUnits szs level)" and "fst p \<noteq> fst q"
  shows "apart dagVGap (unitRect szs p) (unitRect szs q)"
proof -
  obtain u x y v x' y' where pq: "p = (u, x, y)" "q = (v, x', y')" by (metis surj_pair)
  note a = assms(2,3) [unfolded pq]
  have gap: "dagVGap \<le> dagHGap" by (simp add: dagVGap_def dagHGap_def)
  consider "level u < level v" | "level v < level u" | "level u = level v" by linarith
  then show ?thesis
  proof cases
    case 1
    with placeUnits_before [OF a] gap show ?thesis by (simp add: pq apart_def unitRect_def)
  next
    case 2
    with placeUnits_before [OF a(2,1)] gap show ?thesis by (simp add: pq apart_def unitRect_def)
  next
    case 3
    note p = placeUnits_mem(4) [OF a(1)] and q = placeUnits_mem(4) [OF a(2)]
    have "\<forall>w \<in> set (columnUnits level (length szs) (level u)). 0 \<le> snd (szs ! w)"
      using sized_nth [OF assms(1)] by (auto simp: set_columnUnits)
    from stackFrom_apart [OF p q [folded 3] _ this] assms(4) show ?thesis
      by (auto simp: pq apart_def unitRect_def)
  qed
qed

lemma placeUnits_enclosed:
  assumes "sized szs" and "p \<in> set (placeUnits szs level)"
  shows "enclosed (unitRect szs p) \<lparr>rectX = 0, rectY = 0, rectW = contentW szs level, rectH = contentH szs level\<rparr>"
proof -
  obtain u x y where p: "p = (u, x, y)" by (metis surj_pair)
  note m = placeUnits_mem [OF assms(2) [unfolded p]]
  let ?us = "columnUnits level (length szs) (level u)"
  have w: "fst (szs ! u) \<le> columnWidth szs ?us" using m(1) by (auto intro!: columnWidth(2) simp: set_columnUnits)
  have x: "0 \<le> x" "x + fst (szs ! u) \<le> columnX szs level (level u) + columnWidth szs ?us"
    using w columnX_nonneg [of szs level "level u"] unfolding m(3) by (simp_all add: field_simps)
  have "columnX szs level (level u) + columnWidth szs ?us \<le> contentW szs level"
  proof (cases "level u = maxLevel level (length szs)")
    case False
    with m(2) columnX_next [of "level u" "maxLevel level (length szs)" szs level]
      columnWidth(1) [of szs "columnUnits level (length szs) (maxLevel level (length szs))"]
    show ?thesis by (simp add: contentW_def Let_def dagHGap_def)
  qed (simp add: contentW_def Let_def)
  moreover have "\<forall>w \<in> set ?us. 0 \<le> snd (szs ! w)" using sized_nth [OF assms(1)] by (auto simp: set_columnUnits)
  from stackFrom_bounds [OF m(4) this] columnHeight_le_content [OF m(2)]
  have "0 \<le> y" "y + snd (szs ! u) \<le> contentH szs level" by (simp_all add: field_simps)
  ultimately show ?thesis using x by (simp add: p enclosed_def unitRect_def)
qed

section \<open>Clusters\<close>

definition nodeRect :: "rat \<Rightarrow> string \<times> rat \<times> rat \<Rightarrow> svgRect" where
  "nodeRect nodeW p = \<lparr>rectX = fst (snd p), rectY = snd (snd p), rectW = nodeW, rectH = dagNodeH\<rparr>"

text \<open>A tidy picture of a frame: nodes and boxes are inside, the nodes lie apart, and a box encloses a
  node or keeps away from it.\<close>

definition tidy_picture :: "rat \<Rightarrow> svgRect \<Rightarrow> (string \<times> rat \<times> rat) list \<Rightarrow> (string \<times> svgRect) list \<Rightarrow> bool" where
  "tidy_picture nodeW frame ns bs \<longleftrightarrow> (\<forall>p \<in> set ns. enclosed (nodeRect nodeW p) frame) \<and>
     (\<forall>b \<in> set bs. enclosed (snd b) frame) \<and>
     sorted_wrt (\<lambda>p q. apart dagVGap (nodeRect nodeW p) (nodeRect nodeW q)) ns \<and>
     (\<forall>p \<in> set ns. \<forall>b \<in> set bs. enclosed (nodeRect nodeW p) (snd b) \<or> apart dagVGap (nodeRect nodeW p) (snd b))"

lemma tidy_picture_frame: "tidy_picture nodeW frame ns bs \<Longrightarrow> enclosed frame frame' \<Longrightarrow> tidy_picture nodeW frame' ns bs"
  using enclosed_trans unfolding tidy_picture_def by blast

lemma tidy_picture_box: "tidy_picture nodeW frame ns bs \<Longrightarrow> tidy_picture nodeW frame ns ((k, frame) # bs)"
  by (auto simp: tidy_picture_def)

lemma tidy_picture_append:
  assumes "tidy_picture nodeW f1 ns1 bs1" and "tidy_picture nodeW f2 ns2 bs2"
    and "\<And>p b. p \<in> set ns1 \<union> set ns2 \<Longrightarrow> b \<in> set bs1 \<union> set bs2 \<Longrightarrow>
      enclosed (nodeRect nodeW p) (snd b) \<or> apart dagVGap (nodeRect nodeW p) (snd b)"
    and "\<And>p q. p \<in> set ns1 \<Longrightarrow> q \<in> set ns2 \<Longrightarrow> apart dagVGap (nodeRect nodeW p) (nodeRect nodeW q)"
    and "enclosed f1 frame" and "enclosed f2 frame"
  shows "tidy_picture nodeW frame (ns1 @ ns2) (bs1 @ bs2)"
  using assms tidy_picture_frame [OF assms(1,5)] tidy_picture_frame [OF assms(2,6)]
  by (auto simp: tidy_picture_def sorted_wrt_append)

text \<open>Tidy pictures in frames that lie apart are one tidy picture.\<close>

lemma tidy_picture_join:
  assumes "\<And>c ns bs. (c, ns, bs) \<in> set parts \<Longrightarrow> tidy_picture nodeW c ns bs \<and> enclosed c frame"
    and "sorted_wrt (apart dagVGap) (map fst parts)"
  shows "tidy_picture nodeW frame (concat (map (fst \<circ> snd) parts)) (concat (map (snd \<circ> snd) parts))"
  using assms
proof (induction parts)
  case (Cons part parts)
  obtain c ns bs where part: "part = (c, ns, bs)" by (metis surj_pair)
  have here: "tidy_picture nodeW c ns bs" "enclosed c frame" using Cons.prems(1) part by auto
  have rest: "tidy_picture nodeW frame (concat (map (fst \<circ> snd) parts)) (concat (map (snd \<circ> snd) parts))"
    by (rule Cons.IH) (use Cons.prems in auto)
  have off: "apart dagVGap c c'" "tidy_picture nodeW c' ns' bs'" if "(c', ns', bs') \<in> set parts" for c' ns' bs'
    using Cons.prems that part by force+
  have cells: "enclosed (nodeRect nodeW p) c'" if "tidy_picture nodeW c' ns' bs'" "p \<in> set ns'" for p c' ns' bs'
    using that by (simp add: tidy_picture_def)
  have cells': "enclosed (snd b) c'" if "tidy_picture nodeW c' ns' bs'" "b \<in> set bs'" for b c' ns' bs'
    using that by (simp add: tidy_picture_def)
  have node_part: "\<exists>c'. apart dagVGap c c' \<and> enclosed (nodeRect nodeW p) c'" if "p \<in> set (concat (map (fst \<circ> snd) parts))" for p
  proof -
    from that obtain c' ns' bs' where q: "(c', ns', bs') \<in> set parts" "p \<in> set ns'" by fastforce
    with off [OF q(1)] cells show ?thesis by blast
  qed
  have box_part: "\<exists>c'. apart dagVGap c c' \<and> enclosed (snd b) c'" if "b \<in> set (concat (map (snd \<circ> snd) parts))" for b
  proof -
    from that obtain c' ns' bs' where q: "(c', ns', bs') \<in> set parts" "b \<in> set bs'" by fastforce
    with off [OF q(1)] cells' show ?thesis by blast
  qed
  have nodes: "apart dagVGap (nodeRect nodeW p) (nodeRect nodeW q)"
    if "p \<in> set ns" "q \<in> set (concat (map (fst \<circ> snd) parts))" for p q
    using node_part [OF that(2)] cells [OF here(1) that(1)] apart_enclosed by blast
  have mixed1: "apart dagVGap (nodeRect nodeW p) (snd b)"
    if "p \<in> set ns" "b \<in> set (concat (map (snd \<circ> snd) parts))" for p b
    using box_part [OF that(2)] cells [OF here(1) that(1)] apart_enclosed by blast
  have mixed2: "apart dagVGap (nodeRect nodeW p) (snd b)"
    if "p \<in> set (concat (map (fst \<circ> snd) parts))" "b \<in> set bs" for p b
    using node_part [OF that(1)] cells' [OF here(1) that(2)] apart_enclosed apart_sym by blast
  have "tidy_picture nodeW frame (ns @ concat (map (fst \<circ> snd) parts)) (bs @ concat (map (snd \<circ> snd) parts))"
  proof (rule tidy_picture_append [OF here(1) rest _ nodes here(2) enclosed_refl])
    fix p b assume "p \<in> set ns \<union> set (concat (map (fst \<circ> snd) parts))" "b \<in> set bs \<union> set (concat (map (snd \<circ> snd) parts))"
    then show "enclosed (nodeRect nodeW p) (snd b) \<or> apart dagVGap (nodeRect nodeW p) (snd b)"
      using mixed1 mixed2 here(1) rest unfolding tidy_picture_def by blast
  qed
  then show ?case by (simp add: part comp_def)
qed (simp add: tidy_picture_def)

text \<open>The cell of a unit: its rectangle on the page.\<close>

definition unitPos :: "(rat \<times> rat) list \<Rightarrow> (nat \<Rightarrow> nat) \<Rightarrow> nat \<Rightarrow> rat \<times> rat" where
  "unitPos szs level u = the (map_of (placeUnits szs level) u)"

lemma unitPos: "(u, p) \<in> set (placeUnits szs level) \<longleftrightarrow> u < length szs \<and> p = unitPos szs level u"
proof -
  have "(u, p) \<in> set (placeUnits szs level) \<longleftrightarrow> map_of (placeUnits szs level) u = Some p"
    using placeUnits_fst(2) by (simp add: map_of_eq_Some_iff)
  moreover have "u < length szs \<longleftrightarrow> map_of (placeUnits szs level) u \<noteq> None"
    using placeUnits_fst(1) [of szs level] by (auto simp: map_of_eq_None_iff)
  ultimately show ?thesis by (auto simp: unitPos_def)
qed

definition cell :: "(rat \<times> rat) list \<Rightarrow> (nat \<Rightarrow> nat) \<Rightarrow> rat \<Rightarrow> rat \<Rightarrow> nat \<Rightarrow> svgRect" where
  "cell szs level ox oy u = \<lparr>rectX = ox + fst (unitPos szs level u), rectY = oy + snd (unitPos szs level u),
     rectW = fst (szs ! u), rectH = snd (szs ! u)\<rparr>"

lemma cells_apart:
  "sized szs \<Longrightarrow> u < length szs \<Longrightarrow> v < length szs \<Longrightarrow> u \<noteq> v \<Longrightarrow>
     apart dagVGap (cell szs level ox oy u) (cell szs level ox oy v)"
  using placeUnits_apart [of szs "(u, unitPos szs level u)" level "(v, unitPos szs level v)"]
  by (simp add: unitPos apart_def cell_def unitRect_def add.assoc)

lemma cells_enclosed:
  assumes "sized szs" and "u < length szs" and "0 \<le> px" and "0 \<le> py" and "0 \<le> lh"
  shows "enclosed (cell szs level (dx + px) (dy + (py + lh)) u)
    \<lparr>rectX = dx, rectY = dy, rectW = contentW szs level + 2 * px, rectH = contentH szs level + 2 * py + lh\<rparr>"
  using placeUnits_enclosed [of szs "(u, unitPos szs level u)" level] assms
  by (simp add: unitPos enclosed_def cell_def unitRect_def)

lemma content_nonneg: "0 \<le> contentW szs level" "0 \<le> contentH szs level"
proof -
  show "0 \<le> contentW szs level"
    unfolding contentW_def Let_def using columnX_nonneg columnWidth(1) by (rule add_nonneg_nonneg)
  show "0 \<le> contentH szs level" unfolding contentH_def Let_def by (rule fold_greatest)
qed

lemma sorted_wrt_distinct:
  assumes "distinct us" and "\<And>u v. u \<in> set us \<Longrightarrow> v \<in> set us \<Longrightarrow> u \<noteq> v \<Longrightarrow> R (f u) (f v)"
  shows "sorted_wrt R (map f us)"
  using assms by (induction us) auto

text \<open>A cluster whose children, at every depth, have distinct keys.\<close>

fun distinct_keys :: "dagCluster \<Rightarrow> bool" where
  "distinct_keys (Cluster k deps ns cs) \<longleftrightarrow> distinct (map clKey cs) \<and> list_all distinct_keys cs"

lemma bxKey_layout: "bxKey (layoutCluster d nodeW isRoot c) = clKey c"
  by (cases c) (simp add: Let_def)

lemma layoutUnits_nth:
  assumes "length kids = length cs"
  shows "length (layoutUnits d nodeW ns (zip cs kids)) = length ns + length cs"
    and "u < length ns \<Longrightarrow> layoutUnits d nodeW ns (zip cs kids) ! u =
      \<lparr>unKey = nodeName d (ns ! u), unW = nodeW, unH = dagNodeH, unGroup = False, unMembers = [nodeName d (ns ! u)]\<rparr>"
    and "j < length cs \<Longrightarrow> layoutUnits d nodeW ns (zip cs kids) ! (length ns + j) =
      \<lparr>unKey = clKey (cs ! j), unW = bxW (kids ! j), unH = bxH (kids ! j), unGroup = True,
       unMembers = map (nodeName d) (subNodes (cs ! j))\<rparr>"
  using assms by (simp_all add: layoutUnits_def nth_append)

text \<open>The parts of the box of a cluster: its frame, the frames of its units, and where its children go.\<close>

lemma layoutCluster_parts:
  assumes "distinct (map clKey cs)" and "ns \<noteq> [] \<or> cs \<noteq> []"
  obtains szs level px py lh local units kids where
    "layoutCluster d nodeW isRoot (Cluster k deps ns cs) =
       Box k (contentW szs level + 2 * px) (contentH szs level + 2 * py + lh) local units kids"
    and "0 \<le> px" "0 \<le> py" "0 \<le> lh" and "kids = map (layoutCluster d nodeW False) cs"
    and "length szs = length ns + length cs" and "\<And>u. u < length ns \<Longrightarrow> szs ! u = (nodeW, dagNodeH)"
    and "\<And>j. j < length cs \<Longrightarrow> szs ! (length ns + j) = (bxW (kids ! j), bxH (kids ! j))"
    and "local = map (\<lambda>u. (nodeName d (ns ! u), px + fst (unitPos szs level u), (py + lh) + snd (unitPos szs level u)))
      (filter (\<lambda>u. u < length ns) (map fst (placeUnits szs level)))"
    and "\<And>j. j < length cs \<Longrightarrow> lookupPos units (bxKey (kids ! j)) =
      (px + fst (unitPos szs level (length ns + j)), (py + lh) + snd (unitPos szs level (length ns + j)))"
proof -
  define kids where "kids = map (layoutCluster d nodeW False) cs"
  define us where "us = layoutUnits d nodeW ns (zip cs kids)"
  define szs where "szs = map (\<lambda>u. (unW u, unH u)) us"
  define level where "level = longestLevels [0..<length us] (unitEdges d us cs)"
  define px py lh where "px = (if isRoot then dagPadX else clusterPadX)"
    and "py = (if isRoot then dagPadY else clusterPadY)" and "lh = (if isRoot then 0 else clusterLabelH)"
  define placed where "placed = map (\<lambda>(u, x, y). (us ! u, x + px, y + py + lh)) (placeUnits szs level)"
  define local where "local = map (\<lambda>(u, p). (unKey u, p)) (filter (\<lambda>(u, p). \<not> unGroup u) placed)"
  define units where "units = map (\<lambda>(u, p). (unKey u, p)) (filter (\<lambda>(u, p). unGroup u) placed)"
  have len: "length kids = length cs" by (simp add: kids_def)
  note nth = layoutUnits_nth [OF len, where d = d and nodeW = nodeW and ns = ns, folded us_def]
  have szs: "length szs = length ns + length cs" by (simp add: szs_def nth)
  have group: "unGroup (us ! u) \<longleftrightarrow> length ns \<le> u" if "u < length us" for u
  proof (cases "u < length ns")
    case False
    then obtain j where "u = length ns + j" by (metis le_Suc_ex not_less)
    with that nth show ?thesis by simp
  qed (simp add: nth)
  have pos: "p = unitPos szs level u" "u < length us" if "(u, p) \<in> set (placeUnits szs level)" for u p
    using that by (auto simp: unitPos szs_def)
  have ne: "length us \<noteq> 0" using assms(2) nth(1) by auto
  have eq: "layoutCluster d nodeW isRoot (Cluster k deps ns cs) =
      Box k (contentW szs level + 2 * px) (contentH szs level + 2 * py + lh) local units kids"
    using ne
    by (simp add: Let_def kids_def [symmetric] us_def [symmetric] szs_def [symmetric] level_def [symmetric]
        px_def [symmetric] py_def [symmetric] lh_def [symmetric] placed_def [symmetric] local_def [symmetric] units_def [symmetric])
  have pads: "0 \<le> px" "0 \<le> py" "0 \<le> lh"
    by (simp_all add: px_def py_def lh_def dagPadX_def clusterPadX_def dagPadY_def clusterPadY_def clusterLabelH_def)
  have loc: "local = map (\<lambda>u. (nodeName d (ns ! u), px + fst (unitPos szs level u), (py + lh) + snd (unitPos szs level u)))
      (filter (\<lambda>u. u < length ns) (map fst (placeUnits szs level)))"
  proof -
    have "map (\<lambda>(u, p). (unKey u, p)) (filter (\<lambda>(u, p). \<not> unGroup u) (map (\<lambda>(u, x, y). (us ! u, x + px, y + py + lh)) ps)) =
        map (\<lambda>u. (nodeName d (ns ! u), px + fst (unitPos szs level u), (py + lh) + snd (unitPos szs level u)))
          (filter (\<lambda>u. u < length ns) (map fst ps))" if "set ps \<subseteq> set (placeUnits szs level)" for ps
      using that
    proof (induction ps)
      case (Cons p ps)
      obtain u x y where p: "p = (u, x, y)" by (metis surj_pair)
      with Cons.prems pos [of u "(x, y)"] have "(x, y) = unitPos szs level u" "u < length us" by auto
      with Cons p group [of u] nth(2) [of u] show ?case by (auto simp: ac_simps split: prod.splits)
    qed simp
    then show ?thesis unfolding local_def placed_def by blast
  qed
  have look: "lookupPos units (bxKey (kids ! j)) =
      (px + fst (unitPos szs level (length ns + j)), (py + lh) + snd (unitPos szs level (length ns + j)))"
    if j: "j < length cs" for j
  proof -
    let ?u = "length ns + j"
    have key: "bxKey (kids ! j) = clKey (cs ! j)" using j by (simp add: kids_def bxKey_layout)
    have u: "?u < length us" using j nth(1) by simp
    then have "(?u, unitPos szs level ?u) \<in> set (placeUnits szs level)" by (simp add: unitPos szs_def)
    then have "(us ! ?u, px + fst (unitPos szs level ?u), (py + lh) + snd (unitPos szs level ?u)) \<in> set placed"
      unfolding placed_def set_map by (rule image_eqI [rotated]) (simp add: case_prod_beta ac_simps)
    then have mem: "(clKey (cs ! j), px + fst (unitPos szs level ?u), (py + lh) + snd (unitPos szs level ?u)) \<in> set units"
      unfolding units_def using nth(3) [OF j] by force
    have "p = (px + fst (unitPos szs level ?u), (py + lh) + snd (unitPos szs level ?u))" if "(clKey (cs ! j), p) \<in> set units" for p
    proof -
      from that obtain u q where q: "(u, q) \<in> set (placeUnits szs level)" "unGroup (us ! u)" "unKey (us ! u) = clKey (cs ! j)"
        "p = (fst q + px, snd q + py + lh)" by (auto simp: units_def placed_def)
      note uq = pos [OF q(1)]
      with q(2) group obtain i where i: "u = length ns + i" "i < length cs" using nth(1) by (metis add_less_cancel_left le_Suc_ex)
      with q(3) nth(3) have "clKey (cs ! i) = clKey (cs ! j)" by simp
      then have "i = j" using assms(1) i(2) j by (simp add: distinct_conv_nth) metis
      with i q(4) uq show ?thesis by (simp add: ac_simps)
    qed
    moreover obtain p where "map_of (rev units) (clKey (cs ! j)) = Some p"
      using mem weak_map_of_SomeI [of "clKey (cs ! j)" _ "rev units"] by (metis set_rev)
    ultimately have "map_of (rev units) (clKey (cs ! j)) = Some (px + fst (unitPos szs level ?u), (py + lh) + snd (unitPos szs level ?u))"
      by (metis map_of_SomeD set_rev)
    then show ?thesis by (simp add: lookupPos_def key)
  qed
  show thesis
    by (rule that [OF eq pads kids_def szs _ _ loc look]) (auto simp: szs_def nth)
qed

definition boxRect :: "box \<Rightarrow> rat \<Rightarrow> rat \<Rightarrow> svgRect" where
  "boxRect b dx dy = \<lparr>rectX = dx, rectY = dy, rectW = bxW b, rectH = bxH b\<rparr>"

lemma concat_singletons: "concat (map (\<lambda>x. [f x]) xs) = map f xs"
  by (induction xs) simp_all

lemma layoutCluster_tidy:
  assumes "0 \<le> nodeW"
  shows "distinct_keys c \<Longrightarrow> 0 \<le> bxW (layoutCluster d nodeW isRoot c) \<and> 0 \<le> bxH (layoutCluster d nodeW isRoot c) \<and>
    tidy_picture nodeW (boxRect (layoutCluster d nodeW isRoot c) dx dy)
      (absNodes (layoutCluster d nodeW isRoot c) dx dy) (absBoxes (layoutCluster d nodeW isRoot c) dx dy)"
proof (induction c arbitrary: isRoot dx dy)
  case (Cluster k deps ns cs)
  have cs: "distinct (map clKey cs)" "\<And>c. c \<in> set cs \<Longrightarrow> distinct_keys c"
    using Cluster.prems by (auto simp: list_all_iff)
  show ?case
  proof (cases "ns = [] \<and> cs = []")
    case True
    then show ?thesis by (simp add: layoutUnits_def tidy_picture_def boxRect_def)
  next
    case False
    then have ne: "ns \<noteq> [] \<or> cs \<noteq> []" by blast
    obtain szs level px py lh local units kids where
      box: "layoutCluster d nodeW isRoot (Cluster k deps ns cs) =
         Box k (contentW szs level + 2 * px) (contentH szs level + 2 * py + lh) local units kids"
      and pads: "0 \<le> px" "0 \<le> py" "0 \<le> lh" and kids: "kids = map (layoutCluster d nodeW False) cs"
      and len: "length szs = length ns + length cs" and node: "\<And>u. u < length ns \<Longrightarrow> szs ! u = (nodeW, dagNodeH)"
      and child: "\<And>j. j < length cs \<Longrightarrow> szs ! (length ns + j) = (bxW (kids ! j), bxH (kids ! j))"
      and local: "local = map (\<lambda>u. (nodeName d (ns ! u), px + fst (unitPos szs level u), (py + lh) + snd (unitPos szs level u)))
        (filter (\<lambda>u. u < length ns) (map fst (placeUnits szs level)))"
      and look: "\<And>j. j < length cs \<Longrightarrow> lookupPos units (bxKey (kids ! j)) =
        (px + fst (unitPos szs level (length ns + j)), (py + lh) + snd (unitPos szs level (length ns + j)))"
      by (rule layoutCluster_parts [OF cs(1) ne, of d nodeW isRoot k deps]) (rule that)
    have kid: "0 \<le> bxW (kids ! j) \<and> 0 \<le> bxH (kids ! j) \<and>
        tidy_picture nodeW (boxRect (kids ! j) x y) (absNodes (kids ! j) x y) (absBoxes (kids ! j) x y)"
      if "j < length cs" for j x y
      using Cluster.IH [of "cs ! j" False] cs(2) that by (simp add: kids)
    have sized: "sized szs"
    proof -
      have "0 \<le> fst (szs ! u) \<and> 0 \<le> snd (szs ! u)" if "u < length szs" for u
      proof (cases "u < length ns")
        case True
        with node assms show ?thesis by (simp add: dagNodeH_def)
      next
        case False
        then obtain j where "u = length ns + j" by (metis le_Suc_ex not_less)
        with child kid that len show ?thesis by simp
      qed
      then show ?thesis unfolding sized_def by (metis in_set_conv_nth)
    qed
    let ?ox = "dx + px" and ?oy = "dy + (py + lh)"
    let ?frame = "boxRect (Box k (contentW szs level + 2 * px) (contentH szs level + 2 * py + lh) local units kids) dx dy"
    let ?cell = "cell szs level ?ox ?oy"
    let ?lu = "filter (\<lambda>u. u < length ns) (map fst (placeUnits szs level))"
    let ?at = "\<lambda>u. (nodeName d (ns ! u), ?ox + fst (unitPos szs level u), ?oy + snd (unitPos szs level u))"
    let ?dx = "\<lambda>j. ?ox + fst (unitPos szs level (length ns + j))" and ?dy = "\<lambda>j. ?oy + snd (unitPos szs level (length ns + j))"
    let ?lparts = "map (\<lambda>u. (?cell u, [?at u], [])) ?lu"
    let ?kparts = "map (\<lambda>j. (?cell (length ns + j), absNodes (kids ! j) (?dx j) (?dy j), absBoxes (kids ! j) (?dx j) (?dy j))) [0..<length cs]"
    have kidlist: "map f kids = map (\<lambda>j. f (kids ! j)) [0..<length cs]" for f :: "box \<Rightarrow> 'x"
      by (rule nth_equalityI) (simp_all add: kids)
    have shift: "(dx + fst (lookupPos units (bxKey (kids ! j))), dy + snd (lookupPos units (bxKey (kids ! j)))) = (?dx j, ?dy j)"
      if "j < length cs" for j using that by (simp add: look add.assoc)
    have nodes: "absNodes (Box k w h local units kids) dx dy = concat (map (fst \<circ> snd) (?lparts @ ?kparts))" for w h
    proof -
      have "map (\<lambda>b. absNodes b (dx + fst (lookupPos units (bxKey b))) (dy + snd (lookupPos units (bxKey b)))) kids =
          map (\<lambda>j. absNodes (kids ! j) (?dx j) (?dy j)) [0..<length cs]"
        unfolding kidlist using shift by (intro map_cong) (auto simp: add.assoc)
      then show ?thesis by (simp add: local comp_def concat_singletons ac_simps)
    qed
    have boxes: "absBoxes (Box k w h local units kids) dx dy = (if k \<noteq> [] then [(k, \<lparr>rectX = dx, rectY = dy, rectW = w, rectH = h\<rparr>)] else []) @
        concat (map (snd \<circ> snd) (?lparts @ ?kparts))" for w h
    proof -
      have "map (\<lambda>b. absBoxes b (dx + fst (lookupPos units (bxKey b))) (dy + snd (lookupPos units (bxKey b)))) kids =
          map (\<lambda>j. absBoxes (kids ! j) (?dx j) (?dy j)) [0..<length cs]"
        unfolding kidlist using shift by (intro map_cong) (auto simp: add.assoc)
      then show ?thesis by (simp add: comp_def)
    qed
    have frame: "enclosed (?cell u) ?frame" if "u < length szs" for u
      using cells_enclosed [OF sized that pads] by (simp add: boxRect_def)
    have parts: "tidy_picture nodeW c ns' bs' \<and> enclosed c ?frame" if "(c, ns', bs') \<in> set (?lparts @ ?kparts)" for c ns' bs'
    proof -
      from that consider
        (here) u where "u < length ns" "c = ?cell u" "ns' = [?at u]" "bs' = []"
      | (sub) j where "j < length cs" "c = ?cell (length ns + j)" "ns' = absNodes (kids ! j) (?dx j) (?dy j)"
          "bs' = absBoxes (kids ! j) (?dx j) (?dy j)" by auto
      then show ?thesis
      proof cases
        case here
        then have "nodeRect nodeW (?at u) = c" using node by (simp add: nodeRect_def cell_def)
        with here frame [of u] len show ?thesis by (simp add: tidy_picture_def)
      next
        case sub
        then have "boxRect (kids ! j) (?dx j) (?dy j) = c" using child by (simp add: boxRect_def cell_def)
        with sub kid [of j "?dx j" "?dy j"] frame [of "length ns + j"] len show ?thesis by simp
      qed
    qed
    have "sorted_wrt (apart dagVGap) (map ?cell (?lu @ map (\<lambda>j. length ns + j) [0..<length cs]))"
    proof (rule sorted_wrt_distinct)
      show "distinct (?lu @ map (\<lambda>j. length ns + j) [0..<length cs])"
        using placeUnits_fst(2) [of szs level] by (auto simp: distinct_map)
      fix u v assume "u \<in> set (?lu @ map (\<lambda>j. length ns + j) [0..<length cs])"
        "v \<in> set (?lu @ map (\<lambda>j. length ns + j) [0..<length cs])" "u \<noteq> v"
      then show "apart dagVGap (?cell u) (?cell v)" by (intro cells_apart [OF sized]) (auto simp: len)
    qed
    then have "sorted_wrt (apart dagVGap) (map fst (?lparts @ ?kparts))" by (simp add: comp_def)
    from tidy_picture_join [OF parts this] have "tidy_picture nodeW ?frame
        (concat (map (fst \<circ> snd) (?lparts @ ?kparts))) (concat (map (snd \<circ> snd) (?lparts @ ?kparts)))" by blast
    then have "tidy_picture nodeW ?frame
        (absNodes (Box k (contentW szs level + 2 * px) (contentH szs level + 2 * py + lh) local units kids) dx dy)
        (absBoxes (Box k (contentW szs level + 2 * px) (contentH szs level + 2 * py + lh) local units kids) dx dy)"
      unfolding nodes boxes using tidy_picture_box by (simp add: boxRect_def)
    with box content_nonneg [where szs = szs and level = level] pads show ?thesis by simp
  qed
qed

text \<open>Every node of the cluster is placed.\<close>

lemma layoutCluster_names:
  "distinct_keys c \<Longrightarrow> fst ` set (absNodes (layoutCluster d nodeW isRoot c) dx dy) = nodeName d ` set (subNodes c)"
proof (induction c arbitrary: isRoot dx dy)
  case (Cluster k deps ns cs)
  have cs: "distinct (map clKey cs)" "\<And>c. c \<in> set cs \<Longrightarrow> distinct_keys c"
    using Cluster.prems by (auto simp: list_all_iff)
  show ?case
  proof (cases "ns = [] \<and> cs = []")
    case True
    then show ?thesis by (simp add: layoutUnits_def)
  next
    case False
    then have ne: "ns \<noteq> [] \<or> cs \<noteq> []" by blast
    obtain szs level px py lh local units kids where
      box: "layoutCluster d nodeW isRoot (Cluster k deps ns cs) =
         Box k (contentW szs level + 2 * px) (contentH szs level + 2 * py + lh) local units kids"
      and kids: "kids = map (layoutCluster d nodeW False) cs" and len: "length szs = length ns + length cs"
      and local: "local = map (\<lambda>u. (nodeName d (ns ! u), px + fst (unitPos szs level u), (py + lh) + snd (unitPos szs level u)))
        (filter (\<lambda>u. u < length ns) (map fst (placeUnits szs level)))"
      by (rule layoutCluster_parts [OF cs(1) ne, of d nodeW isRoot k deps]) (rule that)
    have "set (filter (\<lambda>u. u < length ns) (map fst (placeUnits szs level))) = {..<length ns}"
      using placeUnits_fst(1) [of szs level] len by auto
    then have "fst ` set local = nodeName d ` ((!) ns ` {..<length ns})" by (simp add: local image_image del: set_filter)
    then have "fst ` set local = nodeName d ` set ns" by (metis lessThan_atLeast0 list.set_map map_nth set_upt)
    moreover have "fst ` (\<Union>b \<in> set kids. set (absNodes b (f b) (g b))) = nodeName d ` (\<Union>c \<in> set cs. set (subNodes c))" for f g
      using Cluster.IH cs(2) by (simp add: kids image_UN)
    ultimately show ?thesis unfolding box by (simp add: image_Un image_image case_prod_beta)
  qed
qed

section \<open>The cluster tree\<close>

lemma those_Some: "those xs = Some ys \<longleftrightarrow> xs = map Some ys"
  by (induction xs arbitrary: ys) (auto split: option.splits)

lemma clusterTree_key: "clusterTree d n k = Some c \<Longrightarrow> clKey c = k"
  by (cases n) auto

lemma clusterTree_distinct:
  "distinct (map dgName (daGroups d)) \<Longrightarrow> clusterTree d n k = Some c \<Longrightarrow> distinct_keys c"
proof (induction n arbitrary: k c)
  case (Suc n)
  from Suc.prems(2) obtain cs where cs: "map (clusterTree d n) (childKeys d k) = map Some cs"
    "c = Cluster k (clusterDeps d k) (clusterNodes d k) cs" by (auto simp: those_Some)
  have "map clKey cs = childKeys d k"
  proof (rule nth_equalityI)
    show len: "length (map clKey cs) = length (childKeys d k)" using cs(1) by (metis length_map)
    fix i assume "i < length (map clKey cs)"
    with len have "clusterTree d n (childKeys d k ! i) = Some (cs ! i)" using cs(1) by (metis length_map nth_map)
    then show "map clKey cs ! i = childKeys d k ! i" using \<open>i < length (map clKey cs)\<close> by (simp add: clusterTree_key)
  qed
  then have "distinct (map clKey cs)" using Suc.prems(1) by (simp add: childKeys_def distinct_map_filter)
  moreover have "distinct_keys x" if "x \<in> set cs" for x
  proof -
    have "Some x \<in> clusterTree d n ` set (childKeys d k)" using that cs(1) by (metis image_eqI list.set_map)
    then show ?thesis using Suc.IH Suc.prems(1) by auto
  qed
  ultimately show ?case by (simp add: cs(2) list_all_iff)
qed simp

definition childRel :: "DAG \<Rightarrow> (string \<times> string) set" where
  "childRel d = {(c, k). c \<in> set (childKeys d k)}"

lemma childRel_names: "(c, k) \<in> (childRel d)\<^sup>+ \<Longrightarrow> c \<in> set (map dgName (daGroups d))"
  by (induction rule: converse_trancl_induct) (auto simp: childRel_def childKeys_def)

lemma clusterTree_total:
  assumes "acyclic (childRel d)"
  shows "card {c. (c, k) \<in> (childRel d)\<^sup>+} < n \<Longrightarrow>
    \<exists>t. clusterTree d n k = Some t \<and>
      set (subNodes t) = {i. \<exists>c. (c, k) \<in> (childRel d)\<^sup>* \<and> i \<in> set (clusterNodes d c)}"
proof (induction n arbitrary: k)
  case (Suc n)
  let ?desc = "\<lambda>k. {c. (c, k) \<in> (childRel d)\<^sup>+}" and ?all = "\<lambda>k. {i. \<exists>c. (c, k) \<in> (childRel d)\<^sup>* \<and> i \<in> set (clusterNodes d c)}"
  have fin: "finite (?desc x)" for x by (rule finite_subset [of _ "set (map dgName (daGroups d))"]) (use childRel_names in auto)
  have sub: "\<exists>t. clusterTree d n c = Some t \<and> set (subNodes t) = ?all c" if "c \<in> set (childKeys d k)" for c
  proof (rule Suc.IH)
    have ck: "(c, k) \<in> childRel d" using that by (simp add: childRel_def)
    then have "?desc c \<subset> ?desc k"
      using assms by (auto simp: acyclic_def intro: trancl_into_trancl)
    then have "card (?desc c) < card (?desc k)" using fin by (rule psubset_card_mono [rotated])
    with Suc.prems show "card (?desc c) < n" by simp
  qed
  define t where "t c = the (clusterTree d n c)" for c
  have t: "clusterTree d n c = Some (t c)" "set (subNodes (t c)) = ?all c" if "c \<in> set (childKeys d k)" for c
    using sub [OF that] by (auto simp: t_def)
  have "those (map (clusterTree d n) (childKeys d k)) = Some (map t (childKeys d k))"
    unfolding those_Some using t(1) by simp
  moreover have "set (clusterNodes d k) \<union> (\<Union>c \<in> set (childKeys d k). ?all c) = ?all k"
  proof (rule set_eqI, rule iffI)
    fix i assume "i \<in> set (clusterNodes d k) \<union> (\<Union>c \<in> set (childKeys d k). ?all c)"
    then show "i \<in> ?all k" by (auto simp: childRel_def intro: rtrancl_into_rtrancl)
  next
    fix i assume "i \<in> ?all k"
    then obtain c where c: "(c, k) \<in> (childRel d)\<^sup>*" "i \<in> set (clusterNodes d c)" by blast
    from c(1) show "i \<in> set (clusterNodes d k) \<union> (\<Union>c \<in> set (childKeys d k). ?all c)"
    proof (cases rule: rtranclE)
      case base
      with c show ?thesis by simp
    next
      case (step y)
      with c show ?thesis by (auto simp: childRel_def)
    qed
  qed
  ultimately show ?case using t(2) by simp
qed simp

text \<open>Groups of a picture: distinct names, and no group inside itself.\<close>

definition groups_nest :: "DAG \<Rightarrow> bool" where
  "groups_nest d \<longleftrightarrow> distinct (map dgName (daGroups d)) \<and> acyclic (childRel d)"

lemma buildClusters_total:
  assumes "groups_nest d"
  shows "\<exists>t. buildClusters d = Some t \<and> distinct_keys t \<and> set (subNodes t) = {..<length (daNodes d)}"
proof -
  let ?R = "childRel d" and ?N = "set (map dgName (daGroups d))"
  have acy: "acyclic ?R" and dist: "distinct (map dgName (daGroups d))" using assms by (simp_all add: groups_nest_def)
  have "card {c. (c, '''') \<in> ?R\<^sup>+} \<le> card ?N" by (rule card_mono) (use childRel_names in auto)
  also have "\<dots> \<le> length (daGroups d)" by (metis card_length length_map)
  finally have "card {c. (c, '''') \<in> ?R\<^sup>+} < length (daGroups d) + 1" by simp
  from clusterTree_total [OF acy this] obtain t where t: "buildClusters d = Some t"
    "set (subNodes t) = {i. \<exists>c. (c, '''') \<in> ?R\<^sup>* \<and> i \<in> set (clusterNodes d c)}" by (auto simp: buildClusters_def)
  have reach: "(c, '''') \<in> ?R\<^sup>*" if "known_group d c" for c
  proof -
    have "finite ?R" by (rule finite_subset [of _ "?N \<times> insert '''' (?N \<union> dgParent ` set (daGroups d))"])
      (auto simp: childRel_def childKeys_def parentKey_def)
    then have "wf (?R\<inverse>)" using acy by (intro finite_acyclic_wf) auto
    then show ?thesis using that
    proof (induction c rule: wf_induct_rule)
      case (less c)
      show ?case
      proof (cases "c = ''''")
        case False
        with less.prems obtain g where g: "g \<in> set (daGroups d)" "dgName g = c"
          by (auto simp: known_group_def List.member_iff)
        then have "(c, parentKey d g) \<in> ?R" by (auto simp: childRel_def childKeys_def)
        moreover have "known_group d (parentKey d g)" by (auto simp: parentKey_def known_group_def)
        ultimately show ?thesis using less.IH [of "parentKey d g"] by (auto intro: converse_rtrancl_into_rtrancl)
      qed simp
    qed
  qed
  have "i \<in> set (subNodes t) \<longleftrightarrow> i < length (daNodes d)" for i
  proof
    assume i: "i < length (daNodes d)"
    let ?c = "(if known_group d (dnGroup (daNodes d ! i)) then dnGroup (daNodes d ! i) else '''')"
    have "known_group d ?c" by (simp add: known_group_def)
    moreover have "i \<in> set (clusterNodes d ?c)" using i by (simp add: clusterNodes_def Let_def)
    ultimately show "i \<in> set (subNodes t)" using reach t(2) by blast
  qed (auto simp: t(2) clusterNodes_def)
  then have "set (subNodes t) = {..<length (daNodes d)}" by auto
  with t(1) clusterTree_distinct [OF dist t(1) [unfolded buildClusters_def]] show ?thesis by blast
qed

lemma layoutDAG_tidy:
  assumes "groups_nest d" and "0 \<le> nodeW"
  shows "\<exists>pos boxes w h. layoutDAG d nodeW = Some (pos, boxes, w, h) \<and> fst ` set pos = dnName ` set (daNodes d) \<and>
    tidy_picture nodeW \<lparr>rectX = 0, rectY = dagTitleH, rectW = w, rectH = h - dagTitleH - dagLegend\<rparr> pos boxes"
proof -
  obtain t where t: "buildClusters d = Some t" "distinct_keys t" "set (subNodes t) = {..<length (daNodes d)}"
    using buildClusters_total [OF assms(1)] by blast
  let ?b = "layoutCluster d nodeW True t"
  have "nodeName d ` {..<length (daNodes d)} = dnName ` set (daNodes d)"
    by (force simp: nodeName_def in_set_conv_nth image_iff)
  then have "fst ` set (absNodes ?b 0 dagTitleH) = dnName ` set (daNodes d)"
    using layoutCluster_names [OF t(2)] t(3) by simp
  with layoutCluster_tidy [OF assms(2) t(2), of d True 0 dagTitleH] t(1) show ?thesis
    by (simp add: layoutDAG_def Let_def boxRect_def)
qed

text \<open>Along the edges between the units of a cluster the picture runs from left to right.\<close>

lemma liftEdge_bound: "(f, t) \<in> set (liftEdge fu tu) \<longleftrightarrow> fu = Some f \<and> tu = Some t \<and> f \<noteq> t"
  by (auto simp: liftEdge_def split: option.splits)

lemma find_rev_bound: "find P (rev [0..<n]) = Some u \<Longrightarrow> u < n"
  by (auto dest: find_SomeD)

lemma unitEdges_bound: "set (unitEdges d us cs) \<subseteq> {..<length us} \<times> {..<length us}"
  by (auto simp: unitEdges_def liftEdge_bound ownerOf_def groupUnit_def dest: find_rev_bound split: option.splits)

lemma units_left_to_right:
  assumes "acyclic (set (unitEdges d us cs))" and "(u, v) \<in> set (unitEdges d us cs)" and "length szs = length us"
    and "(u, x, y) \<in> set (placeUnits szs (longestLevels [0..<length us] (unitEdges d us cs)))"
    and "(v, x', y') \<in> set (placeUnits szs (longestLevels [0..<length us] (unitEdges d us cs)))"
  shows "x + fst (szs ! u) + dagHGap \<le> x'"
proof -
  have "set (unitEdges d us cs) \<subseteq> set [0..<length us] \<times> set [0..<length us]"
    using unitEdges_bound [of d us cs] by (simp add: lessThan_atLeast0)
  from longestLevels_edge [OF distinct_upt this assms(1,2)] show ?thesis by (rule placeUnits_before [OF assms(4,5)])
qed

end
