(* ===== verification/Route_Laws.thy ===== *)
theory Route_Laws
  imports Route
begin

text \<open>
  Laws of the router. The search is Dijkstra's algorithm: inside the locale \<open>search_graph\<close> it is shown to
  end with the fuel it is given, to find a path of least cost, and to report no path only when there
  is none. The grid of a route is an instance; so a route exists exactly when the grid has one, and no
  segment of it runs through an obstacle.
\<close>

section \<open>Paths\<close>

text \<open>A path from \<open>s\<close>, last state first, and its cost.\<close>

inductive walk :: "('v \<Rightarrow> ('v \<times> rat) list) \<Rightarrow> 'v \<Rightarrow> 'v list \<Rightarrow> rat \<Rightarrow> bool" for moves s where
  walk_start: "walk moves s [s] 0"
| walk_move: "walk moves s (u # p) c \<Longrightarrow> (v, k) \<in> set (moves u) \<Longrightarrow> walk moves s (v # u # p) (c + k)"

inductive_cases walk_Cons2: "walk moves s (v # u # p) c"

lemma leastNode: "leastNode num n ms \<in> set (n # ms)" "m \<in> set (n # ms) \<Longrightarrow> nDist (leastNode num n ms) \<le> nDist m"
proof -
  show "leastNode num n ms \<in> set (n # ms)" by (induction num n ms rule: leastNode.induct) auto
  show "m \<in> set (n # ms) \<Longrightarrow> nDist (leastNode num n ms) \<le> nDist m"
  proof (induction num n ms arbitrary: m rule: leastNode.induct)
    case (2 num n x ms)
    show ?case
    proof (cases "m = n \<or> m = x")
      case True
      have "nDist (leastNode num (if rrLess num x n then x else n) ms) \<le> nDist (if rrLess num x n then x else n)"
        by (rule "2.IH") simp
      with True show ?thesis by (auto simp: rrLess_def split: if_splits)
    next
      case False
      with 2 show ?thesis by simp
    qed
  qed simp
qed

section \<open>The search\<close>

locale search_graph =
  fixes num :: "'v \<Rightarrow> nat" and moves :: "'v \<Rightarrow> ('v \<times> rat) list" and V :: "'v set" and start :: 'v and goal :: 'v
  assumes finite: "finite V" and start: "start \<in> V"
    and closed: "v \<in> V \<Longrightarrow> (u, c) \<in> set (moves v) \<Longrightarrow> u \<in> V"
    and positive: "v \<in> V \<Longrightarrow> (u, c) \<in> set (moves v) \<Longrightarrow> 0 < c"
    and degree: "length (moves v) \<le> 4"
begin

text \<open>The estimates: \<open>E\<close> are the states that were expanded, \<open>D\<close> the moves that were relaxed.\<close>

definition tree :: "'v set \<Rightarrow> 'v search \<Rightarrow> bool" where
  "tree E st \<longleftrightarrow> shDist st start = Some 0 \<and> shPrev st start = None \<and>
     (\<forall>v d. shDist st v = Some d \<longrightarrow> v \<in> V \<and> 0 \<le> d \<and> (v \<noteq> start \<longrightarrow>
        (\<exists>u du. shPrev st v = Some u \<and> u \<in> E \<and> shDist st u = Some du \<and> (v, d - du) \<in> set (moves u))))"

definition queue :: "'v set \<Rightarrow> 'v search \<Rightarrow> bool" where
  "queue E st \<longleftrightarrow> distinct (shHeap st) \<and>
     (\<forall>n \<in> set (shHeap st). \<exists>d. shDist st (nAt n) = Some d \<and> d \<le> nDist n) \<and>
     (\<forall>v d. shDist st v = Some d \<longrightarrow> v \<notin> E \<longrightarrow> \<lparr>nAt = v, nDist = d\<rparr> \<in> set (shHeap st))"

definition final :: "'v set \<Rightarrow> 'v search \<Rightarrow> bool" where
  "final E st \<longleftrightarrow> E \<subseteq> V \<and> (\<forall>v \<in> E. \<exists>d. shDist st v = Some d \<and>
     (\<forall>n \<in> set (shHeap st). d \<le> nDist n \<and> (nAt n = v \<longrightarrow> d < nDist n)))"

definition settled :: "('v \<times> 'v \<times> rat) set \<Rightarrow> 'v search \<Rightarrow> bool" where
  "settled D st \<longleftrightarrow> (\<forall>(v, u, c) \<in> D. \<exists>dv du. shDist st v = Some dv \<and> shDist st u = Some du \<and> du \<le> dv + c)"

definition outOf :: "'v set \<Rightarrow> ('v \<times> 'v \<times> rat) set" where
  "outOf E = {(v, u, c). v \<in> E \<and> (u, c) \<in> set (moves v)}"

text \<open>What holds while the moves of \<open>cur\<close>, just expanded, are relaxed.\<close>

definition expanding :: "'v set \<Rightarrow> 'v rrNode \<Rightarrow> 'v search \<Rightarrow> bool" where
  "expanding E cur st \<longleftrightarrow> nAt cur \<in> E \<and> shDist st (nAt cur) = Some (nDist cur) \<and>
     (\<forall>n \<in> set (shHeap st). nDist cur \<le> nDist n) \<and> (\<forall>v \<in> E. \<forall>d. shDist st v = Some d \<longrightarrow> d \<le> nDist cur)"

lemma relax_step:
  assumes "tree E st" and "queue E st" and "final E st" and "settled D st" and "expanding E cur st"
    and "(v, c) \<in> set (moves (nAt cur))" and "D \<subseteq> E \<times> UNIV"
  shows "tree E (relaxMove cur (v, c) st) \<and> queue E (relaxMove cur (v, c) st) \<and> final E (relaxMove cur (v, c) st) \<and>
    settled (insert (nAt cur, v, c) D) (relaxMove cur (v, c) st) \<and> expanding E cur (relaxMove cur (v, c) st)"
proof -
  have cur: "nAt cur \<in> E" "nAt cur \<in> V" "shDist st (nAt cur) = Some (nDist cur)"
    using assms(3,5) by (auto simp: expanding_def final_def)
  have c: "0 < c" and v: "v \<in> V" using closed positive assms(6) cur(2) by blast+
  have zero: "0 \<le> nDist cur" using assms(1) cur(3) by (auto simp: tree_def)
  show ?thesis
  proof (cases "shDist st v")
    case None
    then have "v \<notin> E" "v \<noteq> start" "v \<noteq> nAt cur" using assms(1,3) cur by (auto simp: final_def tree_def)
    let ?st = "\<lparr>shHeap = shHeap st @ [\<lparr>nAt = v, nDist = nDist cur + c\<rparr>], shDist = (shDist st)(v \<mapsto> nDist cur + c),
            shPrev = (shPrev st)(v \<mapsto> nAt cur)\<rparr>"
    have r: "relaxMove cur (v, c) st = ?st" using None by (simp add: relaxMove_def Let_def)
    have "tree E ?st" using assms(1,6) \<open>v \<noteq> start\<close> \<open>v \<noteq> nAt cur\<close> v cur zero c None by (fastforce simp: tree_def)
    moreover have "queue E ?st" using assms(2) None by (fastforce simp: queue_def)
    moreover have "final E ?st"
      using assms(3,5) \<open>v \<notin> E\<close> c by (fastforce simp: final_def expanding_def)
    moreover have "settled (insert (nAt cur, v, c) D) ?st"
      using assms(4,7) cur \<open>v \<notin> E\<close> \<open>v \<noteq> nAt cur\<close> None by (fastforce simp: settled_def)
    moreover have "expanding E cur ?st" using assms(5) \<open>v \<notin> E\<close> \<open>v \<noteq> nAt cur\<close> c by (auto simp: expanding_def)
    ultimately show ?thesis unfolding r by blast
  next
    case (Some dv)
    show ?thesis
    proof (cases "nDist cur + c < dv")
      case True
      have "v \<noteq> start"
      proof
        assume "v = start"
        then have "dv = 0" using assms(1) Some by (simp add: tree_def)
        with True c zero show False by linarith
      qed
      with True have ne: "v \<notin> E" "v \<noteq> start" "v \<noteq> nAt cur" using assms(5) cur Some c by (auto simp: expanding_def)
      let ?st = "\<lparr>shHeap = shHeap st @ [\<lparr>nAt = v, nDist = nDist cur + c\<rparr>], shDist = (shDist st)(v \<mapsto> nDist cur + c),
              shPrev = (shPrev st)(v \<mapsto> nAt cur)\<rparr>"
      have r: "relaxMove cur (v, c) st = ?st" using Some True by (simp add: relaxMove_def Let_def)
      have "tree E ?st" using assms(1,6) ne v cur zero c by (fastforce simp: tree_def)
      moreover have "queue E ?st" using assms(2) Some True by (fastforce simp: queue_def)
      moreover have "final E ?st"
        using assms(3,5) ne c by (fastforce simp: final_def expanding_def)
      moreover have "settled (insert (nAt cur, v, c) D) ?st"
        using assms(4,7) cur ne Some True by (fastforce simp: settled_def)
      moreover have "expanding E cur ?st" using assms(5) ne c by (auto simp: expanding_def)
      ultimately show ?thesis unfolding r by blast
    next
      case False
      then have r: "relaxMove cur (v, c) st = st" using Some by (simp add: relaxMove_def Let_def)
      have "settled (insert (nAt cur, v, c) D) st" using assms(4) cur Some False by (auto simp: settled_def)
      then show ?thesis unfolding r using assms by blast
    qed
  qed
qed

text \<open>The loop: a state of the search, and a potential that every round lowers.\<close>

definition searching :: "'v set \<Rightarrow> 'v search \<Rightarrow> bool" where
  "searching E st \<longleftrightarrow> tree E st \<and> queue E st \<and> final E st \<and> settled (outOf E) st \<and> goal \<notin> E"

lemma relax_all:
  assumes "tree E st" and "queue E st" and "final E st" and "settled D st" and "expanding E cur st"
    and "set mvs \<subseteq> set (moves (nAt cur))" and "D \<subseteq> E \<times> UNIV"
  shows "let st' = fold (relaxMove cur) mvs st in
    tree E st' \<and> queue E st' \<and> final E st' \<and> settled (D \<union> (\<lambda>(v, c). (nAt cur, v, c)) ` set mvs) st' \<and>
    length (shHeap st') \<le> length (shHeap st) + length mvs"
  using assms
proof (induction mvs arbitrary: st D)
  case (Cons mv mvs)
  obtain v c where mv: "mv = (v, c)" by (meson surj_pair)
  have cur: "nAt cur \<in> E" using Cons.prems(5) by (simp add: expanding_def)
  have "(v, c) \<in> set (moves (nAt cur))" using Cons.prems(6) mv by auto
  note step = relax_step [OF Cons.prems(1-5) this Cons.prems(7)]
  have len: "length (shHeap (relaxMove cur (v, c) st)) \<le> length (shHeap st) + 1"
    by (simp add: relaxMove_def Let_def)
  have "insert (nAt cur, v, c) D \<subseteq> E \<times> UNIV" using Cons.prems(7) cur by auto
  with step Cons.prems(6) have "let st' = fold (relaxMove cur) mvs (relaxMove cur (v, c) st) in
      tree E st' \<and> queue E st' \<and> final E st' \<and>
      settled (insert (nAt cur, v, c) D \<union> (\<lambda>(v, c). (nAt cur, v, c)) ` set mvs) st' \<and>
      length (shHeap st') \<le> length (shHeap (relaxMove cur (v, c) st)) + length mvs"
    by (intro Cons.IH) auto
  with len show ?case by (simp add: mv Let_def)
qed simp

lemma searching_start: "start \<noteq> goal \<Longrightarrow> searching {} (startSearch start)"
  using start by (auto simp: searching_def tree_def queue_def final_def settled_def outOf_def startSearch_def)

definition potential :: "'v set \<Rightarrow> 'v search \<Rightarrow> nat" where
  "potential E st = 4 * card (V - E) + length (shHeap st)"

text \<open>When the search stops, nothing that it might still reach is nearer than the goal.\<close>

lemma walk_in: "walk moves start p c \<Longrightarrow> hd p \<in> V"
  by (induction rule: walk.induct) (use start closed in auto)

lemma walk_bound:
  assumes "searching E st" and "walk moves start p c"
  shows "(hd p \<in> E \<and> (\<exists>d. shDist st (hd p) = Some d \<and> d \<le> c)) \<or> (\<exists>n \<in> set (shHeap st). nDist n \<le> c)"
  using assms(2)
proof (induction rule: walk.induct)
  case walk_start
  then show ?case using assms(1) by (force simp: searching_def tree_def queue_def)
next
  case (walk_move u p c v k)
  have k: "0 < k" using positive walk_in [OF walk_move.hyps(1)] walk_move.hyps(2) by auto
  show ?case
  proof (cases "\<exists>n \<in> set (shHeap st). nDist n \<le> c")
    case True
    with k show ?thesis by force
  next
    case False
    with walk_move.IH obtain d where u: "u \<in> E" "shDist st u = Some d" "d \<le> c" by auto
    with walk_move.hyps(2) assms(1) obtain dv where dv: "shDist st v = Some dv" "dv \<le> d + k"
      by (fastforce simp: searching_def settled_def outOf_def)
    then have "v \<in> E \<or> \<lparr>nAt = v, nDist = dv\<rparr> \<in> set (shHeap st)" using assms(1) by (auto simp: searching_def queue_def)
    with dv u show ?thesis by (force intro: bexI [of _ "\<lparr>nAt = v, nDist = dv\<rparr>"])
  qed
qed

text \<open>The outcome of the search.\<close>

definition outcome :: "'v search \<Rightarrow> bool" where
  "outcome st \<longleftrightarrow> (\<exists>E. tree E st \<and> E \<subseteq> V \<and> (\<forall>v \<in> E. shDist st v \<noteq> None)) \<and>
     (case shDist st goal of
        None \<Rightarrow> \<nexists>p c. walk moves start p c \<and> hd p = goal
      | Some d \<Rightarrow> \<forall>p c. walk moves start p c \<longrightarrow> hd p = goal \<longrightarrow> d \<le> c)"

lemma routeSearch_outcome:
  "searching E st \<Longrightarrow> potential E st < n \<Longrightarrow> \<exists>st'. routeSearch num moves goal n st = Some st' \<and> outcome st'"
proof (induction n arbitrary: E st)
  case (Suc n)
  note s = Suc.prems(1)
  have ok: "\<exists>E. tree E st \<and> E \<subseteq> V \<and> (\<forall>v \<in> E. shDist st v \<noteq> None)"
    using s unfolding searching_def final_def by (metis option.distinct(1))
  show ?case
  proof (cases "shHeap st")
    case Nil
    have none: "hd p \<noteq> goal" if "walk moves start p c" for p c
      using walk_bound [OF s that] Nil s by (auto simp: searching_def)
    have "shDist st goal = None"
      using s Nil by (cases "shDist st goal") (auto simp: searching_def queue_def)
    with none ok Nil show ?thesis by (auto simp: outcome_def)
  next
    case (Cons x xs)
    define cur where "cur = leastNode num x xs"
    define st' where "st' = st\<lparr>shHeap := remove1 cur (shHeap st)\<rparr>"
    have cur: "cur \<in> set (shHeap st)" and least: "\<And>m. m \<in> set (shHeap st) \<Longrightarrow> nDist cur \<le> nDist m"
      using leastNode [where num = num and n = x and ms = xs] Cons by (simp_all add: cur_def)
    have dist: "distinct (shHeap st)" using s by (simp add: searching_def queue_def)
    then have heap: "set (shHeap st') = set (shHeap st) - {cur}" "length (shHeap st') < length (shHeap st)"
      using cur length_pos_if_in_set [OF cur] by (simp_all add: st'_def length_remove1 set_remove1_eq del: length_greater_0_conv)
    obtain d where d: "shDist st (nAt cur) = Some d" "d \<le> nDist cur"
      using s cur by (auto simp: searching_def queue_def)
    have loop: "routeSearch num moves goal (Suc n) st =
        (if nDist cur > d then routeSearch num moves goal n st'
         else if nAt cur = goal then Some st'
         else routeSearch num moves goal n (fold (relaxMove cur) (moves (nAt cur)) st'))"
      by (simp add: Cons Let_def d cur_def [symmetric] st'_def del: remove1.simps)
    show ?thesis
    proof (cases "nDist cur > d")
      case True
      have "searching E st'"
        using s heap True d by (auto simp: searching_def tree_def queue_def final_def settled_def st'_def)
      moreover have "potential E st' < n" using Suc.prems(2) heap by (simp add: potential_def)
      ultimately show ?thesis using Suc.IH loop True by simp
    next
      case False
      with d have eq: "d = nDist cur" by simp
      have notE: "nAt cur \<notin> E" using s cur d eq by (fastforce simp: searching_def final_def)
      show ?thesis
      proof (cases "nAt cur = goal")
        case True
        have "nDist cur \<le> c" if "walk moves start p c" "hd p = goal" for p c
          using walk_bound [OF s that(1)] that(2) True notE least by force
        moreover have "tree F st' = tree F st" for F by (simp add: tree_def st'_def)
        ultimately have "outcome st'" using ok True d eq by (auto simp: outcome_def st'_def)
        with loop False True show ?thesis by simp
      next
        case other: False
        let ?E = "insert (nAt cur) E" and ?st = "fold (relaxMove cur) (moves (nAt cur)) st'"
        have V: "nAt cur \<in> V" using s d by (auto simp: searching_def tree_def)
        have Edist: "e \<le> nDist cur" if "v \<in> E" "shDist st v = Some e" for v e
          using s that cur by (fastforce simp: searching_def final_def)
        have pre: "tree ?E st'" "queue ?E st'" "final ?E st'" "settled (outOf E) st'" "expanding ?E cur st'"
        proof -
          show "tree ?E st'" using s by (fastforce simp: searching_def tree_def st'_def)
          show "queue ?E st'" using s heap dist eq d by (auto simp: searching_def queue_def st'_def)
          show "settled (outOf E) st'" using s by (simp add: searching_def settled_def st'_def)
          show "expanding ?E cur st'" using heap least Edist d eq by (auto simp: expanding_def st'_def)
          have "nDist cur < nDist m" if "m \<in> set (shHeap st')" "nAt m = nAt cur" for m
          proof -
            have "m \<noteq> cur" "nDist cur \<le> nDist m" using that heap least by auto
            then show ?thesis using that(2) by (cases m; cases cur) auto
          qed
          then show "final ?E st'" using s heap V d eq least by (auto simp: searching_def final_def st'_def)
        qed
        have sub: "outOf E \<subseteq> ?E \<times> UNIV" by (auto simp: outOf_def)
        have out: "outOf ?E = outOf E \<union> (\<lambda>(v, c). (nAt cur, v, c)) ` set (moves (nAt cur))"
          by (auto simp: outOf_def)
        from relax_all [OF pre subset_refl sub] have
          "tree ?E ?st" "queue ?E ?st" "final ?E ?st" "settled (outOf ?E) ?st" and
          len: "length (shHeap ?st) \<le> length (shHeap st') + length (moves (nAt cur))"
          unfolding out by (simp_all add: Let_def)
        then have "searching ?E ?st" using s other by (simp add: searching_def)
        moreover have "potential ?E ?st < n"
        proof -
          have "card (V - ?E) < card (V - E)" using V notE finite by (intro psubset_card_mono) auto
          with len heap(2) degree [of "nAt cur"] Suc.prems(2) show ?thesis by (simp add: potential_def)
        qed
        ultimately show ?thesis using Suc.IH loop False other by simp
      qed
    qed
  qed
qed simp

text \<open>Following the predecessors from a state leads back to the start.\<close>

lemma traceBack_walk:
  assumes "tree E st" and "E \<subseteq> V"
  shows "shDist st v = Some d \<Longrightarrow> card {u \<in> V. \<exists>e. shDist st u = Some e \<and> e < d} < n \<Longrightarrow>
    \<exists>p. traceBack (shPrev st) n v = Some p \<and> walk moves start p d \<and> hd p = v"
proof (induction n arbitrary: v d)
  case (Suc n)
  show ?case
  proof (cases "v = start")
    case True
    with assms(1) Suc.prems have "shPrev st v = None" "d = 0" by (simp_all add: tree_def)
    with True show ?thesis by (auto intro: walk.intros)
  next
    case False
    with assms(1) Suc.prems(1) obtain u du where u: "shPrev st v = Some u" "u \<in> E" "shDist st u = Some du"
      "(v, d - du) \<in> set (moves u)" unfolding tree_def by blast
    have "u \<in> V" using u(2) assms(2) by blast
    then have lt: "du < d" using positive [OF _ u(4)] by simp
    have "{w \<in> V. \<exists>e. shDist st w = Some e \<and> e < du} \<subset> {w \<in> V. \<exists>e. shDist st w = Some e \<and> e < d}"
      using lt \<open>u \<in> V\<close> u(3) by force
    then have "card {w \<in> V. \<exists>e. shDist st w = Some e \<and> e < du} < card {w \<in> V. \<exists>e. shDist st w = Some e \<and> e < d}"
      using finite by (intro psubset_card_mono) auto
    with Suc.prems(2) Suc.IH [OF u(3)] obtain p where p: "traceBack (shPrev st) n u = Some p" "walk moves start p du" "hd p = u"
      by auto
    from p(2,3) obtain q where q: "p = u # q" by (cases rule: walk.cases) auto
    with p(2) u(4) walk_move [of moves start u q du v "d - du"] have "walk moves start (v # p) d" by simp
    with p u show ?thesis by auto
  qed
qed simp

lemma shortestPath_least:
  assumes "start \<noteq> goal" and "card V \<le> sz"
  shows "\<exists>p. shortestPath num moves sz start goal = Some p \<and>
    (if p = [] then \<nexists>q c. walk moves start q c \<and> hd q = goal
     else \<exists>d. walk moves start (rev p) d \<and> last p = goal \<and>
       (\<forall>q c. walk moves start q c \<longrightarrow> hd q = goal \<longrightarrow> d \<le> c))"
proof -
  have "potential {} (startSearch start) < 4 * sz + 2" using assms(2) by (simp add: potential_def startSearch_def)
  from routeSearch_outcome [OF searching_start [OF assms(1)] this] obtain st where
    st: "routeSearch num moves goal (4 * sz + 2) (startSearch start) = Some st" "outcome st" by blast
  show ?thesis
  proof (cases "shDist st goal")
    case None
    with st show ?thesis by (simp add: shortestPath_def outcome_def)
  next
    case (Some d)
    from st(2) obtain E where E: "tree E st" "E \<subseteq> V" unfolding outcome_def by blast
    have "card {u \<in> V. \<exists>e. shDist st u = Some e \<and> e < d} \<le> card V" using finite by (intro card_mono) auto
    with assms(2) traceBack_walk [OF E Some, of "sz + 1"] obtain p where
      p: "traceBack (shPrev st) (sz + 1) goal = Some p" "walk moves start p d" "hd p = goal" by auto
    have "p \<noteq> []" using p(2) by (cases rule: walk.cases) auto
    with p st Some show ?thesis by (auto simp: shortestPath_def outcome_def last_rev)
  qed
qed

end

section \<open>The grid is a search graph\<close>

lemma sorted_remdups_adj: "sorted (xs :: rat list) \<Longrightarrow> sorted_wrt (<) (remdups_adj xs)"
  by (induction xs rule: remdups_adj.induct) (auto simp: less_le)

lemma gridLines_sorted: "vals \<noteq> [] \<Longrightarrow> sorted_wrt (<) (gridLines vals)"
proof -
  assume "vals \<noteq> []"
  let ?us = "uniqSortedFloat vals"
  have ne: "sort vals \<noteq> []" using \<open>vals \<noteq> []\<close> length_sort [where xs = vals] by (metis length_0_conv)
  have us: "sorted_wrt (<) ?us" "?us \<noteq> []"
    using sorted_remdups_adj [of "sort vals"] ne by (simp_all add: uniqSortedFloat_def)
  have "hd ?us \<le> x" "x \<le> last ?us" if "x \<in> set ?us" for x
  proof -
    have so: "sorted ?us" using us(1) by (simp add: strict_sorted_iff)
    show "hd ?us \<le> x" using so that by (cases ?us) auto
    show "x \<le> last ?us" using so that by (cases ?us rule: rev_cases) (auto simp: sorted_append)
  qed
  with us have lo: "\<forall>x \<in> set ?us. hd ?us - routeMargin < x" and hi: "\<forall>x \<in> set ?us. x < last ?us + routeMargin"
    by (fastforce simp: routeMargin_def)+
  moreover have "hd ?us - routeMargin < last ?us + routeMargin"
    using bspec [OF lo last_in_set [OF us(2)]] bspec [OF hi last_in_set [OF us(2)]] by linarith
  ultimately show ?thesis using us by (simp add: gridLines_def Let_def sorted_wrt_append)
qed

lemma set_gridLines: "set vals \<subseteq> set (gridLines vals)"
  by (auto simp: gridLines_def uniqSortedFloat_def Let_def)

lemma indexOf:
  assumes "v \<in> set vs"
  shows "indexOf vs v < length vs" and "vs ! indexOf vs v = v"
proof -
  have "n \<le> length vs \<Longrightarrow> (let m = fold (\<lambda>i m. if vs ! i = v then i else m) [0..<n] 0 in
      if v \<in> set (take n vs) then m < n \<and> vs ! m = v else m = 0)" for n
    by (induction n) (auto simp: take_Suc_conv_app_nth Let_def)
  from this [of "length vs"] assms show "indexOf vs v < length vs" "vs ! indexOf vs v = v"
    by (simp_all add: indexOf_def Let_def)
qed

lemmas route_lines_defs = routeXs_def routeYs_def

lemma route_lines:
  "sorted_wrt (<) (routeXs x1 x2 obs)" "sorted_wrt (<) (routeYs y1 y2 obs)"
  "x1 \<in> set (routeXs x1 x2 obs)" "x2 \<in> set (routeXs x1 x2 obs)" "y1 \<in> set (routeYs y1 y2 obs)" "y2 \<in> set (routeYs y1 y2 obs)"
  using set_gridLines by (fastforce simp: route_lines_defs intro: gridLines_sorted)+

definition gridStates :: "rat list \<Rightarrow> rat list \<Rightarrow> gridState set" where
  "gridStates xs ys = {..<length xs} \<times> {..<length ys} \<times> UNIV"

lemma UNIV_dir: "UNIV = {DirRight, DirLeft, DirDown, DirUp, DirNone}"
proof -
  have "d \<in> {DirRight, DirLeft, DirDown, DirUp, DirNone}" for d by (cases d) simp_all
  then show ?thesis by blast
qed

lemma card_gridStates: "finite (gridStates xs ys)" "card (gridStates xs ys) = length xs * length ys * 5"
  by (simp_all add: gridStates_def UNIV_dir card_cartesian_product)

lemma gridMoves_iff:
  "((ni, nj, d), c) \<in> set (gridMoves obs xs ys (i, j, dir)) \<longleftrightarrow>
     d \<noteq> DirNone \<and> (dir = DirNone \<longrightarrow> d = DirRight) \<and> gridStep (length xs) (length ys) i j d = Some (ni, nj) \<and>
     (if d = DirRight \<or> d = DirLeft then clearH obs xs ys i ni j else clearV obs xs ys j nj i) \<and>
     c = (if d = DirRight \<or> d = DirLeft then \<bar>xs ! ni - xs ! i\<bar> else \<bar>ys ! nj - ys ! j\<bar>) +
       (if dir \<noteq> DirNone \<and> dir \<noteq> d then routeBendPenalty else 0)"
  by (cases d) (auto simp: gridMoves_def Let_def split: option.splits if_splits)

lemma gridStep_bounds:
  "gridStep w h i j d = Some (ni, nj) \<Longrightarrow> i < w \<Longrightarrow> j < h \<Longrightarrow>
     ni < w \<and> nj < h \<and> (if d = DirRight \<or> d = DirLeft then nj = j \<and> ni \<noteq> i else ni = i \<and> nj \<noteq> j)"
  by (cases d) (auto simp: gridStep_def split: if_splits)

lemma sorted_nth_neq: "sorted_wrt (<) (xs :: rat list) \<Longrightarrow> i < length xs \<Longrightarrow> j < length xs \<Longrightarrow> i \<noteq> j \<Longrightarrow> xs ! i \<noteq> xs ! j"
  by (metis distinct_conv_nth strict_sorted_iff)

lemma concat_length: "(\<And>x. x \<in> set xs \<Longrightarrow> length (f x) \<le> 1) \<Longrightarrow> length (concat (map f xs)) \<le> length xs"
proof (induction xs)
  case (Cons x xs)
  then have "length (f x) \<le> 1" "length (concat (map f xs)) \<le> length xs" by simp_all
  then show ?case by simp
qed simp

lemma gridMoves_degree: "length (gridMoves obs xs ys s) \<le> 4"
proof -
  obtain i j dir where s: "s = (i, j, dir)" by (cases s)
  have "length [DirRight, DirLeft, DirDown, DirUp] = 4" by simp
  then show ?thesis unfolding s gridMoves_def prod.case
    by (rule subst) (rule concat_length, auto simp: Let_def split: option.split prod.split)
qed

interpretation grid: search_graph "stateNo (length (routeXs x1 x2 obs))" "gridMoves obs (routeXs x1 x2 obs) (routeYs y1 y2 obs)"
  "gridStates (routeXs x1 x2 obs) (routeYs y1 y2 obs)" "startState x1 y1 x2 y2 obs" "goalState x1 y1 x2 y2 obs"
  for x1 y1 x2 y2 obs
proof (unfold_locales, goal_cases)
  case 1
  show ?case by (rule card_gridStates)
next
  case 2
  show ?case using route_lines by (simp add: startState_def gridStates_def indexOf)
next
  case (3 s t c)
  then show ?case by (cases s; cases t) (auto simp: gridStates_def gridMoves_iff dest: gridStep_bounds)
next
  case (4 s t c)
  obtain i j dir ni nj d where st: "s = (i, j, dir)" "t = (ni, nj, d)" by (cases s, cases t)
  with 4 have m: "i < length (routeXs x1 x2 obs)" "j < length (routeYs y1 y2 obs)"
    "gridStep (length (routeXs x1 x2 obs)) (length (routeYs y1 y2 obs)) i j d = Some (ni, nj)"
    by (auto simp: gridStates_def gridMoves_iff)
  note b = gridStep_bounds [OF m(3,1,2)]
  have "0 < (if d = DirRight \<or> d = DirLeft then \<bar>routeXs x1 x2 obs ! ni - routeXs x1 x2 obs ! i\<bar>
      else \<bar>routeYs y1 y2 obs ! nj - routeYs y1 y2 obs ! j\<bar>)"
    using b m(1,2) sorted_nth_neq [OF route_lines(1), of ni x1 x2 obs i] sorted_nth_neq [OF route_lines(2), of nj y1 y2 obs j]
    by (auto split: if_splits)
  with 4(2) st show ?case by (auto simp: gridMoves_iff routeBendPenalty_def)
next
  case (5 s)
  show ?case by (rule gridMoves_degree)
qed

section \<open>Routes avoid the obstacles\<close>

definition insideRect :: "svgRect \<Rightarrow> routePoint \<Rightarrow> bool" where
  "insideRect r z \<longleftrightarrow> rectX r + rrEps < fst z \<and> fst z < rectX r + rectW r - rrEps \<and>
     rectY r + rrEps < snd z \<and> snd z < rectY r + rectH r - rrEps"

definition onSegment :: "routePoint \<Rightarrow> routePoint \<Rightarrow> routePoint \<Rightarrow> bool" where
  "onSegment p q z \<longleftrightarrow>
     (fst p = fst q \<and> fst z = fst p \<and> min (snd p) (snd q) \<le> snd z \<and> snd z \<le> max (snd p) (snd q)) \<or>
     (snd p = snd q \<and> snd z = snd p \<and> min (fst p) (fst q) \<le> fst z \<and> fst z \<le> max (fst p) (fst q))"

text \<open>A segment is horizontal or vertical, and none of its points lies inside an obstacle.\<close>

definition safeSegment :: "svgRect list \<Rightarrow> routePoint \<Rightarrow> routePoint \<Rightarrow> bool" where
  "safeSegment obs p q \<longleftrightarrow> (fst p = fst q \<or> snd p = snd q) \<and> (\<forall>z. onSegment p q z \<longrightarrow> (\<forall>r \<in> set obs. \<not> insideRect r z))"

lemma onSegment_box:
  "onSegment p q z \<Longrightarrow> min (fst p) (fst q) \<le> fst z \<and> fst z \<le> max (fst p) (fst q) \<and>
     min (snd p) (snd q) \<le> snd z \<and> snd z \<le> max (snd p) (snd q)"
  by (auto simp: onSegment_def)

lemma between_split:
  fixes a b c z :: rat
  assumes "min a c \<le> z" and "z \<le> max a c"
  shows "min a b \<le> z \<and> z \<le> max a b \<or> min b c \<le> z \<and> z \<le> max b c"
  using assms by linarith

lemma onSegment_split:
  assumes "(fst a = fst b \<and> fst b = fst c) \<or> (snd a = snd b \<and> snd b = snd c)" and "onSegment a c z"
  shows "onSegment a b z \<or> onSegment b c z"
  using assms(1)
proof
  assume same: "fst a = fst b \<and> fst b = fst c"
  have "min (snd a) (snd c) \<le> snd z" "snd z \<le> max (snd a) (snd c)" "fst z = fst a"
    using onSegment_box [OF assms(2)] same by auto
  from between_split [OF this(1,2), of "snd b"] this(3) same show ?thesis
    by (elim disjE) (simp_all add: onSegment_def)
next
  assume same: "snd a = snd b \<and> snd b = snd c"
  have "min (fst a) (fst c) \<le> fst z" "fst z \<le> max (fst a) (fst c)" "snd z = snd a"
    using onSegment_box [OF assms(2)] same by auto
  from between_split [OF this(1,2), of "fst b"] this(3) same show ?thesis
    by (elim disjE) (simp_all add: onSegment_def)
qed

lemma safeSegment_join:
  "safeSegment obs a b \<Longrightarrow> safeSegment obs b c \<Longrightarrow>
     (fst a = fst b \<and> fst b = fst c) \<or> (snd a = snd b \<and> snd b = snd c) \<Longrightarrow> safeSegment obs a c"
  using onSegment_split [of a b c] unfolding safeSegment_def by metis

lemma move_safe:
  assumes "(t, c) \<in> set (gridMoves obs xs ys s)"
  shows "safeSegment obs (pointAt xs ys s) (pointAt xs ys t)"
proof -
  obtain i j dir ni nj d where st: "s = (i, j, dir)" "t = (ni, nj, d)" by (cases s, cases t)
  with assms have m: "gridStep (length xs) (length ys) i j d = Some (ni, nj)" "d \<noteq> DirNone"
    "if d = DirRight \<or> d = DirLeft then clearH obs xs ys i ni j else clearV obs xs ys j nj i"
    by (auto simp: gridMoves_iff)
  show ?thesis
  proof (cases "d = DirRight \<or> d = DirLeft")
    case True
    with m have "nj = j" by (auto simp: gridStep_def split: if_splits)
    with True m(3) show ?thesis
      by (auto simp: st pointAt_def safeSegment_def insideRect_def clearH_def Let_def list_all_iff
          dest!: onSegment_box)
  next
    case False
    with m have "ni = i" by (cases d) (auto simp: gridStep_def split: if_splits)
    with False m(3) show ?thesis
      by (auto simp: st pointAt_def safeSegment_def insideRect_def clearV_def Let_def list_all_iff
          dest!: onSegment_box)
  qed
qed

lemma walk_safe:
  "walk (gridMoves obs xs ys) s p c \<Longrightarrow> successively (safeSegment obs) (map (pointAt xs ys) (rev p)) \<and> p \<noteq> [] \<and> last p = s"
proof (induction rule: walk.induct)
  case (walk_move u p c v k)
  then show ?case using move_safe [OF walk_move.hyps(2)] by (auto simp: successively_append_iff last_rev)
qed simp

lemma simplifyFrom_safe:
  "successively (safeSegment obs) (a # ps) \<Longrightarrow> ps \<noteq> [] \<Longrightarrow>
     successively (safeSegment obs) (a # simplifyFrom a ps) \<and> simplifyFrom a ps \<noteq> [] \<and> last (simplifyFrom a ps) = last ps"
proof (induction a ps rule: simplifyFrom.induct)
  case (1 a b c ps)
  show ?case
  proof (cases "(fst a = fst b \<and> fst b = fst c) \<or> (snd a = snd b \<and> snd b = snd c)")
    case True
    with 1(3) have "successively (safeSegment obs) (a # c # ps)"
      by (auto simp: successively_Cons intro: safeSegment_join)
    with 1(1) [OF True] True show ?thesis by auto
  next
    case False
    with 1 show ?thesis by (auto simp: successively_Cons)
  qed
qed auto

lemma simplifyRoute_safe:
  assumes "successively (safeSegment obs) ps" and "ps \<noteq> []"
  shows "successively (safeSegment obs) (simplifyRoute ps) \<and> simplifyRoute ps \<noteq> [] \<and>
    hd (simplifyRoute ps) = hd ps \<and> last (simplifyRoute ps) = last ps"
proof (cases "length ps < 3")
  case False
  then obtain a b qs where "ps = a # b # qs" by (cases ps; cases "tl ps") auto
  with assms False simplifyFrom_safe [of obs a "b # qs"] show ?thesis by (auto simp: simplifyRoute_def)
qed (use assms in \<open>simp add: simplifyRoute_def\<close>)

text \<open>The ways a router may take: its states on the grid, the last one first.\<close>

definition gridWalk :: "rat \<Rightarrow> rat \<Rightarrow> rat \<Rightarrow> rat \<Rightarrow> svgRect list \<Rightarrow> gridState list \<Rightarrow> rat \<Rightarrow> bool" where
  "gridWalk x1 y1 x2 y2 obs p c \<longleftrightarrow>
     walk (gridMoves obs (routeXs x1 x2 obs) (routeYs y1 y2 obs)) (startState x1 y1 x2 y2 obs) p c \<and>
     hd p = goalState x1 y1 x2 y2 obs"

lemma gridPath_least:
  "\<exists>p. gridPath x1 y1 x2 y2 obs = Some p \<and>
     (if p = [] then \<nexists>q c. gridWalk x1 y1 x2 y2 obs q c
      else \<exists>d. gridWalk x1 y1 x2 y2 obs (rev p) d \<and> (\<forall>q c. gridWalk x1 y1 x2 y2 obs q c \<longrightarrow> d \<le> c))"
proof -
  have "startState x1 y1 x2 y2 obs \<noteq> goalState x1 y1 x2 y2 obs" by (simp add: startState_def goalState_def)
  from grid.shortestPath_least [OF this] obtain p where
    "gridPath x1 y1 x2 y2 obs = Some p" and
    p: "if p = [] then \<nexists>q c. walk (gridMoves obs (routeXs x1 x2 obs) (routeYs y1 y2 obs)) (startState x1 y1 x2 y2 obs) q c \<and>
          hd q = goalState x1 y1 x2 y2 obs
        else \<exists>d. walk (gridMoves obs (routeXs x1 x2 obs) (routeYs y1 y2 obs)) (startState x1 y1 x2 y2 obs) (rev p) d \<and>
          last p = goalState x1 y1 x2 y2 obs \<and>
          (\<forall>q c. walk (gridMoves obs (routeXs x1 x2 obs) (routeYs y1 y2 obs)) (startState x1 y1 x2 y2 obs) q c \<longrightarrow>
             hd q = goalState x1 y1 x2 y2 obs \<longrightarrow> d \<le> c)"
    unfolding gridPath_def Let_def by (metis card_gridStates(2) order_refl)
  then show ?thesis by (auto simp: gridWalk_def hd_rev split: if_splits)
qed

lemma pointAt_ends:
  "pointAt (routeXs x1 x2 obs) (routeYs y1 y2 obs) (startState x1 y1 x2 y2 obs) = (x1, y1)"
  "pointAt (routeXs x1 x2 obs) (routeYs y1 y2 obs) (goalState x1 y1 x2 y2 obs) = (x2, y2)"
  using route_lines by (simp_all add: pointAt_def startState_def goalState_def indexOf)

lemma routeEdge_safe:
  assumes "x1 < x2"
  shows "\<exists>pts. routeEdge x1 y1 x2 y2 obs = Some pts \<and>
    (if pts = [] then \<nexists>q c. gridWalk x1 y1 x2 y2 obs q c
     else hd pts = (x1, y1) \<and> last pts = (x2, y2) \<and> successively (safeSegment obs) pts)"
proof -
  let ?pt = "pointAt (routeXs x1 x2 obs) (routeYs y1 y2 obs)"
  from gridPath_least [of x1 y1 x2 y2 obs] obtain p where p: "gridPath x1 y1 x2 y2 obs = Some p"
    "if p = [] then \<nexists>q c. gridWalk x1 y1 x2 y2 obs q c
     else \<exists>d. gridWalk x1 y1 x2 y2 obs (rev p) d \<and> (\<forall>q c. gridWalk x1 y1 x2 y2 obs q c \<longrightarrow> d \<le> c)" by blast
  have route: "routeEdge x1 y1 x2 y2 obs = Some (simplifyRoute (map ?pt p))"
    using assms p(1) by (simp add: routeEdge_def)
  show ?thesis
  proof (cases "p = []")
    case True
    with p route show ?thesis by (simp add: simplifyRoute_def)
  next
    case False
    with p(2) obtain d where "gridWalk x1 y1 x2 y2 obs (rev p) d" by auto
    then have w: "walk (gridMoves obs (routeXs x1 x2 obs) (routeYs y1 y2 obs)) (startState x1 y1 x2 y2 obs) (rev p) d"
      "last p = goalState x1 y1 x2 y2 obs" using False by (simp_all add: gridWalk_def hd_rev)
    from walk_safe [OF w(1)] have safe: "successively (safeSegment obs) (map ?pt p)" "hd p = startState x1 y1 x2 y2 obs"
      using False by (simp_all add: last_rev)
    from simplifyRoute_safe [OF safe(1)] False have "simplifyRoute (map ?pt p) \<noteq> []"
      "successively (safeSegment obs) (simplifyRoute (map ?pt p))"
      "hd (simplifyRoute (map ?pt p)) = ?pt (hd p)" "last (simplifyRoute (map ?pt p)) = ?pt (last p)"
      by (simp_all add: hd_map last_map)
    with route safe(2) w(2) pointAt_ends show ?thesis by simp
  qed
qed

end
