(* ===== verification/View_Laws.thy ===== *)
theory View_Laws
  imports Views
begin

text \<open>
  Laws of the views: the two status aggregations are one order-independent summary, a grouped
  workflow's picture shows every dependency, and the tree of a run can always be drawn.
\<close>

section \<open>Aggregated statuses\<close>

definition worst :: "status set \<Rightarrow> status" where
  "worst S = (if Failed \<in> S then Failed else if Cancelled \<in> S then Cancelled
     else if Interrupted \<in> S then Interrupted else if S \<subseteq> {Succeeded} then Succeeded else Running)"

text \<open>\<open>worst\<close> only asks which of the three bad endings and whether anything else unfinished is there.\<close>

definition hasOpen :: "status set \<Rightarrow> bool" where
  "hasOpen S \<longleftrightarrow> (\<exists>s \<in> S. s \<in> {Running, Queued, Blocked, Suspended, Paused})"

lemma hasOpen_simps [simp]:
  "\<not> hasOpen {}"
  "hasOpen (insert s S) \<longleftrightarrow> s \<in> {Running, Queued, Blocked, Suspended, Paused} \<or> hasOpen S"
  by (auto simp: hasOpen_def)

lemma worst_if: "worst S = (if Failed \<in> S then Failed else if Cancelled \<in> S then Cancelled
     else if Interrupted \<in> S then Interrupted else if hasOpen S then Running else Succeeded)"
proof -
  have "s \<in> {Failed, Cancelled, Interrupted, Running, Queued, Blocked, Suspended, Paused, Succeeded}" for s
    by (cases s) simp_all
  then have "hasOpen S \<longleftrightarrow> \<not> S \<subseteq> {Failed, Cancelled, Interrupted, Succeeded}" by (fastforce simp: hasOpen_def)
  then show ?thesis by (auto simp: worst_def)
qed

lemma aggregateSteps_worst:
  "acc \<in> {Succeeded, Cancelled, Interrupted} \<Longrightarrow> aggregateSteps acc inflight ss =
     (if Failed \<in> set ss then Failed else if acc = Cancelled \<or> Cancelled \<in> set ss then Cancelled
      else if acc = Interrupted \<or> Interrupted \<in> set ss then Interrupted
      else if inflight \<or> hasOpen (set ss) then Running else Succeeded)"
proof (induction ss arbitrary: acc inflight)
  case (Cons s ss)
  from Cons.prems show ?case by (cases acc; cases s; simp add: Cons.IH)
qed auto

lemma aggregateRuns_worst:
  "acc \<in> {Succeeded, Running, Cancelled, Interrupted} \<Longrightarrow> aggregateRuns acc ss =
     (if Failed \<in> set ss then Failed else if acc = Cancelled \<or> Cancelled \<in> set ss then Cancelled
      else if acc = Interrupted \<or> Interrupted \<in> set ss then Interrupted
      else if acc = Running \<or> hasOpen (set ss) then Running else Succeeded)"
proof (induction ss arbitrary: acc)
  case (Cons s ss)
  from Cons.prems show ?case by (cases acc; cases s; simp add: Cons.IH)
qed auto

lemma aggregateStepStatus_worst: "aggregateStepStatus ss = (if ss = [] then None else Some (worst (set ss)))"
  by (simp add: aggregateStepStatus_def aggregateSteps_worst worst_if)

lemma aggregateRunStatus_worst: "aggregateRunStatus rs = worst (rsStatus ` set rs)"
  by (simp add: aggregateRunStatus_def aggregateRuns_worst worst_if)

section \<open>Grouped workflows\<close>

text \<open>The picture of a run of a workflow.\<close>

definition pictured :: "'c workflow \<Rightarrow> Execution \<Rightarrow> bool" where
  "pictured w ex \<longleftrightarrow> map (\<lambda>s. (vsName s, vsDeps s)) (exSteps ex) = map (\<lambda>s. (sdName s, sdDeps s)) (wfSteps w) \<and>
     exGroups ex = wfGroups w"

lemma groupOf_mem: "groupOf gs n = a \<Longrightarrow> a \<noteq> '''' \<Longrightarrow> \<exists>g \<in> set gs. rgName g = a \<and> n \<in> set (rgSteps g)"
proof (induction gs arbitrary: a rule: rev_induct)
  case (snoc g gs)
  then show ?case by (auto simp: groupOf_def List.member_iff split: if_splits)
qed (simp add: groupOf_def)

lemma group_edge_drawn:
  assumes "g \<in> set (exGroups ex)" and "dep \<in> set (rgDeps g)"
  shows "(dep, rgName g) \<in> set (daEdges (dagView ex))"
  using assms by (auto simp: dagView_def)

lemma dependency_drawn:
  assumes valid: "validateWorkflowGroups (NewGroupWorkflow name (map Some gs)) = None" and ok: "groups_ok gs"
    and pic: "pictured (NewGroupWorkflow name (map Some gs)) ex"
    and s: "s \<in> set (exSteps ex)" and dep: "dep \<in> set (vsDeps s)"
  shows "(dep, vsName s) \<in> set (daEdges (dagView ex)) \<or>
    (groupOf (exGroups ex) dep, groupOf (exGroups ex) (vsName s)) \<in> set (daEdges (dagView ex))"
proof (cases "groupOf (exGroups ex) dep \<noteq> '''' \<and> groupOf (exGroups ex) (vsName s) \<noteq> '''' \<and>
    groupOf (exGroups ex) dep \<noteq> groupOf (exGroups ex) (vsName s)")
  case False
  with s dep show ?thesis by (auto simp: dagView_def stepEdges_def)
next
  case True
  have g: "distinct (map gName gs)" "\<forall>g \<in> set gs. gName g \<noteq> ''''"
    using valid unfolding validateWorkflowGroups_None by (auto simp: NewGroupWorkflow_def comp_def)
  have groups: "exGroups ex = map (\<lambda>g. \<lparr>rgName = gName g, rgDeps = gAfter g, rgSteps = map sdName (gSteps g)\<rparr>) gs"
    using pic by (simp add: pictured_def NewGroupWorkflow_def)
  obtain a where a: "a \<in> set gs" "gName a = groupOf (exGroups ex) (vsName s)" "vsName s \<in> stepNames a"
    using groupOf_mem [of "exGroups ex" "vsName s"] True by (auto simp: groups stepNames_def)
  obtain b where b: "b \<in> set gs" "gName b = groupOf (exGroups ex) dep" "dep \<in> stepNames b"
    using groupOf_mem [of "exGroups ex" dep] True by (auto simp: groups stepNames_def)
  have "(vsName s, vsDeps s) \<in> set (map (\<lambda>s. (vsName s, vsDeps s)) (exSteps ex))" using s by auto
  moreover have "map (\<lambda>s. (vsName s, vsDeps s)) (exSteps ex) = map (\<lambda>s. (sdName s, sdDeps s)) (wfSteps (NewGroupWorkflow name (map Some gs)))"
    using pic by (simp add: pictured_def)
  ultimately have "(vsName s, vsDeps s) \<in> (\<lambda>s. (sdName s, sdDeps s)) ` set (wfSteps (NewGroupWorkflow name (map Some gs)))"
    by (simp only: list.set_map)
  with dep have "(dep, vsName s) \<in> dependsOn (stepReqs (NewGroupWorkflow name (map Some gs)))"
    by (fastforce simp: dependsOn_def stepReqs_def)
  from dependsOn_groups [OF g this] consider
    (own) h t where "h \<in> set gs" "t \<in> set (gSteps h)" "vsName s = sdName t" "dep \<in> set (sdDeps t)"
  | (after) h k where "h \<in> set gs" "k \<in> set gs" "vsName s \<in> stepNames h" "dep \<in> stepNames k" "gName k \<in> set (gAfter h)"
    by blast
  then show ?thesis
  proof cases
    case own
    then have "vsName s \<in> stepNames h" "dep \<in> stepNames h" using ok by (auto simp: groups_ok_def stepNames_def)
    with own(1) a b group_unique [OF ok g(1)] True have False by metis
    then show ?thesis ..
  next
    case after
    then have "h = a" "k = b" using a b group_unique [OF ok g(1)] by blast+
    with after have "gName b \<in> set (gAfter a)" by simp
    moreover have "\<lparr>rgName = gName a, rgDeps = gAfter a, rgSteps = map sdName (gSteps a)\<rparr> \<in> set (exGroups ex)"
      unfolding groups set_map by (rule imageI) (rule a(1))
    ultimately have "(gName b, gName a) \<in> set (daEdges (dagView ex))"
      using group_edge_drawn by fastforce
    with a b show ?thesis by simp
  qed
qed

section \<open>The tree of a run\<close>

lemma ListRuns_mem: "r \<in> set (ListRuns f d) \<Longrightarrow> r \<in> set (runs d)"
  by (auto simp: ListRuns_def newestFirst_def dest!: in_set_takeD in_set_dropD)

lemma executionOf_known: "i \<in> rID ` set (runs d) \<Longrightarrow> \<exists>ex. executionOf u i d = Inr ex"
  by (auto simp: executionOf_def GetRunWithSteps_def GetRun_def find_run_def find_None_iff split: option.split)

lemma foldE_total:
  assumes "\<And>x s. x \<in> set xs \<Longrightarrow> \<exists>s'. f x s = Inr s'"
  shows "\<exists>s'. foldE f xs s = Inr s'"
  using assms
proof (induction xs arbitrary: s)
  case (Cons x xs)
  obtain s' where "f x s = Inr s'" using Cons.prems [of x s] by auto
  with Cons show ?case by simp
qed simp

lemma spawnGroups_kids: "g \<in> set (spawnGroups kids) \<Longrightarrow> k \<in> set (snd g) \<Longrightarrow> k \<in> set kids"
  by (auto simp: spawnGroups_def)

lemma addRun_total: "i \<in> rID ` set (runs d) \<Longrightarrow> \<exists>st'. addRun u d n i pfx pg st = Inr st'"
proof (induction n arbitrary: i pfx pg st)
  case (Suc n)
  obtain out seen where st: "st = (out, seen)" by (meson surj_pair)
  obtain ex where ex: "executionOf u i d = Inr ex" using executionOf_known [OF Suc.prems] by blast
  let ?kids = "Runs \<lparr>fStatus = None, fQueue = '''', fWorkflow = '''', fParentID = i, fLimit = 200, fOffset = 0\<rparr> d"
  have kid: "rsRunID k \<in> rID ` set (runs d)" if "k \<in> set ?kids" for k
    using that ListRuns_mem by (fastforce simp: Runs_def runSummary_def)
  have inner: "\<exists>st'. foldE (\<lambda>k. addRun u d n (rsRunID k) (f k) p) (snd g) st = Inr st'"
    if "g \<in> set (spawnGroups ?kids)" for g f p st
    by (rule foldE_total, rule Suc.IH, rule kid, rule spawnGroups_kids [OF that])
  have "\<exists>st'. foldE (\<lambda>g st. let (o', seen') = st in
      foldE (\<lambda>k. addRun u d n (rsRunID k) (pfx @ shortRunID (rsRunID k) @ ''/'') (i @ ''/'' @ fst g)) (snd g)
        (addSpawnGroup i pfx pg sp (exSteps ex) g o', seen')) (spawnGroups ?kids) st0 = Inr st'" for sp st0
  proof (rule foldE_total)
    fix g :: "string \<times> RunSummary list" and s :: "DAG \<times> string set"
    assume "g \<in> set (spawnGroups ?kids)"
    from inner [OF this] show "\<exists>s'. (let (o', seen') = s in
      foldE (\<lambda>k. addRun u d n (rsRunID k) (pfx @ shortRunID (rsRunID k) @ ''/'') (i @ ''/'' @ fst g)) (snd g)
        (addSpawnGroup i pfx pg sp (exSteps ex) g o', seen')) = Inr s'"
      by (simp only: Let_def case_prod_beta)
  qed
  then show ?case by (simp add: st ex Let_def)
qed simp

lemma DAGTree_known: "i \<in> rID ` set (runs d) \<Longrightarrow> \<exists>t. DAGTree u i d = Inr t"
  using addRun_total [of i d u 9 "''''" "''''" "(zeroDAG, {})"] by (auto simp: DAGTree_def)

lemma DAGTree_unknown: "i \<notin> rID ` set (runs d) \<Longrightarrow> DAGTree u i d = Inl ErrNotFound"
  by (auto simp: DAGTree_def zeroDAG_def executionOf_def GetRunWithSteps_def GetRun_def find_run_def Let_def
      numeral_nat split: option.split dest!: find_SomeD)

end
