(* ===== verification/Picture.thy ===== *)
theory Picture
  imports Layout_Laws Route_Laws View_Laws
begin

text \<open>
  Drawing a graph (dag_svg.go, the path text of dag_route.go). The document is the list of the shapes
  the code prints, one constructor for every format string, with exact coordinates; the decimal
  formatting of numbers is left out. Strings are their UTF-8 bytes, as in Go.
\<close>

section \<open>Text\<close>

definition escapeChar :: "char \<Rightarrow> string" where
  "escapeChar c =
     (if c = CHR ''&'' then ''&amp;'' else if c = CHR ''<'' then ''&lt;'' else if c = CHR ''>'' then ''&gt;''
      else if c = CHR 0x22 then ''&quot;'' else if c = CHR 0x27 then ''&#39;'' else [c])"

definition escapeXML :: "string \<Rightarrow> string" where
  "escapeXML s = concat (map escapeChar s)"

text \<open>Go's conversion of a string to runes, each rune as its encoding; a byte that does not start a valid
  encoding becomes U+FFFD.\<close>

definition badRune :: string where
  "badRune = [CHR 0xEF, CHR 0xBF, CHR 0xBD]"

definition byteIn :: "nat \<Rightarrow> nat \<Rightarrow> char \<Rightarrow> bool" where
  "byteIn lo hi c \<longleftrightarrow> lo \<le> of_char c \<and> of_char c \<le> hi"

fun runes :: "string \<Rightarrow> string list" where
  "runes [] = []"
| "runes (a # s) =
     (if byteIn 0 0x7F a then [a] # runes s
      else if byteIn 0xC2 0xDF a then
        (case s of
           b # t \<Rightarrow> if byteIn 0x80 0xBF b then [a, b] # runes t else badRune # runes s
         | [] \<Rightarrow> [badRune])
      else if byteIn 0xE0 0xEF a then
        (case s of
           b # c # t \<Rightarrow>
             if byteIn (if byteIn 0xE0 0xE0 a then 0xA0 else 0x80) (if byteIn 0xED 0xED a then 0x9F else 0xBF) b \<and>
               byteIn 0x80 0xBF c
             then [a, b, c] # runes t else badRune # runes s
         | _ \<Rightarrow> badRune # runes s)
      else if byteIn 0xF0 0xF4 a then
        (case s of
           b # c # e # t \<Rightarrow>
             if byteIn (if byteIn 0xF0 0xF0 a then 0x90 else 0x80) (if byteIn 0xF4 0xF4 a then 0x8F else 0xBF) b \<and>
               byteIn 0x80 0xBF c \<and> byteIn 0x80 0xBF e
             then [a, b, c, e] # runes t else badRune # runes s
         | _ \<Rightarrow> badRune # runes s)
      else badRune # runes s)"

definition truncateLabel :: "string \<Rightarrow> rat \<Rightarrow> string" where
  "truncateLabel s nodeW =
     (let m = max 4 (nat \<lfloor>(nodeW - 20) / 7\<rfloor>); r = runes s in
      if length r \<le> m then s
      else if m \<le> 1 then concat (take m r)
      else concat (take (m - 1) r) @ [CHR 0xE2, CHR 0x80, CHR 0xA6])"

definition labelText :: "groupLabel \<Rightarrow> string" where
  "labelText l = (case l of
     NamedGroup s \<Rightarrow> s
   | ChildRuns st n \<Rightarrow> (if st = '''' then decimal n @ '' child runs''
       else st @ '' '' @ [CHR 0xE2, CHR 0x86, CHR 0x92] @ '' '' @ decimal n @ '' child runs''))"

section \<open>Sizes and colours\<close>

definition dagNodeWidth :: "DAGNode list \<Rightarrow> rat" where
  "dagNodeWidth ns =
     (let longest = fold (\<lambda>n m. let m' = (if length (dnName n) > m then length (dnName n) else m) in
            if length (dnTask n) > m' then length (dnTask n) else m') ns 0;
          w = of_nat longest * (74 / 10) + 34;
          w' = (if w < 130 then 130 else w)
      in if w' > 300 then 300 else w')"

definition dagStatusColors :: "status \<Rightarrow> string \<times> string \<times> string" where
  "dagStatusColors s = (case s of
     Succeeded \<Rightarrow> (''#e6f4ea'', ''#34a853'', ''#137333'')
   | Running \<Rightarrow> (''#e8f0fe'', ''#1a73e8'', ''#174ea6'')
   | Queued \<Rightarrow> (''#f1f3f4'', ''#9aa0a6'', ''#3c4043'')
   | Blocked \<Rightarrow> (''#fef7e0'', ''#f9ab00'', ''#b06000'')
   | Suspended \<Rightarrow> (''#f3e8fd'', ''#9334e6'', ''#6a1b9a'')
   | Paused \<Rightarrow> (''#e0f2f1'', ''#00897b'', ''#00695c'')
   | Failed \<Rightarrow> (''#fce8e6'', ''#d93025'', ''#a50e0e'')
   | Cancelled \<Rightarrow> (''#fef3e2'', ''#e37400'', ''#a05a00'')
   | Interrupted \<Rightarrow> (''#eceff1'', ''#546e7a'', ''#37474f''))"

definition dagLegendStatuses :: "status list" where
  "dagLegendStatuses = [Queued, Running, Blocked, Succeeded, Failed, Cancelled, Suspended, Paused, Interrupted]"

definition lastOf :: "(string \<times> 'a) list \<Rightarrow> string \<Rightarrow> 'a option" where
  "lastOf ps k = map_of (rev ps) k"

definition nodePos :: "(string \<times> rat \<times> rat) list \<Rightarrow> string \<Rightarrow> rat \<times> rat" where
  "nodePos pos n = (case lastOf pos n of None \<Rightarrow> (0, 0) | Some p \<Rightarrow> p)"

definition dagNodeRect :: "(string \<times> rat \<times> rat) list \<Rightarrow> rat \<Rightarrow> string \<Rightarrow> svgRect" where
  "dagNodeRect pos nodeW n = \<lparr>rectX = fst (nodePos pos n), rectY = snd (nodePos pos n), rectW = nodeW, rectH = dagNodeH\<rparr>"

definition dagEdgeObstacles :: "DAG \<Rightarrow> (string \<Rightarrow> svgRect) \<Rightarrow> string \<Rightarrow> string \<Rightarrow> svgRect list" where
  "dagEdgeObstacles d rects fr to =
     map (\<lambda>n. if dnName n = fr \<or> dnName n = to then rects (dnName n) else inflateRect (rects (dnName n)) routeClearance) (daNodes d)"

section \<open>Paths\<close>

datatype pathCmd = MoveTo routePoint | LineTo routePoint | QuadTo routePoint routePoint

text \<open>The length of a segment; routes are rectilinear, where Euclid's length is this one.\<close>

definition routeDist :: "routePoint \<Rightarrow> routePoint \<Rightarrow> rat" where
  "routeDist a b = \<bar>fst b - fst a\<bar> + \<bar>snd b - snd a\<bar>"

definition routeCorner :: rat where "routeCorner = 6"

definition routeToward :: "routePoint \<Rightarrow> routePoint \<Rightarrow> rat \<Rightarrow> routePoint" where
  "routeToward a b r = (let d = routeDist a b in
     if d = 0 then a else (fst a + (fst b - fst a) / d * r, snd a + (snd b - snd a) / d * r))"

fun cornerCmds :: "routePoint list \<Rightarrow> pathCmd list" where
  "cornerCmds (p # q # s # ps) =
     (let r = min routeCorner (min (routeDist p q) (routeDist q s) / 2) in
      (if r < 1 / 2 then [LineTo q] else [LineTo (routeToward q p r), QuadTo q (routeToward q s r)]) @ cornerCmds (q # s # ps))"
| "cornerCmds ps = []"

definition routePathD :: "routePoint list \<Rightarrow> pathCmd list" where
  "routePathD pts = (case pts of
     [] \<Rightarrow> []
   | [p] \<Rightarrow> [MoveTo p]
   | p # ps \<Rightarrow> MoveTo p # cornerCmds pts @ [LineTo (last ps)])"

section \<open>The document\<close>

datatype shape =
    EmptyPicture
  | Background rat rat
  | Heading string
  | Subheading string string string
  | GroupBox svgRect
  | GroupText rat rat string
  | EdgePath "pathCmd list"
  | EdgeCurve routePoint routePoint routePoint routePoint
  | NodeTitle string string int int
  | NodeBox svgRect string string
  | NodeText rat rat string string
  | NodeTask rat rat string
  | LegendBox rat rat string string
  | LegendText rat rat string string

text \<open>The ends of an edge: a node, or else the box of a group.\<close>

definition anchor :: "(string \<times> rat \<times> rat) list \<Rightarrow> (string \<times> svgRect) list \<Rightarrow> rat \<Rightarrow> string \<Rightarrow> bool \<Rightarrow> routePoint option" where
  "anchor pos boxes nodeW name right =
     (case lastOf pos name of
        Some p \<Rightarrow> Some (fst p + (if right then nodeW else 0), snd p + dagNodeH / 2)
      | None \<Rightarrow>
          (case lastOf boxes name of
             Some b \<Rightarrow> Some (rectX b + (if right then rectW b else 0), rectY b + rectH b / 2)
           | None \<Rightarrow> None))"

definition edgeShapes ::
  "DAG \<Rightarrow> (string \<times> rat \<times> rat) list \<Rightarrow> (string \<times> svgRect) list \<Rightarrow> rat \<Rightarrow> string \<times> string \<Rightarrow> shape list option" where
  "edgeShapes d pos boxes nodeW e =
     (case anchor pos boxes nodeW (fst e) True of
        None \<Rightarrow> Some []
      | Some (x1, y1) \<Rightarrow>
          (case anchor pos boxes nodeW (snd e) False of
             None \<Rightarrow> Some []
           | Some (x2, y2) \<Rightarrow>
               map_option (\<lambda>pts.
                 if length pts \<ge> 2 then [EdgePath (routePathD pts)]
                 else
                   let dx = (if (x2 - x1) / 2 < 20 then 20 else (x2 - x1) / 2) in
                   [EdgeCurve (x1, y1) (x1 + dx, y1) (x2 - dx, y2) (x2, y2)])
                 (routeEdge x1 y1 x2 y2 (dagEdgeObstacles d (dagNodeRect pos nodeW) (fst e) (snd e)))))"

definition groupShapes :: "(string \<times> svgRect) list \<Rightarrow> DAGGroup \<Rightarrow> shape list" where
  "groupShapes boxes g =
     (case lastOf boxes (dgName g) of
        None \<Rightarrow> []
      | Some b \<Rightarrow> if rectW b \<le> 0 \<or> rectH b \<le> 0 then []
          else [GroupBox b, GroupText (rectX b + 10) (rectY b + 14) (escapeXML (labelText (dgLabel g)))])"

definition nodeShapes :: "(string \<times> rat \<times> rat) list \<Rightarrow> rat \<Rightarrow> DAGNode \<Rightarrow> shape list" where
  "nodeShapes pos nodeW n =
     (let p = nodePos pos (dnName n); (fill, stroke, txt) = dagStatusColors (dnStatus n);
          cx = fst p + nodeW / 2; subtitle = (dnTask n \<noteq> '''' \<and> dnTask n \<noteq> dnName n);
          nameY = (if subtitle then snd p + 18 else snd p + dagNodeH / 2 + 1)
      in [NodeTitle (escapeXML (dnName n)) (escapeXML (status_text (dnStatus n))) (dnAttempts n) (dnMaxAttempts n),
          NodeBox (dagNodeRect pos nodeW (dnName n)) fill stroke,
          NodeText cx nameY txt (escapeXML (truncateLabel (dnName n) nodeW))] @
         (if subtitle then [NodeTask cx (snd p + 33) (escapeXML (truncateLabel (dnTask n) nodeW))] else []))"

definition legendStep :: "status \<Rightarrow> rat" where
  "legendStep s = 18 + of_nat (length (status_text s)) * 7 + 16"

fun legendShapes :: "rat \<Rightarrow> rat \<Rightarrow> status list \<Rightarrow> shape list" where
  "legendShapes x y [] = []"
| "legendShapes x y (s # ss) =
     (let (fill, stroke, txt) = dagStatusColors s in
      [LegendBox x (y - 10) fill stroke, LegendText (x + 18) y txt (escapeXML (status_text s))] @ legendShapes (x + legendStep s) y ss)"

definition pictureWidth :: "rat \<Rightarrow> rat" where
  "pictureWidth w =
     (let legendWidth = dagPadX + sum_list (map legendStep dagLegendStatuses)
      in if legendWidth > w then legendWidth + dagPadX else w)"

definition optionText :: "('a \<Rightarrow> string) \<Rightarrow> 'a option \<Rightarrow> string" where
  "optionText f x = (case x of None \<Rightarrow> '''' | Some a \<Rightarrow> f a)"

definition kind_text :: "kind \<Rightarrow> string" where
  "kind_text k = (case k of KindTask \<Rightarrow> ''task'' | KindWorkflow \<Rightarrow> ''workflow'')"

definition renderDAGSVG :: "DAG \<Rightarrow> shape list option" where
  "renderDAGSVG d =
     (if length (daNodes d) = 0 then Some [EmptyPicture]
      else
        let nodeW = dagNodeWidth (daNodes d) in
        (case layoutDAG d nodeW of
           None \<Rightarrow> None
         | Some (pos, boxes, w, h) \<Rightarrow>
             map_option (\<lambda>es.
               [Background (pictureWidth w) h, Heading (escapeXML (daWorkflow d)),
                Subheading (escapeXML (optionText kind_text (daKind d))) (escapeXML (optionText status_text (daStatus d)))
                  (escapeXML (daRunID d))] @
               concat (map (groupShapes boxes) (daGroups d)) @ concat es @
               concat (map (nodeShapes pos nodeW) (daNodes d)) @
               legendShapes dagPadX (h - dagLegend + 16) dagLegendStatuses)
             (those (map (edgeShapes d pos boxes nodeW) (daEdges d)))))"

end
