(* ===== verification/Picture_Laws.thy ===== *)
theory Picture_Laws
  imports Picture
begin

text \<open>
  Laws of the picture: escaped text carries no markup and is read back as the text, labels keep to
  their length, rendering is total, nodes do not overlap, and every edge between known ends is drawn.
\<close>

section \<open>Text\<close>

lemma escapeXML_no_markup: "set (escapeXML s) \<inter> {CHR ''<'', CHR ''>'', CHR 0x22, CHR 0x27} = {}"
proof -
  have "set (escapeChar c) \<inter> {CHR ''<'', CHR ''>'', CHR 0x22, CHR 0x27} = {}" for c
    by (simp add: escapeChar_def)
  then show ?thesis by (auto simp: escapeXML_def)
qed

text \<open>What a reader of the document does with the five entities.\<close>

definition entities :: "(string \<times> char) list" where
  "entities = [(''amp;'', CHR ''&''), (''lt;'', CHR ''<''), (''gt;'', CHR ''>''), (''quot;'', CHR 0x22), (''#39;'', CHR 0x27)]"

function unescapeXML :: "string \<Rightarrow> string" where
  "unescapeXML [] = []"
| "unescapeXML (c # s) =
     (case (if c = CHR ''&'' then find (\<lambda>e. take (length (fst e)) s = fst e) entities else None) of
        None \<Rightarrow> c # unescapeXML s
      | Some e \<Rightarrow> snd e # unescapeXML (drop (length (fst e)) s))"
  by pat_completeness auto
termination by (relation "measure length") (auto simp: less_Suc_eq_le)

lemma unescape_escapeXML: "unescapeXML (escapeXML s) = s"
proof (induction s)
  case (Cons c s)
  have "unescapeXML (escapeChar c @ t) = c # unescapeXML t" for t
    by (simp add: escapeChar_def entities_def)
  with Cons show ?case by (simp add: escapeXML_def)
qed (simp add: escapeXML_def)

lemma runes_ascii: "list_all (byteIn 0 0x7F) s \<Longrightarrow> runes s = map (\<lambda>c. [c]) s"
  by (induction s) simp_all

section \<open>The document\<close>

lemma dagNodeWidth_bounds: "130 \<le> dagNodeWidth ns \<and> dagNodeWidth ns \<le> 300"
  by (simp add: dagNodeWidth_def Let_def)

lemma routeEdge_total: "\<exists>pts. routeEdge x1 y1 x2 y2 obs = Some pts"
proof (cases "x1 < x2")
  case True
  then show ?thesis using routeEdge_safe by blast
qed (simp add: routeEdge_def)

definition isEdge :: "shape \<Rightarrow> bool" where
  "isEdge s \<longleftrightarrow> (case s of EdgePath _ \<Rightarrow> True | EdgeCurve _ _ _ _ \<Rightarrow> True | _ \<Rightarrow> False)"

definition anchored :: "(string \<times> rat \<times> rat) list \<Rightarrow> (string \<times> svgRect) list \<Rightarrow> string \<times> string \<Rightarrow> bool" where
  "anchored pos boxes e \<longleftrightarrow> fst e \<in> fst ` set pos \<union> fst ` set boxes \<and> snd e \<in> fst ` set pos \<union> fst ` set boxes"

lemma lastOf_None: "lastOf ps k = None \<longleftrightarrow> k \<notin> fst ` set ps"
  by (simp add: lastOf_def map_of_eq_None_iff)

lemma anchor_None: "anchor pos boxes w n r = None \<longleftrightarrow> n \<notin> fst ` set pos \<union> fst ` set boxes"
  using lastOf_None [of pos n] lastOf_None [of boxes n] by (auto simp: anchor_def split: option.split)

lemma edgeShapes_total:
  "\<exists>ss. edgeShapes d pos boxes w e = Some ss \<and> (\<forall>s \<in> set ss. isEdge s) \<and> length ss = (if anchored pos boxes e then 1 else 0)"
proof (cases "anchored pos boxes e")
  case True
  then obtain x1 y1 x2 y2 where a: "anchor pos boxes w (fst e) True = Some (x1, y1)" "anchor pos boxes w (snd e) False = Some (x2, y2)"
    using anchor_None [of pos boxes w "fst e" True] anchor_None [of pos boxes w "snd e" False]
    by (fastforce simp: anchored_def)
  obtain pts where "routeEdge x1 y1 x2 y2 (dagEdgeObstacles d (dagNodeRect pos w) (fst e) (snd e)) = Some pts"
    using routeEdge_total by blast
  with a True show ?thesis by (simp add: edgeShapes_def isEdge_def Let_def)
next
  case False
  then have "anchor pos boxes w (fst e) True = None \<or> anchor pos boxes w (snd e) False = None"
    by (auto simp: anchored_def anchor_None)
  with False show ?thesis by (auto simp: edgeShapes_def split: option.split)
qed

lemma edges_drawn:
  "\<exists>es. those (map (edgeShapes d pos boxes w) es0) = Some es \<and> (\<forall>s \<in> set (concat es). isEdge s) \<and>
     length (concat es) = length (filter (anchored pos boxes) es0)"
proof (induction es0)
  case (Cons e es0)
  then obtain es where es: "those (map (edgeShapes d pos boxes w) es0) = Some es" "\<forall>s \<in> set (concat es). isEdge s"
    "length (concat es) = length (filter (anchored pos boxes) es0)" by blast
  obtain ss where ss: "edgeShapes d pos boxes w e = Some ss" "\<forall>s \<in> set ss. isEdge s"
    "length ss = (if anchored pos boxes e then 1 else 0)" using edgeShapes_total [of d pos boxes w e] by blast
  show ?case by (rule exI [of _ "ss # es"]) (use es ss in auto)
qed simp

lemma other_shapes_no_edge:
  "\<not> isEdge s" if "s \<in> set (groupShapes boxes g)" for s
  using that by (auto simp: groupShapes_def isEdge_def split: option.splits if_splits)

lemma nodeShapes_no_edge: "s \<in> set (nodeShapes pos w n) \<Longrightarrow> \<not> isEdge s"
  by (auto simp: nodeShapes_def isEdge_def Let_def split: prod.splits if_splits)

lemma legendShapes_no_edge: "s \<in> set (legendShapes x y ss) \<Longrightarrow> \<not> isEdge s"
  by (induction ss arbitrary: x) (auto simp: isEdge_def split_beta Let_def)

lemma nodeBox_drawn: "\<exists>fill stroke. NodeBox (dagNodeRect pos w (dnName n)) fill stroke \<in> set (nodeShapes pos w n)"
  by (auto simp: nodeShapes_def Let_def split_beta)

lemma filter_concat_none: "(\<And>x s. x \<in> set xs \<Longrightarrow> s \<in> set (f x) \<Longrightarrow> \<not> P s) \<Longrightarrow> filter P (concat (map f xs)) = []"
  by (induction xs) (auto simp: filter_empty_conv)

lemma renderDAGSVG_complete:
  assumes "layoutDAG d (dagNodeWidth (daNodes d)) = Some (pos, boxes, w, h)" and "daNodes d \<noteq> []"
  shows "\<exists>shapes. renderDAGSVG d = Some shapes \<and>
    length (filter isEdge shapes) = length (filter (anchored pos boxes) (daEdges d)) \<and>
    (\<forall>n \<in> set (daNodes d). \<exists>fill stroke. NodeBox (dagNodeRect pos (dagNodeWidth (daNodes d)) (dnName n)) fill stroke \<in> set shapes)"
proof -
  let ?w = "dagNodeWidth (daNodes d)"
  obtain es where es: "those (map (edgeShapes d pos boxes ?w) (daEdges d)) = Some es" "\<forall>s \<in> set (concat es). isEdge s"
    "length (concat es) = length (filter (anchored pos boxes) (daEdges d))" using edges_drawn by blast
  define shapes where "shapes = [Background (pictureWidth w) h, Heading (escapeXML (daWorkflow d)),
      Subheading (escapeXML (optionText kind_text (daKind d))) (escapeXML (optionText status_text (daStatus d))) (escapeXML (daRunID d))] @
    concat (map (groupShapes boxes) (daGroups d)) @ concat es @ concat (map (nodeShapes pos ?w) (daNodes d)) @
    legendShapes dagPadX (h - dagLegend + 16) dagLegendStatuses"
  have r: "renderDAGSVG d = Some shapes"
    using assms es(1) unfolding renderDAGSVG_def by (simp add: Let_def shapes_def)
  have "filter isEdge shapes = concat es"
  proof -
    have "filter isEdge (concat (map (groupShapes boxes) (daGroups d))) = []"
      using other_shapes_no_edge by (rule filter_concat_none)
    moreover have "filter isEdge (concat (map (nodeShapes pos ?w) (daNodes d))) = []"
      using nodeShapes_no_edge by (rule filter_concat_none)
    moreover have "filter isEdge (legendShapes dagPadX (h - dagLegend + 16) dagLegendStatuses) = []"
      using legendShapes_no_edge by (auto simp: filter_empty_conv)
    moreover have "filter isEdge (concat es) = concat es" using es(2) by (simp add: filter_id_conv)
    ultimately show ?thesis by (simp only: shapes_def filter_append) (simp add: isEdge_def)
  qed
  moreover have "\<exists>fill stroke. NodeBox (dagNodeRect pos ?w (dnName n)) fill stroke \<in> set shapes" if "n \<in> set (daNodes d)" for n
    using nodeBox_drawn [of pos ?w n] that unfolding shapes_def by fastforce
  ultimately show ?thesis using r es(3) by auto
qed

text \<open>The drawn rectangles of two nodes lie apart.\<close>

lemma nodePos_mem: "n \<in> fst ` set pos \<Longrightarrow> (n, nodePos pos n) \<in> set pos"
  using lastOf_None [of pos n] map_of_SomeD [of "rev pos" n] by (auto simp: nodePos_def lastOf_def split: option.splits)

lemma sorted_wrt_sym:
  assumes "sorted_wrt R xs" and "\<And>x y. R x y \<Longrightarrow> R y x" and "x \<in> set xs" and "y \<in> set xs" and "x \<noteq> y"
  shows "R x y"
  using assms by (induction xs) auto

lemma drawn_apart:
  assumes "tidy_picture w frame pos boxes" and "n \<in> fst ` set pos" and "m \<in> fst ` set pos" and "n \<noteq> m"
  shows "apart dagVGap (dagNodeRect pos w n) (dagNodeRect pos w m)"
proof -
  let ?R = "\<lambda>p q. apart dagVGap (nodeRect w p) (nodeRect w q)"
  have "sorted_wrt ?R pos" using assms(1) by (simp add: tidy_picture_def)
  then have "?R (n, nodePos pos n) (m, nodePos pos m)"
    by (rule sorted_wrt_sym) (use assms(2-4) nodePos_mem apart_sym in auto)
  then show ?thesis by (simp add: nodeRect_def dagNodeRect_def)
qed

lemma drawn_box:
  assumes "tidy_picture w frame pos boxes" and "n \<in> fst ` set pos" and "(k, b) \<in> set boxes"
  shows "enclosed (dagNodeRect pos w n) b \<or> apart dagVGap (dagNodeRect pos w n) b"
  using assms(1,3) nodePos_mem [OF assms(2)] by (fastforce simp: tidy_picture_def nodeRect_def dagNodeRect_def)

lemma drawn_framed:
  assumes "tidy_picture w frame pos boxes" and "n \<in> fst ` set pos"
  shows "enclosed (dagNodeRect pos w n) frame"
  using assms(1) nodePos_mem [OF assms(2)] by (fastforce simp: tidy_picture_def nodeRect_def dagNodeRect_def)

text \<open>An ASCII label that does not fit is cut to one rune less than fits, and the ellipsis follows.\<close>

lemma truncateLabel_ascii:
  assumes "list_all (byteIn 0 0x7F) s" and "m = max 4 (nat \<lfloor>(w - 20) / 7\<rfloor>)"
  shows "truncateLabel s w = (if length s \<le> m then s else take (m - 1) s @ [CHR 0xE2, CHR 0x80, CHR 0xA6])"
proof -
  have "concat (take k (map (\<lambda>c. [c]) s)) = take k s" for k by (simp add: take_map)
  with assms show ?thesis by (simp add: truncateLabel_def runes_ascii Let_def)
qed

end
