(* ===== verification/Envelope.thy ===== *)
theory Envelope
  imports Tasks
begin

text \<open>
  Payload codecs (\<open>codec.go\<close>, \<open>internal/engine/codec.go\<close>). The JSON encoding of a type and the
  authenticated cipher (AES-256-GCM) are parameters; the envelope around the ciphertext, its checks
  and its errors are the code's. The random nonce is an argument.
\<close>

record aead =
  aeNonceSize :: nat
  aeOverhead :: nat
  aeSeal :: "bytes \<Rightarrow> bytes \<Rightarrow> bytes"
  aeOpen :: "bytes \<Rightarrow> bytes \<Rightarrow> bytes option"

definition codecEnvelopeV1 :: char where "codecEnvelopeV1 = CHR 0x01"

datatype keyErr = BadKeyLength nat | BadCipher

definition NewEncryptedJSONCodec :: "(bytes \<Rightarrow> aead option) \<Rightarrow> bytes \<Rightarrow> keyErr + aead" where
  "NewEncryptedJSONCodec newGCM key =
     (if length key \<noteq> 32 then Inl (BadKeyLength (length key))
      else (case newGCM key of None \<Rightarrow> Inl BadCipher | Some ae \<Rightarrow> Inr ae))"

definition sealEnvelope :: "aead \<Rightarrow> bytes \<Rightarrow> bytes \<Rightarrow> bytes" where
  "sealEnvelope ae nonce plain = codecEnvelopeV1 # nonce @ aeSeal ae nonce plain"

datatype envelopeErr = TooShort nat | UnknownVersion char | DecryptFailed

text \<open>What is to be decoded as JSON; nothing at all is handed on as it is.\<close>

definition openEnvelope :: "aead \<Rightarrow> bytes \<Rightarrow> envelopeErr + bytes" where
  "openEnvelope ae data =
     (if length data = 0 then Inr data
      else let ns = aeNonceSize ae in
        if length data < 1 + ns then Inl (TooShort (length data))
        else if data ! 0 \<noteq> codecEnvelopeV1 then Inl (UnknownVersion (data ! 0))
        else (case aeOpen ae (take ns (drop 1 data)) (drop (1 + ns) data) of
                None \<Rightarrow> Inl DecryptFailed
              | Some plain \<Rightarrow> Inr plain))"

text \<open>The codec of one type: \<open>Marshal\<close> and \<open>Unmarshal\<close>.\<close>

definition encryptedPayload :: "aead \<Rightarrow> bytes \<Rightarrow> ('c, 'a) payload \<Rightarrow> ('c, 'a) payload" where
  "encryptedPayload ae nonce json =
     \<lparr>plMarshal = (\<lambda>c x. case plMarshal json c x of None \<Rightarrow> None | Some plain \<Rightarrow> Some (sealEnvelope ae nonce plain)),
      plUnmarshal = (\<lambda>c data. case openEnvelope ae data of Inl e \<Rightarrow> None | Inr plain \<Rightarrow> plUnmarshal json c plain),
      plZero = plZero json\<rparr>"

text \<open>The codec of a task body: its engine's, or JSON outside of a task.\<close>

definition CodecFromContext :: "'c \<Rightarrow> ('c, 'h) engine option \<Rightarrow> 'c" where
  "CodecFromContext jsonCodec running = (case running of None \<Rightarrow> jsonCodec | Some e \<Rightarrow> enCodec e)"

section \<open>Round trips\<close>

text \<open>What the API asks of a codec: what it writes for a value is not empty and is read back as it.\<close>

definition round_trips :: "('c, 'a) payload \<Rightarrow> 'c \<Rightarrow> 'a \<Rightarrow> bool" where
  "round_trips pl c x \<longleftrightarrow> (case plMarshal pl c x of None \<Rightarrow> False | Some b \<Rightarrow> b \<noteq> [] \<and> plUnmarshal pl c b = Some x)"

text \<open>What is relied on of the cipher: opening with the nonce of the seal gives the plain text; and,
  of an authenticated one, nothing else opens.\<close>

definition opens_seals :: "aead \<Rightarrow> bool" where
  "opens_seals ae \<longleftrightarrow> (\<forall>nonce plain. length nonce = aeNonceSize ae \<longrightarrow> aeOpen ae nonce (aeSeal ae nonce plain) = Some plain)"

definition authentic :: "aead \<Rightarrow> bool" where
  "authentic ae \<longleftrightarrow> (\<forall>nonce c plain. aeOpen ae nonce c = Some plain \<longrightarrow> c = aeSeal ae nonce plain)"

lemma openEnvelope_seal:
  "opens_seals ae \<Longrightarrow> length nonce = aeNonceSize ae \<Longrightarrow> openEnvelope ae (sealEnvelope ae nonce plain) = Inr plain"
  by (simp add: opens_seals_def openEnvelope_def sealEnvelope_def Let_def)

text \<open>Only envelopes open, and what opens is what was sealed into them.\<close>

lemma openEnvelope_sealed:
  assumes "authentic ae" and "openEnvelope ae data = Inr plain" and "data \<noteq> []"
  shows "\<exists>nonce. length nonce = aeNonceSize ae \<and> data = sealEnvelope ae nonce plain"
proof -
  let ?ns = "aeNonceSize ae" and ?nonce = "take (aeNonceSize ae) (drop 1 data)"
  have len: "1 + ?ns \<le> length data" and v: "data ! 0 = codecEnvelopeV1" and
    "aeOpen ae ?nonce (drop (1 + ?ns) data) = Some plain"
    using assms(2,3) by (auto simp: openEnvelope_def Let_def split: if_splits option.splits)
  then have "aeSeal ae ?nonce plain = drop (1 + ?ns) data" using assms(1) by (simp add: authentic_def)
  moreover have "data = data ! 0 # ?nonce @ drop ?ns (drop 1 data)"
    using assms(3) by (cases data) (simp_all add: append_take_drop_id)
  ultimately have "data = sealEnvelope ae ?nonce plain" using v by (simp add: sealEnvelope_def)
  moreover have "length ?nonce = ?ns" using len by simp
  ultimately show ?thesis by blast
qed

theorem encrypted_round_trip:
  assumes "round_trips json c x" and "opens_seals ae" and "length nonce = aeNonceSize ae"
  shows "round_trips (encryptedPayload ae nonce json) c x"
  using assms openEnvelope_seal [OF assms(2,3)]
  by (auto simp: round_trips_def encryptedPayload_def sealEnvelope_def split: option.splits)

text \<open>Two engines with the same key read each other's payloads, whatever nonces they drew.\<close>

lemma encrypted_shared:
  assumes "round_trips json c x" and "opens_seals ae" and "length nonce = aeNonceSize ae"
    and "plMarshal (encryptedPayload ae nonce json) c x = Some b"
  shows "plUnmarshal (encryptedPayload ae nonce' json) c b = Some x"
  using assms openEnvelope_seal [OF assms(2,3)]
  by (auto simp: round_trips_def encryptedPayload_def split: option.splits)

end
