(* ===== verification/Api_Theorems.thy ===== *)
theory Api_Theorems
  imports Picture_Laws Engine_Theorems Envelope
begin

text \<open>
  The properties of the public API: typed values survive the way through the engine, retry delays,
  grouped workflows and their pictures. Each has a witness at a concrete task or workflow.
\<close>

section \<open>Tasks\<close>





definition textPayload :: "(unit, string) payload" where
  "textPayload = \<lparr>plMarshal = (\<lambda>_ s. Some (CHR ''!'' # s)),
     plUnmarshal = (\<lambda>_ b. case b of [] \<Rightarrow> None | c # s \<Rightarrow> if c = CHR ''!'' then Some s else None), plZero = ''''\<rparr>"

definition greet :: "(unit, string, string) task" where
  "greet = NewTask ''greet'' (\<lambda>s. Inr (''hi '' @ s)) [Retries 2, WithKey textPayload id]"




section \<open>Grouped workflows\<close>

text \<open>C16: grouped workflows are valid. When the group names are distinct and not empty, every group
  waits for known groups, the steps have distinct names and depend on steps of their own group
  only, and neither the steps nor the groups wait in a cycle, then the expansion of the groups to
  step dependencies is a graph that the engine's validation accepts.\<close>

theorem group_workflow_valid:
  assumes "validateWorkflowGroups (NewGroupWorkflow name (map Some gs)) = None"
    and "groups_ok gs" and "acyclic (ownDeps gs)" and "acyclic (groupOrder gs)"
  shows "validateDAG (stepReqs (NewGroupWorkflow name (map Some gs))) = None"
  using group_workflow_dag [OF assms] by (simp add: validateDAG_iff)

text \<open>Extract, then transform (which waits for the whole group).\<close>

definition etl :: "unit group list" where
  "etl = [NewGroup ''extract'' [Step textPayload textPayload 0 ''pull'' greet [], Step textPayload textPayload 0 ''check'' greet [''pull'']],
     After [''extract''] (NewGroup ''load'' [Step textPayload textPayload 0 ''push'' greet []])]"

lemmas etl_defs = etl_def NewGroup_def After_def Step_def

lemma etl_ok: "validateWorkflowGroups (NewGroupWorkflow ''etl'' (map Some etl)) = None" "groups_ok etl"
  "acyclic (ownDeps etl)" "acyclic (groupOrder etl)"
proof -
  show "validateWorkflowGroups (NewGroupWorkflow ''etl'' (map Some etl)) = None"
    by (simp add: validateWorkflowGroups_None NewGroupWorkflow_def etl_defs comp_def)
  show "groups_ok etl" by (simp add: groups_ok_def stepNames_def etl_defs)
  have "ownDeps etl \<subseteq> {(''pull'', ''check'')}" by (auto simp: ownDeps_def etl_defs)
  then show "acyclic (ownDeps etl)" by (rule acyclic_subset [rotated]) (simp add: acyclic_insert wf_acyclic)
  have "groupOrder etl \<subseteq> {(''extract'', ''load'')}" by (auto simp: groupOrder_def etl_defs)
  then show "acyclic (groupOrder etl)" by (rule acyclic_subset [rotated]) (simp add: acyclic_insert wf_acyclic)
qed

lemma group_workflow_valid_witness: "validateDAG (stepReqs (NewGroupWorkflow ''etl'' (map Some etl))) = None"
  by (rule group_workflow_valid [OF etl_ok])

text \<open>C18: the picture of a grouped workflow hides no dependency. Every dependency of a step of the
  run, the step's own and those that its group brought, is an edge of the graph, between the two
  steps or between their groups.\<close>

theorem every_dependency_drawn:
  assumes "validateWorkflowGroups (NewGroupWorkflow name (map Some gs)) = None" and "groups_ok gs"
    and "pictured (NewGroupWorkflow name (map Some gs)) ex"
    and "s \<in> set (exSteps ex)" and "dep \<in> set (vsDeps s)"
  shows "(dep, vsName s) \<in> set (daEdges (dagView ex)) \<or>
    (groupOf (exGroups ex) dep, groupOf (exGroups ex) (vsName s)) \<in> set (daEdges (dagView ex))"
  by (rule dependency_drawn [OF assms])

definition etlRun :: Execution where
  "etlRun = \<lparr>exRunID = ''r'', exWorkflow = ''etl'', exKind = KindWorkflow, exStatus = Queued, exQueue = ''default'',
     exPriority = 0, exAttempts = 0, exMaxAttempts = 1, exInput = [], exOutput = [], exError = '''', exKey = '''',
     exTraceParent = '''', exRunAt = None, exCreatedAt = None, exStartedAt = None, exCompletedAt = None,
     exSteps = map (\<lambda>s. \<lparr>vsName = sdName s, vsTask = ''greet'', vsStatus = Queued, vsDeps = sdDeps s, vsKey = '''',
       vsAttempts = 0, vsMaxAttempts = 1, vsTimeout = 0, vsInput = [], vsOutput = [], vsError = '''', vsRunAt = None,
       vsCreatedAt = None, vsStartedAt = None, vsCompletedAt = None, vsWaitEvent = '''', vsResumeAt = None,
       vsLabels = []\<rparr>) (wfSteps (NewGroupWorkflow ''etl'' (map Some etl))),
     exGroups = wfGroups (NewGroupWorkflow ''etl'' (map Some etl)), exChildren = []\<rparr>"

lemma every_dependency_drawn_witness:
  "(''pull'', ''push'') \<in> set (daEdges (dagView etlRun)) \<or>
   (groupOf (exGroups etlRun) ''pull'', groupOf (exGroups etlRun) ''push'') \<in> set (daEdges (dagView etlRun))"
proof -
  have p: "pictured (NewGroupWorkflow ''etl'' (map Some etl)) etlRun" by (simp add: pictured_def etlRun_def comp_def)
  let ?s = "exSteps etlRun ! 2"
  have "?s \<in> set (exSteps etlRun)" "''pull'' \<in> set (vsDeps ?s)" "vsName ?s = ''push''"
    by (simp_all add: etlRun_def NewGroupWorkflow_def map_filter_simps expandGroup_def groupDeps_def groupsByName_def
      dedupStrings_def List.member_iff etl_defs)
  from every_dependency_drawn [OF etl_ok(1,2) p this(1,2)] this(3) show ?thesis by simp
qed

section \<open>Routes\<close>

text \<open>C22: a drawn edge is routed around the nodes. For ports from left to right the router always
  returns. When it finds no route, the grid of the obstacles has none; otherwise the waypoints lead
  from one port to the other along horizontal and vertical segments, and no point of a segment lies
  inside an obstacle. The path on the grid behind it costs least, bends included.\<close>

theorem route_avoids_obstacles:
  assumes "x1 < x2"
  shows "(\<exists>pts. routeEdge x1 y1 x2 y2 obs = Some pts \<and>
      (if pts = [] then \<nexists>q c. gridWalk x1 y1 x2 y2 obs q c
       else hd pts = (x1, y1) \<and> last pts = (x2, y2) \<and> successively (safeSegment obs) pts)) \<and>
    (\<exists>p. gridPath x1 y1 x2 y2 obs = Some p \<and>
      (if p = [] then \<nexists>q c. gridWalk x1 y1 x2 y2 obs q c
       else \<exists>d. gridWalk x1 y1 x2 y2 obs (rev p) d \<and> (\<forall>q c. gridWalk x1 y1 x2 y2 obs q c \<longrightarrow> d \<le> c)))"
  using routeEdge_safe [OF assms] gridPath_least by blast

definition wall :: svgRect where
  "wall = \<lparr>rectX = 4, rectY = - 2, rectW = 2, rectH = 4\<rparr>"

lemma route_avoids_obstacles_witness:
  "\<exists>pts. routeEdge 0 0 10 0 [wall] = Some pts \<and>
     (if pts = [] then \<nexists>q c. gridWalk 0 0 10 0 [wall] q c
      else hd pts = (0, 0) \<and> last pts = (10, 0) \<and> successively (safeSegment [wall]) pts)"
  using route_avoids_obstacles [of 0 10 0 0 "[wall]"] by (rule conjunct1) simp

text \<open>C29: a picture is drawn without overlaps. For a graph whose groups have distinct names and nest
  without a cycle, the layout and the document exist; every node is drawn in its own rectangle, inside
  the frame; the rectangles of two nodes are apart by the vertical gap at least in one direction; the
  box of a group encloses a node or keeps clear of it; and there is one path or curve for every edge
  whose two ends are drawn.\<close>

theorem picture_is_tidy:
  assumes "groups_nest d" and "daNodes d \<noteq> []"
  shows "\<exists>pos boxes w h shapes. layoutDAG d (dagNodeWidth (daNodes d)) = Some (pos, boxes, w, h) \<and> renderDAGSVG d = Some shapes \<and>
    (\<forall>n \<in> dnName ` set (daNodes d). let rect = dagNodeRect pos (dagNodeWidth (daNodes d)) in
       (\<exists>fill stroke. NodeBox (rect n) fill stroke \<in> set shapes) \<and>
       enclosed (rect n) \<lparr>rectX = 0, rectY = dagTitleH, rectW = w, rectH = h - dagTitleH - dagLegend\<rparr> \<and>
       (\<forall>m \<in> dnName ` set (daNodes d). m \<noteq> n \<longrightarrow> apart dagVGap (rect n) (rect m)) \<and>
       (\<forall>(k, b) \<in> set boxes. enclosed (rect n) b \<or> apart dagVGap (rect n) b)) \<and>
    length (filter isEdge shapes) = length (filter (anchored pos boxes) (daEdges d))"
proof -
  let ?w = "dagNodeWidth (daNodes d)"
  have "0 \<le> ?w" using dagNodeWidth_bounds [of "daNodes d"] by linarith
  from layoutDAG_tidy [OF assms(1) this] obtain pos boxes w h where l: "layoutDAG d ?w = Some (pos, boxes, w, h)"
    and names: "fst ` set pos = dnName ` set (daNodes d)"
    and tidy: "tidy_picture ?w \<lparr>rectX = 0, rectY = dagTitleH, rectW = w, rectH = h - dagTitleH - dagLegend\<rparr> pos boxes"
    by blast
  from renderDAGSVG_complete [OF l assms(2)] obtain shapes where r: "renderDAGSVG d = Some shapes"
    "length (filter isEdge shapes) = length (filter (anchored pos boxes) (daEdges d))"
    "\<forall>n \<in> set (daNodes d). \<exists>fill stroke. NodeBox (dagNodeRect pos ?w (dnName n)) fill stroke \<in> set shapes" by blast
  have "let rect = dagNodeRect pos ?w in (\<exists>fill stroke. NodeBox (rect n) fill stroke \<in> set shapes) \<and>
       enclosed (rect n) \<lparr>rectX = 0, rectY = dagTitleH, rectW = w, rectH = h - dagTitleH - dagLegend\<rparr> \<and>
       (\<forall>m \<in> dnName ` set (daNodes d). m \<noteq> n \<longrightarrow> apart dagVGap (rect n) (rect m)) \<and>
       (\<forall>(k, b) \<in> set boxes. enclosed (rect n) b \<or> apart dagVGap (rect n) b)" if n: "n \<in> dnName ` set (daNodes d)" for n
  proof -
    have "(\<forall>(k, b) \<in> set boxes. enclosed (dagNodeRect pos ?w n) b \<or> apart dagVGap (dagNodeRect pos ?w n) b)"
      using drawn_box [OF tidy n [folded names]] by fast
    moreover have "\<forall>m \<in> dnName ` set (daNodes d). m \<noteq> n \<longrightarrow> apart dagVGap (dagNodeRect pos ?w n) (dagNodeRect pos ?w m)"
      using drawn_apart [OF tidy n [folded names]] names by blast
    moreover have "\<exists>fill stroke. NodeBox (dagNodeRect pos ?w n) fill stroke \<in> set shapes" using r(3) n by blast
    ultimately show ?thesis using drawn_framed [OF tidy n [folded names]] by (simp add: Let_def)
  qed
  with l r(1,2) show ?thesis by blast
qed

text \<open>The groups of a run's view are not nested.\<close>

lemma dagView_nest:
  assumes "distinct (map rgName (exGroups ex))" and "[] \<notin> set (map rgName (exGroups ex))"
  shows "groups_nest (dagView ex)"
proof -
  have "childRel (dagView ex) \<subseteq> set (map rgName (exGroups ex)) \<times> {[]}"
    by (auto simp: childRel_def childKeys_def parentKey_def dagView_def groupView_def)
  moreover have "acyclic (set (map rgName (exGroups ex)) \<times> {[]})"
  proof (rule acyclicI, intro allI notI)
    fix x assume "(x, x) \<in> (set (map rgName (exGroups ex)) \<times> {[]})\<^sup>+"
    from tranclD [OF this] tranclD2 [OF this] have "x = []" "x \<in> set (map rgName (exGroups ex))" by auto
    then show False using assms(2) by simp
  qed
  ultimately have "acyclic (childRel (dagView ex))" by (rule acyclic_subset [rotated])
  then show ?thesis using assms(1) by (simp add: groups_nest_def dagView_def groupView_def comp_def)
qed

lemma etlRun_drawn: "groups_nest (dagView etlRun)" "daNodes (dagView etlRun) \<noteq> []"
    "''pull'' \<in> dnName ` set (daNodes (dagView etlRun))" "''push'' \<in> dnName ` set (daNodes (dagView etlRun))"
proof -
  show "groups_nest (dagView etlRun)" 
    by (rule dagView_nest) (simp_all add: etlRun_def NewGroupWorkflow_def map_filter_simps etl_defs)
  have "map dnName (daNodes (dagView etlRun)) = [''pull'', ''check'', ''push'']"
    by (simp add: dagView_def etlRun_def NewGroupWorkflow_def map_filter_simps expandGroup_def groupDeps_def groupsByName_def
      dedupStrings_def List.member_iff etl_defs stepNode_def)
  then have names: "set (map dnName (daNodes (dagView etlRun))) = set [''pull'', ''check'', ''push'']" by (rule arg_cong)
  show "''pull'' \<in> dnName ` set (daNodes (dagView etlRun))" unfolding set_map [symmetric] names by simp
  show "''push'' \<in> dnName ` set (daNodes (dagView etlRun))" unfolding set_map [symmetric] names by simp
  then show "daNodes (dagView etlRun) \<noteq> []" by (metis empty_set image_empty empty_iff)
qed

lemma picture_is_tidy_witness:
  "\<exists>pos boxes w h shapes. layoutDAG (dagView etlRun) (dagNodeWidth (daNodes (dagView etlRun))) = Some (pos, boxes, w, h) \<and>
     renderDAGSVG (dagView etlRun) = Some shapes \<and>
     apart dagVGap (dagNodeRect pos (dagNodeWidth (daNodes (dagView etlRun))) ''pull'')
       (dagNodeRect pos (dagNodeWidth (daNodes (dagView etlRun))) ''push'')"
  using picture_is_tidy [OF etlRun_drawn(1,2)]
proof (elim exE conjE, goal_cases)
  case (1 pos boxes w h shapes)
  have "''push'' \<noteq> ''pull''" by simp
  with bspec [OF 1(3) etlRun_drawn(3), unfolded Let_def] etlRun_drawn(4)
  have "apart dagVGap (dagNodeRect pos (dagNodeWidth (daNodes (dagView etlRun))) ''pull'')
       (dagNodeRect pos (dagNodeWidth (daNodes (dagView etlRun))) ''push'')" by (elim conjE) (rule mp, rule bspec)
  with 1(1,2) show ?case by (intro exI conjI)
qed

end
