(* ===== verification/Sql_Laws.thy ===== *)
theory Sql_Laws
  imports Sql
begin

text \<open>
  Laws of the SQL text. A placeholder is a question mark outside of literals, quoted identifiers and
  comments; \<open>bindMarks\<close> finds them in one pass and numbers them, and \<open>rebind\<close> does exactly that.
  Statements come back from a script that joins them, and an upsert has one placeholder per column.
\<close>

section \<open>Numbers\<close>

lemma itoaLoop_decimal: "n < 10 ^ i \<Longrightarrow> itoaLoop i n acc = Some ((if n = 0 then [] else decimal n) @ acc)"
proof (induction i arbitrary: n acc)
  case (Suc i)
  then have "n div 10 < 10 ^ i" by simp
  moreover have "\<not> n < 10 \<Longrightarrow> n div 10 \<noteq> 0" by simp
  ultimately show ?case using Suc.IH by (cases "n < 10") (simp_all add: decimal.simps [of n] del: div_eq_0_iff)
qed simp

lemma itoa_decimal: "n < 10 ^ 8 \<Longrightarrow> itoa n = Some (decimal n)"
  using itoaLoop_decimal [of n 8] by (simp add: itoa_def decimal.simps [of n])

text \<open>Reading the digits back.\<close>

definition numberOf :: "string \<Rightarrow> nat" where
  "numberOf s = fold (\<lambda>c v. v * 10 + (of_char c - 48)) s 0"

lemma numberOf_decimal: "numberOf (decimal n) = n"
proof (induction n rule: decimal.induct)
  case (1 n)
  then show ?case by (cases "n < 10") (simp_all add: numberOf_def decimal.simps [of n])
qed

section \<open>Placeholders\<close>

datatype sqlMode = Plain | Dash | Literal | Identifier | Comment

definition sqlNext :: "sqlMode \<Rightarrow> char \<Rightarrow> sqlMode" where
  "sqlNext m c = (case m of
     Literal \<Rightarrow> if c = CHR 0x27 then Plain else Literal
   | Identifier \<Rightarrow> if c = CHR 0x22 then Plain else Identifier
   | Comment \<Rightarrow> if c = CHR 0x0A then Plain else Comment
   | _ \<Rightarrow> if c = CHR 0x27 then Literal else if c = CHR 0x22 then Identifier
       else if c = CHR ''-'' then (if m = Dash then Comment else Dash) else Plain)"

text \<open>A question mark that stands for a parameter.\<close>

definition isMark :: "sqlMode \<Rightarrow> char \<Rightarrow> bool" where
  "isMark m c \<longleftrightarrow> c = CHR ''?'' \<and> (m = Plain \<or> m = Dash)"

primrec bindMarks :: "sqlMode \<Rightarrow> nat \<Rightarrow> string \<Rightarrow> string" where
  "bindMarks m n [] = []"
| "bindMarks m n (c # s) =
     (if isMark m c then CHR ''$'' # decimal (n + 1) @ bindMarks Plain (n + 1) s else c # bindMarks (sqlNext m c) n s)"

primrec marks :: "sqlMode \<Rightarrow> string \<Rightarrow> nat" where
  "marks m [] = 0"
| "marks m (c # s) = (if isMark m c then 1 else 0) + marks (if isMark m c then Plain else sqlNext m c) s"

lemma marks_le: "marks m s \<le> length s"
  by (induction s arbitrary: m) (simp_all add: le_SucI)

lemma literal_marks:
  "bindMarks Literal n s = fst (literalRest s) @ bindMarks Plain n (snd (literalRest s))"
proof (induction s rule: literalRest.induct)
  case (2 c s)
  show ?case
  proof (cases "c = CHR 0x27")
    case c: True
    show ?thesis
    proof (cases s)
      case (Cons d t)
      then show ?thesis using 2(1) c by (cases "d = CHR 0x27") (simp_all add: split_beta isMark_def sqlNext_def)
    qed (use c in \<open>simp add: isMark_def sqlNext_def\<close>)
  next
    case False
    then show ?thesis using 2(2) by (simp add: split_beta isMark_def sqlNext_def)
  qed
qed simp

lemma identifier_marks:
  "bindMarks Identifier n s = fst (identifierRest s) @ bindMarks Plain n (snd (identifierRest s))"
  by (induction s) (simp_all add: split_beta isMark_def sqlNext_def)

lemma comment_marks:
  "bindMarks Comment n s = fst (lineRest s) @
     (case snd (lineRest s) of [] \<Rightarrow> [] | d # t \<Rightarrow> CHR 0x0A # bindMarks Plain n t)"
  by (induction s) (simp_all add: lineRest_def isMark_def sqlNext_def)

lemma literal_count: "marks Literal s = marks Plain (snd (literalRest s))"
proof (induction s rule: literalRest.induct)
  case (2 c s)
  show ?case
  proof (cases "c = CHR 0x27")
    case c: True
    show ?thesis
    proof (cases s)
      case (Cons d t)
      then show ?thesis using 2(1) c by (cases "d = CHR 0x27") (simp_all add: split_beta isMark_def sqlNext_def)
    qed (use c in \<open>simp add: isMark_def sqlNext_def\<close>)
  next
    case False
    then show ?thesis using 2(2) by (simp add: split_beta isMark_def sqlNext_def)
  qed
qed simp

lemma identifier_count: "marks Identifier s = marks Plain (snd (identifierRest s))"
  by (induction s) (simp_all add: split_beta isMark_def sqlNext_def)

lemma comment_count: "marks Comment s = (case snd (lineRest s) of [] \<Rightarrow> 0 | d # t \<Rightarrow> marks Plain t)"
  by (induction s) (simp_all add: lineRest_def isMark_def sqlNext_def)

lemma dash_plain:
  assumes "take 1 s \<noteq> ''-''"
  shows "bindMarks Dash n s = bindMarks Plain n s" and "marks Dash s = marks Plain s"
  using assms by (cases s; simp add: isMark_def sqlNext_def)+

lemma lineRest_dash: "lineRest (CHR ''-'' # t) = (CHR ''-'' # fst (lineRest t), snd (lineRest t))"
  by (simp add: lineRest_def)

text \<open>The code's rewriting numbers exactly the placeholders.\<close>

lemma rebindFrom_correct: "n + marks Plain q < 10 ^ 8 \<Longrightarrow> rebindFrom n q = Some (bindMarks Plain n q)"
proof (induction n q rule: rebindFrom.induct)
  case (2 n c s)
  note IH = 2(1-5) and small = 2(6)
  consider (lit) "c = CHR 0x27" | (ident) "c = CHR 0x22" | (com) "c = CHR ''-''" "take 1 s = ''-''"
    | (dash) "c = CHR ''-''" "take 1 s \<noteq> ''-''" | (qm) "c = CHR ''?''"
    | (other) "c \<noteq> CHR 0x27" "c \<noteq> CHR 0x22" "c \<noteq> CHR ''-''" "c \<noteq> CHR ''?''" by blast
  then show ?case
  proof cases
    case lit
    then have "marks Plain (c # s) = marks Plain (snd (literalRest s))" by (simp add: isMark_def sqlNext_def literal_count)
    with lit IH(1) small show ?thesis by (simp add: isMark_def sqlNext_def literal_marks)
  next
    case ident
    then have "marks Plain (c # s) = marks Plain (snd (identifierRest s))" by (simp add: isMark_def sqlNext_def identifier_count)
    with ident IH(2) small show ?thesis by (simp add: isMark_def sqlNext_def identifier_marks)
  next
    case com
    then obtain t where s: "s = CHR ''-'' # t" by (cases s) auto
    show ?thesis
    proof (cases "snd (lineRest t)")
      case Nil
      then show ?thesis using com(1) by (simp add: s isMark_def sqlNext_def lineRest_dash comment_marks)
    next
      case (Cons d r)
      then have "n + marks Plain r < 10 ^ 8" using small com(1) by (simp add: s isMark_def sqlNext_def comment_count)
      then show ?thesis using IH(3) com(1) Cons by (simp add: s isMark_def sqlNext_def lineRest_dash comment_marks)
    qed
  next
    case dash
    then show ?thesis using IH(5) small dash_plain [of s] by (simp add: isMark_def sqlNext_def)
  next
    case qm
    then have "itoa (n + 1) = Some (decimal (n + 1))" using small by (intro itoa_decimal) (simp add: isMark_def)
    then show ?thesis using IH(4) qm small by (simp add: isMark_def)
  next
    case other
    then show ?thesis using IH(5) small by (simp add: isMark_def sqlNext_def)
  qed
qed simp

theorem rebind_correct: "length q < 10 ^ 8 \<Longrightarrow> rebind q = Some (bindMarks Plain 0 q)"
  using rebindFrom_correct [of 0 q] marks_le [of Plain q] by (simp add: rebind_def)

section \<open>Upserts\<close>

definition plainText :: "string \<Rightarrow> bool" where
  "plainText s \<longleftrightarrow> list_all (\<lambda>c. c \<noteq> CHR 0x27 \<and> c \<noteq> CHR 0x22 \<and> c \<noteq> CHR ''-'' \<and> c \<noteq> CHR ''?'') s"

lemma bindMarks_plain: "plainText s \<Longrightarrow> bindMarks Plain n (s @ t) = s @ bindMarks Plain n t"
  by (induction s) (simp_all add: plainText_def isMark_def sqlNext_def)

lemma plainText_append [simp]: "plainText (s @ t) \<longleftrightarrow> plainText s \<and> plainText t"
  by (simp add: plainText_def)

lemma plainText_joinWith: "plainText sep \<Longrightarrow> list_all plainText ss \<Longrightarrow> plainText (joinWith sep ss)"
  by (induction sep ss rule: joinWith.induct) (auto simp: plainText_def)

definition numbered :: "nat \<Rightarrow> nat \<Rightarrow> string" where
  "numbered n k = joinWith '','' (map (\<lambda>i. CHR ''$'' # decimal i) [n + 1..<n + k + 1])"

lemma joinWith_Cons: "ss \<noteq> [] \<Longrightarrow> joinWith sep (s # ss) = s @ sep @ joinWith sep ss"
  by (cases ss) simp_all

lemma bindMarks_questionMarks: "bindMarks Plain n (questionMarks k @ t) = numbered n k @ bindMarks Plain (n + k) t"
proof (induction k arbitrary: n)
  case (Suc k)
  have up: "[n + 1..<n + Suc k + 1] = (n + 1) # [Suc n + 1..<Suc n + k + 1]" by (simp add: upt_rec)
  show ?case
  proof (cases k)
    case 0
    then show ?thesis by (simp add: questionMarks_def numbered_def isMark_def)
  next
    case (Suc j)
    then have "questionMarks (Suc k) = ''?,'' @ questionMarks k" "numbered n (Suc k) = CHR ''$'' # decimal (n + 1) @ '','' @ numbered (Suc n) k"
      unfolding numbered_def questionMarks_def up by (simp_all add: joinWith_Cons del: upt_Suc)
    then show ?thesis using Suc.IH [of "Suc n"] by (simp add: isMark_def sqlNext_def)
  qed
qed (simp add: questionMarks_def numbered_def)

text \<open>PostgreSQL's form of an upsert numbers one placeholder per inserted column, in order, and leaves
  everything else alone.\<close>

lemma rebind_upsert:
  assumes "plainText table" and "list_all plainText ins" and "list_all plainText conf" and "list_all plainText upd"
    and "length (OnConflictUpsert table ins conf upd) < 10 ^ 8"
  shows "rebind (OnConflictUpsert table ins conf upd) =
    Some (''INSERT INTO '' @ table @ '' ('' @ joinWith '', '' ins @ '') VALUES ('' @ numbered 0 (length ins) @
      '') ON CONFLICT ('' @ joinWith '', '' conf @ '') DO UPDATE SET '' @ assignments upd (\<lambda>c. ''excluded.'' @ c))"
proof -
  have ptext: "plainText ''INSERT INTO ''" "plainText '' (''" "plainText '') VALUES (''" "plainText '') ON CONFLICT (''"
    "plainText '') DO UPDATE SET ''" "plainText '', ''" "plainText ''=''" "plainText ''excluded.''"
    by (simp_all add: plainText_def)
  have "list_all plainText (map (\<lambda>c. c @ ''='' @ ''excluded.'' @ c) upd)"
    using assms(4) ptext(7,8) by (auto simp: list_all_iff simp del: append_Cons append_Nil)
  then have as: "plainText (assignments upd (\<lambda>c. ''excluded.'' @ c))"
    unfolding assignments_def by (rule plainText_joinWith [OF ptext(6)])
  have as_alone: "bindMarks Plain n (assignments upd (\<lambda>c. ''excluded.'' @ c)) = assignments upd (\<lambda>c. ''excluded.'' @ c)" for n
    using bindMarks_plain [OF as, of n "[]"] by (simp only: append_Nil2 bindMarks.simps)
  note js = plainText_joinWith [OF ptext(6) assms(2)] plainText_joinWith [OF ptext(6) assms(3)]
  have "bindMarks Plain 0 (OnConflictUpsert table ins conf upd) = ''INSERT INTO '' @ table @ '' ('' @ joinWith '', '' ins @ '') VALUES ('' @ numbered 0 (length ins) @
      '') ON CONFLICT ('' @ joinWith '', '' conf @ '') DO UPDATE SET '' @ assignments upd (\<lambda>c. ''excluded.'' @ c)"
    unfolding OnConflictUpsert_def
    by (simp only: bindMarks_plain [OF ptext(1)] bindMarks_plain [OF ptext(2)] bindMarks_plain [OF ptext(3)] bindMarks_plain [OF ptext(4)]
      bindMarks_plain [OF ptext(5)] bindMarks_plain [OF assms(1)] bindMarks_plain [OF js(1)] bindMarks_plain [OF js(2)]
      bindMarks_questionMarks) (simp only: as_alone)
  then show ?thesis using rebind_correct [OF assms(5)] by simp
qed

section \<open>Scripts\<close>

lemma splitOn_first: "d \<notin> set p \<Longrightarrow> splitOn d (p @ d # s) = p # splitOn d s"
  by (induction p) auto

lemma trimSpace_newline: "trimSpace (CHR 0x0A # s) = trimSpace s"
  by (simp add: trimSpace_def isSpace_def)

text \<open>The statements of a script that writes one after the other, each ended by a semicolon and a line
  break, are those statements.\<close>

lemma splitStatements_script:
  assumes "\<And>s. s \<in> set ss \<Longrightarrow> CHR '';'' \<notin> set s \<and> s \<noteq> [] \<and> trimSpace s = s"
  shows "splitStatements (concat (map (\<lambda>s. s @ [CHR '';'', CHR 0x0A]) ss)) = ss"
proof -
  have "filter (\<lambda>s. s \<noteq> []) (map trimSpace (splitOn (CHR '';'') (CHR 0x0A # concat (map (\<lambda>s. s @ [CHR '';'', CHR 0x0A]) ss)))) = ss"
    using assms
  proof (induction ss)
    case (Cons s ss)
    have "splitOn (CHR '';'') ((CHR 0x0A # s) @ CHR '';'' # t) = (CHR 0x0A # s) # splitOn (CHR '';'') t" for t
      by (rule splitOn_first) (use Cons.prems [of s] in simp)
    then show ?case using Cons by (simp add: trimSpace_newline)
  qed (simp add: trimSpace_def isSpace_def)
  then show ?thesis
    by (cases "splitOn (CHR '';'') (concat (map (\<lambda>s. s @ [CHR '';'', CHR 0x0A]) ss))")
      (simp_all add: splitStatements_def trimSpace_newline trimSpace_def isSpace_def split: if_splits)
qed

end
