(* ===== verification/Lock.thy ===== *)
theory Lock
  imports Sql_Laws
begin

text \<open>
  The single-writer guard of a File-mode database (\<open>lock.go\<close> and the platform files \<open>lock_unix.go\<close>,
  \<open>lock_fcntl.go\<close>, \<open>lock_windows.go\<close>, \<open>lock_other.go\<close>): a registry in every process and a lock of the
  operating system on a sidecar file. Which file a path names is the parameter \<open>sidecar\<close>; two paths may
  name one file. What the system answers to a call is an argument; which locks it may grant is the
  parameter \<open>grants\<close> of the step relation.
\<close>

type_synonym proc = nat
type_synonym inode = nat
type_synonym osFile = nat

section \<open>Answers of the operating system\<close>

datatype errno = EACCES | EAGAIN | EWOULDBLOCK | ELOOP | ENOTSUP | EOPNOTSUPP | ENOSYS | ENOLCK
  | LockViolation | IOPending | OtherErrno int

datatype lockErr = LockHeld | LockUnsupported | LockOther errno

datatype platform = Flock | Fcntl | WindowsLock | NoLocks

definition unsupported :: "errno \<Rightarrow> bool" where
  "unsupported e \<longleftrightarrow> e = ENOTSUP \<or> e = EOPNOTSUPP \<or> e = ENOSYS \<or> e = ENOLCK"

definition flockErr :: "errno \<Rightarrow> lockErr" where
  "flockErr e = (if e = EWOULDBLOCK \<or> e = EAGAIN then LockHeld else if unsupported e then LockUnsupported else LockOther e)"

definition fcntlErr :: "errno \<Rightarrow> lockErr" where
  "fcntlErr e = (if e = EACCES \<or> e = EAGAIN then LockHeld else if unsupported e then LockUnsupported else LockOther e)"

definition windowsErr :: "errno \<Rightarrow> lockErr" where
  "windowsErr e = (if e = LockViolation \<or> e = IOPending then LockHeld else LockOther e)"

definition lockPlatformFile :: "platform \<Rightarrow> errno option \<Rightarrow> lockErr option" where
  "lockPlatformFile plat answer = (case plat of
     Flock \<Rightarrow> map_option flockErr answer
   | Fcntl \<Rightarrow> map_option fcntlErr answer
   | WindowsLock \<Rightarrow> map_option windowsErr answer
   | NoLocks \<Rightarrow> None)"

datatype openErr = SidecarIsSymlink | OpenFailed errno

definition openLockFile :: "platform \<Rightarrow> errno option \<Rightarrow> openErr option" where
  "openLockFile plat answer =
     (case answer of
        None \<Rightarrow> None
      | Some e \<Rightarrow> Some (if (plat = Flock \<or> plat = Fcntl) \<and> e = ELOOP then SidecarIsSymlink else OpenFailed e))"

section \<open>Who holds the lock\<close>

text \<open>\<open>strings.Cut\<close> and \<open>strconv.Atoi\<close>.\<close>

definition cutAt :: "char \<Rightarrow> string \<Rightarrow> string \<times> string" where
  "cutAt d s = (takeWhile (\<lambda>c. c \<noteq> d) s, drop 1 (dropWhile (\<lambda>c. c \<noteq> d) s))"

definition isDigit :: "char \<Rightarrow> bool" where
  "isDigit c \<longleftrightarrow> 48 \<le> (of_char c :: nat) \<and> (of_char c :: nat) \<le> 57"

definition atoi :: "string \<Rightarrow> int option" where
  "atoi s =
     (let digits = (if s \<noteq> [] \<and> (hd s = CHR ''+'' \<or> hd s = CHR ''-'') then tl s else s);
          n = int (numberOf digits);
          v = (if s \<noteq> [] \<and> hd s = CHR ''-'' then - n else n)
      in if digits = [] \<or> \<not> list_all isDigit digits \<or> v < - (2 ^ 63) \<or> 2 ^ 63 \<le> v then None else Some v)"

definition lockDiagnostics :: "nat \<Rightarrow> string \<Rightarrow> string \<Rightarrow> string" where
  "lockDiagnostics pid host time = decimal pid @ [CHR 0x0A] @ host @ [CHR 0x0A] @ time @ [CHR 0x0A]"

definition readLockDiagnostics :: "string option \<Rightarrow> (int \<times> string) option" where
  "readLockDiagnostics content =
     (case content of
        None \<Rightarrow> None
      | Some b \<Rightarrow>
          let (line, rest) = cutAt (CHR 0x0A) b; host = fst (cutAt (CHR 0x0A) rest) in
          (case atoi (trimSpace line) of
             None \<Rightarrow> None
           | Some n \<Rightarrow> if n \<le> 0 then None else Some (n, trimSpace host)))"

datatype acquireErr = InUseByThisProcess | CreateLock openErr | InUseBy int string | InUse | NoAdvisoryLocks | LockFailed errno

definition lockInUseError :: "int \<Rightarrow> string option \<Rightarrow> acquireErr" where
  "lockInUseError self content =
     (case readLockDiagnostics content of
        None \<Rightarrow> InUse
      | Some (pid, host) \<Rightarrow> if pid = self then InUseByThisProcess else InUseBy pid host)"

section \<open>Acquiring and releasing\<close>

text \<open>The registry of a process maps a path to the locked file, or to nothing while the path is reserved.\<close>

record lockWorld =
  lwRegistry :: "proc \<Rightarrow> string \<Rightarrow> osFile option option"
  lwKernel :: "(inode \<times> proc \<times> osFile) list"

definition setEntry :: "proc \<Rightarrow> string \<Rightarrow> osFile option option \<Rightarrow> lockWorld \<Rightarrow> lockWorld" where
  "setEntry p key v w = w\<lparr>lwRegistry := (lwRegistry w)(p := (lwRegistry w p)(key := v))\<rparr>"

text \<open>\<open>acquireFileLock\<close> up to the reservation, which is atomic, and from there on.\<close>

definition reserveLock :: "proc \<Rightarrow> string \<Rightarrow> lockWorld \<Rightarrow> acquireErr + lockWorld" where
  "reserveLock p key w =
     (if lwRegistry w p key \<noteq> None then Inl InUseByThisProcess else Inr (setEntry p key (Some None) w))"

text \<open>A lock that is refused closes the file again. Where the locks belong to the process (\<open>fcntl\<close>), closing
  drops every lock that the process has on the same file.\<close>

definition closeRefused :: "platform \<Rightarrow> inode \<Rightarrow> proc \<Rightarrow> (inode \<times> proc \<times> osFile) list \<Rightarrow> (inode \<times> proc \<times> osFile) list" where
  "closeRefused plat i p ks = (if plat = Fcntl then filter (\<lambda>(j, q, g). \<not> (j = i \<and> q = p)) ks else ks)"

definition finishLock ::
  "platform \<Rightarrow> (string \<Rightarrow> inode) \<Rightarrow> errno option \<Rightarrow> errno option \<Rightarrow> string option \<Rightarrow> proc \<Rightarrow> string \<Rightarrow> osFile \<Rightarrow> lockWorld \<Rightarrow>
     (acquireErr + osFile) \<times> lockWorld" where
  "finishLock plat sidecar openRes lockRes content p key f w =
     (case openLockFile plat openRes of
        Some e \<Rightarrow> (Inl (CreateLock e), setEntry p key None w)
      | None \<Rightarrow>
          let closed = setEntry p key None (w\<lparr>lwKernel := closeRefused plat (sidecar key) p (lwKernel w)\<rparr>)
          in (case lockPlatformFile plat lockRes of
                Some LockHeld \<Rightarrow> (Inl (lockInUseError (int p) content), closed)
              | Some LockUnsupported \<Rightarrow> (Inl NoAdvisoryLocks, closed)
              | Some (LockOther e) \<Rightarrow> (Inl (LockFailed e), closed)
              | None \<Rightarrow> (Inr f, setEntry p key (Some (Some f))
                  (if plat = NoLocks then w else w\<lparr>lwKernel := (sidecar key, p, f) # lwKernel w\<rparr>))))"

text \<open>Closing a locked file releases its lock, and with \<open>fcntl\<close> those on the same file under another name.\<close>

definition dropLocks :: "platform \<Rightarrow> proc \<Rightarrow> osFile \<Rightarrow> (inode \<times> proc \<times> osFile) list \<Rightarrow> (inode \<times> proc \<times> osFile) list" where
  "dropLocks plat p f ks =
     filter (\<lambda>(i, q, g). \<not> (q = p \<and> (g = f \<or> plat = Fcntl \<and> List.member ks (i, p, f)))) ks"

definition releaseFileLock :: "platform \<Rightarrow> proc \<Rightarrow> osFile option \<Rightarrow> lockWorld \<Rightarrow> lockWorld" where
  "releaseFileLock plat p fo w =
     (case fo of
        None \<Rightarrow> w
      | Some f \<Rightarrow> w\<lparr>lwKernel := dropLocks plat p f (lwKernel w),
          lwRegistry := (lwRegistry w)(p := (\<lambda>k. if lwRegistry w p k = Some (Some f) then None else lwRegistry w p k))\<rparr>)"

text \<open>The system drops the locks of a process that dies.\<close>

definition processDies :: "proc \<Rightarrow> lockWorld \<Rightarrow> lockWorld" where
  "processDies p w = w\<lparr>lwKernel := filter (\<lambda>(i, q, g). q \<noteq> p) (lwKernel w), lwRegistry := (lwRegistry w)(p := (\<lambda>_. None))\<rparr>"

definition freshWorld :: lockWorld where
  "freshWorld = \<lparr>lwRegistry = (\<lambda>_ _. None), lwKernel = []\<rparr>"

text \<open>A world can change by any call of any process; the system grants a lock only as \<open>grants\<close> allows.\<close>

inductive lock_step ::
  "platform \<Rightarrow> (string \<Rightarrow> inode) \<Rightarrow> ((inode \<times> proc \<times> osFile) list \<Rightarrow> inode \<Rightarrow> proc \<Rightarrow> bool) \<Rightarrow> lockWorld \<Rightarrow> lockWorld \<Rightarrow> bool"
  for plat sidecar grants where
  reserve: "reserveLock p key w = Inr w' \<Longrightarrow> lock_step plat sidecar grants w w'"
| finish: "lwRegistry w p key = Some None \<Longrightarrow>
    (lockRes = None \<and> plat \<noteq> NoLocks \<longrightarrow> grants (lwKernel w) (sidecar key) p) \<Longrightarrow>
    lock_step plat sidecar grants w (snd (finishLock plat sidecar openRes lockRes content p key f w))"
| release: "lock_step plat sidecar grants w (releaseFileLock plat p fo w)"
| dies: "lock_step plat sidecar grants w (processDies p w)"

inductive lock_reachable for plat sidecar grants where
  fresh: "lock_reachable plat sidecar grants freshWorld"
| step: "lock_reachable plat sidecar grants w \<Longrightarrow> lock_step plat sidecar grants w w' \<Longrightarrow> lock_reachable plat sidecar grants w'"

definition holds :: "lockWorld \<Rightarrow> proc \<Rightarrow> string \<Rightarrow> osFile \<Rightarrow> bool" where
  "holds w p key f \<longleftrightarrow> lwRegistry w p key = Some (Some f)"

section \<open>Mutual exclusion\<close>

text \<open>A lock of an open file (\<open>flock\<close>, \<open>LockFileEx\<close>) excludes every other open file; a POSIX record lock
  (\<open>fcntl\<close>) excludes other processes only.\<close>

definition per_file :: "(inode \<times> proc \<times> osFile) list \<Rightarrow> inode \<Rightarrow> proc \<Rightarrow> bool" where
  "per_file ks i p \<longleftrightarrow> list_all (\<lambda>(j, q, g). j \<noteq> i) ks"

definition per_process :: "(inode \<times> proc \<times> osFile) list \<Rightarrow> inode \<Rightarrow> proc \<Rightarrow> bool" where
  "per_process ks i p \<longleftrightarrow> list_all (\<lambda>(j, q, g). j = i \<longrightarrow> q = p) ks"

text \<open>The holders are exactly those that the system knows, and no two holders share a file.\<close>

definition lock_inv :: "platform \<Rightarrow> (string \<Rightarrow> inode) \<Rightarrow> lockWorld \<Rightarrow> bool" where
  "lock_inv plat sidecar w \<longleftrightarrow>
     (\<forall>p key f. holds w p key f \<longrightarrow> (sidecar key, p, f) \<in> set (lwKernel w)) \<and>
     (\<forall>i p f. (i, p, f) \<in> set (lwKernel w) \<longrightarrow> (\<exists>key. sidecar key = i \<and> holds w p key f)) \<and>
     (\<forall>p key f q key' g. holds w p key f \<longrightarrow> holds w q key' g \<longrightarrow> sidecar key = sidecar key' \<longrightarrow> p = q \<and> key = key' \<and> f = g)"

text \<open>What excludes: locks of open files; or record locks, when every path has a file of its own.\<close>

definition excludes ::
  "platform \<Rightarrow> ((inode \<times> proc \<times> osFile) list \<Rightarrow> inode \<Rightarrow> proc \<Rightarrow> bool) \<Rightarrow> (string \<Rightarrow> inode) \<Rightarrow> bool" where
  "excludes plat grants sidecar \<longleftrightarrow> (plat \<noteq> Fcntl \<and> (\<forall>ks i p. grants ks i p \<longrightarrow> per_file ks i p)) \<or>
     (inj sidecar \<and> (\<forall>ks i p. grants ks i p \<longrightarrow> per_process ks i p))"

lemma holds_setEntry: "holds (setEntry p key v w) q k f \<longleftrightarrow> (if q = p \<and> k = key then v = Some (Some f) else holds w q k f)"
  by (auto simp: holds_def setEntry_def)

lemma lwKernel_setEntry [simp]: "lwKernel (setEntry p key v w) = lwKernel w"
  by (simp add: setEntry_def)

lemma holds_release:
  "holds (releaseFileLock plat p fo w) q k f \<longleftrightarrow> holds w q k f \<and> \<not> (q = p \<and> fo = Some f)"
  by (auto simp: holds_def releaseFileLock_def split: option.split if_splits)

lemma lwKernel_release: "lwKernel (releaseFileLock plat p fo w) = (case fo of None \<Rightarrow> lwKernel w | Some f \<Rightarrow> dropLocks plat p f (lwKernel w))"
  by (simp add: releaseFileLock_def split: option.split)

lemma holds_dies: "holds (processDies p w) q k f \<longleftrightarrow> holds w q k f \<and> q \<noteq> p"
  by (auto simp: holds_def processDies_def)

lemma lwKernel_dies: "lwKernel (processDies p w) = filter (\<lambda>(i, q, g). q \<noteq> p) (lwKernel w)"
  by (simp add: processDies_def)

lemma holds_kernel [simp]: "holds (w\<lparr>lwKernel := ks\<rparr>) = holds w"
  by (simp add: holds_def fun_eq_iff)

lemma lock_invD:
  assumes "lock_inv plat sidecar w"
  shows "holds w p key f \<Longrightarrow> (sidecar key, p, f) \<in> set (lwKernel w)"
    and "(i, p, f) \<in> set (lwKernel w) \<Longrightarrow> \<exists>key. sidecar key = i \<and> holds w p key f"
    and "holds w p key f \<Longrightarrow> holds w q key' g \<Longrightarrow> sidecar key = sidecar key' \<Longrightarrow> p = q \<and> key = key' \<and> f = g"
  using assms by (simp_all add: lock_inv_def)

text \<open>A step after which there are fewer holders, and locks of them only.\<close>

lemma lock_inv_fewer:
  assumes "lock_inv plat sidecar w" and "\<And>p key f. holds w' p key f \<Longrightarrow> holds w p key f"
    and "set (lwKernel w') \<subseteq> set (lwKernel w)"
    and "\<And>p key f. holds w p key f \<Longrightarrow> (sidecar key, p, f) \<in> set (lwKernel w') \<longleftrightarrow> holds w' p key f"
  shows "lock_inv plat sidecar w'"
  unfolding lock_inv_def
proof (intro conjI allI impI)
  fix p key f assume "holds w' p key f"
  with assms(2,4) show "(sidecar key, p, f) \<in> set (lwKernel w')" by blast
next
  fix i p f assume k: "(i, p, f) \<in> set (lwKernel w')"
  with assms(1,3) obtain key where "sidecar key = i" "holds w p key f" using lock_invD(2) by blast
  with assms(4) k show "\<exists>key. sidecar key = i \<and> holds w' p key f" by blast
next
  fix p key f q key' g
  assume "holds w' p key f" "holds w' q key' g" "sidecar key = sidecar key'"
  with assms(1,2) show "p = q" "key = key'" "f = g" unfolding lock_inv_def by blast+
qed

lemma lock_inv_release:
  assumes "lock_inv plat sidecar w"
  shows "lock_inv plat sidecar (releaseFileLock plat p fo w)"
proof (cases fo)
  case (Some x)
  show ?thesis
  proof (rule lock_inv_fewer [OF assms])
    fix q key f assume h: "holds w q key f"
    have "f = x" if "(sidecar key, q, x) \<in> set (lwKernel w)"
      using assms h that unfolding lock_inv_def by metis
    moreover have "(sidecar key, q, f) \<in> set (lwKernel w)" using assms h unfolding lock_inv_def by blast
    ultimately show "(sidecar key, q, f) \<in> set (lwKernel (releaseFileLock plat p fo w)) \<longleftrightarrow> holds (releaseFileLock plat p fo w) q key f"
      using h by (auto simp: holds_release lwKernel_release Some dropLocks_def List.member_iff)
  qed (auto simp: holds_release lwKernel_release Some dropLocks_def)
qed (use assms in \<open>simp add: releaseFileLock_def\<close>)

lemma lock_inv_dies:
  assumes "lock_inv plat sidecar w"
  shows "lock_inv plat sidecar (processDies p w)"
proof (rule lock_inv_fewer [OF assms])
  fix q key f assume h: "holds w q key f"
  then have "(sidecar key, q, f) \<in> set (lwKernel w)" using assms unfolding lock_inv_def by blast
  with h show "(sidecar key, q, f) \<in> set (lwKernel (processDies p w)) \<longleftrightarrow> holds (processDies p w) q key f"
    by (simp add: holds_dies lwKernel_dies)
qed (auto simp: holds_dies lwKernel_dies)

lemma lock_inv_setEntry:
  assumes "lock_inv plat sidecar w" and "\<And>f. \<not> holds w p key f" and "v = None \<or> v = Some None"
  shows "lock_inv plat sidecar (setEntry p key v w)"
proof -
  have "holds (setEntry p key v w) = holds w" using assms(2,3) by (auto simp: holds_setEntry fun_eq_iff)
  with assms(1) show ?thesis by (simp add: lock_inv_def)
qed

lemma lock_inv_acquire:
  assumes inv: "lock_inv plat sidecar w" and "excludes plat grants sidecar" and "grants (lwKernel w) (sidecar key) p"
    and free: "\<And>f. \<not> holds w p key f"
  shows "lock_inv plat sidecar (setEntry p key (Some (Some f)) (w\<lparr>lwKernel := (sidecar key, p, f) # lwKernel w\<rparr>))"
proof -
  have none: "\<not> holds w q k g" if "sidecar k = sidecar key" for q k g
  proof
    assume h: "holds w q k g"
    then have ker: "(sidecar key, q, g) \<in> set (lwKernel w)" using inv that unfolding lock_inv_def by metis
    show False
    proof (cases "\<forall>ks i p. grants ks i p \<longrightarrow> per_file ks i p")
      case True
      with assms(3) ker show False by (fastforce simp: per_file_def list_all_iff)
    next
      case False
      with assms(2) have "inj sidecar" and pp: "per_process (lwKernel w) (sidecar key) p"
        using assms(3) by (auto simp: excludes_def)
      from pp ker have "q = p" by (fastforce simp: per_process_def list_all_iff)
      moreover have "k = key" using \<open>inj sidecar\<close> that by (rule injD)
      ultimately show False using h free by blast
    qed
  qed
  let ?w = "setEntry p key (Some (Some f)) (w\<lparr>lwKernel := (sidecar key, p, f) # lwKernel w\<rparr>)"
  have h: "holds ?w q k g \<longleftrightarrow> (q, k, g) = (p, key, f) \<or> holds w q k g" for q k g
    using free by (auto simp: holds_setEntry)
  have ker: "set (lwKernel ?w) = insert (sidecar key, p, f) (set (lwKernel w))" by simp
  show ?thesis unfolding lock_inv_def
  proof (intro conjI allI impI)
    fix q k g assume "holds ?w q k g"
    then show "(sidecar k, q, g) \<in> set (lwKernel ?w)" using lock_invD(1) [OF inv] unfolding h ker by blast
  next
    fix i q g assume "(i, q, g) \<in> set (lwKernel ?w)"
    then show "\<exists>k. sidecar k = i \<and> holds ?w q k g" using lock_invD(2) [OF inv] unfolding h ker by blast
  next
    fix q k g q' k' g'
    assume "holds ?w q k g" "holds ?w q' k' g'" "sidecar k = sidecar k'"
    then have "q = q' \<and> k = k' \<and> g = g'"
      using lock_invD(3) [OF inv] none unfolding h by (metis prod.inject)
    then show "q = q'" "k = k'" "g = g'" by simp_all
  qed
qed

text \<open>A process that may ask for a lock has none on that file, unless files have several names.\<close>

lemma closeRefused_id:
  assumes inv: "lock_inv plat sidecar w" and "excludes plat grants sidecar" and free: "\<And>f. \<not> holds w p key f"
  shows "closeRefused plat (sidecar key) p (lwKernel w) = lwKernel w"
proof (cases "plat = Fcntl")
  case True
  with assms(2) have "inj sidecar" by (simp add: excludes_def)
  have "\<not> (j = sidecar key \<and> q = p)" if k: "(j, q, g) \<in> set (lwKernel w)" for j q g
  proof
    assume e: "j = sidecar key \<and> q = p"
    with lock_invD(2) [OF inv k] obtain k' where "sidecar k' = sidecar key" and "holds w p k' g" by blast
    with injD [OF \<open>inj sidecar\<close>] free show False by blast
  qed
  then show ?thesis by (auto simp: closeRefused_def intro!: filter_True)
qed (simp add: closeRefused_def)

lemma lock_inv_step:
  assumes "lock_step plat sidecar grants w w'" and "plat \<noteq> NoLocks" and "excludes plat grants sidecar" and inv: "lock_inv plat sidecar w"
  shows "lock_inv plat sidecar w'"
  using assms(1)
proof (cases rule: lock_step.cases)
  case (reserve p key)
  then have "lwRegistry w p key = None" "w' = setEntry p key (Some None) w" by (auto simp: reserveLock_def split: if_splits)
  then show ?thesis by (auto intro!: lock_inv_setEntry [OF inv] simp: holds_def)
next
  case (finish p key lockRes openRes content f)
  have free: "\<not> holds w p key g" for g using finish(2) by (simp add: holds_def)
  show ?thesis
  proof (cases "openLockFile plat openRes = None \<and> lockPlatformFile plat lockRes = None")
    case True
    then have "lockRes = None" using assms(2) by (auto simp: lockPlatformFile_def split: platform.splits)
    with True finish(1,3) lock_inv_acquire [OF inv assms(3) _ free] assms(2) show ?thesis by (simp add: finishLock_def)
  next
    case False
    then have "w' = setEntry p key None w"
      using finish(1) closeRefused_id [OF inv assms(3) free]
      by (auto simp: finishLock_def Let_def split: option.splits lockErr.splits)
    then show ?thesis using lock_inv_setEntry [OF inv free] by simp
  qed
next
  case (release p fo)
  then show ?thesis using lock_inv_release [OF inv] by simp
next
  case (dies p)
  then show ?thesis using lock_inv_dies [OF inv] by simp
qed

lemma lock_inv_reachable:
  assumes "lock_reachable plat sidecar grants w" and "plat \<noteq> NoLocks" and "excludes plat grants sidecar"
  shows "lock_inv plat sidecar w"
  using assms(1)
proof (induction rule: lock_reachable.induct)
  case fresh
  then show ?case by (simp add: lock_inv_def freshWorld_def holds_def)
next
  case (step w w')
  from lock_inv_step [OF step.hyps(2) assms(2,3) step.IH] show ?case .
qed

text \<open>A refused lock leaves no trace, and a released one can be taken again.\<close>

lemma refused_lock_no_trace:
  assumes "reserveLock p key w = Inr w1" and "finishLock plat sidecar openRes lockRes content p key f w1 = (Inl e, w')"
    and "closeRefused plat (sidecar key) p (lwKernel w) = lwKernel w"
  shows "w' = w"
proof -
  have "w1 = setEntry p key (Some None) w" "lwRegistry w p key = None"
    using assms(1) by (auto simp: reserveLock_def split: if_splits)
  moreover have "w' = setEntry p key None w1"
    using assms(2,3) calculation(1) by (auto simp: finishLock_def Let_def setEntry_def split: option.splits lockErr.splits)
  ultimately show ?thesis by (simp add: setEntry_def fun_upd_idem)
qed

lemma released_lock_free: "holds w p key f \<Longrightarrow> \<exists>w'. reserveLock p key (releaseFileLock plat p (Some f) w) = Inr w'"
  by (simp add: reserveLock_def releaseFileLock_def holds_def)

section \<open>Diagnostics\<close>

lemma decimal_digits: "decimal n \<noteq> [] \<and> list_all isDigit (decimal n)"
proof (induction n rule: decimal.induct)
  case (1 n)
  have "isDigit (char_of (48 + k))" if "k < 10" for k :: nat using that by (simp add: isDigit_def)
  with 1 show ?case by (cases "n < 10") (simp_all add: decimal.simps [of n])
qed

lemma trimSpace_id: "s \<noteq> [] \<Longrightarrow> \<not> isSpace (hd s) \<Longrightarrow> \<not> isSpace (last s) \<Longrightarrow> trimSpace s = s"
proof -
  have keep: "dropWhile isSpace t = t" if "t \<noteq> []" "\<not> isSpace (hd t)" for t using that by (cases t) simp_all
  assume "s \<noteq> []" "\<not> isSpace (hd s)" "\<not> isSpace (last s)"
  then show ?thesis using keep [of s] keep [of "rev s"] by (simp add: trimSpace_def hd_rev)
qed

lemma digit_not_space: "isDigit c \<Longrightarrow> \<not> isSpace c \<and> c \<noteq> CHR 0x0A \<and> c \<noteq> CHR ''+'' \<and> c \<noteq> CHR ''-''"
  by (auto simp: isDigit_def isSpace_def)

lemma atoi_decimal:
  assumes "int n < 2 ^ 63"
  shows "atoi (decimal n) = Some (int n)" and "trimSpace (decimal n) = decimal n"
proof -
  obtain c s where cs: "decimal n = c # s" using decimal_digits [of n] by (cases "decimal n") auto
  have all: "\<forall>c \<in> set (decimal n). isDigit c" and ne: "decimal n \<noteq> []" using decimal_digits [of n] by (auto simp: list_all_iff)
  then have c: "c \<noteq> CHR ''+''" "c \<noteq> CHR ''-''" using digit_not_space [of c] by (auto simp: cs)
  then show "atoi (decimal n) = Some (int n)"
    using assms decimal_digits [of n] numberOf_decimal [of n] by (simp add: atoi_def cs)
  show "trimSpace (decimal n) = decimal n"
    by (rule trimSpace_id) (use all ne digit_not_space in auto)
qed

text \<open>Another process reads who holds the lock.\<close>

lemma diagnostics_round_trip:
  assumes "0 < pid" and "int pid < 2 ^ 63" and "CHR 0x0A \<notin> set host"
  shows "readLockDiagnostics (Some (lockDiagnostics pid host time)) = Some (int pid, trimSpace host)"
proof -
  have cut: "cutAt (CHR 0x0A) (s @ CHR 0x0A # t) = (s, t)" if "CHR 0x0A \<notin> set s" for s t
    using that by (induction s) (auto simp: cutAt_def)
  have "CHR 0x0A \<notin> set (decimal pid)" using decimal_digits [of pid] digit_not_space by (auto simp: list_all_iff)
  from cut [OF this] have "cutAt (CHR 0x0A) (lockDiagnostics pid host time) = (decimal pid, host @ CHR 0x0A # time @ [CHR 0x0A])"
    by (simp add: lockDiagnostics_def)
  then show ?thesis using atoi_decimal [OF assms(2)] cut [OF assms(3)] assms(1) by (simp add: readLockDiagnostics_def)
qed

section \<open>Record locks and two names of one file\<close>

text \<open>With record locks a process that opens one file under two names is granted both locks, although
  \<open>lockInUseError\<close> counts on the system to report the conflict; when it closes one of them, another
  process is granted the lock too.\<close>

lemma record_locks_share_alias:
  "\<exists>w. lock_reachable Fcntl (\<lambda>_. 0) per_process w \<and> holds w 1 ''a.quacker.lock'' 5 \<and> holds w 2 ''a.quacker.lock'' 7"
proof -
  let ?k = "''a.quacker.lock''" and ?l = "''b.quacker.lock''"
  let ?step = "lock_step Fcntl (\<lambda>_. 0) per_process"
  define w1 where "w1 = setEntry 1 ?k (Some None) freshWorld"
  define w2 where "w2 = snd (finishLock Fcntl (\<lambda>_. 0) None None None 1 ?k 5 w1)"
  define w3 where "w3 = setEntry 1 ?l (Some None) w2"
  define w4 where "w4 = snd (finishLock Fcntl (\<lambda>_. 0) None None None 1 ?l 6 w3)"
  define w5 where "w5 = releaseFileLock Fcntl 1 (Some 6) w4"
  define w6 where "w6 = setEntry 2 ?k (Some None) w5"
  define w7 where "w7 = snd (finishLock Fcntl (\<lambda>_. 0) None None None 2 ?k 7 w6)"
  note defs = reserveLock_def setEntry_def freshWorld_def finishLock_def openLockFile_def lockPlatformFile_def
    per_process_def releaseFileLock_def dropLocks_def List.member_iff
  have s1: "?step freshWorld w1" by (rule lock_step.reserve [of 1 ?k]) (simp add: w1_def defs)
  have s2: "?step w1 w2" unfolding w2_def by (rule lock_step.finish) (simp_all add: w1_def defs)
  have s3: "?step w2 w3" by (rule lock_step.reserve [of 1 ?l]) (simp add: w1_def w2_def w3_def defs)
  have s4: "?step w3 w4" unfolding w4_def by (rule lock_step.finish) (simp_all add: w1_def w2_def w3_def defs)
  have s5: "?step w4 w5" unfolding w5_def by (rule lock_step.release)
  have s6: "?step w5 w6" by (rule lock_step.reserve [of 2 ?k]) (simp add: w1_def w2_def w3_def w4_def w5_def w6_def defs)
  have s7: "?step w6 w7" unfolding w7_def by (rule lock_step.finish) (simp_all add: w1_def w2_def w3_def w4_def w5_def w6_def defs)
  have "lock_reachable Fcntl (\<lambda>_. 0) per_process w7"
    by (intro lock_reachable.step [OF _ s7] lock_reachable.step [OF _ s6] lock_reachable.step [OF _ s5]
      lock_reachable.step [OF _ s4] lock_reachable.step [OF _ s3] lock_reachable.step [OF _ s2]
      lock_reachable.step [OF _ s1] lock_reachable.fresh)
  moreover have "holds w7 1 ?k 5" "holds w7 2 ?k 7"
    by (simp_all add: holds_def w1_def w2_def w3_def w4_def w5_def w6_def w7_def defs)
  ultimately show ?thesis by blast
qed

end
