(* ===== verification/Dialects.thy ===== *)
theory Dialects
  imports Driver
begin

text \<open>
  The schemas of the three dialects (\<open>internal/store/schema.go\<close>, \<open>postgres/schema.go\<close>,
  \<open>mysql/schema.go\<close>): every migration as the list of its statements, what a statement does to the
  tables, and the column lists of the statements that the query layer sends (\<open>queries.go\<close>, \<open>rows.go\<close>,
  \<open>journal.go\<close>). Types are kept as they are written; \<open>typeClass\<close> says what they hold.
\<close>

section \<open>Statements\<close>

text \<open>A column: its name, its type, whether it is NOT NULL, its default, whether it numbers itself.\<close>

datatype column = Col (coName: string) (coType: string) (coNotNull: bool) (coDefault: "string option") (coAuto: bool)

datatype tableKey = PrimaryKey "string list" | UniqueKey "string list" | IndexKey string "string list"
  | ForeignKey string string string

datatype ddlStmt =
    CreateTable string "column list" "tableKey list"
  | AddColumn string column
  | RenameColumn string string string
  | CreateIndex bool bool string string "string list"
  | InsertRow string "string list"
  | UpdateRows string string

record tableDef =
  taName :: string
  taCols :: "column list"
  taKeys :: "tableKey list"

type_synonym schemaDef = "tableDef list"

definition tableNamed :: "string \<Rightarrow> schemaDef \<Rightarrow> tableDef option" where
  "tableNamed t s = find (\<lambda>x. taName x = t) s"

definition hasCol :: "string \<Rightarrow> tableDef \<Rightarrow> bool" where
  "hasCol c t \<longleftrightarrow> list_ex (\<lambda>x. coName x = c) (taCols t)"

definition onTable :: "string \<Rightarrow> (tableDef \<Rightarrow> tableDef option) \<Rightarrow> schemaDef \<Rightarrow> schemaDef option" where
  "onTable t f s =
     (case tableNamed t s of
        None \<Rightarrow> None
      | Some x \<Rightarrow> map_option (\<lambda>y. map (\<lambda>z. if taName z = t then y else z) s) (f x))"

definition renamedCol :: "string \<Rightarrow> string \<Rightarrow> column \<Rightarrow> column" where
  "renamedCol old new c = (if coName c = old then Col new (coType c) (coNotNull c) (coDefault c) (coAuto c) else c)"

definition renamedKey :: "string \<Rightarrow> string \<Rightarrow> tableKey \<Rightarrow> tableKey" where
  "renamedKey old new k = (let r = map (\<lambda>c. if c = old then new else c) in case k of
     PrimaryKey cs \<Rightarrow> PrimaryKey (r cs) | UniqueKey cs \<Rightarrow> UniqueKey (r cs) | IndexKey n cs \<Rightarrow> IndexKey n (r cs)
   | ForeignKey c t d \<Rightarrow> ForeignKey (if c = old then new else c) t d)"

text \<open>An error is what every dialect refuses: an unknown table or column, a column that exists, a column
  that may be neither NULL nor left out of existing rows.\<close>

definition applyDDL :: "ddlStmt \<Rightarrow> schemaDef \<Rightarrow> schemaDef option" where
  "applyDDL st s = (case st of
     CreateTable t cs ks \<Rightarrow> Some (if tableNamed t s = None then s @ [\<lparr>taName = t, taCols = cs, taKeys = ks\<rparr>] else s)
   | AddColumn t c \<Rightarrow> onTable t (\<lambda>x. if hasCol (coName c) x \<or> coNotNull c \<and> coDefault c = None then None
         else Some (x\<lparr>taCols := taCols x @ [c]\<rparr>)) s
   | RenameColumn t old new \<Rightarrow> onTable t (\<lambda>x. if hasCol old x \<and> \<not> hasCol new x
         then Some (x\<lparr>taCols := map (renamedCol old new) (taCols x), taKeys := map (renamedKey old new) (taKeys x)\<rparr>) else None) s
   | CreateIndex unique ifnot n t cs \<Rightarrow> onTable t (\<lambda>x. if list_all (\<lambda>c. hasCol c x) cs
         then Some (x\<lparr>taKeys := taKeys x @ [if unique then UniqueKey cs else IndexKey n cs]\<rparr>) else None) s
   | InsertRow t cs \<Rightarrow> onTable t (\<lambda>x. if list_all (\<lambda>c. hasCol c x) cs then Some x else None) s
   | UpdateRows t c \<Rightarrow> onTable t (\<lambda>x. if hasCol c x then Some x else None) s)"

fun applyAll :: "ddlStmt list \<Rightarrow> schemaDef \<Rightarrow> schemaDef option" where
  "applyAll [] s = Some s"
| "applyAll (st # sts) s = (case applyDDL st s of None \<Rightarrow> None | Some s' \<Rightarrow> applyAll sts s')"

section \<open>The migrations\<close>

definition sqliteSchema :: "ddlStmt list" where
  "sqliteSchema =
    [CreateTable ''runs''
      [Col ''id'' ''TEXT'' False None False,
       Col ''workflow'' ''TEXT'' True None False,
       Col ''kind'' ''TEXT'' True (Some ''task'') False,
       Col ''status'' ''TEXT'' True None False,
       Col ''queue'' ''TEXT'' True (Some ''default'') False,
       Col ''priority'' ''INTEGER'' True (Some ''0'') False,
       Col ''input'' ''BLOB'' False None False,
       Col ''output'' ''BLOB'' False None False,
       Col ''error'' ''TEXT'' True (Some []) False,
       Col ''attempts'' ''INTEGER'' True (Some ''0'') False,
       Col ''max_attempts'' ''INTEGER'' True (Some ''1'') False,
       Col ''run_at'' ''INTEGER'' True None False,
       Col ''created_at'' ''INTEGER'' True None False,
       Col ''started_at'' ''INTEGER'' True (Some ''0'') False,
       Col ''completed_at'' ''INTEGER'' True (Some ''0'') False]
      [PrimaryKey [''id'']],
     CreateIndex False True ''idx_runs_claim'' ''runs'' [''status'', ''run_at''],
     CreateIndex False True ''idx_runs_list'' ''runs'' [''workflow'', ''created_at''],
     CreateTable ''steps''
      [Col ''id'' ''TEXT'' False None False,
       Col ''run_id'' ''TEXT'' True None False,
       Col ''name'' ''TEXT'' True None False,
       Col ''task'' ''TEXT'' True (Some []) False,
       Col ''ord'' ''INTEGER'' True (Some ''0'') False,
       Col ''status'' ''TEXT'' True None False,
       Col ''depends_on'' ''TEXT'' True (Some []) False,
       Col ''queue'' ''TEXT'' True (Some ''default'') False,
       Col ''priority'' ''INTEGER'' True (Some ''0'') False,
       Col ''input'' ''BLOB'' False None False,
       Col ''output'' ''BLOB'' False None False,
       Col ''error'' ''TEXT'' True (Some []) False,
       Col ''attempts'' ''INTEGER'' True (Some ''0'') False,
       Col ''max_attempts'' ''INTEGER'' True (Some ''1'') False,
       Col ''timeout_ns'' ''INTEGER'' True (Some ''0'') False,
       Col ''run_at'' ''INTEGER'' True None False,
       Col ''created_at'' ''INTEGER'' True None False,
       Col ''started_at'' ''INTEGER'' True (Some ''0'') False,
       Col ''completed_at'' ''INTEGER'' True (Some ''0'') False]
      [PrimaryKey [''id''], ForeignKey ''run_id'' ''runs'' ''id''],
     CreateIndex False True ''idx_steps_claim'' ''steps'' [''status'', ''run_at''],
     CreateIndex False True ''idx_steps_run'' ''steps'' [''run_id'', ''ord''],
     CreateTable ''crons''
      [Col ''id'' ''TEXT'' False None False,
       Col ''name'' ''TEXT'' True None False,
       Col ''spec'' ''TEXT'' True None False,
       Col ''task'' ''TEXT'' True None False,
       Col ''input'' ''BLOB'' False None False,
       Col ''next_at'' ''INTEGER'' True None False,
       Col ''created_at'' ''INTEGER'' True None False]
      [PrimaryKey [''id''], UniqueKey [''name'']],
     CreateTable ''logs''
      [Col ''seq'' ''INTEGER'' False None True,
       Col ''run_id'' ''TEXT'' True None False,
       Col ''step'' ''TEXT'' True (Some []) False,
       Col ''at'' ''INTEGER'' True None False,
       Col ''level'' ''TEXT'' True (Some ''INFO'') False,
       Col ''message'' ''TEXT'' True None False]
      [PrimaryKey [''seq'']],
     CreateIndex False True ''idx_logs_run'' ''logs'' [''run_id'', ''seq'']]"

definition sqliteMigration2 :: "ddlStmt list" where
  "sqliteMigration2 =
    [AddColumn ''runs'' (Col ''concurrency_key'' ''TEXT'' True (Some []) False),
     AddColumn ''steps'' (Col ''concurrency_key'' ''TEXT'' True (Some []) False),
     AddColumn ''steps'' (Col ''key_limit'' ''INTEGER'' True (Some ''0'') False),
     AddColumn ''steps'' (Col ''claimed_at'' ''INTEGER'' True (Some ''0'') False),
     CreateIndex False True ''idx_steps_key'' ''steps'' [''concurrency_key'', ''status''],
     CreateIndex False True ''idx_steps_claimed'' ''steps'' [''queue'', ''claimed_at'']]"

definition sqliteMigration3 :: "ddlStmt list" where
  "sqliteMigration3 =
    [CreateIndex False True ''idx_runs_purge'' ''runs'' [''status'', ''completed_at'']]"

definition sqliteMigration4 :: "ddlStmt list" where
  "sqliteMigration4 =
    [CreateTable ''events''
      [Col ''seq'' ''INTEGER'' False None True,
       Col ''name'' ''TEXT'' True None False,
       Col ''payload'' ''BLOB'' False None False,
       Col ''created_at'' ''INTEGER'' True None False]
      [PrimaryKey [''seq'']],
     CreateIndex False True ''idx_events_name'' ''events'' [''name'', ''seq''],
     CreateTable ''event_subscriptions''
      [Col ''id'' ''TEXT'' False None False,
       Col ''event'' ''TEXT'' True None False,
       Col ''task'' ''TEXT'' True None False,
       Col ''created_at'' ''INTEGER'' True None False]
      [PrimaryKey [''id''], UniqueKey [''event'', ''task'']]]"

definition sqliteMigration5 :: "ddlStmt list" where
  "sqliteMigration5 =
    [AddColumn ''steps'' (Col ''resume_at'' ''INTEGER'' True (Some ''0'') False),
     AddColumn ''steps'' (Col ''wait_kind'' ''TEXT'' True (Some []) False),
     AddColumn ''steps'' (Col ''wait_event'' ''TEXT'' True (Some []) False),
     CreateIndex False True ''idx_steps_resume'' ''steps'' [''status'', ''resume_at''],
     CreateTable ''step_journal''
      [Col ''step_id'' ''TEXT'' True None False,
       Col ''idx'' ''INTEGER'' True None False,
       Col ''kind'' ''TEXT'' True None False,
       Col ''key'' ''TEXT'' True (Some []) False,
       Col ''event'' ''TEXT'' True (Some []) False,
       Col ''wake_at'' ''INTEGER'' True (Some ''0'') False,
       Col ''deadline'' ''INTEGER'' True (Some ''0'') False,
       Col ''payload'' ''BLOB'' False None False,
       Col ''result'' ''BLOB'' False None False,
       Col ''err'' ''TEXT'' True (Some []) False,
       Col ''done'' ''INTEGER'' True (Some ''0'') False,
       Col ''timed_out'' ''INTEGER'' True (Some ''0'') False]
      [ForeignKey ''step_id'' ''steps'' ''id'', PrimaryKey [''step_id'', ''idx'']],
     CreateIndex False True ''idx_journal_wait'' ''step_journal'' [''kind'', ''done'', ''event'']]"

definition sqliteMigration6 :: "ddlStmt list" where
  "sqliteMigration6 =
    [AddColumn ''runs'' (Col ''parent_id'' ''TEXT'' True (Some []) False),
     CreateIndex False True ''idx_runs_parent'' ''runs'' [''parent_id'', ''created_at'']]"

definition sqliteMigration7 :: "ddlStmt list" where
  "sqliteMigration7 =
    [UpdateRows ''steps'' ''depends_on'']"

definition sqliteMigration8 :: "ddlStmt list" where
  "sqliteMigration8 =
    [AddColumn ''steps'' (Col ''labels'' ''TEXT'' True (Some ''[]'') False)]"

definition sqliteMigration9 :: "ddlStmt list" where
  "sqliteMigration9 =
    [AddColumn ''runs'' (Col ''trace_parent'' ''TEXT'' True (Some []) False)]"

definition sqliteMigration10 :: "ddlStmt list" where
  "sqliteMigration10 =
    [AddColumn ''steps'' (Col ''worker_id'' ''TEXT'' True (Some []) False),
     AddColumn ''steps'' (Col ''lease_expires_at'' ''BIGINT'' True (Some ''0'') False),
     CreateIndex False True ''idx_steps_lease'' ''steps'' [''status'', ''lease_expires_at''],
     CreateIndex False True ''idx_steps_worker'' ''steps'' [''worker_id'', ''status'']]"

definition sqliteMigration11 :: "ddlStmt list" where
  "sqliteMigration11 =
    [CreateIndex False True ''idx_steps_run_status'' ''steps'' [''run_id'', ''status''],
     CreateIndex False True ''idx_steps_run_name'' ''steps'' [''run_id'', ''name'']]"

definition sqliteMigration12 :: "ddlStmt list" where
  "sqliteMigration12 =
    [RenameColumn ''step_journal'' ''key'' ''wkey'']"

definition sqliteMigration13 :: "ddlStmt list" where
  "sqliteMigration13 =
    [AddColumn ''runs'' (Col ''unique_key'' ''TEXT'' False None False),
     CreateIndex True True ''uq_runs_unique'' ''runs'' [''workflow'', ''unique_key'']]"

definition sqliteMigration14 :: "ddlStmt list" where
  "sqliteMigration14 =
    [CreateTable ''queue_pauses''
      [Col ''queue'' ''TEXT'' False None False,
       Col ''paused_at'' ''INTEGER'' True None False]
      [PrimaryKey [''queue'']]]"

definition sqliteMigration15 :: "ddlStmt list" where
  "sqliteMigration15 =
    [AddColumn ''runs'' (Col ''paused_at'' ''BIGINT'' True (Some ''0'') False)]"

definition sqliteMigration16 :: "ddlStmt list" where
  "sqliteMigration16 =
    [AddColumn ''runs'' (Col ''dead_lettered_at'' ''BIGINT'' True (Some ''0'') False)]"

definition sqliteMigration17 :: "ddlStmt list" where
  "sqliteMigration17 =
    [AddColumn ''runs'' (Col ''sequence_key'' ''TEXT'' True (Some []) False),
     AddColumn ''runs'' (Col ''seq'' ''BIGINT'' True (Some ''0'') False),
     AddColumn ''steps'' (Col ''sequence_key'' ''TEXT'' True (Some []) False),
     AddColumn ''steps'' (Col ''seq'' ''BIGINT'' True (Some ''0'') False),
     CreateIndex False True ''idx_steps_sequence'' ''steps'' [''sequence_key'', ''seq''],
     CreateTable ''counters''
      [Col ''name'' ''TEXT'' False None False,
       Col ''next'' ''BIGINT'' True None False]
      [PrimaryKey [''name'']],
     InsertRow ''counters'' [''name'', ''next'']]"

definition sqliteMigration18 :: "ddlStmt list" where
  "sqliteMigration18 =
    [AddColumn ''runs'' (Col ''ephemeral'' ''BIGINT'' True (Some ''0'') False)]"

definition sqliteMigration19 :: "ddlStmt list" where
  "sqliteMigration19 =
    [CreateTable ''step_keys''
      [Col ''step_id'' ''TEXT'' True None False,
       Col ''name'' ''TEXT'' True None False,
       Col ''value'' ''TEXT'' True None False,
       Col ''key_limit'' ''BIGINT'' True None False]
      [ForeignKey ''step_id'' ''steps'' ''id'', PrimaryKey [''step_id'', ''name'']],
     CreateIndex False True ''idx_step_keys_value'' ''step_keys'' [''name'', ''value'']]"

definition sqliteMigration20 :: "ddlStmt list" where
  "sqliteMigration20 =
    [AddColumn ''runs'' (Col ''parent_step'' ''TEXT'' True (Some []) False)]"

definition sqliteMigration21 :: "ddlStmt list" where
  "sqliteMigration21 =
    [AddColumn ''runs'' (Col ''groups_json'' ''TEXT'' True (Some []) False)]"

definition sqliteMigration22 :: "ddlStmt list" where
  "sqliteMigration22 =
    [CreateIndex False True ''idx_steps_queue_claim'' ''steps'' [''queue'', ''priority'', ''run_at'', ''ord'']]"

definition pgSchema :: "ddlStmt list" where
  "pgSchema =
    [CreateTable ''runs''
      [Col ''id'' ''TEXT'' False None False,
       Col ''workflow'' ''TEXT'' True None False,
       Col ''kind'' ''TEXT'' True (Some ''task'') False,
       Col ''status'' ''TEXT'' True None False,
       Col ''queue'' ''TEXT'' True (Some ''default'') False,
       Col ''priority'' ''BIGINT'' True (Some ''0'') False,
       Col ''input'' ''BYTEA'' False None False,
       Col ''output'' ''BYTEA'' False None False,
       Col ''error'' ''TEXT'' True (Some []) False,
       Col ''attempts'' ''BIGINT'' True (Some ''0'') False,
       Col ''max_attempts'' ''BIGINT'' True (Some ''1'') False,
       Col ''run_at'' ''BIGINT'' True None False,
       Col ''created_at'' ''BIGINT'' True None False,
       Col ''started_at'' ''BIGINT'' True (Some ''0'') False,
       Col ''completed_at'' ''BIGINT'' True (Some ''0'') False,
       Col ''concurrency_key'' ''TEXT'' True (Some []) False,
       Col ''parent_id'' ''TEXT'' True (Some []) False,
       Col ''trace_parent'' ''TEXT'' True (Some []) False]
      [PrimaryKey [''id'']],
     CreateIndex False True ''idx_runs_claim'' ''runs'' [''status'', ''run_at''],
     CreateIndex False True ''idx_runs_list'' ''runs'' [''workflow'', ''created_at''],
     CreateIndex False True ''idx_runs_purge'' ''runs'' [''status'', ''completed_at''],
     CreateIndex False True ''idx_runs_parent'' ''runs'' [''parent_id'', ''created_at''],
     CreateTable ''steps''
      [Col ''id'' ''TEXT'' False None False,
       Col ''run_id'' ''TEXT'' True None False,
       Col ''name'' ''TEXT'' True None False,
       Col ''task'' ''TEXT'' True (Some []) False,
       Col ''ord'' ''BIGINT'' True (Some ''0'') False,
       Col ''status'' ''TEXT'' True None False,
       Col ''depends_on'' ''TEXT'' True (Some ''[]'') False,
       Col ''queue'' ''TEXT'' True (Some ''default'') False,
       Col ''priority'' ''BIGINT'' True (Some ''0'') False,
       Col ''input'' ''BYTEA'' False None False,
       Col ''output'' ''BYTEA'' False None False,
       Col ''error'' ''TEXT'' True (Some []) False,
       Col ''attempts'' ''BIGINT'' True (Some ''0'') False,
       Col ''max_attempts'' ''BIGINT'' True (Some ''1'') False,
       Col ''timeout_ns'' ''BIGINT'' True (Some ''0'') False,
       Col ''run_at'' ''BIGINT'' True None False,
       Col ''created_at'' ''BIGINT'' True None False,
       Col ''started_at'' ''BIGINT'' True (Some ''0'') False,
       Col ''completed_at'' ''BIGINT'' True (Some ''0'') False,
       Col ''concurrency_key'' ''TEXT'' True (Some []) False,
       Col ''key_limit'' ''BIGINT'' True (Some ''0'') False,
       Col ''claimed_at'' ''BIGINT'' True (Some ''0'') False,
       Col ''resume_at'' ''BIGINT'' True (Some ''0'') False,
       Col ''wait_kind'' ''TEXT'' True (Some []) False,
       Col ''wait_event'' ''TEXT'' True (Some []) False,
       Col ''labels'' ''TEXT'' True (Some ''[]'') False]
      [PrimaryKey [''id''], ForeignKey ''run_id'' ''runs'' ''id''],
     CreateIndex False True ''idx_steps_claim'' ''steps'' [''status'', ''run_at''],
     CreateIndex False True ''idx_steps_run'' ''steps'' [''run_id'', ''ord''],
     CreateIndex False True ''idx_steps_key'' ''steps'' [''concurrency_key'', ''status''],
     CreateIndex False True ''idx_steps_claimed'' ''steps'' [''queue'', ''claimed_at''],
     CreateIndex False True ''idx_steps_resume'' ''steps'' [''status'', ''resume_at''],
     CreateTable ''crons''
      [Col ''id'' ''TEXT'' False None False,
       Col ''name'' ''TEXT'' True None False,
       Col ''spec'' ''TEXT'' True None False,
       Col ''task'' ''TEXT'' True None False,
       Col ''input'' ''BYTEA'' False None False,
       Col ''next_at'' ''BIGINT'' True None False,
       Col ''created_at'' ''BIGINT'' True None False]
      [PrimaryKey [''id''], UniqueKey [''name'']],
     CreateTable ''events''
      [Col ''seq'' ''BIGINT'' False None True,
       Col ''name'' ''TEXT'' True None False,
       Col ''payload'' ''BYTEA'' False None False,
       Col ''created_at'' ''BIGINT'' True None False]
      [PrimaryKey [''seq'']],
     CreateIndex False True ''idx_events_name'' ''events'' [''name'', ''seq''],
     CreateTable ''event_subscriptions''
      [Col ''id'' ''TEXT'' False None False,
       Col ''event'' ''TEXT'' True None False,
       Col ''task'' ''TEXT'' True None False,
       Col ''created_at'' ''BIGINT'' True None False]
      [PrimaryKey [''id''], UniqueKey [''event'', ''task'']],
     CreateTable ''logs''
      [Col ''seq'' ''BIGINT'' False None True,
       Col ''run_id'' ''TEXT'' True None False,
       Col ''step'' ''TEXT'' True (Some []) False,
       Col ''at'' ''BIGINT'' True None False,
       Col ''level'' ''TEXT'' True (Some ''INFO'') False,
       Col ''message'' ''TEXT'' True None False]
      [PrimaryKey [''seq'']],
     CreateIndex False True ''idx_logs_run'' ''logs'' [''run_id'', ''seq''],
     CreateTable ''step_journal''
      [Col ''step_id'' ''TEXT'' True None False,
       Col ''idx'' ''BIGINT'' True None False,
       Col ''kind'' ''TEXT'' True None False,
       Col ''key'' ''TEXT'' True (Some []) False,
       Col ''event'' ''TEXT'' True (Some []) False,
       Col ''wake_at'' ''BIGINT'' True (Some ''0'') False,
       Col ''deadline'' ''BIGINT'' True (Some ''0'') False,
       Col ''payload'' ''BYTEA'' False None False,
       Col ''result'' ''BYTEA'' False None False,
       Col ''err'' ''TEXT'' True (Some []) False,
       Col ''done'' ''BOOLEAN'' True (Some ''FALSE'') False,
       Col ''timed_out'' ''BOOLEAN'' True (Some ''FALSE'') False]
      [ForeignKey ''step_id'' ''steps'' ''id'', PrimaryKey [''step_id'', ''idx'']],
     CreateIndex False True ''idx_journal_wait'' ''step_journal'' [''kind'', ''done'', ''event'']]"

definition pgMigration2 :: "ddlStmt list" where
  "pgMigration2 =
    [AddColumn ''steps'' (Col ''worker_id'' ''TEXT'' True (Some []) False),
     AddColumn ''steps'' (Col ''lease_expires_at'' ''BIGINT'' True (Some ''0'') False),
     CreateIndex False True ''idx_steps_lease'' ''steps'' [''status'', ''lease_expires_at''],
     CreateIndex False True ''idx_steps_worker'' ''steps'' [''worker_id'', ''status'']]"

definition pgMigration3 :: "ddlStmt list" where
  "pgMigration3 =
    [CreateIndex False True ''idx_steps_run_status'' ''steps'' [''run_id'', ''status''],
     CreateIndex False True ''idx_steps_run_name'' ''steps'' [''run_id'', ''name'']]"

definition pgMigration4 :: "ddlStmt list" where
  "pgMigration4 =
    [RenameColumn ''step_journal'' ''key'' ''wkey'']"

definition pgMigration5 :: "ddlStmt list" where
  "pgMigration5 =
    [AddColumn ''runs'' (Col ''unique_key'' ''TEXT'' False None False),
     CreateIndex True True ''uq_runs_unique'' ''runs'' [''workflow'', ''unique_key'']]"

definition pgMigration6 :: "ddlStmt list" where
  "pgMigration6 =
    [CreateTable ''queue_pauses''
      [Col ''queue'' ''TEXT'' False None False,
       Col ''paused_at'' ''BIGINT'' True None False]
      [PrimaryKey [''queue'']]]"

definition pgMigration7 :: "ddlStmt list" where
  "pgMigration7 =
    [AddColumn ''runs'' (Col ''paused_at'' ''BIGINT'' True (Some ''0'') False)]"

definition pgMigration8 :: "ddlStmt list" where
  "pgMigration8 =
    [AddColumn ''runs'' (Col ''dead_lettered_at'' ''BIGINT'' True (Some ''0'') False)]"

definition pgMigration9 :: "ddlStmt list" where
  "pgMigration9 =
    [AddColumn ''runs'' (Col ''sequence_key'' ''TEXT'' True (Some []) False),
     AddColumn ''runs'' (Col ''seq'' ''BIGINT'' True (Some ''0'') False),
     AddColumn ''steps'' (Col ''sequence_key'' ''TEXT'' True (Some []) False),
     AddColumn ''steps'' (Col ''seq'' ''BIGINT'' True (Some ''0'') False),
     CreateIndex False True ''idx_steps_sequence'' ''steps'' [''sequence_key'', ''seq''],
     CreateTable ''counters''
      [Col ''name'' ''TEXT'' False None False,
       Col ''next'' ''BIGINT'' True None False]
      [PrimaryKey [''name'']],
     InsertRow ''counters'' [''name'', ''next'']]"

definition pgMigration10 :: "ddlStmt list" where
  "pgMigration10 =
    [AddColumn ''runs'' (Col ''ephemeral'' ''BIGINT'' True (Some ''0'') False)]"

definition pgMigration11 :: "ddlStmt list" where
  "pgMigration11 =
    [CreateTable ''step_keys''
      [Col ''step_id'' ''TEXT'' True None False,
       Col ''name'' ''TEXT'' True None False,
       Col ''value'' ''TEXT'' True None False,
       Col ''key_limit'' ''BIGINT'' True None False]
      [ForeignKey ''step_id'' ''steps'' ''id'', PrimaryKey [''step_id'', ''name'']],
     CreateIndex False True ''idx_step_keys_value'' ''step_keys'' [''name'', ''value'']]"

definition pgMigration12 :: "ddlStmt list" where
  "pgMigration12 =
    [AddColumn ''runs'' (Col ''parent_step'' ''TEXT'' True (Some []) False)]"

definition pgMigration13 :: "ddlStmt list" where
  "pgMigration13 =
    [AddColumn ''runs'' (Col ''groups_json'' ''TEXT'' True (Some []) False)]"

definition pgMigration14 :: "ddlStmt list" where
  "pgMigration14 =
    [CreateIndex False True ''idx_steps_queue_claim'' ''steps'' [''queue'', ''priority'', ''run_at'', ''ord'']]"

definition mySchema :: "ddlStmt list" where
  "mySchema =
    [CreateTable ''runs''
      [Col ''id'' ''VARCHAR(64)'' True None False,
       Col ''workflow'' ''VARCHAR(255)'' True None False,
       Col ''kind'' ''VARCHAR(32)'' True (Some ''task'') False,
       Col ''status'' ''VARCHAR(32)'' True None False,
       Col ''queue'' ''VARCHAR(255)'' True (Some ''default'') False,
       Col ''priority'' ''BIGINT'' True (Some ''0'') False,
       Col ''input'' ''LONGBLOB'' False None False,
       Col ''output'' ''LONGBLOB'' False None False,
       Col ''error'' ''LONGTEXT'' True None False,
       Col ''attempts'' ''BIGINT'' True (Some ''0'') False,
       Col ''max_attempts'' ''BIGINT'' True (Some ''1'') False,
       Col ''run_at'' ''BIGINT'' True None False,
       Col ''created_at'' ''BIGINT'' True None False,
       Col ''started_at'' ''BIGINT'' True (Some ''0'') False,
       Col ''completed_at'' ''BIGINT'' True (Some ''0'') False,
       Col ''concurrency_key'' ''VARCHAR(255)'' True (Some []) False,
       Col ''parent_id'' ''VARCHAR(64)'' True (Some []) False,
       Col ''trace_parent'' ''VARCHAR(255)'' True (Some []) False]
      [PrimaryKey [''id''], IndexKey ''idx_runs_claim'' [''status'', ''run_at''], IndexKey ''idx_runs_list'' [''workflow'', ''created_at''], IndexKey ''idx_runs_parent'' [''parent_id'', ''created_at''], IndexKey ''idx_runs_purge'' [''status'', ''completed_at'']],
     CreateTable ''steps''
      [Col ''id'' ''VARCHAR(64)'' True None False,
       Col ''run_id'' ''VARCHAR(64)'' True None False,
       Col ''name'' ''VARCHAR(255)'' True None False,
       Col ''task'' ''VARCHAR(255)'' True (Some []) False,
       Col ''ord'' ''BIGINT'' True (Some ''0'') False,
       Col ''status'' ''VARCHAR(32)'' True None False,
       Col ''depends_on'' ''JSON'' True None False,
       Col ''queue'' ''VARCHAR(255)'' True (Some ''default'') False,
       Col ''priority'' ''BIGINT'' True (Some ''0'') False,
       Col ''input'' ''LONGBLOB'' False None False,
       Col ''output'' ''LONGBLOB'' False None False,
       Col ''error'' ''LONGTEXT'' True None False,
       Col ''attempts'' ''BIGINT'' True (Some ''0'') False,
       Col ''max_attempts'' ''BIGINT'' True (Some ''1'') False,
       Col ''timeout_ns'' ''BIGINT'' True (Some ''0'') False,
       Col ''run_at'' ''BIGINT'' True None False,
       Col ''created_at'' ''BIGINT'' True None False,
       Col ''started_at'' ''BIGINT'' True (Some ''0'') False,
       Col ''completed_at'' ''BIGINT'' True (Some ''0'') False,
       Col ''concurrency_key'' ''VARCHAR(255)'' True (Some []) False,
       Col ''key_limit'' ''BIGINT'' True (Some ''0'') False,
       Col ''claimed_at'' ''BIGINT'' True (Some ''0'') False,
       Col ''labels'' ''JSON'' True None False,
       Col ''resume_at'' ''BIGINT'' True (Some ''0'') False,
       Col ''wait_kind'' ''VARCHAR(32)'' True (Some []) False,
       Col ''wait_event'' ''VARCHAR(255)'' True (Some []) False,
       Col ''worker_id'' ''VARCHAR(128)'' True (Some []) False,
       Col ''lease_expires_at'' ''BIGINT'' True (Some ''0'') False]
      [PrimaryKey [''id''], ForeignKey ''run_id'' ''runs'' ''id'', IndexKey ''idx_steps_claim'' [''status'', ''run_at''], IndexKey ''idx_steps_run'' [''run_id'', ''ord''], IndexKey ''idx_steps_key'' [''concurrency_key'', ''status''], IndexKey ''idx_steps_claimed'' [''queue'', ''claimed_at''], IndexKey ''idx_steps_resume'' [''status'', ''resume_at''], IndexKey ''idx_steps_lease'' [''status'', ''lease_expires_at''], IndexKey ''idx_steps_worker'' [''worker_id'', ''status''], IndexKey ''idx_steps_run_status'' [''run_id'', ''status''], IndexKey ''idx_steps_run_name'' [''run_id'', ''name'']],
     CreateTable ''crons''
      [Col ''id'' ''VARCHAR(64)'' True None False,
       Col ''name'' ''VARCHAR(255)'' True None False,
       Col ''spec'' ''TEXT'' True None False,
       Col ''task'' ''VARCHAR(255)'' True None False,
       Col ''input'' ''LONGBLOB'' False None False,
       Col ''next_at'' ''BIGINT'' True None False,
       Col ''created_at'' ''BIGINT'' True None False]
      [PrimaryKey [''id''], UniqueKey [''name'']],
     CreateTable ''logs''
      [Col ''seq'' ''BIGINT'' True None True,
       Col ''run_id'' ''VARCHAR(64)'' True None False,
       Col ''step'' ''VARCHAR(255)'' True (Some []) False,
       Col ''at'' ''BIGINT'' True None False,
       Col ''level'' ''VARCHAR(16)'' True (Some ''INFO'') False,
       Col ''message'' ''LONGTEXT'' True None False]
      [PrimaryKey [''seq''], IndexKey ''idx_logs_run'' [''run_id'', ''seq'']],
     CreateTable ''events''
      [Col ''seq'' ''BIGINT'' True None True,
       Col ''name'' ''VARCHAR(255)'' True None False,
       Col ''payload'' ''LONGBLOB'' False None False,
       Col ''created_at'' ''BIGINT'' True None False]
      [PrimaryKey [''seq''], IndexKey ''idx_events_name'' [''name'', ''seq'']],
     CreateTable ''event_subscriptions''
      [Col ''id'' ''VARCHAR(255)'' True None False,
       Col ''event'' ''VARCHAR(255)'' True None False,
       Col ''task'' ''VARCHAR(255)'' True None False,
       Col ''created_at'' ''BIGINT'' True None False]
      [PrimaryKey [''id''], UniqueKey [''event'', ''task'']],
     CreateTable ''step_journal''
      [Col ''step_id'' ''VARCHAR(64)'' True None False,
       Col ''idx'' ''BIGINT'' True None False,
       Col ''kind'' ''VARCHAR(32)'' True None False,
       Col ''wkey'' ''VARCHAR(255)'' True (Some []) False,
       Col ''event'' ''VARCHAR(255)'' True (Some []) False,
       Col ''wake_at'' ''BIGINT'' True (Some ''0'') False,
       Col ''deadline'' ''BIGINT'' True (Some ''0'') False,
       Col ''payload'' ''LONGBLOB'' False None False,
       Col ''result'' ''LONGBLOB'' False None False,
       Col ''err'' ''LONGTEXT'' True None False,
       Col ''done'' ''TINYINT(1)'' True (Some ''0'') False,
       Col ''timed_out'' ''TINYINT(1)'' True (Some ''0'') False]
      [PrimaryKey [''step_id'', ''idx''], IndexKey ''idx_journal_wait'' [''kind'', ''done'', ''event''], ForeignKey ''step_id'' ''steps'' ''id''],
     CreateTable ''locks''
      [Col ''name'' ''VARCHAR(64)'' True None False]
      [PrimaryKey [''name'']],
     InsertRow ''locks'' [''name'']]"

definition myMigration2 :: "ddlStmt list" where
  "myMigration2 =
    [AddColumn ''runs'' (Col ''unique_key'' ''VARCHAR(255)'' False None False),
     CreateIndex True False ''uq_runs_unique'' ''runs'' [''workflow'', ''unique_key'']]"

definition myMigration3 :: "ddlStmt list" where
  "myMigration3 =
    [CreateTable ''queue_pauses''
      [Col ''queue'' ''VARCHAR(255)'' True None False,
       Col ''paused_at'' ''BIGINT'' True None False]
      [PrimaryKey [''queue'']]]"

definition myMigration4 :: "ddlStmt list" where
  "myMigration4 =
    [AddColumn ''runs'' (Col ''paused_at'' ''BIGINT'' True (Some ''0'') False)]"

definition myMigration5 :: "ddlStmt list" where
  "myMigration5 =
    [AddColumn ''runs'' (Col ''dead_lettered_at'' ''BIGINT'' True (Some ''0'') False)]"

definition myMigration6 :: "ddlStmt list" where
  "myMigration6 =
    [AddColumn ''runs'' (Col ''sequence_key'' ''VARCHAR(255)'' True (Some []) False),
     AddColumn ''runs'' (Col ''seq'' ''BIGINT'' True (Some ''0'') False),
     AddColumn ''steps'' (Col ''sequence_key'' ''VARCHAR(255)'' True (Some []) False),
     AddColumn ''steps'' (Col ''seq'' ''BIGINT'' True (Some ''0'') False),
     CreateIndex False False ''idx_steps_sequence'' ''steps'' [''sequence_key'', ''seq''],
     CreateTable ''counters''
      [Col ''name'' ''VARCHAR(64)'' True None False,
       Col ''next'' ''BIGINT'' True None False]
      [PrimaryKey [''name'']],
     InsertRow ''counters'' [''name'', ''next'']]"

definition myMigration7 :: "ddlStmt list" where
  "myMigration7 =
    [AddColumn ''runs'' (Col ''ephemeral'' ''BIGINT'' True (Some ''0'') False)]"

definition myMigration8 :: "ddlStmt list" where
  "myMigration8 =
    [CreateTable ''step_keys''
      [Col ''step_id'' ''VARCHAR(64)'' True None False,
       Col ''name'' ''VARCHAR(255)'' True None False,
       Col ''value'' ''VARCHAR(255)'' True None False,
       Col ''key_limit'' ''BIGINT'' True None False]
      [PrimaryKey [''step_id'', ''name''], IndexKey ''idx_step_keys_value'' [''name'', ''value''], ForeignKey ''step_id'' ''steps'' ''id'']]"

definition myMigration9 :: "ddlStmt list" where
  "myMigration9 =
    [AddColumn ''runs'' (Col ''parent_step'' ''VARCHAR(255)'' True (Some []) False)]"

definition myMigration10 :: "ddlStmt list" where
  "myMigration10 =
    [AddColumn ''runs'' (Col ''groups_json'' ''LONGTEXT'' False None False)]"

definition myMigration11 :: "ddlStmt list" where
  "myMigration11 =
    [CreateIndex False False ''idx_steps_queue_claim'' ''steps'' [''queue'', ''priority'', ''run_at'', ''ord'']]"

definition sqliteMigrations :: "(int \<times> ddlStmt list) list" where
  "sqliteMigrations = [(1, sqliteSchema), (2, sqliteMigration2), (3, sqliteMigration3), (4, sqliteMigration4), (5, sqliteMigration5), (6, sqliteMigration6), (7, sqliteMigration7), (8, sqliteMigration8), (9, sqliteMigration9), (10, sqliteMigration10), (11, sqliteMigration11), (12, sqliteMigration12), (13, sqliteMigration13), (14, sqliteMigration14), (15, sqliteMigration15), (16, sqliteMigration16), (17, sqliteMigration17), (18, sqliteMigration18), (19, sqliteMigration19), (20, sqliteMigration20), (21, sqliteMigration21), (22, sqliteMigration22)]"

definition pgMigrations :: "(int \<times> ddlStmt list) list" where
  "pgMigrations = [(1, pgSchema), (2, pgMigration2), (3, pgMigration3), (4, pgMigration4), (5, pgMigration5), (6, pgMigration6), (7, pgMigration7), (8, pgMigration8), (9, pgMigration9), (10, pgMigration10), (11, pgMigration11), (12, pgMigration12), (13, pgMigration13), (14, pgMigration14)]"

definition myMigrations :: "(int \<times> ddlStmt list) list" where
  "myMigrations = [(1, mySchema), (2, myMigration2), (3, myMigration3), (4, myMigration4), (5, myMigration5), (6, myMigration6), (7, myMigration7), (8, myMigration8), (9, myMigration9), (10, myMigration10), (11, myMigration11)]"

definition Migrations :: "driver \<Rightarrow> (int \<times> ddlStmt list) list" where
  "Migrations dr = (case dr of SQLite \<Rightarrow> sqliteMigrations | Postgres \<Rightarrow> pgMigrations | MySQL \<Rightarrow> myMigrations)"

definition schemaOf :: "driver \<Rightarrow> schemaDef option" where
  "schemaOf dr = applyAll (concat (map snd (Migrations dr))) []"

section \<open>The statements of the query layer\<close>

text \<open>What a type holds; SQLite keeps truth values as numbers.\<close>

datatype typeClass = NumberClass | TextClass | BytesClass | UnknownClass

definition typeClass :: "string \<Rightarrow> typeClass" where
  "typeClass t =
     (if t = ''INTEGER'' \<or> t = ''BIGINT'' \<or> t = ''BOOLEAN'' \<or> t = ''TINYINT(1)'' then NumberClass
      else if t = ''TEXT'' \<or> t = ''LONGTEXT'' \<or> t = ''JSON'' \<or> take 8 t = ''VARCHAR('' then TextClass
      else if t = ''BLOB'' \<or> t = ''BYTEA'' \<or> t = ''LONGBLOB'' then BytesClass else UnknownClass)"

definition runInsertCols :: "string list" where
  "runInsertCols = [''id'', ''workflow'', ''kind'', ''status'', ''queue'', ''priority'', ''input'', ''output'', ''error'', ''attempts'', ''max_attempts'', ''run_at'', ''created_at'', ''started_at'', ''completed_at'', ''concurrency_key'', ''parent_id'', ''parent_step'', ''trace_parent'', ''unique_key'', ''sequence_key'', ''seq'', ''ephemeral'', ''groups_json'']"

definition stepInsertCols :: "string list" where
  "stepInsertCols = [''id'', ''run_id'', ''name'', ''task'', ''ord'', ''status'', ''depends_on'', ''queue'', ''priority'', ''input'', ''output'', ''error'', ''attempts'', ''max_attempts'', ''timeout_ns'', ''run_at'', ''created_at'', ''started_at'', ''completed_at'', ''concurrency_key'', ''key_limit'', ''labels'', ''sequence_key'', ''seq'']"

definition journalCols :: "string list" where
  "journalCols = [''step_id'', ''idx'', ''kind'', ''wkey'', ''event'', ''wake_at'', ''deadline'', ''payload'', ''result'', ''err'', ''done'', ''timed_out'']"

definition runCols :: "string list" where
  "runCols = [''id'', ''workflow'', ''kind'', ''status'', ''queue'', ''priority'', ''input'', ''output'', ''error'', ''attempts'', ''max_attempts'', ''run_at'', ''created_at'', ''started_at'', ''completed_at'', ''concurrency_key'', ''parent_id'', ''parent_step'', ''trace_parent'', ''unique_key'', ''paused_at'', ''dead_lettered_at'', ''sequence_key'', ''seq'', ''ephemeral'', ''groups_json'']"

definition stepCols :: "string list" where
  "stepCols = [''id'', ''run_id'', ''name'', ''task'', ''ord'', ''status'', ''depends_on'', ''queue'', ''priority'', ''input'', ''output'', ''error'', ''attempts'', ''max_attempts'', ''timeout_ns'', ''run_at'', ''created_at'', ''started_at'', ''completed_at'', ''concurrency_key'', ''key_limit'', ''claimed_at'', ''resume_at'', ''wait_kind'', ''wait_event'', ''labels'', ''worker_id'', ''lease_expires_at'', ''sequence_key'', ''seq'']"

text \<open>The table and the columns of every INSERT, upserts included.\<close>

definition inserts :: "(string \<times> string list) list" where
  "inserts =
     [(''runs'', runInsertCols), (''steps'', stepInsertCols), (''step_keys'', [''step_id'', ''name'', ''value'', ''key_limit'']),
      (''step_journal'', journalCols), (''logs'', [''run_id'', ''step'', ''at'', ''level'', ''message'']),
      (''events'', [''name'', ''payload'', ''created_at'']), (''queue_pauses'', [''queue'', ''paused_at'']),
      (''crons'', [''id'', ''name'', ''spec'', ''task'', ''input'', ''next_at'', ''created_at'']),
      (''event_subscriptions'', [''id'', ''event'', ''task'', ''created_at''])]"

text \<open>The columns of the conflict of every upsert.\<close>

definition upserts_on :: "(string \<times> string list) list" where
  "upserts_on = [(''queue_pauses'', [''queue'']), (''crons'', [''name'']), (''event_subscriptions'', [''event'', ''task''])]"

definition selects :: "(string \<times> string list) list" where
  "selects = [(''runs'', runCols), (''steps'', stepCols), (''step_journal'', journalCols)]"

text \<open>An INSERT fits a table: it names columns of it, and every column that needs a value.\<close>

definition insertFits :: "schemaDef \<Rightarrow> string \<times> string list \<Rightarrow> bool" where
  "insertFits s i =
     (case tableNamed (fst i) s of
        None \<Rightarrow> False
      | Some t \<Rightarrow> list_all (\<lambda>c. hasCol c t) (snd i) \<and>
          list_all (\<lambda>c. coNotNull c \<and> coDefault c = None \<and> \<not> coAuto c \<longrightarrow> List.member (snd i) (coName c)) (taCols t))"

definition conflictFits :: "schemaDef \<Rightarrow> string \<times> string list \<Rightarrow> bool" where
  "conflictFits s i =
     (case tableNamed (fst i) s of
        None \<Rightarrow> False
      | Some t \<Rightarrow> List.member (taKeys t) (PrimaryKey (snd i)) \<or> List.member (taKeys t) (UniqueKey (snd i)))"

definition selectFits :: "schemaDef \<Rightarrow> string \<times> string list \<Rightarrow> bool" where
  "selectFits s i = (case tableNamed (fst i) s of None \<Rightarrow> False | Some t \<Rightarrow> list_all (\<lambda>c. hasCol c t) (snd i))"

text \<open>Two schemas agree on the tables of the first: the same columns of the same class.\<close>

definition columnsOf :: "tableDef \<Rightarrow> (string \<times> typeClass) list" where
  "columnsOf t = map (\<lambda>c. (coName c, typeClass (coType c))) (taCols t)"

definition foreignKeys :: "tableDef \<Rightarrow> (string \<times> string \<times> string) list" where
  "foreignKeys t = concat (map (\<lambda>k. case k of ForeignKey c u d \<Rightarrow> [(c, u, d)] | _ \<Rightarrow> []) (taKeys t))"

definition sameMembers :: "'a list \<Rightarrow> 'a list \<Rightarrow> bool" where
  "sameMembers xs ys \<longleftrightarrow> list_all (List.member ys) xs \<and> list_all (List.member xs) ys"

definition layerFits :: "schemaDef \<Rightarrow> bool" where
  "layerFits s \<longleftrightarrow> list_all (insertFits s) inserts \<and> list_all (conflictFits s) upserts_on \<and> list_all (selectFits s) selects"

text \<open>Every table of the first schema is in the second, with the same columns and foreign keys.\<close>

definition tablesIn :: "schemaDef \<Rightarrow> schemaDef \<Rightarrow> bool" where
  "tablesIn s s' \<longleftrightarrow> list_all (\<lambda>x. case tableNamed (taName x) s' of
       None \<Rightarrow> False
     | Some y \<Rightarrow> sameMembers (columnsOf x) (columnsOf y) \<and> sameMembers (foreignKeys x) (foreignKeys y)) s"

end
