(* ===== verification/Rows.thy ===== *)
theory Rows
  imports Enqueue Lock Dialects
begin

text \<open>
  Rows as SQL stores them: the text form of string lists (\<open>rows.go\<close>), the value tuples of the INSERT
  statements (\<open>queries.go\<close>, \<open>journal.go\<close>), what a table does with an inserted row, and the scans that
  turn the columns of a SELECT back into records. Everything is positional, as in the code. Truth
  values are the numbers 0 and 1; JSON is a pair of parameters; numbers are within 64 bits and texts
  within the length of their columns.
\<close>

section \<open>String lists\<close>

definition encodeList :: "(string list \<Rightarrow> string option) \<Rightarrow> string list \<Rightarrow> string" where
  "encodeList marshal xs =
     (if length xs = 0 then ''[]'' else (case marshal xs of None \<Rightarrow> ''[]'' | Some b \<Rightarrow> b))"

definition decodeList :: "(string \<Rightarrow> string list option) \<Rightarrow> string \<Rightarrow> string list" where
  "decodeList unmarshal s0 =
     (let s = trimSpace s0 in
      if s = [] \<or> s = ''[]'' \<or> s = ''null'' then []
      else if take 1 s \<noteq> ''['' then filter (\<lambda>p. p \<noteq> []) (map trimSpace (splitOn (CHR '','') s))
      else (case unmarshal s of None \<Rightarrow> [] | Some out \<Rightarrow> out))"

section \<open>Values\<close>

datatype sqlValue = SNull | SText string | SInt int | SBytes bytes

definition kindText :: "kind \<Rightarrow> string" where
  "kindText k = (case k of KindTask \<Rightarrow> ''task'' | KindWorkflow \<Rightarrow> ''workflow'')"

definition journalKindText :: "journalKind \<Rightarrow> string" where
  "journalKindText k = (case k of JournalSleep \<Rightarrow> ''sleep'' | JournalWait \<Rightarrow> ''wait'' | JournalOnce \<Rightarrow> ''once'')"

definition sqlArg :: "(string list \<Rightarrow> string option) \<Rightarrow> arg \<Rightarrow> sqlValue" where
  "sqlArg marshal a = (case a of AText s \<Rightarrow> SText s | AInt n \<Rightarrow> SInt n | ABytes b \<Rightarrow> SBytes b | ANull \<Rightarrow> SNull
     | AKind k \<Rightarrow> SText (kindText k) | AStatus st \<Rightarrow> SText (status_text st) | AList xs \<Rightarrow> SText (encodeList marshal xs))"

text \<open>A value tuple: placeholders, which take the arguments in order, and literals.\<close>

datatype cell = Mark | Lit sqlValue

definition runInsertRow :: "cell list" where
  "runInsertRow = replicate 7 Mark @ [Lit SNull, Lit (SText []), Lit (SInt 0)] @ replicate 3 Mark @
     [Lit (SInt 0), Lit (SInt 0)] @ replicate 9 Mark"

definition stepInsertRow :: "cell list" where
  "stepInsertRow = replicate 10 Mark @ [Lit SNull, Lit (SText []), Lit (SInt 0)] @ replicate 4 Mark @
     [Lit (SInt 0), Lit (SInt 0)] @ replicate 5 Mark"

fun bindRow :: "cell list \<Rightarrow> sqlValue list \<Rightarrow> sqlValue list option" where
  "bindRow [] [] = Some []"
| "bindRow (Lit v # cs) vs = map_option (Cons v) (bindRow cs vs)"
| "bindRow (Mark # cs) (v # vs) = map_option (Cons v) (bindRow cs vs)"
| "bindRow _ _ = None"

definition journalArgs :: "journalEntry \<Rightarrow> sqlValue list" where
  "journalArgs e = [SText (jStepID e), SInt (jIdx e), SText (journalKindText (jKind e)), SText (jKey e), SText (jEvent e),
     SInt (jWakeAt e), SInt (jDeadline e), SBytes (jPayload e), SBytes (jResult e), SText (jErr e),
     SInt (boolInt (jDone e)), SInt (boolInt (jTimedOut e))]"

section \<open>Tables\<close>

text \<open>A column refuses NULL where it is NOT NULL, and values of another class.\<close>

definition classOf :: "sqlValue \<Rightarrow> typeClass option" where
  "classOf v = (case v of SNull \<Rightarrow> None | SText s \<Rightarrow> Some TextClass | SInt n \<Rightarrow> Some NumberClass | SBytes b \<Rightarrow> Some BytesClass)"

definition fits :: "column \<Rightarrow> sqlValue \<Rightarrow> bool" where
  "fits c v \<longleftrightarrow> (case classOf v of None \<Rightarrow> \<not> coNotNull c | Some cl \<Rightarrow> typeClass (coType c) = cl)"

definition defaultOf :: "column \<Rightarrow> sqlValue" where
  "defaultOf c = (case coDefault c of
     None \<Rightarrow> SNull
   | Some d \<Rightarrow> if typeClass (coType c) = NumberClass then (case atoi d of None \<Rightarrow> SNull | Some n \<Rightarrow> SInt n) else SText d)"

type_synonym sqlRow = "(string \<times> sqlValue) list"

definition insertRow :: "tableDef \<Rightarrow> string list \<Rightarrow> sqlValue list \<Rightarrow> sqlRow option" where
  "insertRow t cols vals =
     (let value = (\<lambda>c. case map_of (zip cols vals) (column.coName c) of Some v \<Rightarrow> v | None \<Rightarrow> defaultOf c) in
      if length cols = length vals \<and> distinct cols \<and> list_all (\<lambda>n. hasCol n t) cols \<and> list_all (\<lambda>c. fits c (value c)) (taCols t)
      then Some (map (\<lambda>c. (column.coName c, value c)) (taCols t)) else None)"

definition selectRow :: "string list \<Rightarrow> sqlRow \<Rightarrow> sqlValue list option" where
  "selectRow cols row = those (map (map_of row) cols)"

text \<open>\<open>runCols\<close> reads \<open>COALESCE(unique_key, '')\<close>.\<close>

definition selectRun :: "sqlRow \<Rightarrow> sqlValue list option" where
  "selectRun row = those (map (\<lambda>n. case map_of row n of
       None \<Rightarrow> None
     | Some v \<Rightarrow> Some (if n = ''unique_key'' \<and> v = SNull then SText [] else v)) runCols)"

section \<open>Scans\<close>

text \<open>What \<open>database/sql\<close> converts to the type of the destination.\<close>

definition signedText :: "int \<Rightarrow> string" where
  "signedText n = (if n < 0 then CHR ''-'' # decimal (nat (- n)) else decimal (nat n))"

definition scanText :: "sqlValue \<Rightarrow> string option" where
  "scanText v = (case v of SNull \<Rightarrow> None | SText s \<Rightarrow> Some s | SInt n \<Rightarrow> Some (signedText n) | SBytes b \<Rightarrow> Some b)"

definition scanInt :: "sqlValue \<Rightarrow> int option" where
  "scanInt v = (case v of SNull \<Rightarrow> None | SText s \<Rightarrow> atoi s | SInt n \<Rightarrow> Some n | SBytes b \<Rightarrow> atoi b)"

definition scanBytes :: "sqlValue \<Rightarrow> bytes option" where
  "scanBytes v = (case v of SNull \<Rightarrow> Some [] | SText s \<Rightarrow> Some s | SInt n \<Rightarrow> Some (signedText n) | SBytes b \<Rightarrow> Some b)"

definition scanBool :: "sqlValue \<Rightarrow> bool option" where
  "scanBool v = (case scanInt v of None \<Rightarrow> None | Some n \<Rightarrow> if n = 1 then Some True else if n = 0 then Some False else None)"

text \<open>The code keeps kinds and statuses as text; the model knows no text that is none of them.\<close>

definition scanKind :: "sqlValue \<Rightarrow> kind option" where
  "scanKind v = Option.bind (scanText v) (\<lambda>s. find (\<lambda>k. kindText k = s) [KindTask, KindWorkflow])"

definition scanStatus :: "sqlValue \<Rightarrow> status option" where
  "scanStatus v = Option.bind (scanText v) (\<lambda>s. find (\<lambda>st. status_text st = s)
     [Queued, Running, Blocked, Suspended, Paused, Succeeded, Failed, Cancelled, Interrupted])"

definition scanJournalKind :: "sqlValue \<Rightarrow> journalKind option" where
  "scanJournalKind v = Option.bind (scanText v) (\<lambda>s. find (\<lambda>k. journalKindText k = s) [JournalSleep, JournalWait, JournalOnce])"

text \<open>The destinations of \<open>Scan\<close>, in its order.\<close>

definition scanRun :: "sqlValue list \<Rightarrow> run option" where
  "scanRun vs = (if length vs \<noteq> 26 then None else
     Option.bind (scanText (vs ! 0)) (\<lambda>ID. Option.bind (scanText (vs ! 1)) (\<lambda>workflow.
     Option.bind (scanKind (vs ! 2)) (\<lambda>kin. Option.bind (scanStatus (vs ! 3)) (\<lambda>st.
     Option.bind (scanText (vs ! 4)) (\<lambda>queue. Option.bind (scanInt (vs ! 5)) (\<lambda>priority.
     Option.bind (scanBytes (vs ! 6)) (\<lambda>input. Option.bind (scanBytes (vs ! 7)) (\<lambda>output.
     Option.bind (scanText (vs ! 8)) (\<lambda>e. Option.bind (scanInt (vs ! 9)) (\<lambda>attempts.
     Option.bind (scanInt (vs ! 10)) (\<lambda>maxAttempts. Option.bind (scanInt (vs ! 11)) (\<lambda>runAt.
     Option.bind (scanInt (vs ! 12)) (\<lambda>createdAt. Option.bind (scanInt (vs ! 13)) (\<lambda>startedAt.
     Option.bind (scanInt (vs ! 14)) (\<lambda>completedAt. Option.bind (scanText (vs ! 15)) (\<lambda>concurrencyKey.
     Option.bind (scanText (vs ! 16)) (\<lambda>parentID. Option.bind (scanText (vs ! 17)) (\<lambda>parentStep.
     Option.bind (scanText (vs ! 18)) (\<lambda>traceParent. Option.bind (scanText (vs ! 19)) (\<lambda>uniqueKey.
     Option.bind (scanInt (vs ! 20)) (\<lambda>pausedAt. Option.bind (scanInt (vs ! 21)) (\<lambda>deadLetteredAt.
     Option.bind (scanText (vs ! 22)) (\<lambda>sequenceKey. Option.bind (scanInt (vs ! 23)) (\<lambda>sequence.
     Option.bind (scanInt (vs ! 24)) (\<lambda>ephemeral. Option.bind (scanBytes (vs ! 25)) (\<lambda>groups.
     Some \<lparr>rID = ID, rWorkflow = workflow, rKind = kin, rStatus = st, rQueue = queue, rPriority = priority, rInput = input,
       rOutput = output, rError = e, rAttempts = attempts, rMaxAttempts = maxAttempts, rRunAt = runAt, rCreatedAt = createdAt,
       rStartedAt = startedAt, rCompletedAt = completedAt, rConcurrencyKey = concurrencyKey, rParentID = parentID,
       rParentStep = parentStep, rTraceParent = traceParent, rUniqueKey = uniqueKey, rPausedAt = pausedAt,
       rDeadLetteredAt = deadLetteredAt, rSequenceKey = sequenceKey, rSeq = sequence, rEphemeral = (ephemeral \<noteq> 0),
       rGroups = groups\<rparr>)))))))))))))))))))))))))))"

definition scanStep :: "(string \<Rightarrow> string list option) \<Rightarrow> sqlValue list \<Rightarrow> step option" where
  "scanStep unmarshal vs = (if length vs \<noteq> 30 then None else
     Option.bind (scanText (vs ! 0)) (\<lambda>ID. Option.bind (scanText (vs ! 1)) (\<lambda>runID.
     Option.bind (scanText (vs ! 2)) (\<lambda>name. Option.bind (scanText (vs ! 3)) (\<lambda>task.
     Option.bind (scanInt (vs ! 4)) (\<lambda>ord. Option.bind (scanStatus (vs ! 5)) (\<lambda>st.
     Option.bind (scanText (vs ! 6)) (\<lambda>deps. Option.bind (scanText (vs ! 7)) (\<lambda>queue.
     Option.bind (scanInt (vs ! 8)) (\<lambda>priority. Option.bind (scanBytes (vs ! 9)) (\<lambda>input.
     Option.bind (scanBytes (vs ! 10)) (\<lambda>output. Option.bind (scanText (vs ! 11)) (\<lambda>e.
     Option.bind (scanInt (vs ! 12)) (\<lambda>attempts. Option.bind (scanInt (vs ! 13)) (\<lambda>maxAttempts.
     Option.bind (scanInt (vs ! 14)) (\<lambda>timeout. Option.bind (scanInt (vs ! 15)) (\<lambda>runAt.
     Option.bind (scanInt (vs ! 16)) (\<lambda>createdAt. Option.bind (scanInt (vs ! 17)) (\<lambda>startedAt.
     Option.bind (scanInt (vs ! 18)) (\<lambda>completedAt. Option.bind (scanText (vs ! 19)) (\<lambda>concurrencyKey.
     Option.bind (scanInt (vs ! 20)) (\<lambda>keyLimit. Option.bind (scanInt (vs ! 21)) (\<lambda>claimedAt.
     Option.bind (scanInt (vs ! 22)) (\<lambda>resumeAt. Option.bind (scanText (vs ! 23)) (\<lambda>waitKind.
     Option.bind (scanText (vs ! 24)) (\<lambda>waitEvent. Option.bind (scanText (vs ! 25)) (\<lambda>labels.
     Option.bind (scanText (vs ! 26)) (\<lambda>workerID. Option.bind (scanInt (vs ! 27)) (\<lambda>leaseExpiresAt.
     Option.bind (scanText (vs ! 28)) (\<lambda>sequenceKey. Option.bind (scanInt (vs ! 29)) (\<lambda>sequence.
     Some \<lparr>sID = ID, sRunID = runID, sName = name, sTask = task, sOrd = ord, sStatus = st,
       sDependsOn = decodeList unmarshal deps, sQueue = queue, sPriority = priority, sInput = input, sOutput = output,
       sError = e, sAttempts = attempts, sMaxAttempts = maxAttempts, sTimeout = timeout, sRunAt = runAt,
       sCreatedAt = createdAt, sStartedAt = startedAt, sCompletedAt = completedAt, sConcurrencyKey = concurrencyKey,
       sKeyLimit = keyLimit, sClaimedAt = claimedAt, sResumeAt = resumeAt, sWaitKind = waitKind, sWaitEvent = waitEvent,
       sLabels = decodeList unmarshal labels, sWorkerID = workerID, sLeaseExpiresAt = leaseExpiresAt,
       sSequenceKey = sequenceKey, sSeq = sequence, sKeys = []\<rparr>)))))))))))))))))))))))))))))))"

definition scanJournalEntry :: "sqlValue list \<Rightarrow> journalEntry option" where
  "scanJournalEntry vs = (if length vs \<noteq> 12 then None else
     Option.bind (scanText (vs ! 0)) (\<lambda>stepID. Option.bind (scanInt (vs ! 1)) (\<lambda>idx.
     Option.bind (scanJournalKind (vs ! 2)) (\<lambda>kin. Option.bind (scanText (vs ! 3)) (\<lambda>key.
     Option.bind (scanText (vs ! 4)) (\<lambda>event. Option.bind (scanInt (vs ! 5)) (\<lambda>wakeAt.
     Option.bind (scanInt (vs ! 6)) (\<lambda>deadline. Option.bind (scanBytes (vs ! 7)) (\<lambda>payload.
     Option.bind (scanBytes (vs ! 8)) (\<lambda>res. Option.bind (scanText (vs ! 9)) (\<lambda>e.
     Option.bind (scanBool (vs ! 10)) (\<lambda>fin. Option.bind (scanBool (vs ! 11)) (\<lambda>timedOut.
     Some \<lparr>jStepID = stepID, jIdx = idx, jKind = kin, jKey = key, jEvent = event, jWakeAt = wakeAt, jDeadline = deadline,
       jPayload = payload, jResult = res, jErr = e, jDone = fin, jTimedOut = timedOut\<rparr>)))))))))))))"

section \<open>There and back\<close>

text \<open>What a database of a driver gives back for what is written to it: the INSERT of the store into the
  table that the driver's migrations made, then the SELECT of the store and its scan.\<close>

definition tableOf :: "driver \<Rightarrow> string \<Rightarrow> tableDef option" where
  "tableOf dr name = Option.bind (schemaOf dr) (tableNamed name)"

definition storedRun :: "driver \<Rightarrow> (string list \<Rightarrow> string option) \<Rightarrow> run \<Rightarrow> run option" where
  "storedRun dr marshal r =
     Option.bind (tableOf dr ''runs'') (\<lambda>t.
     Option.bind (bindRow runInsertRow (map (sqlArg marshal) (runInsertArgs r))) (\<lambda>vals.
     Option.bind (insertRow t runInsertCols vals) (\<lambda>row.
     Option.bind (selectRun row) scanRun)))"

definition storedStep ::
  "driver \<Rightarrow> (string list \<Rightarrow> string option) \<Rightarrow> (string \<Rightarrow> string list option) \<Rightarrow> step \<Rightarrow> step option" where
  "storedStep dr marshal unmarshal s =
     Option.bind (tableOf dr ''steps'') (\<lambda>t.
     Option.bind (bindRow stepInsertRow (map (sqlArg marshal) (stepInsertArgs s))) (\<lambda>vals.
     Option.bind (insertRow t stepInsertCols vals) (\<lambda>row.
     Option.bind (selectRow stepCols row) (scanStep unmarshal))))"

definition storedEntry :: "driver \<Rightarrow> journalEntry \<Rightarrow> journalEntry option" where
  "storedEntry dr e =
     Option.bind (tableOf dr ''step_journal'') (\<lambda>t.
     Option.bind (insertRow t journalCols (journalArgs e)) (\<lambda>row.
     Option.bind (selectRow journalCols row) scanJournalEntry))"

end
