(* ===== verification/Rows_Laws.thy ===== *)
theory Rows_Laws
  imports Rows Dialects_Laws
begin

text \<open>
  What is written is read back: the argument lists, value tuples, column lists and scans of the store fit
  each other on the tables of every driver, and string lists survive their text form.
\<close>

section \<open>String lists\<close>

text \<open>What JSON does with a list: its text is a bracketed one and is read back as the list.\<close>

definition json_list :: "(string list \<Rightarrow> string option) \<Rightarrow> (string \<Rightarrow> string list option) \<Rightarrow> string list \<Rightarrow> bool" where
  "json_list marshal unmarshal xs \<longleftrightarrow> xs = [] \<or> (case marshal xs of None \<Rightarrow> False
     | Some b \<Rightarrow> take 1 b = ''['' \<and> last b = CHR '']'' \<and> b \<noteq> ''[]'' \<and> unmarshal b = Some xs)"

lemma decodeList_encodeList:
  assumes "json_list marshal unmarshal xs"
  shows "decodeList unmarshal (encodeList marshal xs) = xs"
proof (cases "xs = []")
  case True
  then show ?thesis by (simp add: encodeList_def decodeList_def trimSpace_def isSpace_def)
next
  case False
  with assms obtain b where b: "marshal xs = Some b" "take 1 b = ''[''" "last b = CHR '']''" "b \<noteq> ''[]''" "unmarshal b = Some xs"
    by (auto simp: json_list_def split: option.splits)
  then have "b \<noteq> []" "hd b = CHR ''[''" by (cases b; simp)+
  moreover have "trimSpace b = b" by (rule trimSpace_id) (use b calculation in \<open>simp_all add: isSpace_def\<close>)
  moreover have "b \<noteq> ''null''" using b(2) by auto
  ultimately show ?thesis using False b by (simp add: encodeList_def decodeList_def)
qed

text \<open>The comma-separated form of old databases; a list of one name \<open>null\<close> or \<open>[]\<close> would be lost.\<close>

lemma splitOn_none: "d \<notin> set s \<Longrightarrow> splitOn d s = [s]"
  by (induction s) auto

lemma splitOn_join: "names \<noteq> [] \<Longrightarrow> (\<And>n. n \<in> set names \<Longrightarrow> d \<notin> set n) \<Longrightarrow> splitOn d (joinWith [d] names) = names"
proof (induction "[d]" names rule: joinWith.induct)
  case (3 n m ns)
  have "splitOn d (n @ d # joinWith [d] (m # ns)) = n # splitOn d (joinWith [d] (m # ns))"
    by (rule splitOn_first) (simp add: "3.prems")
  then show ?case using 3 by simp
qed (simp_all add: splitOn_none)

lemma joinWith_hd: "names \<noteq> [] \<Longrightarrow> hd names \<noteq> [] \<Longrightarrow> joinWith sep names \<noteq> [] \<and> hd (joinWith sep names) = hd (hd names)"
  by (induction sep names rule: joinWith.induct) simp_all

lemma joinWith_last:
  "names \<noteq> [] \<Longrightarrow> (\<And>n. n \<in> set names \<Longrightarrow> n \<noteq> []) \<Longrightarrow> joinWith sep names \<noteq> [] \<and> last (joinWith sep names) = last (last names)"
  by (induction sep names rule: joinWith.induct) auto

lemma decodeList_legacy:
  assumes names: "\<And>n. n \<in> set names \<Longrightarrow> n \<noteq> [] \<and> trimSpace n = n \<and> \<not> isSpace (hd n) \<and> \<not> isSpace (last n) \<and> CHR '','' \<notin> set n"
    and "names \<noteq> []" and "hd (hd names) \<noteq> CHR ''[''" and "names \<noteq> [''null'']"
  shows "decodeList unmarshal (joinWith '','' names) = names"
proof -
  let ?s = "joinWith '','' names"
  have hd: "?s \<noteq> []" "hd ?s = hd (hd names)" using joinWith_hd [OF assms(2)] names [of "hd names"] assms(2) by auto
  have last: "last ?s = last (last names)" using joinWith_last [OF assms(2)] names by auto
  have split: "splitOn (CHR '','') ?s = names" by (rule splitOn_join) (use names assms(2) in auto)
  have "trimSpace ?s = ?s"
    by (rule trimSpace_id) (use hd last names [of "hd names"] names [of "last names"] assms(2) in auto)
  moreover have br: "take 1 ?s \<noteq> ''[''" using hd assms(3) by (cases ?s) auto
  moreover have "?s \<noteq> ''[]''" using br by auto
  moreover have "?s \<noteq> ''null''" using split assms(4) by auto
  moreover have "map trimSpace names = names" "filter (\<lambda>p. p \<noteq> []) names = names" using names by (auto intro: map_idI filter_True)
  ultimately show ?thesis using hd split by (simp add: decodeList_def Let_def)
qed

section \<open>Inserting\<close>

text \<open>What an INSERT needs of a table, apart from the values: the columns it names, with their classes and
  whether it may write NULL, and for the others their defaults.\<close>

definition accepts :: "(string \<times> typeClass \<times> bool) list \<Rightarrow> (string \<times> sqlValue) list \<Rightarrow> tableDef \<Rightarrow> bool" where
  "accepts given omitted t \<longleftrightarrow>
     distinct (map column.coName (taCols t)) \<and> distinct (map fst given) \<and>
     list_all (\<lambda>(n, cl, nul). list_ex (\<lambda>c. column.coName c = n) (taCols t)) given \<and>
     list_all (\<lambda>(n, v). list_ex (\<lambda>c. column.coName c = n \<and> defaultOf c = v) (taCols t) \<and> \<not> List.member (map fst given) n) omitted \<and>
     list_all (\<lambda>c. case map_of given (column.coName c) of
         Some (cl, nul) \<Rightarrow> typeClass (coType c) = cl \<and> (nul \<longrightarrow> \<not> coNotNull c)
       | None \<Rightarrow> fits c (defaultOf c)) (taCols t)"

definition goodValue :: "string \<times> typeClass \<times> bool \<Rightarrow> sqlValue \<Rightarrow> bool" where
  "goodValue g v \<longleftrightarrow> (case classOf v of None \<Rightarrow> snd (snd g) | Some cl \<Rightarrow> cl = fst (snd g))"

lemma map_of_zip_given:
  "list_all2 goodValue given vals \<Longrightarrow>
     (case map_of (zip (map fst given) vals) n of None \<Rightarrow> map_of given n = None | Some v \<Rightarrow> (\<exists>x. map_of given n = Some x \<and> goodValue (n, x) v))"
  by (induction rule: list_all2_induct) (auto split: option.splits)

lemma insert_accepted:
  assumes acc: "accepts given omitted t" and vals: "list_all2 goodValue given vals"
  shows "\<exists>row. insertRow t (map fst given) vals = Some row \<and>
    (\<forall>(n, v) \<in> set (zip (map fst given) vals). map_of row n = Some v) \<and> (\<forall>(n, v) \<in> set omitted. map_of row n = Some v)"
proof -
  define val where "val = (\<lambda>c. case map_of (zip (map fst given) vals) (column.coName c) of Some v \<Rightarrow> v | None \<Rightarrow> defaultOf c)"
  define row where "row = map (\<lambda>c. (column.coName c, val c)) (taCols t)"
  have len: "length (map fst given) = length vals" using vals by (simp add: list_all2_lengthD)
  have fit: "fits c (val c)" if c: "c \<in> set (taCols t)" for c
    using acc c map_of_zip_given [OF vals, of "column.coName c"]
    by (fastforce simp: accepts_def list_all_iff val_def fits_def goodValue_def split: option.splits)
  have dist: "distinct (map fst row)" using acc by (simp add: row_def accepts_def o_def)
  have got: "map_of row (column.coName c) = Some (val c)" if "c \<in> set (taCols t)" for c
    using dist that by (intro map_of_is_SomeI) (auto simp: row_def)
  have "map_of row n = Some v" if nv: "(n, v) \<in> set (zip (map fst given) vals)" for n v
  proof -
    have "map_of (zip (map fst given) vals) n = Some v"
      using acc len nv by (intro map_of_is_SomeI) (simp_all add: accepts_def)
    moreover obtain c where "c \<in> set (taCols t)" "column.coName c = n"
      using acc set_zip_leftD [OF nv] by (fastforce simp: accepts_def list_all_iff list_ex_iff)
    ultimately show ?thesis using got by (auto simp: val_def)
  qed
  moreover have "map_of row n = Some v" if nv: "(n, v) \<in> set omitted" for n v
  proof -
    obtain c where c: "c \<in> set (taCols t)" "column.coName c = n" "defaultOf c = v" "n \<notin> set (map fst given)"
      using acc nv by (fastforce simp: accepts_def list_all_iff list_ex_iff List.member_iff)
    then have "map_of (zip (map fst given) vals) n = None" using len by (metis map_of_zip_is_None)
    with c got show ?thesis by (auto simp: val_def)
  qed
  moreover have "insertRow t (map fst given) vals = Some row"
    using acc len fit by (auto simp: insertRow_def row_def val_def accepts_def list_all_iff hasCol_def Let_def)
  ultimately show ?thesis by blast
qed

section \<open>The three tables\<close>

text \<open>The columns that the INSERTs name, with what they write, and those they leave to their defaults.\<close>

definition runGiven :: "(string \<times> typeClass \<times> bool) list" where
  "runGiven = [
    (''id'', TextClass, False), (''workflow'', TextClass, False), (''kind'', TextClass, False),
    (''status'', TextClass, False), (''queue'', TextClass, False), (''priority'', NumberClass, False),
    (''input'', BytesClass, False), (''output'', BytesClass, True), (''error'', TextClass, False),
    (''attempts'', NumberClass, False), (''max_attempts'', NumberClass, False),
    (''run_at'', NumberClass, False), (''created_at'', NumberClass, False),
    (''started_at'', NumberClass, False), (''completed_at'', NumberClass, False),
    (''concurrency_key'', TextClass, False), (''parent_id'', TextClass, False),
    (''parent_step'', TextClass, False), (''trace_parent'', TextClass, False),
    (''unique_key'', TextClass, True), (''sequence_key'', TextClass, False),
    (''seq'', NumberClass, False), (''ephemeral'', NumberClass, False),
    (''groups_json'', TextClass, False)]"

definition stepGiven :: "(string \<times> typeClass \<times> bool) list" where
  "stepGiven = [
    (''id'', TextClass, False), (''run_id'', TextClass, False), (''name'', TextClass, False),
    (''task'', TextClass, False), (''ord'', NumberClass, False), (''status'', TextClass, False),
    (''depends_on'', TextClass, False), (''queue'', TextClass, False), (''priority'', NumberClass, False),
    (''input'', BytesClass, False), (''output'', BytesClass, True), (''error'', TextClass, False),
    (''attempts'', NumberClass, False), (''max_attempts'', NumberClass, False),
    (''timeout_ns'', NumberClass, False), (''run_at'', NumberClass, False),
    (''created_at'', NumberClass, False), (''started_at'', NumberClass, False),
    (''completed_at'', NumberClass, False), (''concurrency_key'', TextClass, False),
    (''key_limit'', NumberClass, False), (''labels'', TextClass, False),
    (''sequence_key'', TextClass, False), (''seq'', NumberClass, False)]"

definition entryGiven :: "(string \<times> typeClass \<times> bool) list" where
  "entryGiven = [
    (''step_id'', TextClass, False), (''idx'', NumberClass, False), (''kind'', TextClass, False),
    (''wkey'', TextClass, False), (''event'', TextClass, False), (''wake_at'', NumberClass, False),
    (''deadline'', NumberClass, False), (''payload'', BytesClass, False), (''result'', BytesClass, False),
    (''err'', TextClass, False), (''done'', NumberClass, False), (''timed_out'', NumberClass, False)]"

definition runOmitted :: "(string \<times> sqlValue) list" where
  "runOmitted = [(''paused_at'', SInt 0), (''dead_lettered_at'', SInt 0)]"

definition stepOmitted :: "(string \<times> sqlValue) list" where
  "stepOmitted = [(''claimed_at'', SInt 0), (''resume_at'', SInt 0), (''wait_kind'', SText []), (''wait_event'', SText []),
    (''worker_id'', SText []), (''lease_expires_at'', SInt 0)]"

definition tableAccepts :: "string \<Rightarrow> (string \<times> typeClass \<times> bool) list \<Rightarrow> (string \<times> sqlValue) list \<Rightarrow> schemaDef \<Rightarrow> bool" where
  "tableAccepts name given omitted s \<longleftrightarrow> (case tableNamed name s of None \<Rightarrow> False | Some t \<Rightarrow> accepts given omitted t)"

definition storeFits :: "schemaDef \<Rightarrow> bool" where
  "storeFits s \<longleftrightarrow> tableAccepts ''runs'' runGiven runOmitted s \<and> tableAccepts ''steps'' stepGiven stepOmitted s \<and>
     tableAccepts ''step_journal'' entryGiven [] s"

lemma sqlite_store: "checkedOn storeFits SQLite" by code_simp
lemma pg_store: "checkedOn storeFits Postgres" by code_simp
lemma my_store: "checkedOn storeFits MySQL" by code_simp

lemma storeFits_all: "checkedOn storeFits dr"
  using sqlite_store pg_store my_store by (cases dr) simp_all

lemma tableOf_accepts:
  "\<exists>t. tableOf dr ''runs'' = Some t \<and> accepts runGiven runOmitted t"
  "\<exists>t. tableOf dr ''steps'' = Some t \<and> accepts stepGiven stepOmitted t"
  "\<exists>t. tableOf dr ''step_journal'' = Some t \<and> accepts entryGiven [] t"
  using storeFits_all [of dr] by (auto simp: checkedOn_Some storeFits_def tableAccepts_def tableOf_def split: option.splits)

lemma given_cols: "map fst runGiven = runInsertCols" "map fst stepGiven = stepInsertCols" "map fst entryGiven = journalCols"
  by (simp_all add: runGiven_def runInsertCols_def stepGiven_def stepInsertCols_def entryGiven_def journalCols_def)

section \<open>There and back\<close>

lemma scan_values [simp]:
  "scanText (SText s) = Some s" "scanInt (SInt n) = Some n" "scanBytes (SBytes b) = Some b" "scanBytes (SText s) = Some s" "scanBytes SNull = Some []"
  "scanBool (SInt (boolInt t)) = Some t" "boolInt t \<noteq> 0 \<longleftrightarrow> t"
  by (simp_all add: scanText_def scanInt_def scanBytes_def scanBool_def boolInt_def)

lemma scan_kind [simp]: "scanKind (SText (kindText k)) = Some k"
  by (cases k) (simp_all add: scanKind_def kindText_def)

lemma scan_status [simp]: "scanStatus (SText (status_text st)) = Some st"
  by (cases st) (simp_all add: scanStatus_def)

lemma scan_journalKind [simp]: "scanJournalKind (SText (journalKindText k)) = Some k"
  by (cases k) (simp_all add: scanJournalKind_def journalKindText_def)

lemma storedEntry_id: "storedEntry dr e = Some e"
proof -
  obtain t where t: "tableOf dr ''step_journal'' = Some t" "accepts entryGiven [] t" using tableOf_accepts(3) by blast
  have "list_all2 goodValue entryGiven (journalArgs e)"
    by (simp add: entryGiven_def journalArgs_def goodValue_def classOf_def)
  from insert_accepted [OF t(2) this] obtain row where row: "insertRow t journalCols (journalArgs e) = Some row"
    "\<forall>(n, v) \<in> set (zip journalCols (journalArgs e)). map_of row n = Some v" unfolding given_cols by blast
  have "selectRow journalCols row = Some (journalArgs e)"
    using row(2) by (simp add: selectRow_def journalCols_def journalArgs_def)
  with t(1) row(1) show ?thesis by (simp add: storedEntry_def scanJournalEntry_def journalArgs_def)
qed


definition keyValue :: "string \<Rightarrow> sqlValue" where
  "keyValue s = (case nullableString s of None \<Rightarrow> SNull | Some t \<Rightarrow> SText t)"

lemma sqlArg_nullable [simp]: "sqlArg marshal (nullableArg s) = keyValue s"
  by (simp add: nullableArg_def keyValue_def sqlArg_def split: option.split)

lemma keyValue_read: "(if keyValue s = SNull then SText [] else keyValue s) = SText s"
  by (simp add: keyValue_def nullableString_def)

lemma goodKey: "goodValue (n, TextClass, True) (keyValue s)"
  by (simp add: goodValue_def classOf_def keyValue_def split: option.split)

lemma storedRun_runRow: "storedRun dr marshal r = Some (runRow r)"
proof -
  obtain t where t: "tableOf dr ''runs'' = Some t" "accepts runGiven runOmitted t" using tableOf_accepts(1) by blast
  define vals where "vals = [SText (rID r), SText (rWorkflow r), SText (kindText (rKind r)), SText (status_text (rStatus r)),
    SText (rQueue r), SInt (rPriority r), SBytes (rInput r), SNull, SText [], SInt 0, SInt (rMaxAttempts r), SInt (rRunAt r),
    SInt (rCreatedAt r), SInt 0, SInt 0, SText (rConcurrencyKey r), SText (rParentID r), SText (rParentStep r),
    SText (rTraceParent r), keyValue (rUniqueKey r), SText (rSequenceKey r), SInt (rSeq r), SInt (boolInt (rEphemeral r)),
    SText (rGroups r)]"
  have bound: "bindRow runInsertRow (map (sqlArg marshal) (runInsertArgs r)) = Some vals"
    by (simp add: runInsertRow_def runInsertArgs_def vals_def numeral_eq_Suc sqlArg_def [of _ "AText _"] sqlArg_def [of _ "AInt _"]
      sqlArg_def [of _ "ABytes _"] sqlArg_def [of _ "AKind _"] sqlArg_def [of _ "AStatus _"])
  have "list_all2 goodValue runGiven vals"
    by (simp add: runGiven_def vals_def goodKey) (simp add: goodValue_def classOf_def)
  from insert_accepted [OF t(2) this] obtain row where row: "insertRow t runInsertCols vals = Some row"
    "\<forall>(n, v) \<in> set (zip runInsertCols vals). map_of row n = Some v" "\<forall>(n, v) \<in> set runOmitted. map_of row n = Some v"
    unfolding given_cols by blast
  have "selectRun row = Some [SText (rID r), SText (rWorkflow r), SText (kindText (rKind r)), SText (status_text (rStatus r)),
    SText (rQueue r), SInt (rPriority r), SBytes (rInput r), SNull, SText [], SInt 0, SInt (rMaxAttempts r), SInt (rRunAt r),
    SInt (rCreatedAt r), SInt 0, SInt 0, SText (rConcurrencyKey r), SText (rParentID r), SText (rParentStep r),
    SText (rTraceParent r), SText (rUniqueKey r), SInt 0, SInt 0, SText (rSequenceKey r), SInt (rSeq r),
    SInt (boolInt (rEphemeral r)), SText (rGroups r)]"
    using row(2,3) by (simp add: selectRun_def runCols_def runInsertCols_def vals_def runOmitted_def keyValue_read)
  with t(1) bound row(1) show ?thesis by (simp add: storedRun_def scanRun_def runRow_def)
qed

lemma storedStep_stepRow:
  assumes "json_list marshal unmarshal (sDependsOn s)" and "json_list marshal unmarshal (sLabels s)"
  shows "storedStep dr marshal unmarshal s = Some (stepRow s)"
proof -
  obtain t where t: "tableOf dr ''steps'' = Some t" "accepts stepGiven stepOmitted t" using tableOf_accepts(2) by blast
  define deps where "deps = encodeList marshal (sDependsOn s)"
  define labels where "labels = encodeList marshal (sLabels s)"
  have lists: "decodeList unmarshal deps = sDependsOn s" "decodeList unmarshal labels = sLabels s"
    using assms by (simp_all add: deps_def labels_def decodeList_encodeList)
  define vals where "vals = [SText (sID s), SText (sRunID s), SText (sName s), SText (sTask s), SInt (sOrd s),
    SText (status_text (sStatus s)), SText deps, SText (sQueue s), SInt (sPriority s), SBytes (sInput s), SNull, SText [], SInt 0,
    SInt (sMaxAttempts s), SInt (sTimeout s), SInt (sRunAt s), SInt (sCreatedAt s), SInt 0, SInt 0, SText (sConcurrencyKey s),
    SInt (sKeyLimit s), SText labels, SText (sSequenceKey s), SInt (sSeq s)]"
  have bound: "bindRow stepInsertRow (map (sqlArg marshal) (stepInsertArgs s)) = Some vals"
    by (simp add: stepInsertRow_def stepInsertArgs_def vals_def deps_def labels_def numeral_eq_Suc sqlArg_def)
  have "list_all2 goodValue stepGiven vals"
    by (simp add: stepGiven_def vals_def goodValue_def classOf_def)
  from insert_accepted [OF t(2) this] obtain row where row: "insertRow t stepInsertCols vals = Some row"
    "\<forall>(n, v) \<in> set (zip stepInsertCols vals). map_of row n = Some v" "\<forall>(n, v) \<in> set stepOmitted. map_of row n = Some v"
    unfolding given_cols by blast
  have "selectRow stepCols row = Some [SText (sID s), SText (sRunID s), SText (sName s), SText (sTask s), SInt (sOrd s),
    SText (status_text (sStatus s)), SText deps, SText (sQueue s), SInt (sPriority s), SBytes (sInput s), SNull, SText [], SInt 0,
    SInt (sMaxAttempts s), SInt (sTimeout s), SInt (sRunAt s), SInt (sCreatedAt s), SInt 0, SInt 0, SText (sConcurrencyKey s),
    SInt (sKeyLimit s), SInt 0, SInt 0, SText [], SText [], SText labels, SText [], SInt 0, SText (sSequenceKey s), SInt (sSeq s)]"
    using row(2,3) by (simp add: selectRow_def stepCols_def stepInsertCols_def vals_def stepOmitted_def)
  with t(1) bound row(1) lists show ?thesis by (simp add: storedStep_def scanStep_def stepRow_def)
qed

end
