(* ===== verification/Storage.thy ===== *)
theory Storage
  imports Lock
begin

text \<open>
  Opening the storage (\<open>internal/store/sqlite.go\<close>, the pools of \<open>postgres.go\<close> and \<open>mysql.go\<close>,
  \<open>driver.go\<close>): the data source names of SQLite and the resources that are held on every path. What the
  operating system and \<open>database/sql\<close> answer to a call is the parameter \<open>ok\<close>, one truth value per call
  site; what is open is a set of resources.
\<close>

datatype Mode = ModeMemory | ModeEphemeral | ModeFile | OtherMode int

record driverConfig =
  dcMode :: Mode
  dcPath :: string
  dcDSN :: string
  dcDB :: bool
  dcDriver :: string
  dcRecover :: bool
  dcCheckpoint :: time

section \<open>Paths\<close>

text \<open>\<open>filepath.Clean\<close> on a slash-separated path; the stack holds the parts in reverse.\<close>

fun cleanParts :: "bool \<Rightarrow> string list \<Rightarrow> string list \<Rightarrow> string list" where
  "cleanParts rooted stack [] = rev stack"
| "cleanParts rooted stack (p # ps) =
     (if p = [] \<or> p = ''.'' then cleanParts rooted stack ps
      else if p = ''..'' then
        (case stack of
           [] \<Rightarrow> cleanParts rooted (if rooted then [] else [p]) ps
         | q # qs \<Rightarrow> cleanParts rooted (if q = ''..'' then p # stack else qs) ps)
      else cleanParts rooted (p # stack) ps)"

definition cleanPath :: "string \<Rightarrow> string" where
  "cleanPath s =
     (let rooted = (s \<noteq> [] \<and> hd s = CHR ''/''); ps = cleanParts rooted [] (splitOn (CHR ''/'') s);
          path = (if rooted then ''/'' else []) @ joinWith ''/'' ps
      in if path = [] then ''.'' else path)"

definition validPath :: "string \<Rightarrow> bool" where
  "validPath s \<longleftrightarrow> \<not> (list_ex (\<lambda>c. c = CHR ''?'' \<or> c = CHR ''&'' \<or> c = CHR 0x23 \<or> c = CHR 0x25) s \<or>
     take 2 s = ''//'' \<or> cleanPath s = '':memory:'' \<or> list_ex (\<lambda>c. (of_char c :: nat) < 0x20) s)"

section \<open>Data source names\<close>

datatype resource = TempFile | FileLock | WriterPool | KeeperPool | ReaderPool | DialedPool | Sidecar

datatype call = CreateTemp | CloseTemp | MakeDir | AcquireLock | OpenWriter | PingWriter | OpenKeeper | PingKeeper
  | OpenReader | PingReader | PingExternal | OpenDialed | PingDialed | MigrateCall | RecoverCall

datatype poolErr = ExternalPoolRefused | PathMissing | PathInvalid | UnknownMode | DSNMissing | CallFailed call

definition commonPragmas :: string where
  "commonPragmas = ''_pragma=busy_timeout(10000)&_pragma=foreign_keys(1)''"

definition fileDSN :: "string \<Rightarrow> string \<Rightarrow> string" where
  "fileDSN path sync = ''file:'' @ path @ ''?'' @ commonPragmas @ ''&_pragma=journal_mode(WAL)&_pragma=synchronous('' @ sync @ '')&_txlock=immediate''"

text \<open>The data source name, the temporary file to remove, and what is open. \<open>dir\<close> is \<open>filepath.Dir\<close>, \<open>tmp\<close>
  the name of the temporary file, \<open>pid\<close> and \<open>serial\<close> make the name of an in-memory database.\<close>

definition sqliteDSN ::
  "(call \<Rightarrow> bool) \<Rightarrow> (string \<Rightarrow> string) \<Rightarrow> string \<Rightarrow> nat \<Rightarrow> nat \<Rightarrow> driverConfig \<Rightarrow> (poolErr + string \<times> bool) \<times> resource set" where
  "sqliteDSN ok dir tmp pid serial c =
     (case dcMode c of
        ModeMemory \<Rightarrow>
          (Inr (''file:quacker-'' @ decimal pid @ ''-'' @ decimal serial @ ''?mode=memory&cache=shared&'' @ commonPragmas, False), {})
      | ModeEphemeral \<Rightarrow>
          if \<not> ok CreateTemp then (Inl (CallFailed CreateTemp), {})
          else if \<not> ok CloseTemp then (Inl (CallFailed CloseTemp), {TempFile})
          else (Inr (fileDSN tmp ''0'', True), {TempFile})
      | ModeFile \<Rightarrow>
          if dcPath c = [] then (Inl PathMissing, {})
          else if \<not> validPath (dcPath c) then (Inl PathInvalid, {})
          else if dir (dcPath c) \<noteq> ''.'' \<and> \<not> ok MakeDir then (Inl (CallFailed MakeDir), {})
          else (Inr (fileDSN (dcPath c) ''1'', False), {})
      | OtherMode n \<Rightarrow> (Inl UnknownMode, {}))"

section \<open>Pools\<close>

text \<open>\<open>closeSide\<close>: the lock and the temporary file.\<close>

definition closeSide :: "resource set \<Rightarrow> resource set" where
  "closeSide rs = rs - {FileLock, TempFile}"

definition openReader :: "(call \<Rightarrow> bool) \<Rightarrow> resource set \<Rightarrow> (poolErr + unit) \<times> resource set" where
  "openReader ok rs =
     (if \<not> ok OpenReader then (Inl (CallFailed OpenReader), closeSide (rs - {KeeperPool} - {WriterPool}))
      else
        let rs1 = insert ReaderPool rs in
        if \<not> ok PingReader then
          (Inl (CallFailed PingReader), closeSide (rs1 - {ReaderPool} - {KeeperPool} - {WriterPool}))
        else (Inr (), rs1))"

definition openKeeper :: "(call \<Rightarrow> bool) \<Rightarrow> driverConfig \<Rightarrow> resource set \<Rightarrow> (poolErr + unit) \<times> resource set" where
  "openKeeper ok cfg rs =
     (if dcMode cfg = ModeMemory then
        (if \<not> ok OpenKeeper then (Inl (CallFailed OpenKeeper), closeSide (rs - {WriterPool}))
         else
           let rs1 = insert KeeperPool rs in
           if \<not> ok PingKeeper then (Inl (CallFailed PingKeeper), closeSide (rs1 - {KeeperPool} - {WriterPool}))
           else openReader ok rs1)
      else openReader ok rs)"

definition sqliteOpenPools ::
  "(call \<Rightarrow> bool) \<Rightarrow> (string \<Rightarrow> string) \<Rightarrow> string \<Rightarrow> nat \<Rightarrow> nat \<Rightarrow> driverConfig \<Rightarrow> (poolErr + unit) \<times> resource set" where
  "sqliteOpenPools ok dir tmp pid serial cfg =
     (if dcDB cfg then (Inl ExternalPoolRefused, {})
      else
        (case sqliteDSN ok dir tmp pid serial cfg of
           (Inl e, rs) \<Rightarrow> (Inl e, rs)
         | (Inr dsn, rs) \<Rightarrow>
             if dcMode cfg = ModeFile \<and> \<not> ok AcquireLock then (Inl (CallFailed AcquireLock), rs)
             else
               let rs1 = (if dcMode cfg = ModeFile then insert FileLock rs else rs) in
               if \<not> ok OpenWriter then (Inl (CallFailed OpenWriter), closeSide rs1)
               else
                 let rs2 = insert WriterPool rs1 in
                 if \<not> ok PingWriter then (Inl (CallFailed PingWriter), closeSide (rs2 - {WriterPool}))
                 else openKeeper ok cfg rs2))"

text \<open>PostgreSQL and MySQL: one pool, dialed or the caller's own, which stays open.\<close>

definition dialedOpenPools :: "(call \<Rightarrow> bool) \<Rightarrow> driverConfig \<Rightarrow> (poolErr + unit) \<times> resource set" where
  "dialedOpenPools ok cfg =
     (if dcDB cfg then (if ok PingExternal then (Inr (), {}) else (Inl (CallFailed PingExternal), {}))
      else if dcDSN cfg = [] then (Inl DSNMissing, {})
      else if \<not> ok OpenDialed then (Inl (CallFailed OpenDialed), {})
      else if \<not> ok PingDialed then (Inl (CallFailed PingDialed), {DialedPool} - {DialedPool})
      else (Inr (), {DialedPool}))"

definition OpenPools ::
  "driver \<Rightarrow> (call \<Rightarrow> bool) \<Rightarrow> (string \<Rightarrow> string) \<Rightarrow> string \<Rightarrow> nat \<Rightarrow> nat \<Rightarrow> driverConfig \<Rightarrow> (poolErr + unit) \<times> resource set" where
  "OpenPools dr ok dir tmp pid serial cfg =
     (case dr of SQLite \<Rightarrow> sqliteOpenPools ok dir tmp pid serial cfg | _ \<Rightarrow> dialedOpenPools ok cfg)"

text \<open>The cleanup that \<open>OpenPools\<close> returns; errors of closing do not stop it.\<close>

definition cleanupPools :: "driver \<Rightarrow> driverConfig \<Rightarrow> resource set \<Rightarrow> resource set" where
  "cleanupPools dr cfg rs =
     (case dr of
        SQLite \<Rightarrow> closeSide (rs - (if dcMode cfg = ModeMemory then {KeeperPool} else {}) - {ReaderPool} - {WriterPool})
      | _ \<Rightarrow> if dcDB cfg then rs else rs - {DialedPool})"

section \<open>The store\<close>

definition SupportsCheckpoint :: "driver \<Rightarrow> driverConfig \<Rightarrow> bool" where
  "SupportsCheckpoint dr cfg \<longleftrightarrow> dr = SQLite \<and> dcMode cfg \<noteq> ModeMemory"

definition RecoverOnBoot :: "driver \<Rightarrow> driverConfig \<Rightarrow> bool" where
  "RecoverOnBoot dr cfg \<longleftrightarrow> dr = SQLite \<and> dcMode cfg = ModeFile"

definition checkpointInterval :: "driverConfig \<Rightarrow> time" where
  "checkpointInterval cfg =
     (let interval = (if dcCheckpoint cfg \<le> 0 then 60000000000 else dcCheckpoint cfg)
      in if interval < 10000000 then 10000000 else interval)"

datatype storeErr = NotRegistered string | PoolErr poolErr | BadMigrations migrationErr

definition backendFor :: "(string \<Rightarrow> driver option) \<Rightarrow> driverConfig \<Rightarrow> storeErr + driver" where
  "backendFor registry cfg =
     (let name = (if dcDriver cfg = [] then ''sqlite'' else dcDriver cfg) in
      case registry name of None \<Rightarrow> Inl (NotRegistered name) | Some dr \<Rightarrow> Inr dr)"

record store =
  soDriver :: driver
  soCheckpoint :: "time option"
  soOpen :: bool

definition Open_store ::
  "(string \<Rightarrow> driver option) \<Rightarrow> (driver \<Rightarrow> migration list) \<Rightarrow> (call \<Rightarrow> bool) \<Rightarrow> (string \<Rightarrow> string) \<Rightarrow> string \<Rightarrow> nat \<Rightarrow> nat \<Rightarrow>
     driverConfig \<Rightarrow> (storeErr + store) \<times> resource set" where
  "Open_store registry migrations ok dir tmp pid serial cfg =
     (case backendFor registry cfg of
        Inl e \<Rightarrow> (Inl e, {})
      | Inr dr \<Rightarrow>
          (case ValidateMigrations (migrations dr) of
             Some e \<Rightarrow> (Inl (BadMigrations e), {})
           | None \<Rightarrow>
               (case OpenPools dr ok dir tmp pid serial cfg of
                  (Inl e, rs) \<Rightarrow> (Inl (PoolErr e), rs)
                | (Inr u, rs) \<Rightarrow>
                    if \<not> ok MigrateCall then (Inl (PoolErr (CallFailed MigrateCall)), cleanupPools dr cfg rs)
                    else if RecoverOnBoot dr cfg \<and> \<not> ok RecoverCall then
                      (Inl (PoolErr (CallFailed RecoverCall)), cleanupPools dr cfg rs)
                    else (Inr \<lparr>soDriver = dr, soCheckpoint = (if SupportsCheckpoint dr cfg then Some (checkpointInterval cfg) else None),
                           soOpen = True\<rparr>, rs))))"

definition Close_store :: "driverConfig \<Rightarrow> store \<times> resource set \<Rightarrow> store \<times> resource set" where
  "Close_store cfg sr =
     (if soOpen (fst sr) then ((fst sr)\<lparr>soCheckpoint := None, soOpen := False\<rparr>, cleanupPools (soDriver (fst sr)) cfg (snd sr)) else sr)"

section \<open>Nothing is leaked\<close>

lemma sqliteOpenPools_resources:
  "case sqliteOpenPools ok dir tmp pid serial cfg of
     (Inl e, rs) \<Rightarrow> rs = (if e = CallFailed CloseTemp then {TempFile} else {})
   | (Inr u, rs) \<Rightarrow> \<not> dcDB cfg \<and> closeSide (rs - (if dcMode cfg = ModeMemory then {KeeperPool} else {}) - {ReaderPool} - {WriterPool}) = {}"
  by (cases "dcMode cfg")
    (auto simp: sqliteOpenPools_def sqliteDSN_def openKeeper_def openReader_def closeSide_def Let_def)

lemma OpenPools_resources:
  "case OpenPools dr ok dir tmp pid serial cfg of
     (Inl e, rs) \<Rightarrow> rs = (if e = CallFailed CloseTemp then {TempFile} else {})
   | (Inr u, rs) \<Rightarrow> cleanupPools dr cfg rs = {}"
  using sqliteOpenPools_resources [where ok = ok and dir = dir and tmp = tmp and pid = pid and serial = serial and cfg = cfg]
  by (cases dr) (auto simp: OpenPools_def dialedOpenPools_def cleanupPools_def split: prod.splits sum.splits)

text \<open>A store that fails to open holds nothing (but a temporary file that could not be closed), and one
  that opened holds nothing after \<open>Close\<close>, however often it is called.\<close>

theorem store_leaks_nothing:
  assumes "Open_store registry migrations ok dir tmp pid serial cfg = (res, rs)"
  shows "case res of
      Inl e \<Rightarrow> e \<noteq> PoolErr (CallFailed CloseTemp) \<longrightarrow> rs = {}
    | Inr st \<Rightarrow> snd (Close_store cfg (st, rs)) = {} \<and> Close_store cfg (Close_store cfg (st, rs)) = Close_store cfg (st, rs)"
proof (cases "backendFor registry cfg")
  case (Inr dr)
  show ?thesis
    using assms OpenPools_resources [where dr = dr and ok = ok and dir = dir and tmp = tmp and pid = pid and serial = serial and cfg = cfg] Inr
    by (auto simp: Open_store_def Close_store_def split: option.splits prod.splits sum.splits if_splits)
qed (use assms in \<open>auto simp: Open_store_def\<close>)

section \<open>The file that is opened\<close>

text \<open>SQLite reads the data source name up to the first question mark as the file's URI. For a path that
  is accepted, that is the path whose sidecar is locked: nothing in it is decoded, and it is no authority.\<close>

lemma accepted_path_opened:
  assumes "validPath path"
  shows "takeWhile (\<lambda>c. c \<noteq> CHR ''?'') (fileDSN path sync) = ''file:'' @ path" and "CHR 0x25 \<notin> set path" and "CHR 0x23 \<notin> set path"
    and "take 2 path \<noteq> ''//''"
proof -
  have upto: "CHR ''?'' \<notin> set p \<Longrightarrow> takeWhile (\<lambda>c. c \<noteq> CHR ''?'') (p @ CHR ''?'' # t) = p" for p t
    by (induction p) auto
  have "CHR ''?'' \<notin> set path" using assms by (auto simp: validPath_def list_ex_iff)
  then show "takeWhile (\<lambda>c. c \<noteq> CHR ''?'') (fileDSN path sync) = ''file:'' @ path"
    using upto [of path] by (simp add: fileDSN_def)
  show "CHR 0x25 \<notin> set path" "CHR 0x23 \<notin> set path" "take 2 path \<noteq> ''//''"
    using assms by (auto simp: validPath_def list_ex_iff)
qed

end
