(* ===== verification/Migrate.thy ===== *)
theory Migrate
  imports Sql
begin

text \<open>
  Bringing a database to the latest schema version (\<open>Store.migrate\<close> in \<open>schema.go\<close>). The effect of one
  DDL statement is the parameter \<open>ddl\<close>. Where statements are \<open>atomic\<close> (SQLite, PostgreSQL) an error rolls
  the transaction of its version back; MySQL commits at every DDL statement. \<open>sess\<close> is
  the outcome of the session lock for drivers that have one (MySQL), \<open>locks\<close> that of the lock of a
  version's transaction, and \<open>peer\<close> what other nodes commit before that lock is granted.
\<close>

record 'x migDB =
  mdSchema :: 'x
  mdApplied :: "(int \<times> time) list"

datatype migrateErr = NewerSchema int int | MigrateLocked | StatementFailed int | RecordFailed int

definition schemaVersion :: "'x migDB \<Rightarrow> int" where
  "schemaVersion d = fold (\<lambda>a m. max (fst a) m) (mdApplied d) 0"

text \<open>The statements up to the first that fails, and whether none failed.\<close>

fun execStatements :: "(string \<Rightarrow> 'x \<Rightarrow> 'x option) \<Rightarrow> string list \<Rightarrow> 'x \<Rightarrow> bool \<times> 'x" where
  "execStatements ddl [] x = (True, x)"
| "execStatements ddl (s # ss) x = (case ddl s x of None \<Rightarrow> (False, x) | Some y \<Rightarrow> execStatements ddl ss y)"

text \<open>The transaction of one version; the version is the primary key of \<open>schema_migrations\<close>.\<close>

definition applyMigration ::
  "(string \<Rightarrow> 'x \<Rightarrow> 'x option) \<Rightarrow> bool \<Rightarrow> time \<Rightarrow> migration \<Rightarrow> 'x migDB \<Rightarrow> migrateErr option \<times> 'x migDB" where
  "applyMigration ddl atomic now m d =
     (let (ok, x) = execStatements ddl (splitStatements (mSQL m)) (mdSchema d);
          rolledBack = (if atomic then d else d\<lparr>mdSchema := x\<rparr>)
      in if \<not> ok then (Some (StatementFailed (mVersion m)), rolledBack)
         else if List.member (map fst (mdApplied d)) (mVersion m) then (Some (RecordFailed (mVersion m)), rolledBack)
         else (None, \<lparr>mdSchema = x, mdApplied = mdApplied d @ [(mVersion m, now)]\<rparr>))"

fun migrateLoop ::
  "(string \<Rightarrow> 'x \<Rightarrow> 'x option) \<Rightarrow> bool \<Rightarrow> (int \<Rightarrow> bool) \<Rightarrow> (int \<Rightarrow> 'x migDB \<Rightarrow> 'x migDB) \<Rightarrow> time \<Rightarrow> int \<Rightarrow> migration list \<Rightarrow>
     'x migDB \<Rightarrow> migrateErr option \<times> 'x migDB" where
  "migrateLoop ddl atomic locks peer now version [] d = (None, d)"
| "migrateLoop ddl atomic locks peer now version (m # ms) d =
     (if mVersion m \<le> version then migrateLoop ddl atomic locks peer now version ms d
      else if \<not> locks (mVersion m) then (Some MigrateLocked, peer (mVersion m) d)
      else
        (case applyMigration ddl atomic now m (peer (mVersion m) d) of
           (Some e, d') \<Rightarrow> (Some e, d')
         | (None, d') \<Rightarrow> migrateLoop ddl atomic locks peer now version ms d'))"

definition migrate ::
  "(string \<Rightarrow> 'x \<Rightarrow> 'x option) \<Rightarrow> bool \<Rightarrow> bool option \<Rightarrow> (int \<Rightarrow> bool) \<Rightarrow> (int \<Rightarrow> 'x migDB \<Rightarrow> 'x migDB) \<Rightarrow> time \<Rightarrow> migration list \<Rightarrow>
     'x migDB \<Rightarrow> migrateErr option \<times> 'x migDB" where
  "migrate ddl atomic sess locks peer now ms d =
     (let version = schemaVersion d; newest = mVersion (last ms) in
      if version > newest then (Some (NewerSchema version newest), d)
      else if version \<ge> newest then (None, d)
      else
        (case sess of
           Some False \<Rightarrow> (Some MigrateLocked, d)
         | Some True \<Rightarrow> migrateLoop ddl atomic (\<lambda>_. True) peer now version ms d
         | None \<Rightarrow> migrateLoop ddl atomic locks peer now version ms d))"

section \<open>Whole versions\<close>

text \<open>The database is what the migrations up to a version make of an empty one.\<close>

fun migrated :: "(string \<Rightarrow> 'x \<Rightarrow> 'x option) \<Rightarrow> migration list \<Rightarrow> 'x \<Rightarrow> 'x option" where
  "migrated ddl [] x = Some x"
| "migrated ddl (m # ms) x =
     (case execStatements ddl (splitStatements (mSQL m)) x of (ok, y) \<Rightarrow> if ok then migrated ddl ms y else None)"

definition at_version :: "(string \<Rightarrow> 'x \<Rightarrow> 'x option) \<Rightarrow> 'x \<Rightarrow> migration list \<Rightarrow> 'x migDB \<Rightarrow> bool" where
  "at_version ddl x0 ms d \<longleftrightarrow> migrated ddl ms x0 = Some (mdSchema d) \<and> map fst (mdApplied d) = map mVersion ms"

abbreviation alone :: "int \<Rightarrow> 'x migDB \<Rightarrow> 'x migDB" where
  "alone \<equiv> (\<lambda>v d. d)"

lemma migrated_append:
  "migrated ddl (ms @ ns) x = (case migrated ddl ms x of None \<Rightarrow> None | Some y \<Rightarrow> migrated ddl ns y)"
  by (induction ms arbitrary: x) (simp_all split: prod.split)

lemma schemaVersion_fold: "schemaVersion d = fold max (map fst (mdApplied d)) 0"
  by (simp add: schemaVersion_def fold_map comp_def)

lemma last_greatest: "sorted_wrt (<) vs \<Longrightarrow> v \<in> set vs \<Longrightarrow> v \<le> last vs" for v :: int
  by (induction vs rule: rev_induct) (auto simp: sorted_wrt_append)

lemma schemaVersion_sorted:
  assumes "at_version ddl x0 ms d" and "sorted_wrt (<) (map mVersion ms)" and "\<And>m. m \<in> set ms \<Longrightarrow> 0 < mVersion m"
  shows "schemaVersion d = (if ms = [] then 0 else mVersion (last ms))"
proof -
  have "fold max vs (0 :: int) = (if vs = [] then 0 else last vs)" if "sorted_wrt (<) vs" "\<forall>v \<in> set vs. 0 < v" for vs
    using that
  proof (induction vs rule: rev_induct)
    case (snoc v vs)
    then have "vs \<noteq> [] \<Longrightarrow> last vs < v" by (simp add: sorted_wrt_append)
    with snoc show ?case by (simp add: sorted_wrt_append)
  qed simp
  from this [of "map mVersion ms"] show ?thesis
    using assms by (auto simp: schemaVersion_fold at_version_def last_map)
qed

text \<open>The loop over the versions that are not there yet, without other nodes.\<close>

lemma migrateLoop_skip:
  "\<forall>m \<in> set ms. mVersion m \<le> version \<Longrightarrow>
    migrateLoop ddl atomic locks peer now version (ms @ ns) d = migrateLoop ddl atomic locks peer now version ns d"
  by (induction ms) simp_all

lemma applyMigration_next:
  assumes "at_version ddl x0 ms d" and "mVersion m \<notin> set (map mVersion ms)"
  shows "(case applyMigration ddl True now m d of
    (Some e, d') \<Rightarrow> d' = d \<and> migrated ddl (ms @ [m]) x0 = None
  | (None, d') \<Rightarrow> at_version ddl x0 (ms @ [m]) d')"
  using assms by (auto simp: at_version_def applyMigration_def migrated_append List.member_iff Let_def split: prod.split)

lemma migrateLoop_prefix:
  assumes "at_version ddl x0 ms d" and "distinct (map mVersion (ms @ ns))" and "\<forall>m \<in> set ns. version < mVersion m"
    and "migrateLoop ddl True locks alone now version ns d = (e, d')"
  shows "\<exists>ks. at_version ddl x0 (ms @ take ks ns) d' \<and> (e = None \<longrightarrow> take ks ns = ns) \<and>
    ((\<forall>v. locks v) \<and> migrated ddl (ms @ ns) x0 \<noteq> None \<longrightarrow> e = None)"
  using assms
proof (induction ns arbitrary: ms d)
  case (Cons m ns)
  have new: "mVersion m \<notin> set (map mVersion ms)" using Cons.prems(2) by auto
  note next_ok = applyMigration_next [OF Cons.prems(1) new, of now]
  show ?case
  proof (cases "locks (mVersion m)")
    case False
    with Cons.prems(1,3,4) show ?thesis by (intro exI [of _ 0]) auto
  next
    case locked: True
    show ?thesis
    proof (cases "fst (applyMigration ddl True now m d)")
      case (Some x)
      then obtain d1 where "applyMigration ddl True now m d = (Some x, d1)" by (metis prod.collapse)
      with next_ok locked Cons.prems(1,3,4) show ?thesis
        by (intro exI [of _ 0]) (auto simp: migrated_append split: option.splits prod.splits)
    next
      case None
      then obtain d1 where a: "applyMigration ddl True now m d = (None, d1)" by (metis prod.collapse)
      then have "at_version ddl x0 (ms @ [m]) d1" using next_ok by simp
      from Cons.IH [OF this] Cons.prems(2-4) a locked obtain ks where "at_version ddl x0 (ms @ [m] @ take ks ns) d'"
        "e = None \<longrightarrow> take ks ns = ns" "(\<forall>v. locks v) \<and> migrated ddl (ms @ m # ns) x0 \<noteq> None \<longrightarrow> e = None" by auto
      then show ?thesis by (intro exI [of _ "Suc ks"]) simp
    qed
  qed
qed auto

lemma migrate_newest:
  assumes "at_version ddl x0 ms d" and "ValidateMigrations ms = None" and "\<And>m. m \<in> set ms \<Longrightarrow> 0 < mVersion m"
  shows "migrate ddl atomic sess locks peer now ms d = (None, d)"
  using assms schemaVersion_sorted [OF assms(1)] by (simp add: ValidateMigrations_None migrate_def)

lemma migrate_newer:
  "schemaVersion d > mVersion (last ms) \<Longrightarrow>
     migrate ddl atomic sess locks peer now ms d = (Some (NewerSchema (schemaVersion d) (mVersion (last ms))), d)"
  by (simp add: migrate_def Let_def)

theorem migrate_prefix:
  assumes valid: "ValidateMigrations (old @ new) = None" "\<And>m. m \<in> set (old @ new) \<Longrightarrow> 0 < mVersion m"
    and here: "at_version ddl x0 old d"
    and run: "migrate ddl True sess locks alone now (old @ new) d = (e, d')"
  shows "\<exists>ks. at_version ddl x0 (old @ take ks new) d' \<and> (e = None \<longrightarrow> take ks new = new) \<and>
    (sess \<noteq> Some False \<and> (\<forall>v. locks v) \<and> migrated ddl (old @ new) x0 \<noteq> None \<longrightarrow> e = None)"
proof (cases "new = []")
  case True
  with migrate_newest [OF here, of True sess locks alone now] valid run here show ?thesis by auto
next
  case False
  have sorted: "sorted_wrt (<) (map mVersion (old @ new))" using valid(1) by (simp add: ValidateMigrations_None)
  then have "sorted_wrt (<) (map mVersion old)" by (simp add: sorted_wrt_append)
  from schemaVersion_sorted [OF here this] valid(2) have v: "schemaVersion d = (if old = [] then 0 else mVersion (last old))" by simp
  have below: "\<forall>m \<in> set old. mVersion m \<le> schemaVersion d"
    using last_greatest [OF \<open>sorted_wrt (<) (map mVersion old)\<close>] by (auto simp: v last_map)
  have above: "\<forall>m \<in> set new. schemaVersion d < mVersion m"
    using sorted valid(2) last_in_set [of old] by (auto simp: v sorted_wrt_append)
  have newest: "schemaVersion d < mVersion (last (old @ new))" using above False by simp
  have dist: "distinct (map mVersion (old @ new))"
    using sorted strict_sorted_iff [of "map mVersion (old @ new)"] by simp
  show ?thesis
  proof (cases "sess = Some False")
    case True
    with run newest have "e = Some MigrateLocked" "d' = d" by (auto simp: migrate_def Let_def)
    with here True show ?thesis by (intro exI [of _ 0]) simp
  next
    case nf: False
    define locks' where "locks' = (if sess = None then locks else (\<lambda>_. True))"
    have run': "migrateLoop ddl True locks' alone now (schemaVersion d) new d = (e, d')"
      using run newest nf migrateLoop_skip [OF below, of ddl True locks' alone now new d]
      by (auto simp: migrate_def Let_def locks'_def split: option.splits bool.splits)
    have "(\<forall>v. locks v) \<Longrightarrow> (\<forall>v. locks' v)" by (auto simp: locks'_def)
    with migrateLoop_prefix [OF here dist above run'] show ?thesis by blast
  qed
qed

section \<open>Two nodes\<close>

text \<open>The version is read before the lock is taken and not read again: a node that waits for the lock
  while another node applies the version it is about to apply fails, whatever the statements are.\<close>

lemma migrate_raced:
  assumes "schemaVersion d < mVersion m" and "m \<in> set ms" and "ValidateMigrations ms = None"
    and "\<And>v d. mVersion m \<in> set (map fst (mdApplied (peer v d)))"
  shows "fst (migrate ddl atomic sess locks peer now ms d) \<noteq> None"
proof -
  have "fst (migrateLoop ddl atomic locks peer now v ns x) \<noteq> None" if "m \<in> set ns" "v < mVersion m" for locks v ns x
    using that
  proof (induction ns arbitrary: x)
    case (Cons n ns)
    have raced: "fst (applyMigration ddl atomic now m (peer v x)) \<noteq> None" for v x
      using assms(4) [of v x] by (auto simp: applyMigration_def List.member_iff Let_def split: prod.split)
    show ?case
    proof (cases "n = m")
      case True
      then show ?thesis using Cons.prems raced [of "mVersion m" x] by (auto split: prod.split option.split)
    next
      case False
      then show ?thesis using Cons by (auto split: prod.split option.split)
    qed
  qed simp
  moreover have "mVersion m \<le> mVersion (last ms)"
  proof -
    have "sorted_wrt (<) (map mVersion ms)" "ms \<noteq> []" using assms(3) by (simp_all add: ValidateMigrations_None)
    from last_greatest [OF this(1), of "mVersion m"] assms(2) have "mVersion m \<le> last (map mVersion ms)" by simp
    with \<open>ms \<noteq> []\<close> show ?thesis by (simp add: last_map)
  qed
  ultimately show ?thesis using assms(1,2) by (auto simp: migrate_def Let_def split: option.split bool.split)
qed

section \<open>MySQL\<close>

text \<open>Where a DDL statement commits, a version that fails at its second statement stays half applied, and
  the next start fails at its first: adding a column twice is an error.\<close>

definition addColumns :: "string \<Rightarrow> string list \<Rightarrow> string list option" where
  "addColumns s cols = (if s = ''bad'' \<or> List.member cols s then None else Some (cols @ [s]))"

lemma half_applied_version:
  "let ms = [\<lparr>mVersion = 1, mSQL = ''a;bad''\<rparr>]; d0 = \<lparr>mdSchema = [], mdApplied = []\<rparr>;
       (e1, d1) = migrate addColumns False (Some True) (\<lambda>_. True) alone 5 ms d0;
       fixed = (\<lambda>s cols. if s = ''bad'' then Some (cols @ [s]) else addColumns s cols)
   in e1 = Some (StatementFailed 1) \<and> mdSchema d1 = [''a''] \<and> mdApplied d1 = [] \<and>
     fst (migrate fixed False (Some True) (\<lambda>_. True) alone 6 ms d1) = Some (StatementFailed 1)"
  by code_simp

end
