(* ===== verification/Bus.thy ===== *)
theory Bus
  imports Views Engine
begin

text \<open>
  The in-process bus (\<open>internal/bus/bus.go\<close>) that hands the published transitions of an engine to its
  subscribers, and the relay of \<open>Quacker.Subscribe\<close> that turns them into the API's events
  (\<open>execution.go\<close>). A channel is its capacity and its buffered events, the oldest first; a
  subscription is known by its number. Receiving is a step of its own.
\<close>

record subscription =
  sbRun :: string
  sbCap :: nat
  sbBuf :: "busEvent list"
  sbLive :: bool

type_synonym bus = "subscription list"

definition Subscribe_bus :: "string \<Rightarrow> int \<Rightarrow> bus \<Rightarrow> nat \<times> bus" where
  "Subscribe_bus runID buffer b =
     (let cap = (if buffer \<le> 0 then 256 else buffer)
      in (length b, b @ [\<lparr>sbRun = runID, sbCap = nat cap, sbBuf = [], sbLive = True\<rparr>]))"

text \<open>The cancel function: the subscription is gone and its channel closed; what is buffered can still be
  received.\<close>

definition cancelSub :: "nat \<Rightarrow> bus \<Rightarrow> bus" where
  "cancelSub k b = (if k < length b then b[k := (b ! k)\<lparr>sbLive := False\<rparr>] else b)"

definition wants :: "busEvent \<Rightarrow> subscription \<Rightarrow> bool" where
  "wants ev s \<longleftrightarrow> sbLive s \<and> \<not> (sbRun s \<noteq> '''' \<and> sbRun s \<noteq> beRun ev)"

definition sendTo :: "busEvent \<Rightarrow> subscription \<Rightarrow> subscription" where
  "sendTo ev s = (if wants ev s then (if length (sbBuf s) < sbCap s then s\<lparr>sbBuf := sbBuf s @ [ev]\<rparr> else s) else s)"

definition Publish_bus :: "busEvent \<Rightarrow> bus \<Rightarrow> bus" where
  "Publish_bus ev b = map (sendTo ev) b"

text \<open>What a receive on a channel can do.\<close>

datatype received = Got busEvent | ChannelClosed | WouldBlock

definition receiveFrom :: "nat \<Rightarrow> bus \<Rightarrow> received \<times> bus" where
  "receiveFrom k b =
     (case sbBuf (b ! k) of
        ev # evs \<Rightarrow> (Got ev, b[k := (b ! k)\<lparr>sbBuf := evs\<rparr>])
      | [] \<Rightarrow> (if sbLive (b ! k) then WouldBlock else ChannelClosed, b))"

section \<open>The relay of the API\<close>

record Event =
  evRunID :: string
  evStep :: string
  evFrom :: status
  evTo :: status
  evAt :: "time option"
  evError :: string

definition apiEvent :: "busEvent \<Rightarrow> Event" where
  "apiEvent ev = \<lparr>evRunID = beRun ev, evStep = beStep ev, evFrom = beFrom ev, evTo = beTo ev,
     evAt = unixToTime (beAt ev), evError = beError ev\<rparr>"

text \<open>The goroutine between the two channels holds at most one event; \<open>out\<close> is closed when it ends.\<close>

record relay =
  rlHand :: "Event option"
  rlOut :: "Event list"
  rlClosed :: bool

definition Subscribe :: "string \<Rightarrow> bus \<Rightarrow> nat \<times> relay \<times> bus" where
  "Subscribe runID b =
     (let (k, b') = Subscribe_bus runID 256 b in (k, \<lparr>rlHand = None, rlOut = [], rlClosed = False\<rparr>, b'))"

definition relayStep :: "nat \<Rightarrow> relay \<times> bus \<Rightarrow> relay \<times> bus" where
  "relayStep k rb =
     (let (r, b) = rb in
      if rlClosed r then (r, b)
      else
        (case rlHand r of
           Some ev \<Rightarrow> if length (rlOut r) < 256 then (r\<lparr>rlHand := None, rlOut := rlOut r @ [ev]\<rparr>, b) else (r, b)
         | None \<Rightarrow>
             (case receiveFrom k b of
                (Got ev, b') \<Rightarrow> (r\<lparr>rlHand := Some (apiEvent ev)\<rparr>, b')
              | (ChannelClosed, b') \<Rightarrow> (r\<lparr>rlClosed := True\<rparr>, b')
              | (WouldBlock, b') \<Rightarrow> (r, b'))))"

definition takeEvent :: "relay \<Rightarrow> Event option \<times> relay" where
  "takeEvent r = (case rlOut r of [] \<Rightarrow> (None, r) | ev # evs \<Rightarrow> (Some ev, r\<lparr>rlOut := evs\<rparr>))"

section \<open>What a subscriber sees\<close>

text \<open>Everything that can happen around one subscriber, with what was offered to its channel and what
  the caller took.\<close>

datatype busOp = PublishOp busEvent | SubscribeOp string int | CancelOp nat | ReceiveOp nat | RelayOp | TakeOp

record watch =
  waBus :: bus
  waRelay :: relay
  waOffered :: "busEvent list"
  waTaken :: "Event list"

definition watchStep :: "nat \<Rightarrow> busOp \<Rightarrow> watch \<Rightarrow> watch" where
  "watchStep k oper w =
     (case oper of
        PublishOp ev \<Rightarrow> w\<lparr>waBus := Publish_bus ev (waBus w),
          waOffered := waOffered w @ (if wants ev (waBus w ! k) then [ev] else [])\<rparr>
      | SubscribeOp r n \<Rightarrow> w\<lparr>waBus := snd (Subscribe_bus r n (waBus w))\<rparr>
      | CancelOp j \<Rightarrow> w\<lparr>waBus := cancelSub j (waBus w)\<rparr>
      | ReceiveOp j \<Rightarrow> if j = k \<or> \<not> j < length (waBus w) then w else w\<lparr>waBus := snd (receiveFrom j (waBus w))\<rparr>
      | RelayOp \<Rightarrow> (case relayStep k (waRelay w, waBus w) of (r, b) \<Rightarrow> w\<lparr>waRelay := r, waBus := b\<rparr>)
      | TakeOp \<Rightarrow> (case takeEvent (waRelay w) of
            (None, r) \<Rightarrow> w
          | (Some ev, r) \<Rightarrow> w\<lparr>waRelay := r, waTaken := waTaken w @ [ev]\<rparr>))"

definition startWatch :: "string \<Rightarrow> bus \<Rightarrow> nat \<times> watch" where
  "startWatch runID b = (case Subscribe runID b of (k, r, b') \<Rightarrow> (k, \<lparr>waBus = b', waRelay = r, waOffered = [], waTaken = []\<rparr>))"

text \<open>The events on their way, the oldest first.\<close>

definition inTransit :: "nat \<Rightarrow> watch \<Rightarrow> Event list" where
  "inTransit k w = rlOut (waRelay w) @ (case rlHand (waRelay w) of None \<Rightarrow> [] | Some ev \<Rightarrow> [ev]) @
     map apiEvent (sbBuf (waBus w ! k))"

definition watch_inv :: "nat \<Rightarrow> watch \<Rightarrow> bool" where
  "watch_inv k w \<longleftrightarrow> k < length (waBus w) \<and> sbCap (waBus w ! k) = 256 \<and> length (sbBuf (waBus w ! k)) \<le> 256 \<and>
     length (rlOut (waRelay w)) \<le> 256 \<and>
     subseq (waTaken w @ inTransit k w) (map apiEvent (waOffered w)) \<and>
     (length (waOffered w) \<le> 256 \<longrightarrow> waTaken w @ inTransit k w = map apiEvent (waOffered w))"

lemma sub_Publish: "k < length b \<Longrightarrow> Publish_bus ev b ! k = sendTo ev (b ! k)"
  by (simp add: Publish_bus_def)

lemma sub_Subscribe: "k < length b \<Longrightarrow> snd (Subscribe_bus r n b) ! k = b ! k"
  by (simp add: Subscribe_bus_def nth_append)

lemma sub_cancel: "k < length b \<Longrightarrow> cancelSub j b ! k = (if j = k then (b ! k)\<lparr>sbLive := False\<rparr> else b ! k)"
  by (simp add: cancelSub_def nth_list_update)

lemma sub_receive_other: "j \<noteq> k \<Longrightarrow> snd (receiveFrom j b) ! k = b ! k"
  by (simp add: receiveFrom_def split: list.split)

lemma length_bus [simp]: "length (Publish_bus ev b) = length b" "length (cancelSub j b) = length b"
  "length (snd (Subscribe_bus r n b)) = Suc (length b)" "length (snd (receiveFrom j b)) = length b"
  by (simp_all add: Publish_bus_def cancelSub_def Subscribe_bus_def receiveFrom_def split: list.split)

text \<open>A step that leaves the subscriber's channel, relay and log alone.\<close>

lemma watch_inv_frame:
  assumes "watch_inv k w" and "k < length b" and "sbBuf (b ! k) = sbBuf (waBus w ! k)" and "sbCap (b ! k) = sbCap (waBus w ! k)"
  shows "watch_inv k (w\<lparr>waBus := b\<rparr>)"
  using assms by (simp add: watch_inv_def inTransit_def)

lemma watch_inv_publish:
  assumes "watch_inv k w"
  shows "watch_inv k (watchStep k (PublishOp ev) w)"
proof -
  let ?s = "waBus w ! k"
  have k: "k < length (waBus w)" and cap: "sbCap ?s = 256" using assms by (simp_all add: watch_inv_def)
  show ?thesis
  proof (cases "wants ev ?s")
    case False
    then show ?thesis using watch_inv_frame [OF assms, of "Publish_bus ev (waBus w)"] k
      by (simp add: watchStep_def sub_Publish sendTo_def)
  next
    case wants: True
    have len: "length (sbBuf ?s) \<le> length (waOffered w)" if "waTaken w @ inTransit k w = map apiEvent (waOffered w)"
      using arg_cong [OF that, of length] by (simp add: inTransit_def)
    show ?thesis
    proof (cases "length (sbBuf ?s) < 256")
      case True
      then have "inTransit k (watchStep k (PublishOp ev) w) = inTransit k w @ [apiEvent ev]"
        using wants k cap by (simp add: watchStep_def inTransit_def sub_Publish sendTo_def)
      with True assms wants k cap show ?thesis
        by (simp add: watch_inv_def watchStep_def sub_Publish sendTo_def del: append_assoc)
          (simp only: append_assoc [symmetric] list_emb_append_mono subseq_append' ; simp)
    next
      case False
      then have "inTransit k (watchStep k (PublishOp ev) w) = inTransit k w"
        using wants k cap by (simp add: watchStep_def inTransit_def sub_Publish sendTo_def)
      with False assms wants k cap len show ?thesis
        by (auto simp: watch_inv_def watchStep_def sub_Publish sendTo_def)
    qed
  qed
qed

lemma watch_inv_relay:
  assumes "watch_inv k w"
  shows "watch_inv k (watchStep k RelayOp w)"
proof -
  have k: "k < length (waBus w)" using assms by (simp add: watch_inv_def)
  obtain h out cl where r: "waRelay w = \<lparr>rlHand = h, rlOut = out, rlClosed = cl\<rparr>" by (cases "waRelay w")
  have same: "inTransit k (watchStep k RelayOp w) = inTransit k w"
    using k by (cases h; cases "sbBuf (waBus w ! k)")
      (auto simp: watchStep_def relayStep_def receiveFrom_def inTransit_def r Let_def split: if_splits)
  have "sbCap (waBus (watchStep k RelayOp w) ! k) = sbCap (waBus w ! k) \<and> length (waBus (watchStep k RelayOp w)) = length (waBus w) \<and>
      length (sbBuf (waBus (watchStep k RelayOp w) ! k)) \<le> length (sbBuf (waBus w ! k)) \<and>
      (length out \<le> 256 \<longrightarrow> length (rlOut (waRelay (watchStep k RelayOp w))) \<le> 256) \<and>
      waTaken (watchStep k RelayOp w) = waTaken w \<and> waOffered (watchStep k RelayOp w) = waOffered w"
    using k by (cases h; cases "sbBuf (waBus w ! k)")
      (auto simp: watchStep_def relayStep_def receiveFrom_def r Let_def split: if_splits)
  with same assms r show ?thesis by (simp add: watch_inv_def)
qed

lemma watch_inv_take:
  assumes "watch_inv k w"
  shows "watch_inv k (watchStep k TakeOp w)"
  using assms by (cases "rlOut (waRelay w)") (simp_all add: watchStep_def takeEvent_def watch_inv_def inTransit_def)

lemma watch_inv_step: "watch_inv k w \<Longrightarrow> watch_inv k (watchStep k oper w)"
proof (induction oper)
  case (PublishOp ev)
  then show ?case by (rule watch_inv_publish)
next
  case (SubscribeOp r n)
  then have "k < length (waBus w)" by (simp add: watch_inv_def)
  then show ?case using watch_inv_frame [OF SubscribeOp, of "snd (Subscribe_bus r n (waBus w))"]
    by (simp add: watchStep_def sub_Subscribe)
next
  case (CancelOp j)
  then have "k < length (waBus w)" by (simp add: watch_inv_def)
  then show ?case using watch_inv_frame [OF CancelOp, of "cancelSub j (waBus w)"]
    by (simp add: watchStep_def sub_cancel)
next
  case (ReceiveOp j)
  then have "k < length (waBus w)" by (simp add: watch_inv_def)
  then show ?case using watch_inv_frame [OF ReceiveOp, of "snd (receiveFrom j (waBus w))"] ReceiveOp
    by (simp add: watchStep_def sub_receive_other)
qed (rule watch_inv_relay watch_inv_take, assumption)+

lemma watch_inv_start: "startWatch runID b = (k, w) \<Longrightarrow> watch_inv k w"
  by (auto simp: startWatch_def Subscribe_def Subscribe_bus_def watch_inv_def inTransit_def Let_def)

lemma watch_inv_run: "watch_inv k w \<Longrightarrow> watch_inv k (fold (watchStep k) ops w)"
  by (induction ops arbitrary: w) (simp_all add: watch_inv_step)

text \<open>What is offered are the published transitions of the run, while the subscription lives.\<close>

lemma wants_iff: "wants ev s \<longleftrightarrow> sbLive s \<and> (sbRun s = [] \<or> sbRun s = beRun ev)"
  by (auto simp: wants_def)

theorem subscriber_in_order:
  assumes "startWatch runID b = (k, w0)" and "w = fold (watchStep k) ops w0"
  shows "subseq (waTaken w @ inTransit k w) (map apiEvent (waOffered w)) \<and>
    (length (waOffered w) \<le> 256 \<longrightarrow> waTaken w @ inTransit k w = map apiEvent (waOffered w)) \<and>
    length (inTransit k w) \<le> 513"
proof -
  have "watch_inv k w" using watch_inv_run [OF watch_inv_start [OF assms(1)]] assms(2) by simp
  then show ?thesis by (auto simp: watch_inv_def inTransit_def split: option.split)
qed

text \<open>A cancelled subscription gets nothing more.\<close>

lemma cancelled_gets_nothing: "k < length b \<Longrightarrow> Publish_bus ev (cancelSub k b) ! k = cancelSub k b ! k"
  by (simp add: sub_Publish sub_cancel sendTo_def wants_def)

text \<open>Publishing never waits: a full channel loses the new event.\<close>

lemma full_channel_drops:
  "k < length b \<Longrightarrow> length (sbBuf (b ! k)) = sbCap (b ! k) \<Longrightarrow> Publish_bus ev b ! k = b ! k"
  by (simp add: sub_Publish sendTo_def)

end
