(* ===== verification/Open.thy ===== *)
theory Open
  imports Storage Migrate Envelope Loops Bus
begin

text \<open>
  Opening and closing an engine (\<open>options.go\<close>, \<open>Open\<close> and \<open>Close\<close> of \<open>quacker.go\<close>). An option is a function on the
  configuration; \<open>Open\<close> applies them in order, picks the codec, opens the store, constructs the engine
  and starts it. A Go map of queues or rates is an association list; setting a key again replaces it.
  Of a plugin's hooks the one that the engine model calls is kept; loggers and callbacks are left out.
\<close>

section \<open>Storage options\<close>

record Storage =
  stDriver :: string
  stMode :: Mode
  stPath :: string
  stDSN :: string
  stDB :: bool
  stRecover :: bool

definition zeroStorage :: Storage where
  "zeroStorage = \<lparr>stDriver = [], stMode = ModeMemory, stPath = [], stDSN = [], stDB = False, stRecover = False\<rparr>"

definition Memory :: Storage where "Memory = zeroStorage\<lparr>stMode := ModeMemory\<rparr>"

definition Ephemeral :: Storage where "Ephemeral = zeroStorage\<lparr>stMode := ModeEphemeral, stRecover := True\<rparr>"

definition File :: "string \<Rightarrow> Storage" where
  "File path = zeroStorage\<lparr>stMode := ModeFile, stPath := path, stRecover := True\<rparr>"

definition Driver_named :: "string \<Rightarrow> string \<Rightarrow> Storage" where
  "Driver_named name dsn = zeroStorage\<lparr>stDriver := name, stDSN := dsn, stRecover := True\<rparr>"

definition Postgres_at :: "string \<Rightarrow> Storage" where
  "Postgres_at dsn = zeroStorage\<lparr>stDriver := ''postgres'', stDSN := dsn, stRecover := True\<rparr>"

definition WithDB :: "bool \<Rightarrow> Storage \<Rightarrow> Storage" where "WithDB db s = s\<lparr>stDB := db\<rparr>"

definition PostgresWithDB :: "bool \<Rightarrow> Storage" where "PostgresWithDB db = WithDB db (Postgres_at [])"

definition RecoverRunningOnBoot :: "bool \<Rightarrow> Storage \<Rightarrow> Storage" where
  "RecoverRunningOnBoot requeue s = s\<lparr>stRecover := requeue\<rparr>"

section \<open>The configuration\<close>

record ('c, 'h) config =
  cfStorage :: driverConfig
  cfCheckpointInterval :: time
  cfQueues :: "(string \<times> int) list"
  cfRates :: "(string \<times> int \<times> time) list"
  cfPoll :: time
  cfMiddleware :: "('h \<Rightarrow> 'h) list"
  cfWorkerLabels :: "string list"
  cfWorkerID :: string
  cfLeaseTTL :: time
  cfPlugins :: "(enqueueInfo \<Rightarrow> string option) list"
  cfCodec :: "'c option"
  cfPayloadKey :: "bytes option"
  cfLogStorage :: bool
  cfMetricsInterval :: time
  cfRetentions :: "RetentionPolicy list"

type_synonym ('c, 'h) Option = "('c, 'h) config \<Rightarrow> ('c, 'h) config"

definition driverConfigOf :: "Storage \<Rightarrow> driverConfig" where
  "driverConfigOf s = \<lparr>dcMode = stMode s, dcPath = stPath s, dcDSN = stDSN s, dcDB = stDB s, dcDriver = stDriver s,
     dcRecover = stRecover s, dcCheckpoint = 0\<rparr>"

definition defaultConfig :: "('c, 'h) config" where
  "defaultConfig = \<lparr>cfStorage = driverConfigOf Ephemeral, cfCheckpointInterval = 0, cfQueues = [], cfRates = [], cfPoll = 0,
     cfMiddleware = [], cfWorkerLabels = [], cfWorkerID = [], cfLeaseTTL = 0, cfPlugins = [], cfCodec = None,
     cfPayloadKey = None, cfLogStorage = False, cfMetricsInterval = 0, cfRetentions = []\<rparr>"

definition putKey :: "string \<Rightarrow> 'a \<Rightarrow> (string \<times> 'a) list \<Rightarrow> (string \<times> 'a) list" where
  "putKey k v ps = filter (\<lambda>p. fst p \<noteq> k) ps @ [(k, v)]"

definition WithStorage :: "Storage \<Rightarrow> ('c, 'h) Option" where "WithStorage s c = c\<lparr>cfStorage := driverConfigOf s\<rparr>"
definition WithQueue :: "string \<Rightarrow> int \<Rightarrow> ('c, 'h) Option" where "WithQueue name n c = c\<lparr>cfQueues := putKey name n (cfQueues c)\<rparr>"
definition WithRate :: "string \<Rightarrow> int \<Rightarrow> time \<Rightarrow> ('c, 'h) Option" where
  "WithRate queue n window c = c\<lparr>cfRates := putKey queue (n, window) (cfRates c)\<rparr>"
definition WithPollInterval :: "time \<Rightarrow> ('c, 'h) Option" where "WithPollInterval t c = c\<lparr>cfPoll := t\<rparr>"
definition WithCheckpointInterval :: "time \<Rightarrow> ('c, 'h) Option" where "WithCheckpointInterval t c = c\<lparr>cfCheckpointInterval := t\<rparr>"
definition WithMiddleware :: "('h \<Rightarrow> 'h) list \<Rightarrow> ('c, 'h) Option" where "WithMiddleware mw c = c\<lparr>cfMiddleware := cfMiddleware c @ mw\<rparr>"
definition WithWorkerLabels :: "string list \<Rightarrow> ('c, 'h) Option" where "WithWorkerLabels ls c = c\<lparr>cfWorkerLabels := cfWorkerLabels c @ ls\<rparr>"
definition WithWorkerID :: "string \<Rightarrow> ('c, 'h) Option" where "WithWorkerID i c = c\<lparr>cfWorkerID := i\<rparr>"
definition WithLeaseTTL :: "time \<Rightarrow> ('c, 'h) Option" where "WithLeaseTTL t c = c\<lparr>cfLeaseTTL := t\<rparr>"
definition WithLogStorage :: "bool \<Rightarrow> ('c, 'h) Option" where "WithLogStorage on c = c\<lparr>cfLogStorage := on\<rparr>"
definition WithMetricsInterval :: "time \<Rightarrow> ('c, 'h) Option" where "WithMetricsInterval t c = c\<lparr>cfMetricsInterval := t\<rparr>"
definition WithRetention :: "RetentionPolicy \<Rightarrow> ('c, 'h) Option" where "WithRetention p c = c\<lparr>cfRetentions := cfRetentions c @ [p]\<rparr>"
definition WithCodec :: "'c \<Rightarrow> ('c, 'h) Option" where "WithCodec x c = c\<lparr>cfCodec := Some x\<rparr>"
definition WithPayloadKey :: "bytes \<Rightarrow> ('c, 'h) Option" where "WithPayloadKey key c = c\<lparr>cfPayloadKey := Some key\<rparr>"
definition WithPlugin :: "(enqueueInfo \<Rightarrow> string option) option \<Rightarrow> ('c, 'h) Option" where
  "WithPlugin p c = (case p of None \<Rightarrow> c | Some f \<Rightarrow> c\<lparr>cfPlugins := cfPlugins c @ [f]\<rparr>)"

section \<open>Open and Close\<close>

datatype openError = KeyAndCodec | KeyError keyErr | StoreError storeErr

definition configOf :: "('c, 'h) Option list \<Rightarrow> ('c, 'h) config" where
  "configOf opts = fold (\<lambda>opt c. opt c) opts defaultConfig"

text \<open>\<open>enc\<close> is the encrypting codec of a cipher.\<close>

definition codecOf :: "(bytes \<Rightarrow> aead option) \<Rightarrow> (aead \<Rightarrow> 'c) \<Rightarrow> ('c, 'h) config \<Rightarrow> openError + 'c option" where
  "codecOf newGCM enc c =
     (case cfPayloadKey c of
        None \<Rightarrow> Inr (cfCodec c)
      | Some key \<Rightarrow>
          if cfCodec c \<noteq> None then Inl KeyAndCodec
          else (case NewEncryptedJSONCodec newGCM key of Inl e \<Rightarrow> Inl (KeyError e) | Inr ae \<Rightarrow> Inr (Some (enc ae))))"

definition engineOptions :: "'c option \<Rightarrow> ('c, 'h) config \<Rightarrow> ('c, 'h) options" where
  "engineOptions codec c = \<lparr>opPoll = cfPoll c, opMiddleware = cfMiddleware c, opBeforeEnqueue = cfPlugins c,
     opWorkerLabels = cfWorkerLabels c, opWorkerID = cfWorkerID c, opLeaseTTL = cfLeaseTTL c, opCodec = codec\<rparr>"

definition configureQueues :: "('c, 'h) config \<Rightarrow> ('c, 'h) engine \<Rightarrow> ('c, 'h) engine" where
  "configureQueues c e =
     fold (\<lambda>(name, n, window). SetRateLimit name n window) (cfRates c)
       (fold (\<lambda>(name, n). SetQueue name n) (cfQueues c) e)"

record ('c, 'h) Quacker =
  qkStore :: store
  qkEngine :: "('c, 'h) engine"

text \<open>What \<open>Open\<close> gets from its surroundings.\<close>

record ('c, 'h) surroundings =
  suRegistry :: "string \<Rightarrow> driver option"
  suMigrations :: "driver \<Rightarrow> migration list"
  suOK :: "call \<Rightarrow> bool"
  suDir :: "string \<Rightarrow> string"
  suTemp :: string
  suPid :: nat
  suSerial :: nat
  suGCM :: "bytes \<Rightarrow> aead option"
  suEnc :: "aead \<Rightarrow> 'c"
  suJSON :: 'c
  suParse :: "string \<Rightarrow> (time \<Rightarrow> time) option"
  suRandom :: string
  suNow :: time

definition storageConfig :: "('c, 'h) config \<Rightarrow> driverConfig" where
  "storageConfig c = (cfStorage c)\<lparr>dcCheckpoint := cfCheckpointInterval c\<rparr>"

definition Open ::
  "('c, 'h) surroundings \<Rightarrow> ('c, 'h) Option list \<Rightarrow> db \<Rightarrow> (openError + ('c, 'h) Quacker) \<times> resource set \<times> db" where
  "Open su opts d =
     (let c = configOf opts in
      case codecOf (suGCM su) (suEnc su) c of
        Inl e \<Rightarrow> (Inl e, {}, d)
      | Inr codec \<Rightarrow>
          (case Open_store (suRegistry su) (suMigrations su) (suOK su) (suDir su) (suTemp su) (suPid su) (suSerial su) (storageConfig c) of
             (Inl e, rs) \<Rightarrow> (Inl (StoreError e), rs, d)
           | (Inr st, rs) \<Rightarrow>
               let d1 = (if RecoverOnBoot (soDriver st) (storageConfig c)
                         then recoverInterrupted (dcRecover (storageConfig c)) (suNow su) d else d);
                   e1 = configureQueues c (newEngine (backendOf (soDriver st)) (suJSON su) (suRandom su) (engineOptions codec c));
                   (e2, d2) = Start (suParse su) (e1, d1)
               in (Inr \<lparr>qkStore = st, qkEngine = e2\<rparr>, rs, d2)))"

definition Close_quacker ::
  "driverConfig \<Rightarrow> (('c, 'h) engine \<times> db \<Rightarrow> ('c, 'h) engine \<times> db) \<Rightarrow> time \<Rightarrow> ('c, 'h) Quacker \<times> resource set \<times> db \<Rightarrow>
     ('c, 'h) Quacker \<times> resource set \<times> db" where
  "Close_quacker cfg drain now qrd =
     (let (q, rs, d) = qrd;
          (e, d') = Close (backendOf (soDriver (qkStore q))) drain now (qkEngine q, d);
          (st, rs') = Close_store cfg (qkStore q, rs)
      in (\<lparr>qkStore = st, qkEngine = e\<rparr>, rs', d'))"

section \<open>Laws\<close>

lemma snd_Start: "snd (Start parse (e, d)) = d"
  by (simp add: Start_def Let_def)

text \<open>A key and a codec exclude each other, in whatever order they are given.\<close>

lemma key_and_codec_refused:
  "cfPayloadKey (configOf opts) \<noteq> None \<Longrightarrow> cfCodec (configOf opts) \<noteq> None \<Longrightarrow> Open su opts d = (Inl KeyAndCodec, {}, d)"
  by (auto simp: Open_def codecOf_def Let_def split: option.splits)

text \<open>A failed \<open>Open\<close> changes no row and, but for a temporary file that could not be closed, holds nothing;
  an opened engine holds nothing after \<open>Close\<close>, and its database is as sound as the one it found.\<close>

theorem open_close:
  assumes "Open su opts d = (res, rs, d')" and "integrity d"
  shows "case res of
      Inl e \<Rightarrow> d' = d \<and> (e \<noteq> StoreError (PoolErr (CallFailed CloseTemp)) \<longrightarrow> rs = {})
    | Inr q \<Rightarrow> integrity d' \<and> fst (snd (Close_quacker (storageConfig (configOf opts)) drain now (q, rs, d'))) = {}"
proof (cases "codecOf (suGCM su) (suEnc su) (configOf opts)")
  case (Inl e)
  with assms(1) show ?thesis by (auto simp: Open_def)
next
  case (Inr codec)
  obtain sres rs' where o: "Open_store (suRegistry su) (suMigrations su) (suOK su) (suDir su) (suTemp su) (suPid su) (suSerial su)
      (storageConfig (configOf opts)) = (sres, rs')" by fastforce
  note leaks = store_leaks_nothing [OF o]
  show ?thesis
  proof (cases sres)
    case (Inl e)
    with assms(1) Inr o leaks show ?thesis by (auto simp: Open_def)
  next
    case (Inr st)
    let ?d1 = "if RecoverOnBoot (soDriver st) (storageConfig (configOf opts))
        then recoverInterrupted (dcRecover (storageConfig (configOf opts))) (suNow su) d else d"
    obtain e1 where "Open su opts d = (case Start (suParse su) (e1, ?d1) of (e2, d2) \<Rightarrow> (Inr \<lparr>qkStore = st, qkEngine = e2\<rparr>, rs', d2))"
      using \<open>codecOf _ _ _ = Inr codec\<close> o Inr by (simp add: Open_def Let_def)
    then obtain e2 where res: "res = Inr \<lparr>qkStore = st, qkEngine = e2\<rparr>" "rs = rs'" "d' = ?d1"
      using assms(1) snd_Start [of "suParse su" e1 ?d1] by (auto split: prod.splits)
    have "integrity d'" using assms(2) by (simp add: res(3) integrity_recoverInterrupted)
    moreover have "fst (snd (Close_quacker (storageConfig (configOf opts)) drain now (\<lparr>qkStore = st, qkEngine = e2\<rparr>, rs', d'))) = {}"
      using leaks Inr by (auto simp: Close_quacker_def Let_def split: prod.splits)
    ultimately show ?thesis using res by simp
  qed
qed

text \<open>The last \<open>WithQueue\<close> for a queue sets its concurrency.\<close>

lemma map_of_putKey: "map_of (putKey k v ps) j = (if j = k then Some v else map_of ps j)"
proof -
  have "map_of (filter (\<lambda>p. fst p \<noteq> k) ps) j = (if j = k then None else map_of ps j)" by (induction ps) auto
  then show ?thesis by (auto simp: putKey_def map_add_def split: option.split)
qed

lemma last_WithQueue: "map_of (cfQueues (configOf (opts @ [WithQueue q n]))) q = Some n"
  by (simp add: configOf_def WithQueue_def map_of_putKey)

end
