(* ===== verification/Hooks.thy ===== *)
theory Hooks
  imports Execute
begin

text \<open>
  Plugin hooks (\<open>internal/engine/hooks.go\<close>) and the run of a task's body between them
  (\<open>Engine.execute\<close>). A hook is a function of its context, the information it is given and the state of
  the plugins, which stands for everything a plugin may do; it may panic. The chains fix the order in
  which hooks are called, what a veto skips, and that a panic of an observing hook changes nothing.
\<close>

section \<open>Chains\<close>

datatype 'x hookEnd = HookReturns 'x "string option" | HookPanics string

type_synonym ('x, 'i, 's) beforeHook = "'x \<Rightarrow> 'i \<Rightarrow> 's \<Rightarrow> 'x hookEnd \<times> 's"

text \<open>An observing hook: the state, and the message of a panic.\<close>

type_synonym ('x, 'i, 's) afterHook = "'x \<Rightarrow> 'i \<Rightarrow> 's \<Rightarrow> string option \<times> 's"

definition callBefore :: "'x \<Rightarrow> ('s \<Rightarrow> 'x hookEnd \<times> 's) \<Rightarrow> 's \<Rightarrow> ('x \<times> string option) \<times> 's" where
  "callBefore ctx f s =
     (case f s of
        (HookReturns out err, s') \<Rightarrow> ((out, err), s')
      | (HookPanics m, s') \<Rightarrow> ((ctx, Some (''quacker: plugin hook panic: '' @ m)), s'))"

definition safeAfter :: "('s \<Rightarrow> string option \<times> 's) \<Rightarrow> 's \<Rightarrow> 's" where
  "safeAfter f s = snd (f s)"

fun beforeChain :: "('x, 'i, 's) beforeHook option list \<Rightarrow> 'x \<Rightarrow> 'i \<Rightarrow> 's \<Rightarrow> ('x \<times> string option) \<times> 's" where
  "beforeChain [] ctx info s = ((ctx, None), s)"
| "beforeChain (None # hs) ctx info s = beforeChain hs ctx info s"
| "beforeChain (Some f # hs) ctx info s =
     (case callBefore ctx (f ctx info) s of
        ((ctx', Some e), s') \<Rightarrow> ((ctx', Some e), s')
      | ((ctx', None), s') \<Rightarrow> beforeChain hs ctx' info s')"

definition afterChain :: "('x, 'i, 's) afterHook option list \<Rightarrow> 'x \<Rightarrow> 'i \<Rightarrow> 's \<Rightarrow> 's" where
  "afterChain hs ctx info s = fold (\<lambda>h s. case h of None \<Rightarrow> s | Some f \<Rightarrow> safeAfter (f ctx info) s) (rev hs) s"

section \<open>The hooks of an engine\<close>

record StepInfo =
  siRunID :: string
  siStep :: string
  siTask :: string
  siQueue :: string
  siAttempt :: int
  siKey :: string
  siLabels :: "string list"

record RunInfo =
  riRunID :: string
  riWorkflow :: string
  riStatus :: status
  riError :: string

record EmitInfo =
  eiEvent :: string

record ('x, 's) hooks =
  hkBeforeEnqueue :: "('x, enqueueInfo, 's) beforeHook option"
  hkAfterEnqueue :: "('x, enqueueInfo \<times> string option, 's) afterHook option"
  hkBeforeStep :: "('x, StepInfo, 's) beforeHook option"
  hkAfterStep :: "('x, StepInfo \<times> string option, 's) afterHook option"
  hkOnRunFinished :: "('x, RunInfo, 's) afterHook option"
  hkBeforeEmit :: "('x, EmitInfo, 's) beforeHook option"
  hkAfterEmit :: "('x, EmitInfo \<times> nat \<times> string option, 's) afterHook option"

definition runBeforeEnqueue :: "('x, 's) hooks list \<Rightarrow> 'x \<Rightarrow> enqueueInfo \<Rightarrow> 's \<Rightarrow> ('x \<times> string option) \<times> 's" where
  "runBeforeEnqueue gs = beforeChain (map hkBeforeEnqueue gs)"

definition afterEnqueue :: "('x, 's) hooks list \<Rightarrow> 'x \<Rightarrow> enqueueInfo \<Rightarrow> string option \<Rightarrow> 's \<Rightarrow> 's" where
  "afterEnqueue gs ctx info err = afterChain (map hkAfterEnqueue gs) ctx (info, err)"

definition afterEnqueueReverse :: "('x, 's) hooks list \<Rightarrow> 'x \<Rightarrow> enqueueInfo list \<Rightarrow> string option \<Rightarrow> 's \<Rightarrow> 's" where
  "afterEnqueueReverse gs ctx infos err s = fold (\<lambda>info. afterEnqueue gs ctx info err) (rev infos) s"

definition beforeStep :: "('x, 's) hooks list \<Rightarrow> 'x \<Rightarrow> StepInfo \<Rightarrow> 's \<Rightarrow> ('x \<times> string option) \<times> 's" where
  "beforeStep gs = beforeChain (map hkBeforeStep gs)"

definition afterStep :: "('x, 's) hooks list \<Rightarrow> 'x \<Rightarrow> StepInfo \<Rightarrow> string option \<Rightarrow> 's \<Rightarrow> 's" where
  "afterStep gs ctx info err = afterChain (map hkAfterStep gs) ctx (info, err)"

definition onRunFinished :: "('x, 's) hooks list \<Rightarrow> 'x \<Rightarrow> RunInfo \<Rightarrow> 's \<Rightarrow> 's" where
  "onRunFinished gs ctx info = afterChain (map hkOnRunFinished gs) ctx info"

definition beforeEmit :: "('x, 's) hooks list \<Rightarrow> 'x \<Rightarrow> EmitInfo \<Rightarrow> 's \<Rightarrow> ('x \<times> string option) \<times> 's" where
  "beforeEmit gs = beforeChain (map hkBeforeEmit gs)"

definition afterEmit :: "('x, 's) hooks list \<Rightarrow> 'x \<Rightarrow> EmitInfo \<Rightarrow> nat \<Rightarrow> string option \<Rightarrow> 's \<Rightarrow> 's" where
  "afterEmit gs ctx info dispatched err = afterChain (map hkAfterEmit gs) ctx (info, dispatched, err)"

section \<open>The body of a task\<close>

definition stepInfoOf :: "step \<Rightarrow> string \<Rightarrow> StepInfo" where
  "stepInfoOf st taskName = \<lparr>siRunID = sRunID st, siStep = sName st, siTask = taskName, siQueue = sQueue st,
     siAttempt = sAttempts st, siKey = sConcurrencyKey st, siLabels = sLabels st\<rparr>"

text \<open>How the wrapped handler ends: it returns an output or an error (and whether that error is the
  cancellation of its context), panics, or a durable helper unwinds it to suspend the step.\<close>

datatype bodyEnd = BodyReturns bytes | BodyFails string bool | BodyPanics string | BodySuspends

text \<open>\<open>stack\<close> is the text of the stack trace.\<close>

definition runBody ::
  "('x, 's) hooks list \<Rightarrow> string \<Rightarrow> 'x \<Rightarrow> step \<Rightarrow> string \<Rightarrow> ('x \<Rightarrow> bytes \<Rightarrow> 's \<Rightarrow> bodyEnd \<times> 's) \<Rightarrow> 's \<Rightarrow> taskEnd \<times> 's" where
  "runBody gs stack ctx st taskName handler s =
     (case beforeStep gs ctx (stepInfoOf st taskName) s of
        ((ctx', Some m), s1) \<Rightarrow> (TaskVetoed m, s1)
      | ((ctx', None), s1) \<Rightarrow>
          (case handler ctx' (sInput st) s1 of
             (BodySuspends, s2) \<Rightarrow> (TaskSuspended, s2)
           | (BodyReturns out, s2) \<Rightarrow> (TaskOk out, afterStep gs ctx' (stepInfoOf st taskName) None s2)
           | (BodyFails m canceled, s2) \<Rightarrow> (TaskError m canceled, afterStep gs ctx' (stepInfoOf st taskName) (Some m) s2)
           | (BodyPanics v, s2) \<Rightarrow>
               (let m = ''panic: '' @ v @ [CHR 0x0A] @ stack
                in (TaskError m False, afterStep gs ctx' (stepInfoOf st taskName) (Some m) s2))))"

section \<open>Order and vetoes\<close>

text \<open>A chain without vetoes threads the context through all hooks; a veto ends it.\<close>

lemma beforeChain_append:
  "beforeChain (hs @ ks) ctx info s =
     (case beforeChain hs ctx info s of
        ((ctx', Some e), s') \<Rightarrow> ((ctx', Some e), s')
      | ((ctx', None), s') \<Rightarrow> beforeChain ks ctx' info s')"
  by (induction hs ctx info s rule: beforeChain.induct) (auto split: prod.splits option.splits)

lemma afterChain_append: "afterChain (hs @ ks) ctx info s = afterChain hs ctx info (afterChain ks ctx info s)"
  by (simp add: afterChain_def)

text \<open>A hook that logs its call, whatever it does besides: each of the observing hooks is called once, the
  last registered one first, also when others panic.\<close>

definition logs_after :: "nat \<Rightarrow> ('x, 'i, nat list) afterHook option \<Rightarrow> bool" where
  "logs_after n h \<longleftrightarrow> (case h of None \<Rightarrow> False | Some f \<Rightarrow> \<forall>ctx info s. snd (f ctx info s) = s @ [n])"

lemma afterChain_calls_all:
  assumes "\<And>i. i < length hs \<Longrightarrow> logs_after i (hs ! i)"
  shows "afterChain hs ctx info s = s @ rev [0..<length hs]"
  using assms
proof (induction hs arbitrary: s rule: rev_induct)
  case (snoc h hs)
  have "logs_after (length hs) h" using snoc.prems [of "length hs"] by simp
  then have "afterChain [h] ctx info s = s @ [length hs]"
    by (auto simp: logs_after_def afterChain_def safeAfter_def split: option.splits)
  moreover have "afterChain hs ctx info t = t @ rev [0..<length hs]" for t
    using snoc.prems by (intro snoc.IH) (metis less_SucI length_append_singleton nth_append)
  ultimately show ?case by (simp add: afterChain_append)
qed (simp add: afterChain_def)

text \<open>A before-hook that logs its call.\<close>

definition logs_before :: "nat \<Rightarrow> ('x, 'i, nat list) beforeHook option \<Rightarrow> bool" where
  "logs_before n h \<longleftrightarrow> (case h of None \<Rightarrow> False | Some f \<Rightarrow> \<forall>ctx info s. snd (f ctx info s) = s @ [n])"

lemma beforeChain_calls:
  assumes "\<And>i. i < length hs \<Longrightarrow> logs_before (n + i) (hs ! i)"
  shows "\<exists>k \<le> length hs. snd (beforeChain hs ctx info s) = s @ [n..<n + k] \<and>
    (snd (fst (beforeChain hs ctx info s)) = None \<longrightarrow> k = length hs)"
  using assms
proof (induction hs arbitrary: ctx s n)
  case (Cons h hs)
  obtain f where f: "h = Some f" "\<And>ctx info s. snd (f ctx info s) = s @ [n]"
    using Cons.prems [of 0] by (auto simp: logs_before_def split: option.splits)
  have rest: "logs_before (Suc n + i) (hs ! i)" if "i < length hs" for i using Cons.prems [of "Suc i"] that by simp
  obtain c e s' where call: "callBefore ctx (f ctx info) s = ((c, e), s')"
    by (cases "callBefore ctx (f ctx info) s"; cases "fst (callBefore ctx (f ctx info) s)") simp
  have s': "s' = s @ [n]" using f(2) [of ctx info s] call
    by (auto simp: callBefore_def split: prod.splits hookEnd.splits)
  show ?case
  proof (cases e)
    case (Some x)
    then show ?thesis using call s' by (intro exI [of _ 1]) (simp add: f(1))
  next
    case None
    have "\<exists>k \<le> length hs. snd (beforeChain hs c info s') = s' @ [Suc n..<Suc n + k] \<and>
        (snd (fst (beforeChain hs c info s')) = None \<longrightarrow> k = length hs)" by (rule Cons.IH) (rule rest)
    then obtain k where k: "k \<le> length hs"
      "snd (beforeChain hs c info s') = s' @ [Suc n..<Suc n + k]"
      "snd (fst (beforeChain hs c info s')) = None \<longrightarrow> k = length hs" by (elim exE conjE) (rule that)
    have "[n..<Suc (n + k)] = n # [Suc n..<Suc (n + k)]" by (simp add: upt_rec)
    with k call None s' show ?thesis by (intro exI [of _ "Suc k"]) (simp add: f(1) del: upt_Suc)
  qed
qed auto

text \<open>A vetoed step never runs its task, and no \<open>AfterStep\<close> hook sees it; a step that suspends is not seen
  either.\<close>

lemma vetoed_body_not_run:
  "beforeStep gs ctx (stepInfoOf st taskName) s = ((c, Some m), s1) \<Longrightarrow>
     runBody gs stack ctx st taskName handler s = (TaskVetoed m, s1)"
  by (simp add: runBody_def)

text \<open>How a body ended is decided by its handler, whatever the observing hooks do.\<close>

lemma after_hooks_keep_outcome:
  "fst (runBody gs stack ctx st taskName handler s) =
     fst (runBody (map (\<lambda>h. h\<lparr>hkAfterStep := None\<rparr>) gs) stack ctx st taskName handler s)"
  by (simp add: runBody_def beforeStep_def comp_def Let_def split: prod.split option.split bodyEnd.split)

end
