(* ===== verification/Steplog.thy ===== *)
theory Steplog
  imports Loops Tasks
begin

text \<open>
  What a task body finds in its context (\<open>internal/engine/stepctx.go\<close>): the outputs of its
  dependencies, and the logger whose lines go to the sinks of its engine. Also the debug stream of an
  engine (\<open>internal/engine/debug.go\<close>). A sink is a function on the state of the sinks; formatting of
  durations, times, floats and arbitrary values is a parameter.
\<close>

section \<open>The context of a step\<close>

record StepContext =
  scRunID :: string
  scStep :: string
  scTask :: string
  scAttempt :: int

record ('c, 's) taskScope =
  tsContext :: StepContext
  tsDepOutputs :: "string \<Rightarrow> bytes option"
  tsSend :: "(logEntry \<Rightarrow> 's \<Rightarrow> 's) option"
  tsCodec :: 'c
  tsState :: stepState

definition withStepContext ::
  "step \<Rightarrow> (string \<Rightarrow> bytes option) \<Rightarrow> (logEntry \<Rightarrow> 's \<Rightarrow> 's) \<Rightarrow> journalEntry list \<Rightarrow> ('c, 'h) engine \<Rightarrow> ('c, 's) taskScope" where
  "withStepContext st outs send js e =
     \<lparr>tsContext = \<lparr>scRunID = sRunID st, scStep = sName st, scTask = (if sTask st = [] then sName st else sTask st),
        scAttempt = sAttempts st\<rparr>,
      tsDepOutputs = outs, tsSend = Some send, tsCodec = enCodec e,
      tsState = \<lparr>ssStepID = sID st, ssJournal = js, ssCursor = 0\<rparr>\<rparr>"

definition StepFromContext :: "('c, 's) taskScope option \<Rightarrow> StepContext option" where
  "StepFromContext ts = map_option tsContext ts"

datatype depErr = NoStepContext string | NoRecordedOutput string | DecodeDep string

definition DepOutput :: "('c, 'a) payload \<Rightarrow> ('c, 's) taskScope option \<Rightarrow> string \<Rightarrow> depErr + 'a" where
  "DepOutput pl ts name =
     (case ts of
        None \<Rightarrow> Inl (NoStepContext name)
      | Some x \<Rightarrow>
          (case tsDepOutputs x name of
             None \<Rightarrow> Inl (NoRecordedOutput name)
           | Some raw \<Rightarrow> (case plUnmarshal pl (tsCodec x) raw of None \<Rightarrow> Inl (DecodeDep name) | Some v \<Rightarrow> Inr v)))"

definition WithLogSink :: "(logEntry \<Rightarrow> 's \<Rightarrow> 's) option \<Rightarrow> ('c, 's) taskScope option \<Rightarrow> ('c, 's) taskScope option" where
  "WithLogSink fn ts = (case fn of None \<Rightarrow> ts | Some f \<Rightarrow> map_option (\<lambda>x. x\<lparr>tsSend := Some f\<rparr>) ts)"

section \<open>Log lines\<close>

definition intText :: "int \<Rightarrow> string" where
  "intText n = (if n < 0 then CHR ''-'' # decimal (nat (- n)) else decimal (nat n))"

text \<open>\<open>slog.Level.String\<close>: the nearest named level below and the distance to it.\<close>

definition levelText :: "int \<Rightarrow> string" where
  "levelText l =
     (let str = (\<lambda>base n. if n = 0 then base else base @ (if n > 0 then ''+'' else []) @ intText n) in
      if l < 0 then str ''DEBUG'' (l + 4) else if l < 4 then str ''INFO'' l
      else if l < 8 then str ''WARN'' (l - 4) else str ''ERROR'' (l - 8))"

datatype 'v logValue = StringValue string | IntValue int | DurationValue int | TimeValue int | FloatValue 'v | AnyValue 'v
  | LogValuer "'v logValue"

record 'v valueTexts =
  vtDuration :: "int \<Rightarrow> string"
  vtTime :: "int \<Rightarrow> string"
  vtFloat :: "'v \<Rightarrow> string"
  vtAny :: "'v \<Rightarrow> string"

fun valueString :: "'v valueTexts \<Rightarrow> 'v logValue \<Rightarrow> string" where
  "valueString vt (LogValuer v) = valueString vt v"
| "valueString vt (StringValue s) = s"
| "valueString vt (IntValue n) = intText n"
| "valueString vt (DurationValue n) = vtDuration vt n"
| "valueString vt (TimeValue n) = vtTime vt n"
| "valueString vt (FloatValue v) = vtFloat vt v"
| "valueString vt (AnyValue v) = vtAny vt v"

type_synonym 'v attr = "string \<times> 'v logValue"

record 'v logRecord =
  lrLevel :: int
  lrMessage :: string
  lrAttrs :: "'v attr list"
  lrTime :: "time option"

record ('c, 's, 'v) logHandler =
  lhScope :: "('c, 's) taskScope"
  lhAttrs :: "'v attr list"

text \<open>The logger of a task, or nothing where the code falls back to the default logger.\<close>

definition TaskLogger :: "('c, 's) taskScope option \<Rightarrow> ('c, 's, 'v) logHandler option" where
  "TaskLogger ts = (case ts of None \<Rightarrow> None | Some x \<Rightarrow>
     if tsSend x = None then None else Some \<lparr>lhScope = x, lhAttrs = []\<rparr>)"

definition WithAttrs :: "'v attr list \<Rightarrow> ('c, 's, 'v) logHandler \<Rightarrow> ('c, 's, 'v) logHandler" where
  "WithAttrs as h = h\<lparr>lhAttrs := lhAttrs h @ as\<rparr>"

definition attrText :: "'v valueTexts \<Rightarrow> 'v attr \<Rightarrow> string" where
  "attrText vt a = '' '' @ fst a @ ''='' @ valueString vt (snd a)"

definition lineOf :: "'v valueTexts \<Rightarrow> time \<Rightarrow> ('c, 's, 'v) logHandler \<Rightarrow> 'v logRecord \<Rightarrow> logEntry" where
  "lineOf vt now h r =
     \<lparr>lRunID = scRunID (tsContext (lhScope h)), lStep = scStep (tsContext (lhScope h)), lAt = now,
      lLevel = levelText (lrLevel r),
      lMessage = lrMessage r @ concat (map (attrText vt) (lhAttrs h)) @ concat (map (attrText vt) (lrAttrs r))\<rparr>"

definition Handle :: "'v valueTexts \<Rightarrow> time \<Rightarrow> ('c, 's, 'v) logHandler \<Rightarrow> 'v logRecord \<Rightarrow> 's \<Rightarrow> 's" where
  "Handle vt now h r s = (case tsSend (lhScope h) of None \<Rightarrow> s | Some send \<Rightarrow> send (lineOf vt now h r) s)"

section \<open>The sinks of an engine\<close>

definition logSend :: "(logEntry \<Rightarrow> 's \<Rightarrow> 's) list \<Rightarrow> logEntry \<Rightarrow> 's \<Rightarrow> 's" where
  "logSend sinks entry s = fold (\<lambda>sink. sink entry) sinks s"

definition sinkLevel :: "string \<Rightarrow> int" where
  "sinkLevel l = (if l = ''DEBUG'' then -4 else if l = ''WARN'' then 4 else if l = ''ERROR'' then 8 else 0)"

text \<open>The configured sink, the storage and, when there is neither, the engine's logger.\<close>

definition engineSinks :: "(logEntry \<Rightarrow> 's \<Rightarrow> 's) option \<Rightarrow> bool \<Rightarrow> (logEntry \<Rightarrow> 's \<Rightarrow> 's) \<Rightarrow> (int \<Rightarrow> logEntry \<Rightarrow> 's \<Rightarrow> 's) \<Rightarrow> (logEntry \<Rightarrow> 's \<Rightarrow> 's) list" where
  "engineSinks custom storage storageSink slogSink =
     (let sinks = (case custom of None \<Rightarrow> [] | Some f \<Rightarrow> [f]) @ (if storage then [storageSink] else [])
      in if length sinks = 0 then [\<lambda>entry. slogSink (sinkLevel (lLevel entry)) entry] else sinks)"

text \<open>A warning for each unregistered task, once.\<close>

definition warnUnknownTask :: "string \<Rightarrow> string set \<Rightarrow> bool \<times> string set" where
  "warnUnknownTask name warned = (name \<notin> warned, insert name warned)"

section \<open>The debug stream\<close>

definition debugBuffer :: nat where "debugBuffer = 1024"

record DebugRecord =
  dbAt :: "time option"
  dbLevel :: string
  dbMessage :: string
  dbAttrs :: "string \<Rightarrow> string option"

record debugStream =
  dsChan :: "DebugRecord list"
  dsClosed :: bool

definition debugSend :: "time \<Rightarrow> DebugRecord \<Rightarrow> debugStream \<Rightarrow> debugStream" where
  "debugSend now r ds =
     (if dsClosed ds then ds
      else
        let r' = (if dbAt r = None then r\<lparr>dbAt := Some now\<rparr> else r) in
        if length (dsChan ds) < debugBuffer then ds\<lparr>dsChan := dsChan ds @ [r']\<rparr> else ds)"

text \<open>Attributes of the handler, then those of the record; a later one with the same key wins.\<close>

definition debugRecordOf :: "'v valueTexts \<Rightarrow> 'v attr list \<Rightarrow> 'v logRecord \<Rightarrow> DebugRecord" where
  "debugRecordOf vt attrs r =
     \<lparr>dbAt = lrTime r, dbLevel = levelText (lrLevel r), dbMessage = lrMessage r,
      dbAttrs = fold (\<lambda>a m. m(fst a \<mapsto> valueString vt (snd a))) (attrs @ lrAttrs r) Map.empty\<rparr>"

definition debugHandle :: "'v valueTexts \<Rightarrow> time \<Rightarrow> 'v attr list \<Rightarrow> 'v logRecord \<Rightarrow> debugStream \<Rightarrow> debugStream" where
  "debugHandle vt now attrs r ds = debugSend now (debugRecordOf vt attrs r) ds"

text \<open>A handler is which levels it takes and what it does.\<close>

record ('v, 's) slogHandler =
  shEnabled :: "int \<Rightarrow> bool"
  shHandle :: "'v logRecord \<Rightarrow> 's \<Rightarrow> 's"

definition fanoutHandler :: "('v, 's) slogHandler \<Rightarrow> ('v, 's) slogHandler \<Rightarrow> ('v, 's) slogHandler" where
  "fanoutHandler a b =
     \<lparr>shEnabled = (\<lambda>l. shEnabled a l \<or> shEnabled b l),
      shHandle = (\<lambda>r s. let s1 = (if shEnabled a (lrLevel r) then shHandle a r s else s)
        in if shEnabled b (lrLevel r) then shHandle b r s1 else s1)\<rparr>"

section \<open>Dependencies have outputs\<close>

lemma fold_outputs:
  "fold (\<lambda>s m. m(sName s \<mapsto> sOutput s)) ss m n \<noteq> None \<longleftrightarrow> m n \<noteq> None \<or> n \<in> sName ` set ss"
  by (induction ss arbitrary: m) auto

lemma GetStepOutputs_some:
  "GetStepOutputs i names d n \<noteq> None \<longleftrightarrow>
     n \<in> set names \<and> (\<exists>s \<in> set (steps d). sRunID s = i \<and> sName s = n \<and> sStatus s = Succeeded)"
  unfolding GetStepOutputs_def fold_outputs by (auto simp: List.member_iff)

text \<open>A body that runs finds an output for every dependency of its step.\<close>

lemma running_step_has_dep_outputs:
  assumes "integrity d" and "st \<in> set (steps d)" and "sStatus st = Running" and "n \<in> set (sDependsOn st)"
  shows "GetStepOutputs (sRunID st) (sDependsOn st) d n \<noteq> None"
proof -
  have "dep_ok d st" using assms(1-3) by (simp add: integrity_def deps_met_def)
  then show ?thesis using assms(4) unfolding GetStepOutputs_some by (auto simp: dep_ok_def)
qed

lemma dep_output_decodes:
  assumes "integrity d" and "st \<in> set (steps d)" and "sStatus st = Running" and "n \<in> set (sDependsOn st)"
    and "ts = withStepContext st (GetStepOutputs (sRunID st) (sDependsOn st) d) send js e"
  shows "\<exists>out. GetStepOutputs (sRunID st) (sDependsOn st) d n = Some out \<and>
    DepOutput pl (Some ts) n = (case plUnmarshal pl (enCodec e) out of None \<Rightarrow> Inl (DecodeDep n) | Some v \<Rightarrow> Inr v)"
  using running_step_has_dep_outputs [OF assms(1-4)] by (auto simp: assms(5) DepOutput_def withStepContext_def)

text \<open>A line of a task's logger carries the run and the step, and goes to the engine's sinks, each once.\<close>

lemma task_line_reaches_sinks:
  assumes "TaskLogger (Some (withStepContext st outs (logSend sinks) js e)) = Some h"
  shows "Handle vt now h r s = fold (\<lambda>sink. sink (lineOf vt now h r)) sinks s \<and>
    lRunID (lineOf vt now h r) = sRunID st \<and> lStep (lineOf vt now h r) = sName st"
  using assms by (auto simp: TaskLogger_def withStepContext_def Handle_def logSend_def lineOf_def)

text \<open>The levels that tasks use survive the way through the engine's logger.\<close>

lemma sinkLevel_levelText: "l \<in> {-4, 0, 4, 8} \<Longrightarrow> sinkLevel (levelText l) = l"
  by (auto simp: sinkLevel_def levelText_def)

lemma debugSend_bound: "length (dsChan ds) \<le> debugBuffer \<Longrightarrow> length (dsChan (debugSend now r ds)) \<le> debugBuffer"
  by (simp add: debugSend_def Let_def)

end
