(* ===== verification/Api.thy ===== *)
theory Api
  imports Steplog Views Engine_Control
begin

text \<open>
  The remaining calls of the public API (\<open>quacker.go\<close>, \<open>execution.go\<close>, \<open>events.go\<close>, \<open>logs.go\<close>,
  \<open>internal/engine/cron.go\<close>): reading crons, logs and events, emitting, snoozing for a duration, waiting
  for a run with a context that may expire.
\<close>

section \<open>Crons\<close>

record CronInfo =
  ciName :: string
  ciSpec :: string
  ciTask :: string
  ciNext :: "time option"

definition cronInfo :: "string \<times> cronEntry \<Rightarrow> CronInfo" where
  "cronInfo p = \<lparr>ciName = fst p, ciSpec = ceSpec (snd p), ciTask = ceTask (snd p), ciNext = ceNext (snd p)\<rparr>"

text \<open>\<open>sort.Slice\<close> by name; names are unique over both maps, so the order of equal ones does not arise.\<close>

definition Crons :: "('c, 'h) engine \<Rightarrow> CronInfo list" where
  "Crons e = sort_key ciName (map cronInfo (enCrons e) @ map cronInfo (enPendingCrons e))"

section \<open>Logs and events\<close>

record LogEntry =
  leRunID :: string
  leStep :: string
  leAt :: "time option"
  leLevel :: string
  leMessage :: string

definition apiLogEntry :: "logEntry \<Rightarrow> LogEntry" where
  "apiLogEntry l = \<lparr>leRunID = lRunID l, leStep = lStep l, leAt = unixToTime (lAt l), leLevel = lLevel l, leMessage = lMessage l\<rparr>"

definition Logs :: "string \<Rightarrow> int \<Rightarrow> db \<Rightarrow> LogEntry list" where
  "Logs runID limit d = map apiLogEntry (GetLogs runID limit d)"

text \<open>A sink of the API's entries in the context of a task.\<close>

definition WithLogSink_api :: "(LogEntry \<Rightarrow> 's \<Rightarrow> 's) option \<Rightarrow> ('c, 's) taskScope option \<Rightarrow> ('c, 's) taskScope option" where
  "WithLogSink_api fn ts = (case fn of None \<Rightarrow> ts | Some f \<Rightarrow> WithLogSink (Some (\<lambda>l. f (apiLogEntry l))) ts)"

record EventRecord =
  erName :: string
  erPayload :: bytes
  erAt :: "time option"

definition Events :: "int \<Rightarrow> db \<Rightarrow> EventRecord list" where
  "Events limit d = map (\<lambda>e. \<lparr>erName = eName e, erPayload = ePayload e, erAt = unixToTime (eCreatedAt e)\<rparr>) (ListEvents limit d)"

datatype emitErr = MarshalEvent | EmitErr engineErr

definition Emit_event ::
  "backend \<Rightarrow> (nat \<Rightarrow> db \<Rightarrow> db) \<Rightarrow> (string \<Rightarrow> string option) \<Rightarrow> time \<Rightarrow> ('c, 'p) payload \<Rightarrow> string \<Rightarrow> 'p \<Rightarrow> (nat \<Rightarrow> string) \<Rightarrow>
     ('c, 'h) engine \<times> db \<Rightarrow> (nat \<times> emitErr option) \<times> ('c, 'h) engine \<times> db" where
  "Emit_event be others veto now pl event x rnds ed =
     (case plMarshal pl (enCodec (fst ed)) x of
        None \<Rightarrow> ((0, Some MarshalEvent), ed)
      | Some raw \<Rightarrow>
          (case Emit be others veto now event raw rnds ed of
             ((n, e), ed') \<Rightarrow> ((n, map_option EmitErr e), ed')))"

section \<open>Runs\<close>

definition SnoozeFor :: "string \<Rightarrow> time \<Rightarrow> time \<Rightarrow> ('c, 'h) engine \<times> db \<Rightarrow> err option \<times> ('c, 'h) engine \<times> db" where
  "SnoozeFor runID duration now ed = Snooze_run runID (now + duration) ed"

text \<open>Waiting for a handle: its result when the run was released, the context's error when it expired; when
  both are ready Go picks either, which \<open>first\<close> decides.\<close>

datatype waitEnd = WaitEnded "status option" bytes "waitErr option" | ContextExpired | StillWaiting

definition Wait :: "bool \<Rightarrow> bool \<Rightarrow> waiter \<Rightarrow> waitEnd" where
  "Wait ctxDone first w =
     (case w of
        Released st out err \<Rightarrow> if ctxDone \<and> \<not> first then ContextExpired else WaitEnded st out err
      | Waiting \<Rightarrow> if ctxDone then ContextExpired else StillWaiting)"

section \<open>Laws\<close>

lemma Crons_all: "set (Crons e) = cronInfo ` (set (enCrons e) \<union> set (enPendingCrons e)) \<and>
    length (Crons e) = length (enCrons e) + length (enPendingCrons e)"
  by (simp add: Crons_def image_Un)

lemma Crons_sorted: "sorted (map ciName (Crons e))"
  by (simp add: Crons_def)

text \<open>Logs are at most as many as asked for, all of the run, and oldest first.\<close>

lemma Logs_bound: "0 < limit \<Longrightarrow> length (Logs runID limit d) \<le> nat limit"
  by (simp add: Logs_def GetLogs_def Let_def)

lemma Logs_of_run: "l \<in> set (Logs runID limit d) \<Longrightarrow> leRunID l = runID"
  by (auto simp: Logs_def GetLogs_def Let_def apiLogEntry_def dest!: in_set_takeD)

text \<open>The payload that is persisted with an event is what the codec wrote, and an event that cannot be
  encoded leaves no trace.\<close>

lemma Emit_event_unencoded:
  "plMarshal pl (enCodec (fst ed)) x = None \<Longrightarrow> snd (Emit_event be others veto now pl event x rnds ed) = ed"
  by (simp add: Emit_event_def)

lemma Events_newest: "0 < limit \<Longrightarrow> length (Events limit d) \<le> nat limit"
  by (simp add: Events_def ListEvents_def)

end
