(* ===== verification/Storage_Theorems.thy ===== *)
theory Storage_Theorems
  imports Rows_Laws Open Hooks Api Sample
begin

text \<open>
  The properties of the storage layer and of what surrounds an engine: schemas and migrations, the
  single-writer lock, placeholders, subscriptions. Each with hypotheses has a witness at a concrete input.
\<close>

section \<open>Schemas\<close>


text \<open>C12: migrating stops at whole versions. Where DDL is transactional (SQLite, PostgreSQL) and no other
  node interferes, a migration of a database at some version of a valid list ends, with whatever error,
  at a later or the same version of the list; it succeeds when every lock is granted and every statement
  applies; and after a success the database is at the newest version, where migrating again does nothing.\<close>

theorem migrate_whole_versions:
  assumes "ValidateMigrations (old @ new) = None" and "\<And>m. m \<in> set (old @ new) \<Longrightarrow> 0 < mVersion m"
    and "at_version ddl x0 old d" and "migrate ddl True sess locks alone now (old @ new) d = (e, d')"
  shows "(\<exists>ks. at_version ddl x0 (old @ take ks new) d') \<and>
    (sess \<noteq> Some False \<and> (\<forall>v. locks v) \<and> migrated ddl (old @ new) x0 \<noteq> None \<longrightarrow> e = None) \<and>
    (e = None \<longrightarrow> at_version ddl x0 (old @ new) d' \<and>
       migrate ddl True sess' locks' alone now' (old @ new) d' = (None, d'))"
proof -
  from migrate_prefix [OF assms] obtain ks where ks: "at_version ddl x0 (old @ take ks new) d'" "e = None \<longrightarrow> take ks new = new"
    "sess \<noteq> Some False \<and> (\<forall>v. locks v) \<and> migrated ddl (old @ new) x0 \<noteq> None \<longrightarrow> e = None" by blast
  have "at_version ddl x0 (old @ new) d'" if "e = None" using ks(1,2) that by simp
  moreover have "migrate ddl True sess' locks' alone now' (old @ new) d' = (None, d')" if "at_version ddl x0 (old @ new) d'"
    using migrate_newest [OF that assms(1)] assms(2) by blast
  ultimately show ?thesis using ks(1,3) by blast
qed

definition twoVersions :: "migration list" where
  "twoVersions = [\<lparr>mVersion = 1, mSQL = ''a; b''\<rparr>, \<lparr>mVersion = 2, mSQL = ''c''\<rparr>]"

lemma migrate_whole_versions_witness:
  "migrate addColumns True None (\<lambda>_. True) alone 7 twoVersions
     (snd (migrate addColumns True None (\<lambda>_. True) alone 5 twoVersions \<lparr>mdSchema = [], mdApplied = []\<rparr>)) =
   (None, \<lparr>mdSchema = [''a'', ''b'', ''c''], mdApplied = [(1, 5), (2, 5)]\<rparr>)"
proof -
  let ?d = "\<lparr>mdSchema = [''a'', ''b'', ''c''], mdApplied = [(1, 5), (2, 5)]\<rparr> :: string list migDB"
  have valid: "ValidateMigrations ([] @ twoVersions) = None" by code_simp
  have pos: "\<And>m. m \<in> set ([] @ twoVersions) \<Longrightarrow> 0 < mVersion m" by (auto simp: twoVersions_def)
  have empty: "at_version addColumns [] [] \<lparr>mdSchema = [], mdApplied = []\<rparr>" by (simp add: at_version_def)
  have run: "migrate addColumns True None (\<lambda>_. True) alone 5 ([] @ twoVersions) \<lparr>mdSchema = [], mdApplied = []\<rparr> = (None, ?d)"
    by code_simp
  from migrate_whole_versions [OF valid pos empty run, of None "\<lambda>_. True" 7] run show ?thesis by simp
qed

section \<open>Rows\<close>






section \<open>The single writer\<close>

text \<open>C15: a File-mode database has one writer. In every state that processes reach by acquiring, releasing
  and dying, in any interleaving, two holders of locks on the same sidecar file are one: the same
  process, path and open file. What is relied on is that the system grants no lock on a file that
  another open file holds, or, where it only keeps processes apart (\<open>fcntl\<close>), that every path has its
  own file.\<close>

theorem single_writer:
  assumes "lock_reachable plat sidecar grants w" and "plat \<noteq> NoLocks" and "excludes plat grants sidecar"
    and "holds w p key f" and "holds w q key' g" and "sidecar key = sidecar key'"
  shows "p = q \<and> key = key' \<and> f = g"
  using lock_inv_reachable [OF assms(1-3)] assms(4-6) by (rule lock_invD(3))

lemma single_writer_witness:
  "\<exists>w. holds w 1 ''a'' 5 \<and> \<not> holds w 2 ''b'' 6"
proof -
  define w1 where "w1 = setEntry 1 ''a'' (Some None) freshWorld"
  define w2 where "w2 = snd (finishLock Flock (\<lambda>_. 0) None None None 1 ''a'' 5 w1)"
  note defs = reserveLock_def setEntry_def freshWorld_def finishLock_def openLockFile_def lockPlatformFile_def per_file_def
  have "lock_step Flock (\<lambda>_. 0) per_file freshWorld w1"
    by (rule lock_step.reserve [of 1 "''a''"]) (simp add: w1_def defs)
  moreover have "lock_step Flock (\<lambda>_. 0) per_file w1 w2"
    unfolding w2_def by (rule lock_step.finish) (simp_all add: w1_def defs)
  ultimately have r: "lock_reachable Flock (\<lambda>_. 0) per_file w2"
    using lock_reachable.step [OF lock_reachable.step [OF lock_reachable.fresh]] by blast
  have h: "holds w2 1 ''a'' 5" by (simp add: holds_def w2_def w1_def defs)
  have "\<not> holds w2 2 ''b'' 6"
  proof
    assume g: "holds w2 2 ''b'' 6"
    have "Flock \<noteq> NoLocks" and "excludes Flock per_file (\<lambda>_ :: string. 0 :: nat)" by (simp_all add: excludes_def)
    from single_writer [OF r this h g] show False by simp
  qed
  with h show ?thesis by blast
qed

section \<open>Placeholders\<close>

text \<open>C28: every dialect gets the parameters of a statement where they belong. PostgreSQL's rewriting
  replaces exactly the question marks outside of literals, quoted identifiers and comments, by their
  number from 1 on, and keeps every other character; the other dialects get the statement as it is.\<close>

theorem placeholders_rebound:
  assumes "length q < 10 ^ 8"
  shows "Rebind Postgres q = Some (bindMarks Plain 0 q) \<and> Rebind SQLite q = Some q \<and> Rebind MySQL q = Some q"
  using rebind_correct [OF assms] by (simp add: Rebind_def)

lemma placeholders_rebound_witness:
  "Rebind Postgres (''a=? AND b='' @ [CHR 0x27] @ ''?'' @ [CHR 0x27] @ '' AND c=? --?'') =
     Some (''a=$1 AND b='' @ [CHR 0x27] @ ''?'' @ [CHR 0x27] @ '' AND c=$2 --?'')"
proof -
  let ?q = "''a=? AND b='' @ [CHR 0x27] @ ''?'' @ [CHR 0x27] @ '' AND c=? --?''"
  have "bindMarks Plain 0 ?q = ''a=$1 AND b='' @ [CHR 0x27] @ ''?'' @ [CHR 0x27] @ '' AND c=$2 --?''" by code_simp
  with placeholders_rebound [of ?q] show ?thesis by simp
qed

section \<open>Subscriptions\<close>






end
