(* ===== verification/Spec2Isabelle.thy ===== *)
theory Spec2Isabelle
  imports Capacity Claim_Laws Sample Engine_Theorems Deviations Api_Theorems Storage_Theorems
begin

text \<open>Quacker is a durable job queue for Go: task runs and workflow runs (directed acyclic graphs of
  steps) are rows of an SQL database, engines claim due steps, execute them and record the
  outcome. The store (\<open>src/internal/store\<close>) owns every state change; a driver
  (\<open>src/driver\<close>, \<open>src/postgres\<close>, \<open>src/mysql\<close>, \<open>src/internal/store/sqlite.go\<close>) supplies the dialect of
  its SQL. The engine (\<open>src/internal/engine\<close>) keeps queues, registered tasks, triggers and waiters in
  memory and drives the store. This development models both and proves what makes them correct.

  Reading guide.

  \<^item> Prelude: the rows of a table are a list; \<open>UPDATE .. WHERE\<close>, \<open>DELETE .. WHERE\<close> and
    \<open>SELECT COUNT(*) .. WHERE\<close> are \<open>update_where\<close>, \<open>delete_where\<close>, \<open>count_where\<close>; \<open>foldE\<close> is a loop
    that stops at the first error. Times are unix nanoseconds as unbounded integers.
  \<^item> Schema: the row records of \<open>rows.go\<close> and \<open>journal.go\<close>, the statuses of \<open>schema.go\<close>, the
    database as one record of tables (\<open>db\<close>), and the errors a store operation can return. NULL
    unique keys are the empty string, which no run can use as a key.
  \<^item> Integrity: the invariant of the database. It states the primary keys, the foreign keys and
    the unique index of the schema, and what the operations add to them: only a live run holds a
    unique key, a step is never PAUSED, and a step that is QUEUED, RUNNING, SUSPENDED or
    INTERRUPTED has all of its dependencies SUCCEEDED.
  \<^item> Driver: the predicates the three dialects contribute (key, extra-key, sequence and label
    gates, the blocked-dependents query), the locale of what the store relies on, and its
    interpretation on the three drivers (\<open>backendOf\<close>); migration lists.
  \<^item> Claim, Claim_Laws: \<open>ClaimDueMulti\<close> and its parts, queue pauses, \<open>NextDue\<close>.
  \<^item> Complete, Complete_Laws: \<open>CompleteStep(s)\<close>, \<open>unblockReadyTx\<close>, retries, parking,
    \<open>FinalFailStep\<close>.
  \<^item> Control, Control_Laws: cancel, snooze, pause, resume, the dead letter queue.
  \<^item> Enqueue, Enqueue_Laws: the chunked multi-row inserts with their parameter budget, sequence
    numbers, unique keys and concurrency strategies of \<open>createRunsUniqueTx\<close>.
  \<^item> Journal: the durable step journal and \<open>DeliverEvent\<close>.
  \<^item> Recovery: the shutdown sweep, worker leases, boot recovery.
  \<^item> Purge: retention, as loops over batches that provably end.
  \<^item> Query: the introspection reads, crons, logs and event bindings.
  \<^item> Store_Machine: a step relation with one rule per store operation, reachability from the
    empty database, and the invariant by rule induction. What a program promises of the rows it
    submits and the completions it reports is the parameter \<open>promise\<close> of the relation.
  \<^item> Quiet, Capacity, Progress: all but a few operations only delete and move rows (\<open>quiet\<close>).
    Capacity bounds the RUNNING steps of a concurrency key, Progress shows that a BLOCKED step
    always waits for something, each from the few operations that are not quiet.
  \<^item> Work: completions use up the unfinished steps.
  \<^item> Dag, Dag_Laws: task definitions and enqueue requests (\<open>engine.go\<close>), \<open>validateDAG\<close> (\<open>dag.go\<close>)
    and its correctness against acyclicity.
  \<^item> Engine: the state of an engine (\<open>engine.go\<close>): queues, tasks, triggers, waiters, the marks by
    which goroutines hand each other decisions, the published transitions.
  \<^item> Build, Build_Laws, Engine_Enqueue, Enqueue_Failure: \<open>RegisterTask\<close>, \<open>buildRun\<close>, the enqueue
    calls with their hooks and retries, and what a failed one leaves behind.
  \<^item> Scheduler, Scheduler_Laws: \<open>tick\<close>, \<open>idleWait\<close>, the wake discipline.
  \<^item> Durable: \<open>SleepDurable\<close>, \<open>RunOnce\<close> and \<open>WaitFor\<close> over the journal (\<open>durable.go\<close>).
  \<^item> Execute, Execute_Laws: both halves of \<open>execute\<close> around the task's own code, the failure path,
    and the batching completer (\<open>completer.go\<close>).
  \<^item> Engine_Control: cancel, snooze, pause, resume and dead letters at the engine.
  \<^item> Triggers: crons (\<open>cron.go\<close>), events (\<open>events.go\<close>), start and close.
  \<^item> Loops: construction, leases, retention, metrics and the log pipe.
  \<^item> Engine_Effects, Engine_Machine, Engine_Promise: every engine operation is a sequence of store
    operations (\<open>refines\<close>); the engine as a step relation of its own that implements the store's;
    the promises that the engine keeps for every program.
  \<^item> Sample, Engine_Theorems, Deviations: concrete databases and engines for the witnesses, the
    properties of the engine, and where the code departs from its documentation.
  \<^item> Stuck_Cron: an engine whose next time for a cron is ahead of the stored one never fires it again.
  \<^item> Retry, Tasks: the retry delays and the typed API over the engine (\<open>task.go\<close>, \<open>quacker.go\<close>, \<open>handle.go\<close>):
    task options, enqueue calls, results, triggers.
  \<^item> Workflows: steps, groups and their expansion to step dependencies (\<open>workflow.go\<close>), with the proof
    that well-formed groups expand to an acyclic graph.
  \<^item> Views, View_Laws: executions, summaries, the DAG of a run and the tree of a run with its child runs
    (\<open>execution.go\<close>, \<open>dag.go\<close>, \<open>runtree.go\<close>).
  \<^item> Route, Route_Laws: the edge router of the SVG picture (\<open>dag_route.go\<close>): Dijkstra's algorithm on the
    grid of the obstacles, its termination, least cost and completeness in a locale that the grid
    interprets, and the simplified waypoints.
  \<^item> Layout, Layout_Laws: the layout of the picture (\<open>dag_svg.go\<close>): the tree of clusters, longest-path
    levels, columns and stacks; every node is placed, rectangles do not overlap, and a cluster encloses
    exactly what belongs to it.
  \<^item> Picture, Picture_Laws: the SVG document as the list of the shapes that the code prints, labels and
    their escaping, paths with rounded corners (\<open>dag_svg.go\<close>, \<open>dag_route.go\<close>).
  \<^item> Api_Theorems: the properties of the API.
  \<^item> Sql, Sql_Laws: the SQL text that drivers build: upserts and placeholder lists (\<open>driver.go\<close>), the
    split of migration scripts (\<open>schema.go\<close>) and PostgreSQL's rewriting of placeholders
    (\<open>postgres.go\<close>), proved equal to a one-pass reference that tracks literals and comments.
  \<^item> Migrate: the migration loop of \<open>schema.go\<close> over any list of migrations and any meaning of their
    statements (\<open>ddl\<close>), what a failure leaves, and what other nodes can do in between.
  \<^item> Dialects, Dialects_Laws: the migrations of the three drivers as lists of statements on tables, and
    that the schemas they build agree and fit the statements of the query layer.
  \<^item> Rows, Rows_Laws: the positional INSERT arguments, value tuples, SELECT columns and scans of
    \<open>queries.go\<close>, \<open>rows.go\<close> and \<open>journal.go\<close> against the tables that the migrations of each driver
    make: what is written is read back.
  \<^item> Lock: the single-writer guard of a File-mode database (\<open>lock.go\<close> and its platform files) as a step
    relation over processes, with mutual exclusion by rule induction.
  \<^item> Storage: data source names, pools and every failure path of opening and closing a store
    (\<open>sqlite.go\<close>, \<open>postgres.go\<close>, \<open>mysql.go\<close>, \<open>store.go\<close>) as sets of resources; nothing is leaked.
  \<^item> Envelope: the encrypted payload codec (\<open>codec.go\<close>).
  \<^item> Bus: the transition bus (\<open>bus.go\<close>) and the relay of \<open>Subscribe\<close> (\<open>execution.go\<close>).
  \<^item> Hooks: the plugin hooks and their chains (\<open>hooks.go\<close>), the task body between them.
  \<^item> Steplog: what a task sees of its step, task logs and the debug stream (\<open>stepctx.go\<close>, \<open>debug.go\<close>).
  \<^item> Open, Api: options, \<open>Open\<close> and \<open>Close\<close> (\<open>options.go\<close>, \<open>quacker.go\<close>); the remaining API calls.
  \<^item> Storage_Theorems: the properties of these parts.

  Transactions. A store operation is one transaction, modelled as one function from database to
  database; the writer connection of SQLite and the claim and run locks of the other two drivers
  serialize them, so an execution of a cluster is a sequence of operations. An operation that
  returns an error rolls back: its result carries no database. Errors of the connection itself
  (a lost server, a cancelled context) are outside the model.

  Concurrency. The engine guards its memory with one mutex; an engine operation is one critical
  section or a fixed sequence of them with one store transaction in between. What other engines
  commit between two transactions is a step of its own (\<open>peer\<close> in Engine_Machine) or an argument
  (\<open>others\<close> in \<open>createRuns\<close>). The two halves of an execution are separate steps, so anything may
  happen while a task runs.

  Loops. The purge loops are total functions, by the number of rows left; Kahn's loop by the
  in-degrees and the queue. The router's search takes four rounds of fuel for every state of its grid
  and two more; \<open>routeSearch_outcome\<close> proves that this is enough, and likewise \<open>traceBack_walk\<close> for
  reading the path off the predecessors. The tree of clusters is built for one level more than there
  are groups, which suffices when no group contains itself (\<open>clusterTree_total\<close>; otherwise the code
  recurses forever and the model gives None), and the level loop runs at most once per unit. The unbounded loops of the engine are modelled by one
  pass each.

  Parameters. The codec, the cron parser, the schedules, task code and hooks are arguments: what
  a task or hook did is described by its result. Random ids are arguments of eight hex digits. The
  cipher and the JSON encoding, the answers of the operating system and of \<open>database/sql\<close>, the file
  that a lock path names (\<open>sidecar\<close>) and the locks that the system grants (\<open>grants\<close>), the effect of a
  DDL statement (\<open>ddl\<close>), and the text of times and floats in log lines are parameters too.

  Arithmetic. Retry delays and coordinates are rationals where the code uses float64, so rounding and
  the overflow of a delay before it is capped are outside the model.

  Not modelled: tracing (calls of a third-party library), the loop of write-ahead-log checkpoints (it
  only runs a pragma), the options that only hand over a logger, a tracer, a log sink or a metrics
  callback, the engine's own diagnostic log lines, the decimal formatting of coordinates in the SVG
  text, and the website and the examples, which are programs over the public API.\<close>

section \<open>Store: invariants and concurrency\<close>



text \<open>C2: if every submitted step with the concurrency key \<open>k\<close> has a limit between 1 and
  \<open>L\<close>, then on each driver no reachable database has more than \<open>L\<close> RUNNING steps of \<open>k\<close>,
  whatever the interleaving of claims, retries, cancellations and recoveries.\<close>

theorem key_cap:
  assumes "reachable drv (key_limit k L) d" and "k \<noteq> ''''"
  shows "running_key d k \<le> L"
  using key_capped_reachable [OF assms] by (simp add: key_capped_def)

lemma key_cap_witness: "running_key (HeartbeatWorker ''w'' 9 emptyDB) ''k'' \<le> 1"
  by (rule key_cap [of MySQL]) (auto intro: reach_step reach_init heartbeat)

text \<open>C3: a queue's claims come out in claim order (priority descending, then run_at, then
  ord), without repetition, at most as many as the queue's limit and rate budget allow, and
  each was due, in the queue, with its queue and run not paused, its labels offered by the
  worker and no unfinished predecessor in its sequence.\<close>

theorem claims_in_order:
  assumes "integrity d" and "claimQueueTx (backendOf drv) q now worker w lease d = (d', cs)"
  shows "sorted (map (\<lambda>c. claimKey (clStep c)) cs) \<and> distinct (map (sID \<circ> clStep) cs) \<and>
    int (length cs) \<le> max 0 (min (qcLimit q) (rateBudget d q now)) \<and>
    (\<forall>c \<in> set cs. \<exists>s \<in> set (steps d). sID s = sID (clStep c) \<and> sQueue s = qcName q \<and> due now s \<and>
      queuePausedGate d s \<and> runNotPausedGate d s \<and> set (sLabels s) \<subseteq> set worker \<and>
      (\<forall>t \<in> set (steps d). sSequenceKey s \<noteq> '''' \<and> sSequenceKey t = sSequenceKey s \<and> sSeq t < sSeq s \<longrightarrow>
        \<not> unfinished (sStatus t)))"
proof (intro conjI ballI)
  let ?C = "claimCandidates (backendOf drv) d (qcName q) now worker (nat (rateBudget d q now))"
  have sub: "subseq (map (\<lambda>c. (sID (clStep c), claimKey (clStep c))) cs) (map (\<lambda>s. (sID s, claimKey s)) ?C)"
    by (rule claimQueueTx_subseq [OF assms(2)])
  show "sorted (map (\<lambda>c. claimKey (clStep c)) cs)"
    using sorted_subseq [OF subseq_map [OF sub, of snd]] claimCandidates_sorted by (simp add: comp_def)
  show "distinct (map (sID \<circ> clStep) cs)"
    using distinct_subseq [OF subseq_map [OF sub, of fst]]
      claimCandidates_distinct [OF integrityD(2) [OF assms(1)]] by (simp add: comp_def)
  show "int (length cs) \<le> max 0 (min (qcLimit q) (rateBudget d q now))"
    using length_claimQueueTx [OF assms(2)] rateBudget_le [of d q now] by (cases "cs = []") auto
  show "\<exists>s \<in> set (steps d). sID s = sID (clStep c) \<and> sQueue s = qcName q \<and> due now s \<and>
      queuePausedGate d s \<and> runNotPausedGate d s \<and> set (sLabels s) \<subseteq> set worker \<and>
      (\<forall>t \<in> set (steps d). sSequenceKey s \<noteq> '''' \<and> sSequenceKey t = sSequenceKey s \<and> sSeq t < sSeq s \<longrightarrow>
        \<not> unfinished (sStatus t))" if "c \<in> set cs" for c
    by (rule shipped.claim_admitted [OF assms(2) that]) blast
qed

lemma claims_in_order_witness:
  "distinct (map (sID \<circ> clStep) (snd (claimQueueTx (backendOf Postgres) sampleQueue 7 [] ''w'' 9 scheduled))) \<and>
   length (snd (claimQueueTx (backendOf Postgres) sampleQueue 7 [] ''w'' 9 scheduled)) = 1"
proof
  show "distinct (map (sID \<circ> clStep) (snd (claimQueueTx (backendOf Postgres) sampleQueue 7 [] ''w'' 9 scheduled)))"
    using claims_in_order [OF integrity_scheduled prod.collapse [symmetric]] by blast
  show "length (snd (claimQueueTx (backendOf Postgres) sampleQueue 7 [] ''w'' 9 scheduled)) = 1"
    by code_simp
qed

text \<open>A queue with budget and a due candidate makes progress: its first candidate is
  claimed.\<close>

theorem claim_progress:
  assumes "integrity d" and "0 < qcLimit q" and "0 < rateBudget d q now"
    and "claimCandidates (backendOf drv) d (qcName q) now worker (nat (rateBudget d q now)) = st # rest"
  shows "\<exists>c cs. snd (claimQueueTx (backendOf drv) q now worker w lease d) = c # cs \<and> sID (clStep c) = sID st"
  using claimQueueTx_progress [OF assms] by blast

lemma claim_progress_witness:
  "snd (claimQueueTx (backendOf MySQL) sampleQueue 7 [] ''w'' 9 scheduled) \<noteq> []"
proof -
  have "claimCandidates (backendOf MySQL) scheduled (qcName sampleQueue) 7 []
      (nat (rateBudget scheduled sampleQueue 7)) = [sampleStep ''1'' ''a'' Queued []]"
    by code_simp
  from claim_progress [OF integrity_scheduled _ _ this, of "''w''" 9] show ?thesis
    by (auto simp: sampleQueue_def rateBudget_def scheduled_def sample_defs)
qed




section \<open>Store: completing and failing steps\<close>

text \<open>C7: completing one batch of steps in one transaction gives exactly what completing them
  one at a time, in order, gives, although the batch counts the steps of each run only once.\<close>

theorem batch_is_sequence: "CompleteSteps be comps d = completeSeq be comps d"
  by (rule CompleteSteps_seq)

text \<open>The fast path for one-step runs is the general path: for the only step of a run,
  passing the step count 1 or any other count gives the same database and the same result.\<close>

theorem fast_path_sound:
  assumes "integrity d" and "s \<in> set (steps d)" and "stepCount (sRunID s) d = 1"
    and "sStatus s = Queued \<or> sStatus s = Running"
  shows "completeStepTx (backendOf drv) (sID s) (sRunID s) n 1 output now d =
    completeStepTx (backendOf drv) (sID s) (sRunID s) n cnt output now d"
  by (rule fast_path [OF assms(2) refl refl integrityD(2) [OF assms(1)] assms(3,4)])
    (rule shipped.blocked_dependents)

lemma fast_path_sound_witness:
  "completeStepTx (backendOf SQLite) ''1'' ''r'' ''a'' 1 ''out'' 8 scheduled =
   completeStepTx (backendOf SQLite) ''1'' ''r'' ''a'' 5 ''out'' 8 scheduled"
proof -
  let ?s = "sampleStep ''1'' ''a'' Queued []"
  have s: "?s \<in> set (steps scheduled)" "sID ?s = ''1''" "sRunID ?s = ''r''" "sStatus ?s = Queued"
    by (simp_all add: scheduled_def sample_defs)
  have "stepCount ''r'' scheduled = 1" by code_simp
  with fast_path_sound [OF integrity_scheduled s(1), of SQLite "''a''" "''out''" 8 5] s(2-4) show ?thesis by simp
qed



text \<open>C10: when a step succeeds, the blocked steps of its run that depend on it and whose
  dependencies have now all succeeded become QUEUED and due, every other step is left as it
  was, and the result lists exactly their names.\<close>

theorem unblock_exact:
  assumes "integrity d" and "names_unique d i"
  shows "steps (fst (unblockReadyTx (backendOf drv) i n now res d)) =
      update_where (\<lambda>s. sRunID s = i \<and> sStatus s = Blocked \<and> n \<in> set (sDependsOn s) \<and> dep_ok d s)
        (\<lambda>s. s\<lparr>sStatus := Queued, sRunAt := now\<rparr>) (steps d) \<and>
    crReadySteps (snd (unblockReadyTx (backendOf drv) i n now res d)) = crReadySteps res @
      map sName (filter (\<lambda>s. sRunID s = i \<and> sStatus s = Blocked \<and> n \<in> set (sDependsOn s) \<and> dep_ok d s)
        (steps d))"
  using unblock_rows [OF integrityD(2) [OF assms(1)] assms(2) shipped.blocked_dependents] by blast

lemma unblock_exact_witness:
  "crReadySteps (snd (unblockReadyTx (backendOf Postgres) ''r'' ''a'' 8 zeroResult inFlight)) = []"
proof -
  have "names_unique inFlight ''r''" by code_simp
  from unblock_exact [OF integrity_inFlight this, of Postgres "''a''" 8 zeroResult] show ?thesis
    by (simp add: zeroResult_def inFlight_def sample_defs dep_ok_def)
qed

text \<open>C11: failing a step for good closes its run: no step of it stays unfinished, the run row
  is FAILED with the error, holds no unique key and is a dead letter exactly when asked, and
  no step of another run changes.\<close>

theorem final_fail_closes_run:
  assumes "integrity d" and "find_run i d = Some r" and "\<not> rEphemeral r" and "\<not> IsTerminal (rStatus r)"
    and "FinalFailStep j i e dl now d = Inr (d', res)"
    and "\<forall>s \<in> set (steps d). sID s = j \<longrightarrow> sStatus s \<noteq> Succeeded"
  shows "run_closed i d' \<and>
    (\<exists>r' \<in> set (runs d'). rID r' = i \<and> rStatus r' = Failed \<and> rError r' = e \<and> rCompletedAt r' = now \<and>
      rUniqueKey r' = '''' \<and> rDeadLetteredAt r' = (if dl then now else rDeadLetteredAt r)) \<and>
    (\<forall>s \<in> set (steps d). sRunID s \<noteq> i \<and> sID s \<noteq> j \<longrightarrow> s \<in> set (steps d'))"
  using FinalFailStep_closed [OF assms(1-3,5)] assms(4,6) by blast

lemma final_fail_closes_run_witness:
  "\<exists>d' res. FinalFailStep ''1'' ''r'' ''boom'' True 8 inFlight = Inr (d', res) \<and> run_closed ''r'' d'"
proof -
  have "find_run ''r'' inFlight = Some (sampleRun ''r'' Running)" "\<not> rEphemeral (sampleRun ''r'' Running)"
    "\<not> IsTerminal (rStatus (sampleRun ''r'' Running))"
    "\<forall>s \<in> set (steps inFlight). sID s = ''1'' \<longrightarrow> sStatus s \<noteq> Succeeded"
    by code_simp+
  moreover from this(1) obtain d' res where "FinalFailStep ''1'' ''r'' ''boom'' True 8 inFlight = Inr (d', res)"
    by (auto simp: FinalFailStep_def Let_def)
  ultimately show ?thesis using final_fail_closes_run [OF integrity_inFlight] by blast
qed

text \<open>An ephemeral run leaves nothing: when a completion ends it, no run, step or log row
  of it remains.\<close>

theorem ephemeral_leaves_nothing:
  assumes "find_run i d = Some r" and "rEphemeral r"
    and "CompleteStep be j i n output now d = Inr (d', res)" and "crRunTerminal res"
  shows "no_trace i d'"
proof -
  have z: "\<not> crRunTerminal zeroResult" by (simp add: zeroResult_def)
  obtain d2 r2 where u: "unblockReadyTx be i n now (zeroResult\<lparr>crStepDone := True, crRunStatus := Some Running\<rparr>)
      (upd_steps (liveStep j) (succeedRow output now) d) = (d2, r2)" by fastforce
  have "\<not> crRunTerminal r2" using unblockReadyTx_steps(2) [OF u] by (simp add: zeroResult_def)
  with assms u z show ?thesis
    by (auto simp: CompleteStep_def completeStepTx_def Let_def endRun_ephemeral split: if_splits)
qed

lemma ephemeral_leaves_nothing_witness:
  "\<exists>d' res. CompleteStep (backendOf SQLite) ''1'' ''r'' ''a'' ''out'' 8
      (scheduled\<lparr>runs := [(sampleRun ''r'' Running)\<lparr>rEphemeral := True\<rparr>]\<rparr>) = Inr (d', res) \<and> no_trace ''r'' d'"
proof -
  let ?r = "(sampleRun ''r'' Running)\<lparr>rEphemeral := True\<rparr>"
  let ?d = "scheduled\<lparr>runs := [?r]\<rparr>"
  have ok: "map_sum (\<lambda>_. ()) (\<lambda>(d', res). crRunTerminal res)
      (CompleteStep (backendOf SQLite) ''1'' ''r'' ''a'' ''out'' 8 ?d) = Inr True"
    by code_simp
  then obtain d' res where c: "CompleteStep (backendOf SQLite) ''1'' ''r'' ''a'' ''out'' 8 ?d = Inr (d', res)"
    and t: "crRunTerminal res"
    by (cases "CompleteStep (backendOf SQLite) ''1'' ''r'' ''a'' ''out'' 8 ?d") auto
  have "find_run ''r'' ?d = Some ?r" by code_simp
  then have "no_trace ''r'' d'" by (rule ephemeral_leaves_nothing [OF _ _ c t]) simp
  with c show ?thesis by blast
qed

section \<open>Store: control of runs\<close>

text \<open>C13: cancelling a live run reports its previous status and exactly its RUNNING steps; a
  run with history becomes CANCELLED with its key freed and no step of it can be claimed again
  (each is terminal, or RUNNING until its context is interrupted); an ephemeral run is gone.\<close>

theorem cancel_run:
  assumes "integrity d" and "find_run i d = Some r" and "\<not> IsTerminal (rStatus r)"
    and "CancelRun i now d = Inr (d', ids, st, ok)"
  shows "ok \<and> st = rStatus r \<and>
    set ids = {sID s |s. s \<in> set (steps d) \<and> sRunID s = i \<and> sStatus s = Running} \<and>
    (if rEphemeral r then no_trace i d'
     else cancelRunRow now r \<in> set (runs d') \<and>
       (\<forall>s \<in> set (steps d'). sRunID s = i \<longrightarrow> IsTerminal (sStatus s) \<or> sStatus s = Running))"
  using CancelRun_effect [OF assms] by auto

lemma cancel_run_witness:
  "\<exists>d' ids st. CancelRun ''r'' 8 inFlight = Inr (d', ids, st, True) \<and> set ids = {''1''}"
proof -
  have r: "find_run ''r'' inFlight = Some (sampleRun ''r'' Running)"
    "\<not> IsTerminal (rStatus (sampleRun ''r'' Running))" by code_simp+
  then obtain d' ids st where c: "CancelRun ''r'' 8 inFlight = Inr (d', ids, st, True)"
    by (auto simp: CancelRun_def)
  with cancel_run [OF integrity_inFlight r c]
  have "set ids = {sID s |s. s \<in> set (steps inFlight) \<and> sRunID s = ''r'' \<and> sStatus s = Running}" by blast
  also have "\<dots> = set (runningStepIDs ''r'' inFlight)" by (simp only: set_runningStepIDs)
  also have "runningStepIDs ''r'' inFlight = [''1'']" by code_simp
  finally show ?thesis using c by auto
qed

text \<open>C14: after \<open>PauseRun\<close> succeeds on a run, no claim of any queue returns a step of that
  run.\<close>

theorem paused_not_claimed:
  assumes "integrity d" and "PauseRun i now d = Inr (d', ids, st, changed)"
    and "claimQueueTx be q t worker w lease d' = (d'', cs)" and "c \<in> set cs"
  shows "\<forall>s \<in> set (steps d'). sID s = sID (clStep c) \<longrightarrow> sRunID s \<noteq> i"
proof (intro ballI impI notI)
  fix s assume s: "s \<in> set (steps d')" "sID s = sID (clStep c)" "sRunID s = i"
  have i: "integrity d'" by (rule integrity_PauseRun [OF assms(1,2)])
  let ?C = "claimCandidates be d' (qcName q) t worker (nat (rateBudget d' q t))"
  have "(sID (clStep c), claimKey (clStep c)) \<in> set (map (\<lambda>s. (sID s, claimKey s)) ?C)"
    by (rule subseq_memberD [OF claimQueueTx_subseq [OF assms(3)]]) (use assms(4) in auto)
  then obtain x where x: "x \<in> set ?C" "sID x = sID (clStep c)" by auto
  note cx = claimCandidates_subset [OF x(1)]
  have "x = s" using distinct_key_eq [OF integrityD(2) [OF i], of x s] cx s(1,2) x(2) by simp
  moreover obtain r where "r \<in> set (runs d')" "rID r = i" "rStatus r = Paused"
    using PauseRun_row [OF assms(1,2)] by blast
  ultimately show False using paused_run_gate [of r d' s be] cx s(3) by simp
qed

lemma paused_not_claimed_witness:
  "\<exists>d' x. PauseRun ''r'' 6 scheduled = Inr (d', x) \<and>
     snd (claimQueueTx (backendOf SQLite) sampleQueue 7 [] ''w'' 9 d') = []"
proof -
  have ok: "map_sum (\<lambda>_. ()) (\<lambda>(d', x). map sRunID (steps d')) (PauseRun ''r'' 6 scheduled) = Inr [''r'']"
    by code_simp
  then obtain d' ids st ch where p: "PauseRun ''r'' 6 scheduled = Inr (d', ids, st, ch)"
    and run: "\<forall>s \<in> set (steps d'). sRunID s = ''r''"
    by (cases "PauseRun ''r'' 6 scheduled") (auto simp: map_eq_Cons_conv)
  let ?q = "claimQueueTx (backendOf SQLite) sampleQueue 7 [] ''w'' 9 d'"
  have "c \<notin> set (snd ?q)" for c
  proof
    assume c: "c \<in> set (snd ?q)"
    have "\<forall>s \<in> set (steps d'). sID s = sID (clStep c) \<longrightarrow> sRunID s \<noteq> ''r''"
      by (rule paused_not_claimed [OF integrity_scheduled p prod.collapse [symmetric] c])
    moreover obtain s where "s \<in> set (steps d')" "sID s = sID (clStep c)"
      by (rule shipped.claim_admitted [OF prod.collapse [symmetric] c])
    ultimately show False using run by blast
  qed
  then have "snd ?q = []" by (cases "snd ?q") auto
  with p show ?thesis by blast
qed

text \<open>Retrying a dead letter reopens the whole run in place: the run is QUEUED and no
  longer a dead letter, each of its steps is back to QUEUED (BLOCKED if it has dependencies)
  with no attempts and due now, and the other steps are untouched.\<close>

theorem retry_dead_letter:
  assumes "integrity d" and "RetryDeadLetter i now d = Inr d'"
  shows "runs d' = update_where (\<lambda>r. rID r = i) (resetRunRow now) (runs d) \<and>
    steps d' = update_where (\<lambda>s. sRunID s = i) (\<lambda>s. resetStepRow (reopenStatus s) now s) (steps d)"
  using RetryDeadLetter_eq [OF assms] by simp

lemma retry_dead_letter_witness:
  "\<exists>d'. RetryDeadLetter ''r'' 9 (inFlight\<lparr>runs := [(sampleRun ''r'' Failed)\<lparr>rDeadLetteredAt := 4\<rparr>]\<rparr>) = Inr d' \<and>
     map sStatus (steps d') = [Queued, Blocked]"
proof -
  let ?d = "inFlight\<lparr>runs := [(sampleRun ''r'' Failed)\<lparr>rDeadLetteredAt := 4\<rparr>]\<rparr>"
  have i: "integrity ?d" by (simp add: inFlight_def sample_defs integrity_defs dep_ok_def keyed_runs_def)
  have "map_sum (\<lambda>_. ()) (\<lambda>_. ()) (RetryDeadLetter ''r'' 9 ?d) = Inr ()" by code_simp
  then obtain d' where d': "RetryDeadLetter ''r'' 9 ?d = Inr d'" by (cases "RetryDeadLetter ''r'' 9 ?d") auto
  have "map sStatus (steps d') = [Queued, Blocked]"
    using retry_dead_letter [OF i d'] by (simp add: inFlight_def sample_defs reopenStatus_def)
  with d' show ?thesis by (intro exI conjI)
qed

text \<open>Snoozing refuses an unknown run, a terminal run and a run with a RUNNING step with
  distinct errors, and otherwise moves exactly the run and its QUEUED steps; a suspended step
  keeps its wake time.\<close>

theorem snooze_cases:
  "Snooze i until d =
    (case find_run i d of None \<Rightarrow> Inl ErrNotFound
     | Some r \<Rightarrow>
        if IsTerminal (rStatus r) then Inl ErrRunTerminal
        else if \<exists>s \<in> set (steps d). sRunID s = i \<and> sStatus s = Running then Inl ErrRunRunning
        else Inr (d\<lparr>runs := update_where (\<lambda>r. rID r = i) (\<lambda>r. r\<lparr>rRunAt := until\<rparr>) (runs d),
               steps := update_where (\<lambda>s. sRunID s = i \<and> sStatus s = Queued) (\<lambda>s. s\<lparr>sRunAt := until\<rparr>) (steps d)\<rparr>))"
proof -
  have "count_where (\<lambda>s. sRunID s = i \<and> sStatus s = Running) (steps d) > 0 \<longleftrightarrow>
      (\<exists>s \<in> set (steps d). sRunID s = i \<and> sStatus s = Running)"
    using count_where_eq_0 [of "\<lambda>s. sRunID s = i \<and> sStatus s = Running" "steps d"] by auto
  then show ?thesis
    by (simp add: Snooze_def upd_runs_def upd_steps_def split: option.split)
qed

section \<open>Store: enqueueing\<close>

text \<open>C17: however large a batch is, no INSERT statement it needs binds more than 30,000
  parameters, under every driver's placeholder limit.\<close>

theorem insert_parameter_budget:
  "\<forall>st \<in> set (insertStmts be rs). length (stmtArgs st) \<le> 30000"
  using insertStmts_args by (simp add: insertMaxParams_def)

lemma insert_parameter_budget_witness:
  "length (stmtArgs (InsertRuns [sampleRun ''r'' Queued])) \<le> 30000"
proof -
  have "InsertRuns [sampleRun ''r'' Queued] \<in> set (insertStmts (backendOf SQLite) [(sampleRun ''r'' Queued, [])])"
    by (simp add: insertStmts_def chunks.simps insertBatch_def insertRunsChunk_def sqliteBackend_def
      insertMaxParams_def runInsertArgc_def Let_def)
  with insert_parameter_budget show ?thesis by blast
qed

text \<open>A successful insert writes exactly the runs, the steps and the extra keys of the
  batch, in order, whatever the driver's batch size.\<close>

theorem insert_writes_batch:
  assumes "insertRunsTx be rs d = Inr d'"
  shows "runs d' = runs d @ map runRow (map fst rs) \<and>
    steps d' = steps d @ map stepRow (concat (map snd rs)) \<and>
    stepKeys d' = stepKeys d @ concat (map stepKeyRows (concat (map snd rs)))"
  using insertRunsTx_written [OF assms] by (simp add: written_def)

lemma insert_writes_batch_witness:
  "\<exists>d'. insertRunsTx (backendOf MySQL) [(sampleRun ''r'' Queued, [sampleStep ''1'' ''a'' Queued []])] emptyDB = Inr d' \<and>
     length (steps d') = 1"
proof -
  let ?i = "insertRunsTx (backendOf MySQL) [(sampleRun ''r'' Queued, [sampleStep ''1'' ''a'' Queued []])] emptyDB"
  have "map_sum (\<lambda>_. ()) (\<lambda>_. ()) ?i = Inr ()" unfolding insertRunsTx_single by code_simp
  then obtain d' where d': "?i = Inr d'" by (cases ?i) auto
  with insert_writes_batch [OF d'] show ?thesis by (auto simp: emptyDB_def)
qed

text \<open>A batch of plain runs (no unique key, no cancel strategy) is one insert of its rows,
  in which the sequenced runs carry consecutive sequence values after the counter; the ids
  returned are the runs' own.\<close>

theorem plain_batch:
  assumes "length rs = length stss" and "\<forall>r \<in> set rs. rUniqueKey r = ''''"
  shows "CreateRunsUnique be now rs stss (replicate (length rs) UniqueReuse) [] d =
    (let items = plainItems rs stss; n = int (count_where sequenced items) in
     map_sum insertErr (\<lambda>d'. (d', map rID rs, []))
       (insertRunsTx be (stampAll (if n = 0 then 0 else counter d) items) (d\<lparr>counter := counter d + n\<rparr>)))"
  using assms by (rule CreateRunsUnique_plain)

lemma plain_batch_witness:
  "\<exists>d'. CreateRunsUnique (backendOf SQLite) 1 [(sampleRun ''r'' Queued)\<lparr>rSequenceKey := ''s''\<rparr>] [[]] [UniqueReuse] []
      emptyDB = Inr (d', [''r''], []) \<and> map rSeq (runs d') = [1]"
proof -
  let ?r = "(sampleRun ''r'' Queued)\<lparr>rSequenceKey := ''s''\<rparr>"
  let ?i = "insertRunsTx (backendOf SQLite) [(?r\<lparr>rSeq := 1\<rparr>, [])] (emptyDB\<lparr>counter := 1\<rparr>)"
  have "map_sum (\<lambda>_. ()) (\<lambda>_. ()) ?i = Inr ()" unfolding insertRunsTx_single by code_simp
  then obtain d' where d': "?i = Inr d'" by (cases ?i) auto
  have "sequenced \<lparr>eiRun = ?r, eiSteps = [], eiConflict = UniqueReuse, eiPolicy = noPolicy\<rparr>"
    by (simp add: sequenced_def)
  then have "CreateRunsUnique (backendOf SQLite) 1 [?r] [[]] (replicate (length [?r]) UniqueReuse) [] emptyDB =
      Inr (d', [rID ?r], [])"
    by (subst plain_batch)
      (use d' in \<open>simp_all add: plainItems_def stampSeq_def Let_def emptyDB_def sampleRun_def\<close>)
  with insertRunsTx_written [OF d'] show ?thesis by (simp add: written_def emptyDB_def sampleRun_def)
qed

text \<open>C20: unique keys: enqueueing a run whose key is held by a live run \<open>h\<close> inserts nothing
  and returns \<open>h\<close>'s id under \<open>UniqueReuse\<close>, fails under \<open>UniqueError\<close>, and under
  \<open>UniqueReplace\<close> cancels \<open>h\<close>, frees its key and inserts the new run.\<close>

theorem unique_key_resolution:
  assumes "integrity d" and "rUniqueKey r \<noteq> ''''" and "h \<in> set (runs d)"
    and "rWorkflow h = rWorkflow r" and "rUniqueKey h = rUniqueKey r" and "rID h \<noteq> ''''"
  shows "CreateRunsUnique be now [r] [sts] [c] [] d =
    (case c of
       UniqueReuse \<Rightarrow> Inr (reserveSeq r d, [rID h], [])
     | UniqueError \<Rightarrow> Inl ErrDuplicateJob
     | UniqueReplace \<Rightarrow> map_sum insertErr
         (\<lambda>d'. (d', [rID r], [\<lparr>rrRunID = rID h, rrRunningSteps = runningStepIDs (rID h) d\<rparr>]))
         (insertRunsTx be
           [stampSeq (counter d + 1) \<lparr>eiRun = r, eiSteps = sts, eiConflict = c, eiPolicy = noPolicy\<rparr>]
           (fst (replaceRunTx (rID h) now (reserveSeq r d)))))"
  using createRunsUniqueTx_one [OF assms(2), of be now sts c d]
    liveRunByUnique_holder [OF assms(1,2,3,4,5)] assms(6)
  by (cases c) (simp_all add: CreateRunsUnique_def)

lemma unique_key_resolution_witness:
  "CreateRunsUnique (backendOf SQLite) 1 [(sampleRun ''new'' Queued)\<lparr>rUniqueKey := ''u''\<rparr>] [[]] [UniqueError] []
     (sampleDB ((sampleRun ''r'' Running)\<lparr>rUniqueKey := ''u''\<rparr>) []) = Inl ErrDuplicateJob"
proof -
  let ?h = "(sampleRun ''r'' Running)\<lparr>rUniqueKey := ''u''\<rparr>"
  have "integrity (sampleDB ?h [])"
    by (simp add: sample_defs integrity_defs dep_ok_def keyed_runs_def)
  then show ?thesis
    by (subst unique_key_resolution [where h = ?h]) (simp_all add: sample_defs)
qed


definition twoKeyed :: db where
  "twoKeyed = emptyDB\<lparr>runs := [(sampleRun ''r1'' Running)\<lparr>rConcurrencyKey := ''k'', rSeq := 1\<rparr>,
     (sampleRun ''r2'' Queued)\<lparr>rConcurrencyKey := ''k'', rSeq := 2\<rparr>]\<rparr>"


text \<open>Cancel-in-progress never cancels the incoming run: a QUEUED run that comes after
  every other run of the key in insertion order is not among the victims.\<close>

theorem incoming_run_survives:
  assumes "integrity d" and "r \<in> set (runs d)" and "rStatus r = Queued" and "0 < limit"
    and "\<forall>x \<in> set (runs d). rConcurrencyKey x = rConcurrencyKey r \<and> x \<noteq> r \<longrightarrow> rSeq x < rSeq r"
  shows "rID r \<notin> set (strategyVictims ConcurrencyCancelInProgress limit
    (keyCandidates (rConcurrencyKey r) d))"
  by (rule incoming_survives [OF assms(1-4)]) (use assms(5) in \<open>auto simp: set_keyCandidates\<close>)

lemma incoming_run_survives_witness:
  "''r2'' \<notin> set (strategyVictims ConcurrencyCancelInProgress 1 (keyCandidates ''k'' twoKeyed))"
proof -
  let ?r = "(sampleRun ''r2'' Queued)\<lparr>rConcurrencyKey := ''k'', rSeq := 2\<rparr>"
  have i: "integrity twoKeyed" by (simp add: twoKeyed_def sample_defs integrity_defs keyed_runs_def)
  have "rID ?r \<notin> set (strategyVictims ConcurrencyCancelInProgress 1 (keyCandidates (rConcurrencyKey ?r) twoKeyed))"
    by (rule incoming_run_survives [OF i]) (auto simp: twoKeyed_def sample_defs)
  then show ?thesis by (simp add: sampleRun_def)
qed

section \<open>Store: events, crons, retention, recovery\<close>

text \<open>C23: delivering an event consumes exactly the undone waits on it whose runs are live,
  gives each the payload, wakes exactly their suspended steps, reports how many waits it
  consumed, and a second delivery finds none of them.\<close>

theorem deliver_event:
  fixes name :: string and payload :: bytes and now :: time
  assumes "integrity d"
  defines "d' \<equiv> fst (DeliverEvent name payload now d)"
  shows "journal d' = update_where (waitsFor name d) (\<lambda>j. j\<lparr>jPayload := payload, jDone := True\<rparr>) (journal d) \<and>
    steps d' = update_where
      (\<lambda>s. (\<exists>j \<in> set (journal d). waitsFor name d j \<and> jStepID j = sID s) \<and> sStatus s = Suspended)
      (\<lambda>s. s\<lparr>sStatus := Queued, sResumeAt := 0, sWaitKind := '''', sWaitEvent := ''''\<rparr>) (steps d) \<and>
    snd (DeliverEvent name payload now d) = count_where (waitsFor name d) (journal d) \<and>
    count_where (waitsFor name d) (journal d') = 0"
proof -
  have j: "journal d' = update_where (waitsFor name d) (\<lambda>j. j\<lparr>jPayload := payload, jDone := True\<rparr>) (journal d)"
    and s: "steps d' = update_where
      (\<lambda>s. (\<exists>j \<in> set (journal d). waitsFor name d j \<and> jStepID j = sID s) \<and> sStatus s = Suspended)
      (\<lambda>s. s\<lparr>sStatus := Queued, sResumeAt := 0, sWaitKind := '''', sWaitEvent := ''''\<rparr>) (steps d)"
    unfolding d'_def DeliverEvent_eq(1) [OF assms(1)] by (simp_all add: insertEvent_def upd_steps_def upd_journal_def)
  moreover have "count_where (waitsFor name d) (journal d') = 0"
    unfolding j count_where_eq_0 ball_update_where by (simp add: waitsFor_def)
  ultimately show ?thesis using DeliverEvent_eq(2) [OF assms(1)] by blast
qed

definition waiting :: db where
  "waiting = (sampleDB (sampleRun ''r'' Running) [(sampleStep ''1'' ''a'' Suspended [])\<lparr>sWaitKind := ''wait''\<rparr>])
     \<lparr>journal := [\<lparr>jStepID = ''1'', jIdx = 0, jKind = JournalWait, jKey = '''', jEvent = ''go'', jWakeAt = 0,
        jDeadline = 0, jPayload = [], jResult = [], jErr = '''', jDone = False, jTimedOut = False\<rparr>]\<rparr>"

lemma deliver_event_witness:
  "snd (DeliverEvent ''go'' ''p'' 9 waiting) = 1"
proof -
  have i: "integrity waiting"
    by (simp add: waiting_def sample_defs integrity_defs dep_ok_def keyed_runs_def)
  have "count_where (waitsFor ''go'' waiting) (journal waiting) = 1" by code_simp
  with deliver_event [OF i, of "''go''" "''p''" 9] show ?thesis by simp
qed

text \<open>C24: a cron occurrence fires at most once across the cluster: after one node's
  \<open>FireCron\<close> has won, every other node that expects the same occurrence gets false and
  changes nothing.\<close>

theorem cron_fires_once:
  assumes "FireCron be name t u r sts d = Inr (d', True)" and "t \<noteq> u" and "distinct (map cName (crons d))"
  shows "FireCron be2 name t u2 r2 sts2 d' = Inr (d', False)"
proof -
  have "FireCron be name t u2 r2 sts2 d' = Inr (d', False)" by (rule FireCron_once [OF assms])
  then show ?thesis by (auto simp: FireCron_def Let_def split: if_splits sum.splits)
qed

definition oneCron :: db where
  "oneCron = emptyDB\<lparr>crons := [\<lparr>cName = ''c'', cSpec = ''@hourly'', cTask = ''t'', cInput = [], cNextAt = 5,
     cCreatedAt = 1\<rparr>]\<rparr>"

lemma cron_fires_once_witness:
  "\<exists>d'. FireCron (backendOf Postgres) ''c'' 5 9 (sampleRun ''r'' Queued) [] oneCron = Inr (d', True) \<and>
     FireCron (backendOf MySQL) ''c'' 5 9 (sampleRun ''s'' Queued) [] d' = Inr (d', False)"
proof -
  let ?f = "FireCron (backendOf Postgres) ''c'' 5 9 (sampleRun ''r'' Queued) [] oneCron"
  have "map_sum (\<lambda>_. ()) snd ?f = Inr True" unfolding FireCron_def insertRunsTx_single by code_simp
  then obtain d' where f: "?f = Inr (d', True)" by (cases ?f) auto
  have "distinct (map cName (crons oneCron))" by code_simp
  with cron_fires_once [OF f] f show ?thesis by auto
qed

text \<open>C25: a purge deletes exactly the eligible runs (terminal, in the requested statuses and
  queue, completed before the cutoff, with no RUNNING step) and their steps, however the rows
  fall into batches; unless logs are kept, exactly the logs of runs that still exist remain;
  and exactly the old events go.\<close>

theorem purge_exact:
  assumes "PurgeRuns opts d = Inr (d', res)" and "integrity d"
    and "distinct (map fst (logs d))" and "distinct (map eSeq (events d))"
  shows "runs d' = delete_where (\<lambda>r. purged (purgeStatuses opts) d (rID r)) (runs d) \<and>
    steps d' = delete_where (\<lambda>s. purged (purgeStatuses opts) d (sRunID s)) (steps d) \<and>
    events d' = delete_where (oldEvent (poBefore opts)) (events d) \<and>
    logs d' = (if poKeepLogs opts then logs d else delete_where (orphan d') (logs d)) \<and>
    (\<forall>r \<in> set (runs d). purged (purgeStatuses opts) d (rID r) \<longrightarrow>
      IsTerminal (rStatus r) \<and> 0 < rCompletedAt r \<and> rCompletedAt r < poBefore opts)"
proof -
  note p = PurgeRuns_eq [OF assms]
  have "IsTerminal (rStatus r) \<and> 0 < rCompletedAt r \<and> rCompletedAt r < poBefore opts"
    if "r \<in> set (runs d)" "purged (purgeStatuses opts) d (rID r)" for r
  proof -
    from that(2) obtain x where x: "x \<in> set (runs d)" "rID x = rID r" "eligible (purgeStatuses opts) d x"
      by (auto simp: purged_def)
    have "x = r" by (rule distinct_key_eq [OF integrityD(1) [OF assms(2)] x(1) that(1) x(2)])
    with x(3) p(2) show ?thesis by (auto simp: eligible_def purgeStatuses_def)
  qed
  with p(4-7) show ?thesis by blast
qed

lemma purge_exact_witness:
  "\<exists>d' res. PurgeRuns \<lparr>poBefore = 10, poStatuses = [], poQueue = '''', poExcludeDeadLettered = False,
       poKeepLogs = False, poBatchSize = 1\<rparr>
     (emptyDB\<lparr>runs := [(sampleRun ''r'' Succeeded)\<lparr>rCompletedAt := 4\<rparr>]\<rparr>) = Inr (d', res) \<and> runs d' = []"
proof -
  let ?o = "\<lparr>poBefore = 10, poStatuses = [], poQueue = '''', poExcludeDeadLettered = False,
       poKeepLogs = False, poBatchSize = 1\<rparr>"
  let ?d = "emptyDB\<lparr>runs := [(sampleRun ''r'' Succeeded)\<lparr>rCompletedAt := 4\<rparr>]\<rparr>"
  obtain d' res where p: "PurgeRuns ?o ?d = Inr (d', res)"
    by (cases "PurgeRuns ?o ?d") (auto simp: PurgeRuns_def Let_def terminalStatuses_def split_beta)
  have i: "integrity ?d" by (simp add: sample_defs integrity_defs dep_ok_def keyed_runs_def)
  have "purged (purgeStatuses ?o) ?d ''r''"
    by (simp add: purged_def eligible_def purgeStatuses_def terminalStatuses_def sample_defs)
  with purge_exact [OF p i] have "runs d' = []" by (simp add: sample_defs)
  with p show ?thesis by blast
qed

text \<open>C26: boot recovery leaves no run or step RUNNING or INTERRUPTED and no ephemeral run,
  and touches no step that finished before the crash.\<close>

theorem boot_recovery:
  fixes keep :: bool and now :: time
  assumes "integrity d"
  defines "d' \<equiv> recoverInterrupted keep now d"
  shows "(\<forall>r \<in> set (runs d'). rStatus r \<noteq> Running \<and> rStatus r \<noteq> Interrupted \<and> \<not> rEphemeral r) \<and>
    (\<forall>s \<in> set (steps d'). sStatus s \<noteq> Running \<and> sStatus s \<noteq> Interrupted) \<and>
    (\<forall>s \<in> set (steps d). (sStatus s = Succeeded \<or> sStatus s = Failed \<or> sStatus s = Cancelled) \<and>
      (\<forall>r \<in> set (runs d). rID r = sRunID s \<longrightarrow> \<not> rEphemeral r) \<longrightarrow> s \<in> set (steps d'))"
proof (intro conjI ballI impI)
  show "rStatus r \<noteq> Running" "rStatus r \<noteq> Interrupted" "\<not> rEphemeral r" if "r \<in> set (runs d')" for r
    using recover_runs [OF assms(1) that [unfolded d'_def]] by blast+
  show "sStatus s \<noteq> Running" "sStatus s \<noteq> Interrupted" if "s \<in> set (steps d')" for s
    using recover_steps [OF that [unfolded d'_def]] by blast+
  show "s \<in> set (steps d')" if "s \<in> set (steps d)"
    "(sStatus s = Succeeded \<or> sStatus s = Failed \<or> sStatus s = Cancelled) \<and>
      (\<forall>r \<in> set (runs d). rID r = sRunID s \<longrightarrow> \<not> rEphemeral r)" for s
    unfolding d'_def
    by (rule recover_keeps_finished [OF assms(1) that(1)]) (use that(2) in \<open>auto simp: orphaned_def\<close>)
qed

lemma boot_recovery_witness:
  "count_where (\<lambda>s. sStatus s = Running) (steps (recoverInterrupted True 9 inFlight)) = 0"
  unfolding count_where_eq_0 using boot_recovery [OF integrity_inFlight, of True 9] by blast

text \<open>A live worker's steps are safe from the reaper: after a heartbeat that extends the
  lease to \<open>lease\<close>, a reap at any time up to \<open>lease\<close> leaves its RUNNING steps as they are.\<close>

theorem heartbeat_protects_steps:
  assumes "integrity d" and "s \<in> set (steps (HeartbeatWorker w lease d))"
    and "sWorkerID s = w" and "sStatus s = Running" and "now \<le> lease"
  shows "s \<in> set (steps (fst (ReapExpired now limit (HeartbeatWorker w lease d))))"
  using assms by (rule heartbeat_protects)

lemma heartbeat_protects_steps_witness:
  "(sampleStep ''1'' ''a'' Running [])\<lparr>sLeaseExpiresAt := 20\<rparr> \<in>
     set (steps (fst (ReapExpired 15 0 (HeartbeatWorker '''' 20 inFlight))))"
  by (rule heartbeat_protects_steps [OF integrity_inFlight])
    (simp_all add: HeartbeatWorker_def inFlight_def sample_defs)

text \<open>Pagination: reading the run list page by page, every page of the same size, yields
  exactly the newest-first list, no run twice and none skipped.\<close>

theorem pages_cover_runs:
  assumes "0 < fLimit f" and "fLimit f \<le> 1000"
  shows "concat (map (\<lambda>k. ListRuns (f\<lparr>fOffset := int (k * nat (fLimit f))\<rparr>) d) [0..<n]) =
    take (n * nat (fLimit f)) (newestFirst (filter (matches f) (runs d)))"
proof -
  have "matches (f\<lparr>fOffset := x\<rparr>) = matches f" for x by (rule ext) (simp add: matches_def)
  then have "ListRuns (f\<lparr>fOffset := int (k * nat (fLimit f))\<rparr>) d =
      take (nat (fLimit f)) (drop (k * nat (fLimit f)) (newestFirst (filter (matches f) (runs d))))" for k
    using assms by (simp add: ListRuns_def listLimit_def Let_def nat_int del: of_nat_mult)
  then show ?thesis using pages_concat [of "nat (fLimit f)"] assms(1) by simp
qed

lemma pages_cover_runs_witness:
  "length (concat (map (\<lambda>k. ListRuns \<lparr>fStatus = None, fQueue = '''', fWorkflow = '''', fParentID = '''', fLimit = 1,
     fOffset = int (k * 1)\<rparr> twoKeyed) [0..<3])) = 2"
proof -
  let ?f = "\<lparr>fStatus = None, fQueue = '''', fWorkflow = '''', fParentID = '''', fLimit = 1, fOffset = 0\<rparr>"
  have "concat (map (\<lambda>k. ListRuns (?f\<lparr>fOffset := int (k * nat (fLimit ?f))\<rparr>) twoKeyed) [0..<3]) =
      take (3 * nat (fLimit ?f)) (newestFirst (filter (matches ?f) (runs twoKeyed)))"
    by (rule pages_cover_runs) simp_all
  moreover have "length (newestFirst (filter (matches ?f) (runs twoKeyed))) = 2"
    by (simp add: newestFirst_def matches_def twoKeyed_def sample_defs)
  ultimately show ?thesis by simp
qed

text \<open>The metrics are the table's counts: the number of runs in each status, and per queue
  the number of QUEUED, RUNNING, BLOCKED and SUSPENDED steps.\<close>

theorem metrics_count:
  "fst (Metrics d) st = (if st \<in> rStatus ` set (runs d)
      then Some (count_where (\<lambda>r. rStatus r = st) (runs d)) else None) \<and>
   qsQueued (statsAt (snd (Metrics d)) q) = count_where (\<lambda>s. sQueue s = q \<and> sStatus s = Queued) (steps d) \<and>
   qsRunning (statsAt (snd (Metrics d)) q) = count_where (\<lambda>s. sQueue s = q \<and> sStatus s = Running) (steps d) \<and>
   qsBlocked (statsAt (snd (Metrics d)) q) = count_where (\<lambda>s. sQueue s = q \<and> sStatus s = Blocked) (steps d) \<and>
   qsSuspended (statsAt (snd (Metrics d)) q) = count_where (\<lambda>s. sQueue s = q \<and> sStatus s = Suspended) (steps d)"
proof -
  have z: "qsQueued (statsAt Map.empty q) = 0" "qsRunning (statsAt Map.empty q) = 0"
    "qsBlocked (statsAt Map.empty q) = 0" "qsSuspended (statsAt Map.empty q) = 0"
    by (simp_all add: statsAt_def zeroStats_def)
  have c: "count_where (\<lambda>s. (sQueue s, sStatus s) = (q, st)) (filter (\<lambda>s. unfinished (sStatus s)) (steps d)) =
      count_where (\<lambda>s. sQueue s = q \<and> sStatus s = st) (steps d)" if "unfinished st" for st
    unfolding count_where_filter by (rule count_where_cong) (use that in auto)
  show ?thesis
    by (simp add: Metrics_def queueStatsOf_def map_of_groupCount statsAt_fold total_groupCount z c
        del: Pair_inject prod.inject)
qed

end
